(* ===== verification/Goms_Prelude.thy ===== *)
theory Goms_Prelude
  imports Main "HOL-Library.Word" "HOL-Library.Multiset" "HOL-Library.AList" "HOL-Library.Sublist"
begin

text \<open>
  The shared layer of the development: the integer types of the Go sources, the error values
  and panics of Go, the fragments of Go's standard library that the sources call
  (\<^verbatim>\<open>encoding/binary\<close>, \<^verbatim>\<open>strconv\<close>, \<^verbatim>\<open>strings\<close>,
  \<^verbatim>\<open>io.ReadFull\<close>, \<^verbatim>\<open>bufio.Reader.ReadString\<close>), Go maps as association
  lists with an explicit iteration order, and the collections of lemmas the components use.

  A Go string is a byte string, so it is modelled by HOL's type of strings (a \<open>char\<close> is one
  byte); a \<^verbatim>\<open>[]byte\<close> is a list of \<open>8 word\<close>.
\<close>

unbundle bit_operations_syntax

named_theorems go_map_simps \<open>lookups after updates, deletions and iteration of a Go map\<close>
named_theorems go_wire_simps \<open>reading back what was written to a byte stream\<close>

type_synonym u8 = "8 word"
type_synonym u16 = "16 word"
type_synonym u32 = "32 word"
type_synonym u64 = "64 word"
type_synonym bytes = "8 word list"


section \<open>Errors and panics\<close>

text \<open>
  The sentinel errors \<^verbatim>\<open>io.EOF\<close> and \<^verbatim>\<open>io.ErrUnexpectedEOF\<close> are compared
  by identity in the sources; every other error is only shown by its text.
\<close>

datatype go_error = EOF | ErrUnexpectedEOF | ErrShutdown | GoErr string

fun err_msg :: "go_error \<Rightarrow> string" where
  "err_msg EOF = ''EOF''"
| "err_msg ErrUnexpectedEOF = ''unexpected EOF''"
| "err_msg ErrShutdown = ''connection is shut down''"
| "err_msg (GoErr s) = s"

text \<open>A call either returns a value or panics with a message.\<close>

datatype 'a outcome = Ret (ret_val: 'a) | Panic string

fun out_bind :: "'a outcome \<Rightarrow> ('a \<Rightarrow> 'b outcome) \<Rightarrow> 'b outcome" where
  "out_bind (Ret x) f = f x"
| "out_bind (Panic s) f = Panic s"

text \<open>Indexing a slice panics out of range.\<close>

definition index_at :: "'a list \<Rightarrow> nat \<Rightarrow> 'a outcome" where
  "index_at xs i = (if i < length xs then Ret (xs ! i) else Panic ''index out of range'')"


section \<open>Byte order\<close>

definition be16 :: "u16 \<Rightarrow> bytes" where
  "be16 w = [ucast (drop_bit 8 w), ucast w]"

definition be32 :: "u32 \<Rightarrow> bytes" where
  "be32 w = [ucast (drop_bit 24 w), ucast (drop_bit 16 w), ucast (drop_bit 8 w), ucast w]"

fun Uint16 :: "bytes \<Rightarrow> u16" where
  "Uint16 (a # b # _) = push_bit 8 (ucast a) OR ucast b"
| "Uint16 _ = 0"

fun Uint32 :: "bytes \<Rightarrow> u32" where
  "Uint32 (a # b # c # d # _) =
     push_bit 24 (ucast a) OR push_bit 16 (ucast b) OR push_bit 8 (ucast c) OR ucast d"
| "Uint32 _ = 0"

lemma length_be16 [simp]: "length (be16 w) = 2"
  by (simp add: be16_def)

lemma length_be32 [simp]: "length (be32 w) = 4"
  by (simp add: be32_def)

lemma Uint16_be16 [simp, go_wire_simps]: "Uint16 (be16 w @ r) = w"
  by (rule bit_word_eqI) (auto simp: be16_def bit_simps)

lemma Uint32_be32 [simp, go_wire_simps]: "Uint32 (be32 w @ r) = w"
proof (rule bit_word_eqI)
  fix n :: nat
  assume "n < LENGTH(32)"
  then consider "n < 8" | "8 \<le> n" "n < 16" | "16 \<le> n" "n < 24" | "24 \<le> n" "n < 32"
    by fastforce
  then show "bit (Uint32 (be32 w @ r)) n \<longleftrightarrow> bit w n"
    by cases (auto simp: be32_def bit_simps)
qed

lemma Uint16_be16_Nil [simp, go_wire_simps]: "Uint16 (be16 w) = w"
  using Uint16_be16 [of w "[]"] by simp

lemma Uint32_be32_Nil [simp, go_wire_simps]: "Uint32 (be32 w) = w"
  using Uint32_be32 [of w "[]"] by simp


section \<open>Readers\<close>

text \<open>
  A buffered reader is the list of bytes it will still deliver before end of file.
  \<^verbatim>\<open>io.ReadFull\<close> reports \<^verbatim>\<open>EOF\<close> when nothing could be read and
  \<^verbatim>\<open>ErrUnexpectedEOF\<close> when the stream ends inside the buffer; in both cases what was
  there is consumed.
\<close>

type_synonym ('s, 'a) reader = "'s list \<Rightarrow> (go_error + 'a) \<times> 's list"

definition ReadFull :: "nat \<Rightarrow> ('s, 's list) reader" where
  "ReadFull n r =
     (if n \<le> length r then (Inr (take n r), drop n r)
      else if r = [] then (Inl EOF, [])
      else (Inl ErrUnexpectedEOF, []))"

lemma ReadFull_append [simp, go_wire_simps]: "ReadFull (length xs) (xs @ r) = (Inr xs, r)"
  by (simp add: ReadFull_def)

lemma ReadFull_exact [go_wire_simps]: "length xs = n \<Longrightarrow> ReadFull n (xs @ r) = (Inr xs, r)"
  by (auto simp: ReadFull_def)

lemma ReadFull_zero [simp]: "ReadFull 0 r = (Inr [], r)"
  by (simp add: ReadFull_def)

text \<open>Reading a fixed number of messages one after the other.\<close>

fun read_n :: "('s, 'a) reader \<Rightarrow> nat \<Rightarrow> ('s, 'a list) reader" where
  "read_n rd 0 r = (Inr [], r)"
| "read_n rd (Suc n) r =
     (case rd r of
        (Inl e, r') \<Rightarrow> (Inl e, r')
      | (Inr m, r') \<Rightarrow>
          (case read_n rd n r' of
             (Inl e, r'') \<Rightarrow> (Inl e, r'')
           | (Inr ms, r'') \<Rightarrow> (Inr (m # ms), r'')))"

text \<open>
  The contract of a wire format: what is written is read back, whatever follows it in the
  stream. Every message codec of the program is an instance; a connection is a sequence of
  messages, so the two consequences are what the readers of a connection rely on.
\<close>

locale wire_codec =
  fixes wr :: "'m \<Rightarrow> 's list"
    and rd :: "('s, 'm) reader"
    and ok :: "'m \<Rightarrow> bool"
  assumes rd_wr: "ok m \<Longrightarrow> rd (wr m @ r) = (Inr m, r)"
begin

lemma stream_roundtrip:
  "\<forall>m\<in>set ms. ok m \<Longrightarrow> read_n rd (length ms) (concat (map wr ms) @ r) = (Inr ms, r)"
  by (induction ms) (auto simp: rd_wr)

lemma unambiguous:
  assumes "ok a" and "ok b" and "wr a @ r = wr b @ r'"
  shows "a = b \<and> r = r'"
proof -
  have "(Inr a, r) = rd (wr a @ r)" using assms(1) by (simp add: rd_wr)
  also have "\<dots> = rd (wr b @ r')" by (simp only: assms(3))
  also have "\<dots> = (Inr b, r')" using assms(2) by (simp add: rd_wr)
  finally show ?thesis by auto
qed

end


section \<open>Go maps\<close>

text \<open>
  A Go map is an association list with distinct keys. Its iteration order is chosen by the
  runtime: the definitions that range over a map take the order as a function \<open>ord\<close> that
  rearranges the entries, about which only \<open>range_order ord\<close> is ever assumed.
\<close>

type_synonym ('k, 'v) gmap = "('k \<times> 'v) list"
type_synonym ('k, 'v) gorder = "('k \<times> 'v) list \<Rightarrow> ('k \<times> 'v) list"

abbreviation gmap_ok :: "('k, 'v) gmap \<Rightarrow> bool" where
  "gmap_ok m \<equiv> distinct (map fst m)"

abbreviation gmap_set :: "'k \<Rightarrow> 'v \<Rightarrow> ('k, 'v) gmap \<Rightarrow> ('k, 'v) gmap" where
  "gmap_set \<equiv> AList.update"

abbreviation gmap_del :: "'k \<Rightarrow> ('k, 'v) gmap \<Rightarrow> ('k, 'v) gmap" where
  "gmap_del \<equiv> AList.delete"

definition range_order :: "('k, 'v) gorder \<Rightarrow> bool" where
  "range_order ord \<longleftrightarrow> (\<forall>m. mset (ord m) = mset m)"

lemma range_order_mset: "range_order ord \<Longrightarrow> mset (ord m) = mset m"
  by (simp add: range_order_def)

lemma range_order_set [go_map_simps]: "range_order ord \<Longrightarrow> set (ord m) = set m"
  by (metis mset_eq_setD range_order_mset)

lemma range_order_length [go_map_simps]: "range_order ord \<Longrightarrow> length (ord m) = length m"
  by (metis mset_eq_length range_order_mset)

lemma range_order_distinct [go_map_simps]:
  "range_order ord \<Longrightarrow> gmap_ok (ord m) \<longleftrightarrow> gmap_ok m"
  by (metis mset_eq_imp_distinct_iff mset_map range_order_mset)

lemma range_order_id [simp]: "range_order (\<lambda>m. m)"
  by (simp add: range_order_def)

lemma range_order_rev [simp]: "range_order rev"
  by (simp add: range_order_def)

lemma gmap_ok_set [simp]: "gmap_ok m \<Longrightarrow> gmap_ok (gmap_set k v m)"
  by (rule distinct_update)

lemma gmap_ok_del [simp]: "gmap_ok m \<Longrightarrow> gmap_ok (gmap_del k m)"
  by (rule distinct_delete)

lemma map_of_gmap_set [simp, go_map_simps]: "map_of (gmap_set k v m) = (map_of m)(k \<mapsto> v)"
  by (simp add: update_conv')

lemma map_of_gmap_del [simp, go_map_simps]: "map_of (gmap_del k m) = (map_of m)(k := None)"
  by (simp add: delete_conv')

lemma map_of_range [go_map_simps]:
  assumes "range_order ord" and "gmap_ok m"
  shows "map_of (ord m) = map_of m"
  using assms by (simp add: map_of_inject_set range_order_distinct range_order_set)

lemma gmap_set_Nil_iff [simp]: "gmap_set k v m \<noteq> []"
  by (induction m) auto

lemma gmap_set_subset: "set (gmap_set k v m) \<subseteq> insert (k, v) (set m)"
  by (induction m) auto

lemma gmap_del_subset: "set (gmap_del k m) \<subseteq> set m"
  by (auto simp: AList.delete_eq)

lemma gmap_set_ball:
  "\<forall>x\<in>set m. P x \<Longrightarrow> P (k, v) \<Longrightarrow> \<forall>x\<in>set (gmap_set k v m). P x"
  using gmap_set_subset [of k v m] by auto

lemma gmap_del_ball: "\<forall>x\<in>set m. P x \<Longrightarrow> \<forall>x\<in>set (gmap_del k m). P x"
  using gmap_del_subset [of k m] by auto

text \<open>The interface of a key-value container, with the map it stands for as abstraction.\<close>

locale kv_map =
  fixes empty :: 'm
    and lookup :: "'m \<Rightarrow> 'k \<Rightarrow> 'v option"
    and store :: "'k \<Rightarrow> 'v \<Rightarrow> 'm \<Rightarrow> 'm"
    and remove :: "'k \<Rightarrow> 'm \<Rightarrow> 'm"
    and invar :: "'m \<Rightarrow> bool"
  assumes invar_empty: "invar empty"
    and invar_store: "invar m \<Longrightarrow> invar (store k v m)"
    and invar_remove: "invar m \<Longrightarrow> invar (remove k m)"
    and lookup_empty: "lookup empty = Map.empty"
    and lookup_store: "invar m \<Longrightarrow> lookup (store k v m) = (lookup m)(k \<mapsto> v)"
    and lookup_remove: "invar m \<Longrightarrow> lookup (remove k m) = (lookup m)(k := None)"
begin

fun store_all :: "('k \<times> 'v) list \<Rightarrow> 'm \<Rightarrow> 'm" where
  "store_all [] m = m"
| "store_all ((k, v) # kvs) m = store_all kvs (store k v m)"

lemma invar_store_all: "invar m \<Longrightarrow> invar (store_all kvs m)"
  by (induction kvs m rule: store_all.induct) (simp_all add: invar_store)

lemma lookup_store_all:
  "invar m \<Longrightarrow> lookup (store_all kvs m) = lookup m ++ map_of (rev kvs)"
  by (induction kvs m rule: store_all.induct)
     (auto simp: invar_store lookup_store map_add_def fun_eq_iff split: option.splits)

lemma last_write_wins:
  "invar m \<Longrightarrow> lookup (store k v (store k w m)) = lookup (store k v m)"
  by (simp add: invar_store lookup_store)

lemma store_frame: "invar m \<Longrightarrow> k' \<noteq> k \<Longrightarrow> lookup (store k v m) k' = lookup m k'"
  by (simp add: lookup_store)

end

interpretation gmap: kv_map "[]" map_of gmap_set gmap_del gmap_ok
  by unfold_locales auto


section \<open>Invariants of transition systems\<close>

text \<open>
  The interface of a component with steps: an invariant that the start states have and every
  step keeps holds in every state a run reaches.
\<close>

inductive run :: "('e \<Rightarrow> 's \<Rightarrow> 's \<Rightarrow> bool) \<Rightarrow> 's \<Rightarrow> 'e list \<Rightarrow> 's \<Rightarrow> bool" for step where
  run_nil: "run step s [] s"
| run_cons: "step e s t \<Longrightarrow> run step t es u \<Longrightarrow> run step s (e # es) u"

inductive_cases run_NilE: "run step s [] t"
inductive_cases run_ConsE: "run step s (e # es) t"

lemma run_append: "run step s es t \<Longrightarrow> run step t fs u \<Longrightarrow> run step s (es @ fs) u"
  by (induction rule: run.induct) (auto intro: run_cons)

locale step_system =
  fixes init :: "'s \<Rightarrow> bool"
    and step :: "'e \<Rightarrow> 's \<Rightarrow> 's \<Rightarrow> bool"
    and inv :: "'s \<Rightarrow> bool"
  assumes inv_init: "init s \<Longrightarrow> inv s"
    and inv_step: "step e s t \<Longrightarrow> inv s \<Longrightarrow> inv t"
begin

lemma run_inv: "run step s es t \<Longrightarrow> inv s \<Longrightarrow> inv t"
  by (induction rule: run.induct) (auto intro: inv_step)

lemma reachable_inv: "init s \<Longrightarrow> run step s es t \<Longrightarrow> inv t"
  by (blast intro: inv_init run_inv)

end


section \<open>Lists\<close>

lemma mset_partition_append:
  "mset (filter P xs) + mset (filter (\<lambda>x. \<not> P x) xs) = mset xs"
  by (induction xs) auto

lemma nth_append_eq [simp]: "(xs @ y # ys) ! length xs = y"
  by (simp add: nth_append)


section \<open>Powers of two\<close>

lemma and_pred_odd:
  assumes "odd n"
  shows "n AND (n - 1) = n - (1 :: int)"
proof -
  from assms obtain m where m: "n = 2 * m + 1" by (elim oddE)
  show ?thesis unfolding m by (subst and_rec) simp
qed

lemma and_pred_even: "2 * m AND (2 * m - 1) = 2 * (m AND (m - (1 :: int)))"
proof -
  have "(2 * m - 1) div 2 = m - 1" by presburger
  then show ?thesis by (subst and_rec) simp
qed

lemma and_pred_pow2:
  "0 < (n :: int) \<Longrightarrow> n AND (n - 1) = 0 \<Longrightarrow> \<exists>k. n = 2 ^ k"
proof (induction "nat n" arbitrary: n rule: less_induct)
  case less
  show ?case
  proof (cases "odd n")
    case True
    with and_pred_odd [OF True] less.prems(2) have "n = 1" by simp
    then show ?thesis by (intro exI [of _ 0]) simp
  next
    case False
    then obtain m where m: "n = 2 * m" by auto
    with less.prems have "0 < m" "m AND (m - 1) = 0" by (simp_all add: and_pred_even)
    with less.hyps [of m] m obtain k where "m = 2 ^ k" by auto
    with m show ?thesis by (intro exI [of _ "Suc k"]) simp
  qed
qed

lemma and_neg_iff: "n AND - n = n \<longleftrightarrow> n AND (n - 1) = (0 :: int)"
proof -
  have "n AND - n = n \<longleftrightarrow> n AND NOT (n - 1) = n" by (simp add: minus_eq_not_minus_1)
  also have "\<dots> \<longleftrightarrow> n AND (n - 1) = 0" by (auto simp: bit_eq_iff bit_simps)
  finally show ?thesis .
qed

lemma pow2_and_pred: "(2 :: int) ^ k AND (2 ^ k - 1) = 0"
  unfolding mask_eq_exp_minus_1 [symmetric] by (rule bit_eqI) (auto simp: bit_simps)

lemma and_neg_pow2: "0 < n \<Longrightarrow> n AND - n = n \<longleftrightarrow> (\<exists>k. n = (2 :: int) ^ k)"
  using and_pred_pow2 pow2_and_pred by (auto simp: and_neg_iff)

end
