(* ===== verification/Go_Strings.thy ===== *)
theory Go_Strings
  imports Goms_Prelude
begin

text \<open>
  The fragments of Go's \<^verbatim>\<open>strconv\<close>, \<^verbatim>\<open>strings\<close>, \<^verbatim>\<open>fmt\<close> and
  \<^verbatim>\<open>bufio\<close> packages that the sources call: decimal formatting and parsing of integers
  with their range errors, splitting and trimming, the last index of a byte, and
  \<^verbatim>\<open>ReadString\<close>. They are part of the language's standard library, so they are
  written out here and not assumed.
\<close>

section \<open>Decimal numbers\<close>

definition digit_char :: "nat \<Rightarrow> char" where
  "digit_char d = char_of (48 + d)"

definition char_digit :: "char \<Rightarrow> nat option" where
  "char_digit c = (let n = of_char c :: nat in if 48 \<le> n \<and> n \<le> 57 then Some (n - 48) else None)"

lemma digit_char_simps [simp]:
  "digit_char 0 = CHR ''0''" "digit_char 1 = CHR ''1''" "digit_char (Suc 0) = CHR ''1''"
  "digit_char 2 = CHR ''2''" "digit_char 3 = CHR ''3''" "digit_char 4 = CHR ''4''"
  "digit_char 5 = CHR ''5''" "digit_char 6 = CHR ''6''" "digit_char 7 = CHR ''7''"
  "digit_char 8 = CHR ''8''" "digit_char 9 = CHR ''9''"
  by (simp_all add: digit_char_def char_of_def bit_0)

lemma char_digit_digit_char [simp]: "d < 10 \<Longrightarrow> char_digit (digit_char d) = Some d"
  by (simp add: char_digit_def digit_char_def Let_def)

fun FormatUint :: "nat \<Rightarrow> string" where
  "FormatUint n =
     (if n < 10 then [digit_char n] else FormatUint (n div 10) @ [digit_char (n mod 10)])"

declare FormatUint.simps [simp del]

definition Itoa :: "int \<Rightarrow> string" where
  "Itoa i = (if i < 0 then CHR ''-'' # FormatUint (nat (- i)) else FormatUint (nat i))"

datatype num_err = ErrSyntax | ErrRange

text \<open>
  The digit loop of \<^verbatim>\<open>strconv.ParseUint\<close> in base ten: it stops at the first bad byte or
  at the first digit that leaves the range, whichever comes first.
\<close>

fun parse_digits :: "nat \<Rightarrow> nat \<Rightarrow> string \<Rightarrow> num_err + nat" where
  "parse_digits mx n [] = Inr n"
| "parse_digits mx n (c # cs) =
     (case char_digit c of
        None \<Rightarrow> Inl ErrSyntax
      | Some d \<Rightarrow> if 10 * n + d > mx then Inl ErrRange else parse_digits mx (10 * n + d) cs)"

definition max_uint64 :: nat where
  "max_uint64 = 18446744073709551615"

definition min_int64 :: int where
  "min_int64 = - 9223372036854775808"

definition max_int64 :: int where
  "max_int64 = 9223372036854775807"

abbreviation int64_range :: "int \<Rightarrow> bool" where
  "int64_range i \<equiv> min_int64 \<le> i \<and> i \<le> max_int64"

definition ParseUint :: "string \<Rightarrow> nat \<times> num_err option" where
  "ParseUint s =
     (if s = [] then (0, Some ErrSyntax)
      else case parse_digits max_uint64 0 s of
             Inl ErrSyntax \<Rightarrow> (0, Some ErrSyntax)
           | Inl ErrRange \<Rightarrow> (max_uint64, Some ErrRange)
           | Inr n \<Rightarrow> (n, None))"

text \<open>
  \<^verbatim>\<open>strconv.Atoi\<close> is \<^verbatim>\<open>ParseInt(s, 10, 0)\<close> on a platform with 64-bit
  \<^verbatim>\<open>int\<close>. A syntax error gives 0 and a range error the nearest bound; callers that drop
  the error see these values.
\<close>

fun strip_sign :: "string \<Rightarrow> bool \<times> string" where
  "strip_sign (c # cs) = (if c = CHR ''-'' then (True, cs) else if c = CHR ''+'' then (False, cs) else (False, c # cs))"
| "strip_sign [] = (False, [])"

definition Atoi :: "string \<Rightarrow> int \<times> num_err option" where
  "Atoi s =
     (let (neg, ds) = strip_sign s; (un, err) = ParseUint ds
      in if err = Some ErrSyntax then (0, Some ErrSyntax)
         else if \<not> neg \<and> max_int64 < int un then (max_int64, Some ErrRange)
         else if neg \<and> - min_int64 < int un then (min_int64, Some ErrRange)
         else (if neg then - int un else int un, None))"

text \<open>Two's complement wrap-around of a 64-bit \<^verbatim>\<open>int\<close>.\<close>

definition wrap_int64 :: "int \<Rightarrow> int" where
  "wrap_int64 i = (i + 9223372036854775808) mod 18446744073709551616 - 9223372036854775808"

lemma wrap_int64_range: "int64_range (wrap_int64 i)"
  using pos_mod_bound [of 18446744073709551616 "i + 9223372036854775808"]
    pos_mod_sign [of 18446744073709551616 "i + 9223372036854775808"]
  by (auto simp: wrap_int64_def min_int64_def max_int64_def)

lemma wrap_int64_id [simp]: "int64_range i \<Longrightarrow> wrap_int64 i = i"
  by (simp add: wrap_int64_def min_int64_def max_int64_def)

lemma wrap_int64_add: "wrap_int64 (wrap_int64 a + b) = wrap_int64 (a + b)"
  unfolding wrap_int64_def by (simp add: mod_simps algebra_simps)

lemma wrap_int64_add_right: "wrap_int64 (b + wrap_int64 a) = wrap_int64 (b + a)"
  using wrap_int64_add [of a b] by (simp add: add.commute)

lemma FormatUint_Nil [simp]: "FormatUint n \<noteq> []"
  by (subst FormatUint.simps) simp

lemma parse_digits_append:
  "parse_digits mx n (xs @ ys) =
     (case parse_digits mx n xs of Inl e \<Rightarrow> Inl e | Inr m \<Rightarrow> parse_digits mx m ys)"
  by (induction xs arbitrary: n) (auto split: option.splits)

lemma parse_digits_FormatUint: "n \<le> mx \<Longrightarrow> parse_digits mx 0 (FormatUint n) = Inr n"
proof (induction n rule: FormatUint.induct)
  case (1 n)
  show ?case
  proof (cases "n < 10")
    case True
    with 1 show ?thesis by (subst FormatUint.simps) simp
  next
    case False
    with 1 have "parse_digits mx 0 (FormatUint (n div 10)) = Inr (n div 10)" by simp
    with False "1.prems" show ?thesis
      by (subst FormatUint.simps) (simp add: parse_digits_append)
  qed
qed

lemma FormatUint_digits: "c \<in> set (FormatUint n) \<Longrightarrow> \<exists>d < 10. c = digit_char d"
proof (induction n rule: FormatUint.induct)
  case (1 n)
  show ?case
  proof (cases "n < 10")
    case True
    with "1.prems" show ?thesis by (subst (asm) FormatUint.simps) auto
  next
    case False
    with "1.prems" have "c \<in> set (FormatUint (n div 10)) \<or> c = digit_char (n mod 10)"
      by (subst (asm) FormatUint.simps) auto
    moreover have "n mod 10 < 10" by simp
    ultimately show ?thesis using "1.IH" [OF False] by blast
  qed
qed

lemma digit_char_neq:
  assumes "d < 10"
  shows "digit_char d \<noteq> CHR ''-''" "digit_char d \<noteq> CHR ''+''" "digit_char d \<noteq> CHR 0x0A"
  using char_digit_digit_char [OF assms] by (auto simp: char_digit_def)

lemma FormatUint_notin:
  "CHR ''-'' \<notin> set (FormatUint n)" "CHR ''+'' \<notin> set (FormatUint n)" "CHR 0x0A \<notin> set (FormatUint n)"
  using FormatUint_digits digit_char_neq by metis+

lemma strip_sign_FormatUint [simp]: "strip_sign (FormatUint n) = (False, FormatUint n)"
proof -
  obtain c cs where c: "FormatUint n = c # cs"
    using FormatUint_Nil by (meson list.exhaust)
  then have "c \<in> set (FormatUint n)" by simp
  then have "c \<noteq> CHR ''-''" "c \<noteq> CHR ''+''"
    using FormatUint_notin by metis+
  with c show ?thesis by simp
qed

lemma ParseUint_FormatUint [simp]: "n \<le> max_uint64 \<Longrightarrow> ParseUint (FormatUint n) = (n, None)"
  by (simp add: ParseUint_def parse_digits_FormatUint)

lemma Atoi_Itoa [simp]: "int64_range i \<Longrightarrow> Atoi (Itoa i) = (i, None)"
  by (auto simp: Atoi_def Itoa_def min_int64_def max_int64_def max_uint64_def)

lemma Itoa_no_newline: "CHR 0x0A \<notin> set (Itoa i)"
  by (simp add: Itoa_def FormatUint_notin)

lemma Itoa_Nil [simp]: "Itoa i \<noteq> []"
  by (simp add: Itoa_def)

text \<open>A number with leading zeros, \<^verbatim>\<open>%02d\<close> and the like.\<close>

definition pad :: "nat \<Rightarrow> nat \<Rightarrow> string" where
  "pad w n = replicate (w - length (FormatUint n)) CHR ''0'' @ FormatUint n"

lemma length_FormatUint: "n < 10 ^ k \<Longrightarrow> 0 < k \<Longrightarrow> length (FormatUint n) \<le> k"
proof (induction n arbitrary: k rule: FormatUint.induct)
  case (1 n)
  show ?case
  proof (cases "n < 10")
    case True
    with 1 show ?thesis by (subst FormatUint.simps) simp
  next
    case False
    from "1.prems" obtain j where j: "k = Suc j" by (cases k) auto
    with False "1.prems" have "j \<noteq> 0" by (cases j) auto
    with j have k: "k = Suc j" "0 < j" by auto
    with "1.prems" have "n div 10 < 10 ^ j" by (simp add: less_mult_imp_div_less mult.commute)
    with "1.IH" [OF False] k have "length (FormatUint (n div 10)) \<le> j" by simp
    with False k show ?thesis by (subst FormatUint.simps) simp
  qed
qed

lemma length_Itoa_int64:
  assumes "int64_range i"
  shows "length (Itoa i) \<le> 20"
proof -
  have "nat i < 10 ^ 19" "nat (- i) < 10 ^ 19"
    using assms by (auto simp: min_int64_def max_int64_def nat_less_iff)
  from this [THEN length_FormatUint] show ?thesis
    by (simp add: Itoa_def)
qed

lemma Atoi_range: "int64_range (fst (Atoi s))"
  by (auto simp: Atoi_def min_int64_def max_int64_def Let_def split: prod.splits)

lemma Atoi_Nil [simp]: "fst (Atoi []) = 0"
  by (simp add: Atoi_def ParseUint_def)


section \<open>Splitting, trimming, searching\<close>

text \<open>\<^verbatim>\<open>strings.Split(s, sep)\<close> for a separator of one byte.\<close>

fun Split :: "char \<Rightarrow> string \<Rightarrow> string list" where
  "Split c [] = [[]]"
| "Split c (x # xs) =
     (if x = c then [] # Split c xs
      else case Split c xs of [] \<Rightarrow> [[x]] | y # ys \<Rightarrow> (x # y) # ys)"

fun Join :: "string \<Rightarrow> string list \<Rightarrow> string" where
  "Join sep [] = []"
| "Join sep [x] = x"
| "Join sep (x # y # ys) = x @ sep @ Join sep (y # ys)"

lemma Split_Nil [simp]: "Split c s \<noteq> []"
  by (induction s) (auto split: list.splits)

lemma Split_no_sep [simp]: "c \<notin> set s \<Longrightarrow> Split c s = [s]"
  by (induction s) auto

lemma Split_append: "c \<notin> set a \<Longrightarrow> Split c (a @ c # b) = a # Split c b"
  by (induction a) auto

lemma Join_Split: "Join [c] (Split c s) = s"
proof (induction s)
  case (Cons x xs)
  obtain y ys where y: "Split c xs = y # ys" by (meson Split_Nil list.exhaust)
  with Cons show ?case by (cases ys) auto
qed simp

lemma Split_parts: "p \<in> set (Split c s) \<Longrightarrow> c \<notin> set p"
proof (induction s arbitrary: p)
  case (Cons x xs)
  obtain y ys where y: "Split c xs = y # ys" by (meson Split_Nil list.exhaust)
  with Cons show ?case by (auto split: if_splits)
qed simp

text \<open>\<^verbatim>\<open>strings.LastIndex(s, c)\<close>, with \<open>None\<close> for the result \<open>-1\<close>.\<close>

fun LastIndex :: "char \<Rightarrow> string \<Rightarrow> nat option" where
  "LastIndex c [] = None"
| "LastIndex c (x # xs) =
     (case LastIndex c xs of Some i \<Rightarrow> Some (Suc i) | None \<Rightarrow> if x = c then Some 0 else None)"

lemma LastIndex_None [simp]: "LastIndex c s = None \<longleftrightarrow> c \<notin> set s"
  by (induction s) (auto split: option.splits)

lemma LastIndex_append: "c \<notin> set b \<Longrightarrow> LastIndex c (a @ c # b) = Some (length a)"
  by (induction a) (auto split: option.splits)

lemma LastIndex_Some:
  "LastIndex c s = Some i \<Longrightarrow> i < length s \<and> s ! i = c \<and> c \<notin> set (drop (Suc i) s)"
  by (induction s arbitrary: i) (auto split: option.splits if_splits)

text \<open>\<^verbatim>\<open>strings.Trim(s, "\n")\<close>.\<close>

definition newline :: char where
  "newline = CHR 0x0A"

definition TrimNewlines :: "string \<Rightarrow> string" where
  "TrimNewlines s =
     rev (dropWhile (\<lambda>c. c = newline) (rev (dropWhile (\<lambda>c. c = newline) s)))"

text \<open>
  \<^verbatim>\<open>strings.TrimSpace\<close> removes leading and trailing Unicode white space: the ASCII
  blanks and the UTF-8 encodings of U+0085, U+00A0, U+1680, U+2000 to U+200A, U+2028, U+2029,
  U+202F, U+205F and U+3000.
\<close>

definition space_codes :: "string list" where
  "space_codes =
     [[CHR 0x09], [CHR 0x0A], [CHR 0x0B], [CHR 0x0C], [CHR 0x0D], [CHR 0x20],
      [CHR 0xC2, CHR 0x85], [CHR 0xC2, CHR 0xA0], [CHR 0xE1, CHR 0x9A, CHR 0x80]] @
     map (\<lambda>b. [CHR 0xE2, CHR 0x80, b])
       [CHR 0x80, CHR 0x81, CHR 0x82, CHR 0x83, CHR 0x84, CHR 0x85, CHR 0x86, CHR 0x87, CHR 0x88,
        CHR 0x89, CHR 0x8A, CHR 0xA8, CHR 0xA9, CHR 0xAF] @
     [[CHR 0xE2, CHR 0x81, CHR 0x9F], [CHR 0xE3, CHR 0x80, CHR 0x80]]"

fun strip_code :: "string list \<Rightarrow> string \<Rightarrow> string option" where
  "strip_code [] s = None"
| "strip_code (p # ps) s = (if prefix p s then Some (drop (length p) s) else strip_code ps s)"

lemma strip_code_shorter:
  "strip_code ps s = Some t \<Longrightarrow> \<forall>p\<in>set ps. p \<noteq> [] \<Longrightarrow> length t < length s"
proof (induction ps)
  case (Cons p ps)
  then show ?case
    by (cases "prefix p s") (auto simp: prefix_def)
qed simp

function strip_spaces :: "string list \<Rightarrow> string \<Rightarrow> string" where
  "strip_spaces ps s =
     (if (\<forall>p\<in>set ps. p \<noteq> []) then
        (case strip_code ps s of None \<Rightarrow> s | Some t \<Rightarrow> strip_spaces ps t)
      else s)"
  by pat_completeness auto
termination
  by (relation "measure (\<lambda>(ps, s). length s)") (auto dest: strip_code_shorter)

declare strip_spaces.simps [simp del]

definition TrimSpace :: "string \<Rightarrow> string" where
  "TrimSpace s = rev (strip_spaces (map rev space_codes) (rev (strip_spaces space_codes s)))"

text \<open>A word has no white space at either end.\<close>

definition trimmed :: "string \<Rightarrow> bool" where
  "trimmed s \<longleftrightarrow> strip_code space_codes s = None \<and> strip_code (map rev space_codes) (rev s) = None"

lemma strip_spaces_None [simp]: "strip_code ps s = None \<Longrightarrow> strip_spaces ps s = s"
  by (subst strip_spaces.simps) simp

lemma strip_code_None: "strip_code ps s = None \<longleftrightarrow> (\<forall>p\<in>set ps. \<not> prefix p s)"
  by (induction ps) auto

lemma space_codes_nonempty: "\<forall>p\<in>set space_codes. p \<noteq> []" "\<forall>p\<in>set (map rev space_codes). p \<noteq> []"
  by (simp_all add: space_codes_def)

lemma TrimSpace_newline:
  assumes "trimmed s" and "s \<noteq> []"
  shows "TrimSpace (s @ [newline]) = s"
proof -
  have no: "\<not> prefix p (s @ [newline])" if p: "p \<in> set space_codes" for p
  proof
    assume pre: "prefix p (s @ [newline])"
    have "\<not> prefix p s"
      using assms(1) p by (simp add: trimmed_def strip_code_None)
    with pre have eq: "p = s @ [newline]" by (simp add: prefix_snoc)
    have "newline \<notin> set (butlast p)" "last p = newline \<Longrightarrow> length p = 1"
      using p by (auto simp: space_codes_def newline_def)
    with eq have "length p = 1" by simp
    with eq assms(2) show False by simp
  qed
  have l: "strip_spaces space_codes (s @ [newline]) = s @ [newline]"
    using no by (simp add: strip_code_None)
  have "strip_code (map rev space_codes) (rev (s @ [newline])) = Some (rev s)"
    by (simp add: space_codes_def newline_def)
  then have "strip_spaces (map rev space_codes) (rev (s @ [newline])) = strip_spaces (map rev space_codes) (rev s)"
    by (subst strip_spaces.simps) (simp add: space_codes_nonempty)
  also have "\<dots> = rev s"
    using assms(1) by (simp add: trimmed_def)
  finally show ?thesis by (simp add: TrimSpace_def l)
qed

lemma dropWhile_none: "\<forall>x\<in>set xs. \<not> P x \<Longrightarrow> dropWhile P xs = xs"
  by (cases xs) auto

lemma TrimNewlines_newline: "newline \<notin> set s \<Longrightarrow> TrimNewlines (s @ [newline]) = s"
proof (cases s)
  case (Cons c cs)
  assume s: "newline \<notin> set s"
  have "dropWhile (\<lambda>c. c = newline) (s @ [newline]) = s @ [newline]"
    using s Cons by auto
  moreover have "dropWhile (\<lambda>c. c = newline) (rev s) = rev s"
    using s by (intro dropWhile_none) auto
  ultimately show ?thesis by (simp add: TrimNewlines_def)
qed (simp add: TrimNewlines_def)

text \<open>\<^verbatim>\<open>bufio.Reader.ReadString(d)\<close>: up to and including the delimiter.\<close>

definition ReadString :: "char \<Rightarrow> (char, string) reader" where
  "ReadString d r =
     (if d \<in> set r then (Inr (takeWhile (\<lambda>c. c \<noteq> d) r @ [d]), tl (dropWhile (\<lambda>c. c \<noteq> d) r))
      else (Inl EOF, []))"

lemma takeWhile_delim: "d \<notin> set s \<Longrightarrow> takeWhile (\<lambda>c. c \<noteq> d) (s @ d # r) = s"
  and dropWhile_delim: "d \<notin> set s \<Longrightarrow> dropWhile (\<lambda>c. c \<noteq> d) (s @ d # r) = d # r"
  by (induction s) auto

lemma ReadString_line [go_wire_simps]: "d \<notin> set s \<Longrightarrow> ReadString d (s @ d # r) = (Inr (s @ [d]), r)"
  by (simp add: ReadString_def takeWhile_delim dropWhile_delim)

text \<open>Bytes of a string and back.\<close>

definition string_bytes :: "string \<Rightarrow> bytes" where
  "string_bytes s = map (\<lambda>c. word_of_nat (of_char c)) s"

definition bytes_string :: "bytes \<Rightarrow> string" where
  "bytes_string b = map (\<lambda>w. char_of (unat w)) b"

lemma bytes_string_bytes [simp]: "bytes_string (string_bytes s) = s"
  by (simp add: bytes_string_def string_bytes_def unsigned_of_nat char_of_take_bit_eq o_def)

lemma length_string_bytes [simp]: "length (string_bytes s) = length s"
  by (simp add: string_bytes_def)

lemma length_bytes_string [simp]: "length (bytes_string b) = length b"
  by (simp add: bytes_string_def)

lemma string_bytes_bytes [simp]: "string_bytes (bytes_string b) = b"
proof -
  have "word_of_nat (of_char (char_of (unat w) :: char)) = w" for w :: u8
    using unsigned_less [of w, where ?'a = nat] by (simp add: of_char_of)
  then show ?thesis by (simp add: bytes_string_def string_bytes_def o_def)
qed

end
