(* ===== verification/Crypto.thy ===== *)
theory Crypto
  imports Go_Strings
begin

text \<open>
  Symmetric encryption, \<^verbatim>\<open>util/crypto.go\<close>: PKCS5 padding and AES or DES in CBC mode. The mode
  (\<^verbatim>\<open>crypto/cipher\<close>) is spelled out with its panics; the permutation of one block under a
  key is the parameter \<open>block_lib\<close>, of which only invertibility is used. The buffers of
  \<^verbatim>\<open>bytes_cache\<close> that receive the result are overwritten completely; the one that serves as the
  initial vector of DES is not, so its content is an argument.
\<close>

section \<open>Block ciphers and the CBC mode\<close>

record block_lib =
  BlockSize :: nat
  keySizes :: "nat list"
  blockName :: string
  blockEncrypt :: "bytes \<Rightarrow> bytes \<Rightarrow> bytes"
  blockDecrypt :: "bytes \<Rightarrow> bytes \<Rightarrow> bytes"

definition NewCipher :: "block_lib \<Rightarrow> bytes \<Rightarrow> go_error option" where
  "NewCipher B key =
     (if length key \<in> set (keySizes B) then None
      else Some (GoErr (''crypto/'' @ blockName B @ '': invalid key size '' @ FormatUint (length key))))"

definition xor_bytes :: "bytes \<Rightarrow> bytes \<Rightarrow> bytes" where
  "xor_bytes a b = map2 (\<lambda>x y. x XOR y) a b"

function cbc_encrypt :: "(bytes \<Rightarrow> bytes) \<Rightarrow> nat \<Rightarrow> bytes \<Rightarrow> bytes \<Rightarrow> bytes" where
  "cbc_encrypt E n iv src =
     (if n = 0 \<or> src = [] then []
      else let c = E (xor_bytes (take n src) iv) in c @ cbc_encrypt E n c (drop n src))"
  by auto
termination by (relation "measure (\<lambda>(_, _, _, src). length src)") auto

function cbc_decrypt :: "(bytes \<Rightarrow> bytes) \<Rightarrow> nat \<Rightarrow> bytes \<Rightarrow> bytes \<Rightarrow> bytes" where
  "cbc_decrypt D n iv src =
     (if n = 0 \<or> src = [] then []
      else xor_bytes (D (take n src)) iv @ cbc_decrypt D n (take n src) (drop n src))"
  by auto
termination by (relation "measure (\<lambda>(_, _, _, src). length src)") auto

declare cbc_encrypt.simps [simp del] cbc_decrypt.simps [simp del]

text \<open>\<^verbatim>\<open>CryptBlocks\<close> panics unless the input is a number of full blocks.\<close>

definition CryptBlocks :: "(bytes \<Rightarrow> bytes) \<Rightarrow> nat \<Rightarrow> bytes \<Rightarrow> bytes outcome" where
  "CryptBlocks f n src = (if length src mod n = 0 then Ret (f src) else Panic ''crypto/cipher: input not full blocks'')"


section \<open>Padding\<close>

definition pKCS5Padding :: "bytes \<Rightarrow> nat \<Rightarrow> bytes" where
  "pKCS5Padding ciphertext blockSize =
     (let padding = blockSize - length ciphertext mod blockSize
      in ciphertext @ replicate padding (word_of_nat padding))"

definition pKCS5UnPadding :: "bytes \<Rightarrow> bytes outcome" where
  "pKCS5UnPadding origData =
     (if origData = [] then Panic ''index out of range [-1]''
      else let unpadding = unat (last origData) in
           if length origData < unpadding then Panic ''slice bounds out of range''
           else Ret (take (length origData - unpadding) origData))"


section \<open>The four functions\<close>

definition cbc_mode_encrypt :: "block_lib \<Rightarrow> bytes \<Rightarrow> bytes \<Rightarrow> bytes \<Rightarrow> (go_error + bytes) outcome" where
  "cbc_mode_encrypt B iv origData key =
     (case NewCipher B key of
        Some err \<Rightarrow> Ret (Inl err)
      | None \<Rightarrow>
          out_bind (CryptBlocks (cbc_encrypt (blockEncrypt B key) (BlockSize B) iv) (BlockSize B) (pKCS5Padding origData (BlockSize B)))
            (\<lambda>crypted. Ret (Inr crypted)))"

definition cbc_mode_decrypt :: "block_lib \<Rightarrow> bytes \<Rightarrow> bytes \<Rightarrow> bytes \<Rightarrow> (go_error + bytes) outcome" where
  "cbc_mode_decrypt B iv crypted key =
     (case NewCipher B key of
        Some err \<Rightarrow> Ret (Inl err)
      | None \<Rightarrow>
          out_bind (CryptBlocks (cbc_decrypt (blockDecrypt B key) (BlockSize B) iv) (BlockSize B) crypted) (\<lambda>origData.
          out_bind (pKCS5UnPadding origData) (\<lambda>r. Ret (Inr r))))"

definition aes_iv :: bytes where
  "aes_iv = string_bytes ''0000000000000000''"

definition AesEncrypt :: "block_lib \<Rightarrow> bytes \<Rightarrow> bytes \<Rightarrow> (go_error + bytes) outcome" where
  "AesEncrypt aes origData key = cbc_mode_encrypt aes aes_iv origData key"

definition AesDecrypt :: "block_lib \<Rightarrow> bytes \<Rightarrow> bytes \<Rightarrow> (go_error + bytes) outcome" where
  "AesDecrypt aes crypted key = cbc_mode_decrypt aes aes_iv crypted key"

definition DesEncrypt :: "block_lib \<Rightarrow> bytes \<Rightarrow> bytes \<Rightarrow> bytes \<Rightarrow> (go_error + bytes) outcome" where
  "DesEncrypt des iv origData key = cbc_mode_encrypt des iv origData key"

definition DesDecrypt :: "block_lib \<Rightarrow> bytes \<Rightarrow> bytes \<Rightarrow> bytes \<Rightarrow> (go_error + bytes) outcome" where
  "DesDecrypt des iv crypted key = cbc_mode_decrypt des iv crypted key"


section \<open>Round trips\<close>

text \<open>What the ciphers promise: under a key of a legal size a block permutation and its inverse.\<close>

definition block_laws :: "block_lib \<Rightarrow> nat \<Rightarrow> bool" where
  "block_laws B n \<longleftrightarrow> BlockSize B = n \<and>
     (\<forall>key b. length key \<in> set (keySizes B) \<and> length b = n \<longrightarrow>
        length (blockEncrypt B key b) = n \<and> blockDecrypt B key (blockEncrypt B key b) = b)"

lemma xor_bytes_cancel: "length a = length b \<Longrightarrow> xor_bytes (xor_bytes a b) b = a"
  by (induction a b rule: list_induct2) (simp_all add: xor_bytes_def xor.assoc)

lemma length_xor_bytes [simp]: "length (xor_bytes a b) = min (length a) (length b)"
  by (simp add: xor_bytes_def)

text \<open>The loop over the blocks, for any inverse pair on blocks.\<close>

lemma cbc_roundtrip:
  assumes n_pos: "0 < n" and length_E: "\<And>b. length b = n \<Longrightarrow> length (E b) = n" and D_E: "\<And>b. length b = n \<Longrightarrow> D (E b) = b"
    and "length iv = n" and "n dvd length src"
  shows "length (cbc_encrypt E n iv src) = length src \<and> cbc_decrypt D n iv (cbc_encrypt E n iv src) = src"
  using assms(4,5)
proof (induction "length src" arbitrary: iv src rule: less_induct)
  case less
  show ?case
  proof (cases "src = []")
    case False
    let ?c = "E (xor_bytes (take n src) iv)"
    have len: "n \<le> length src" using less.prems(2) False by (simp add: dvd_imp_le)
    have x: "length (xor_bytes (take n src) iv) = n" using len less.prems(1) by simp
    have c: "length ?c = n" "D ?c = xor_bytes (take n src) iv" using length_E [OF x] D_E [OF x] by auto
    have IH: "length (cbc_encrypt E n ?c (drop n src)) = length (drop n src)"
      "cbc_decrypt D n ?c (cbc_encrypt E n ?c (drop n src)) = drop n src"
      using less.hyps [of "drop n src" ?c] c(1) len n_pos less.prems(2) by (simp_all add: dvd_diff_nat)
    have e: "cbc_encrypt E n iv src = ?c @ cbc_encrypt E n ?c (drop n src)"
      using n_pos False by (subst cbc_encrypt.simps) (simp add: Let_def)
    have "cbc_decrypt D n iv (cbc_encrypt E n iv src) = xor_bytes (D ?c) iv @ cbc_decrypt D n ?c (cbc_encrypt E n ?c (drop n src))"
      using n_pos c(1) unfolding e by (subst cbc_decrypt.simps) auto
    also have "\<dots> = src"
      using c(2) IH(2) xor_bytes_cancel [of "take n src" iv] len less.prems(1) by simp
    finally show ?thesis using e IH(1) c(1) len by simp
  qed (simp add: cbc_encrypt.simps cbc_decrypt.simps)
qed

lemma padded_length: "0 < n \<Longrightarrow> n dvd length (pKCS5Padding d n)" "0 < n \<Longrightarrow> length d < length (pKCS5Padding d n)"
proof -
  assume n: "0 < n"
  then have le: "length d mod n < n" by simp
  have "length (pKCS5Padding d n) = (length d div n) * n + n"
    using le div_mult_mod_eq [of "length d" n] unfolding pKCS5Padding_def Let_def length_append length_replicate by linarith
  then show "n dvd length (pKCS5Padding d n)" by simp
  show "length d < length (pKCS5Padding d n)" using le by (simp add: pKCS5Padding_def Let_def)
qed

lemma unpad_pad: "0 < n \<Longrightarrow> n < 256 \<Longrightarrow> pKCS5UnPadding (pKCS5Padding d n) = Ret d"
proof -
  assume n: "0 < n" "n < 256"
  define p where "p = n - length d mod n"
  have p: "0 < p" "p < 256" using n by (simp_all add: p_def)
  then have "unat (word_of_nat p :: u8) = p" by (simp add: unat_of_nat)
  with p show ?thesis
    by (simp add: pKCS5Padding_def pKCS5UnPadding_def Let_def flip: p_def)
qed

lemma cbc_mode_roundtrip:
  assumes "block_laws B n" and "0 < n" "n < 256" and "length key \<in> set (keySizes B)" and "length iv = n"
  shows "\<exists>c. cbc_mode_encrypt B iv d key = Ret (Inr c) \<and> n dvd length c \<and> length d < length c \<and> length c \<le> length d + n \<and>
    cbc_mode_decrypt B iv c key = Ret (Inr d)"
proof -
  have B: "BlockSize B = n" using assms(1) by (simp add: block_laws_def)
  have R: "length (cbc_encrypt (blockEncrypt B key) n iv (pKCS5Padding d n)) = length (pKCS5Padding d n) \<and>
    cbc_decrypt (blockDecrypt B key) n iv (cbc_encrypt (blockEncrypt B key) n iv (pKCS5Padding d n)) = pKCS5Padding d n"
    using assms(1,4) by (intro cbc_roundtrip assms(2,5) padded_length(1)) (auto simp: block_laws_def)
  have "length (pKCS5Padding d n) \<le> length d + n" by (simp add: pKCS5Padding_def Let_def)
  with R padded_length [OF assms(2), of d] unpad_pad [OF assms(2,3)] assms(4) B show ?thesis
    by (auto simp: cbc_mode_encrypt_def cbc_mode_decrypt_def NewCipher_def CryptBlocks_def)
qed

text \<open>
  With a key of 16, 24 or 32 bytes AES encryption succeeds on every input, the result is longer
  than the input by at most one block and a number of full blocks, and decryption under the same key
  returns the input.
\<close>

theorem aes_roundtrip:
  assumes "block_laws aes 16" and "keySizes aes = [16, 24, 32]" and "length key \<in> {16, 24, 32}"
  shows "\<exists>c. AesEncrypt aes d key = Ret (Inr c) \<and> 16 dvd length c \<and> length d < length c \<and> length c \<le> length d + 16 \<and>
    AesDecrypt aes c key = Ret (Inr d)"
  unfolding AesEncrypt_def AesDecrypt_def
  by (rule cbc_mode_roundtrip) (use assms in \<open>auto simp: aes_iv_def\<close>)

text \<open>
  DES takes its initial vector from the buffer cache. Encryption and decryption are inverse when both
  calls get buffers with the same content; otherwise the two vectors are mixed into the first block.
\<close>

lemma des_roundtrip:
  assumes "block_laws des 8" and "keySizes des = [8]" and "length key = 8" and "length iv = 8"
  shows "\<exists>c. DesEncrypt des iv d key = Ret (Inr c) \<and> DesDecrypt des iv c key = Ret (Inr d)"
  unfolding DesEncrypt_def DesDecrypt_def
  using cbc_mode_roundtrip [OF assms(1), of key iv d] assms by auto

text \<open>Decryption of a message that is not a number of full blocks panics.\<close>

lemma aes_decrypt_partial:
  "BlockSize aes = 16 \<Longrightarrow> length key \<in> set (keySizes aes) \<Longrightarrow> \<not> 16 dvd length c \<Longrightarrow>
     AesDecrypt aes c key = Panic ''crypto/cipher: input not full blocks''"
  by (simp add: AesDecrypt_def cbc_mode_decrypt_def NewCipher_def CryptBlocks_def dvd_eq_mod_eq_0)

text \<open>A block cipher for the witnesses: the key is mixed into the block.\<close>

definition xor_cipher :: "nat \<Rightarrow> nat list \<Rightarrow> block_lib" where
  "xor_cipher n ks =
     \<lparr>BlockSize = n, keySizes = ks, blockName = ''xor'', blockEncrypt = (\<lambda>key b. map (\<lambda>x. x XOR hd key) b),
      blockDecrypt = (\<lambda>key b. map (\<lambda>x. x XOR hd key) b)\<rparr>"

lemma xor_cipher_laws: "block_laws (xor_cipher n ks) n"
  by (simp add: block_laws_def xor_cipher_def xor.assoc o_def)

theorem aes_roundtrip_witness:
  "\<exists>c. AesEncrypt (xor_cipher 16 [16, 24, 32]) [1, 2, 3] (replicate 16 7) = Ret (Inr c) \<and> 16 dvd length c \<and>
     AesDecrypt (xor_cipher 16 [16, 24, 32]) c (replicate 16 7) = Ret (Inr [1, 2, 3])"
  using aes_roundtrip [OF xor_cipher_laws, of "[16, 24, 32]" "replicate 16 7" "[1, 2, 3]"]
  by (auto simp: xor_cipher_def)

end
