(* ===== verification/Util_Misc.thy ===== *)
theory Util_Misc
  imports Go_Strings
begin

text \<open>
  The helpers of \<^verbatim>\<open>util/misc.go\<close> that compute: membership, copies, set-like insertion and
  removal on slices, bits of a mask, conversions, joining, version numbers, the functions a service
  exports by command number, and \<^verbatim>\<open>ProtectCall\<close>. What only formats the time of day, reads
  the file system or sends a request is left out.
\<close>

section \<open>Slices\<close>

text \<open>The membership loops are the same for every element type.\<close>

fun in_loop :: "'a list \<Rightarrow> 'a \<Rightarrow> bool" where
  "in_loop [] key = False"
| "in_loop (x # xs) key = (if x = key then True else in_loop xs key)"

definition InIntArray :: "int list \<Rightarrow> int \<Rightarrow> bool" where "InIntArray = in_loop"
definition InArray :: "string list \<Rightarrow> string \<Rightarrow> bool" where "InArray = in_loop"
definition InUint16Array :: "u16 list \<Rightarrow> u16 \<Rightarrow> bool" where "InUint16Array = in_loop"
definition InUint32Array :: "u32 list \<Rightarrow> u32 \<Rightarrow> bool" where "InUint32Array = in_loop"
definition InUint64Array :: "u64 list \<Rightarrow> u64 \<Rightarrow> bool" where "InUint64Array = in_loop"

fun SubUint32Array :: "u32 list \<Rightarrow> u32 list \<Rightarrow> u32 list" where
  "SubUint32Array [] arr2 = []"
| "SubUint32Array (x # xs) arr2 =
     (if \<not> InUint32Array arr2 x then x # SubUint32Array xs arr2 else SubUint32Array xs arr2)"

text \<open>A copy has the elements of the source; the backing arrays differ.\<close>

definition CopyInt64Array :: "u64 list \<Rightarrow> u64 list" where
  "CopyInt64Array src = (if length src = 0 then [] else map (\<lambda>i. src ! i) [0..<length src])"
definition CopyUInt64Array :: "u64 list \<Rightarrow> u64 list" where
  "CopyUInt64Array src = (if length src = 0 then [] else map (\<lambda>i. src ! i) [0..<length src])"
definition CopyUInt32Array :: "u32 list \<Rightarrow> u32 list" where
  "CopyUInt32Array src = (if length src = 0 then [] else map (\<lambda>i. src ! i) [0..<length src])"
definition CopyInt32Array :: "u32 list \<Rightarrow> u32 list" where
  "CopyInt32Array src = (if length src = 0 then [] else map (\<lambda>i. src ! i) [0..<length src])"

fun all_in :: "'a list \<Rightarrow> 'a list \<Rightarrow> bool" where
  "all_in [] arr2 = True"
| "all_in (x # xs) arr2 = (if \<not> in_loop arr2 x then False else all_in xs arr2)"

definition EqualUInt32Array :: "u32 list \<Rightarrow> u32 list \<Rightarrow> bool" where
  "EqualUInt32Array arr1 arr2 = (if length arr1 \<noteq> length arr2 then False else all_in arr1 arr2)"

definition EqualInt32Array :: "u32 list \<Rightarrow> u32 list \<Rightarrow> bool" where
  "EqualInt32Array arr1 arr2 = (if length arr1 \<noteq> length arr2 then False else all_in arr1 arr2)"

fun unique_loop :: "'a list \<Rightarrow> 'a list \<Rightarrow> nat \<Rightarrow> 'a list \<times> nat" where
  "unique_loop arr [] cnt = (arr, cnt)"
| "unique_loop arr (v # vs) cnt =
     (if in_loop arr v then unique_loop arr vs cnt else unique_loop (arr @ [v]) vs (cnt + 1))"

definition UnquieInsert :: "string list \<Rightarrow> string list \<Rightarrow> string list \<times> bool" where
  "UnquieInsert arr v = (let (arr', cnt) = unique_loop arr v 0 in (arr', cnt = 0))"

definition UnquieInsertUInt64 :: "u64 list \<Rightarrow> u64 list \<Rightarrow> u64 list" where
  "UnquieInsertUInt64 arr v = fst (unique_loop arr v 0)"
definition UnquieInsertUInt32 :: "u32 list \<Rightarrow> u32 list \<Rightarrow> u32 list" where
  "UnquieInsertUInt32 arr v = fst (unique_loop arr v 0)"
definition UnquieInsertInt32 :: "u32 list \<Rightarrow> u32 list \<Rightarrow> u32 list" where
  "UnquieInsertInt32 arr v = fst (unique_loop arr v 0)"

fun index_loop :: "'a list \<Rightarrow> 'a \<Rightarrow> nat \<Rightarrow> nat option" where
  "index_loop [] v j = None"
| "index_loop (x # xs) v j = (if x = v then Some j else index_loop xs v (Suc j))"

fun RemoveUInt64Array :: "u64 list \<Rightarrow> u64 list \<Rightarrow> u64 list" where
  "RemoveUInt64Array arr [] = arr"
| "RemoveUInt64Array arr (v # vs) =
     RemoveUInt64Array
       (case index_loop arr v 0 of None \<Rightarrow> arr | Some i \<Rightarrow> take i arr @ drop (i + 1) arr) vs"

fun Uint32ArrayRepeat :: "u32 list \<Rightarrow> u32 list \<Rightarrow> bool" where
  "Uint32ArrayRepeat [] arr2 = False"
| "Uint32ArrayRepeat (x # xs) arr2 = (if in_loop arr2 x then True else Uint32ArrayRepeat xs arr2)"


section \<open>Bits\<close>

text \<open>Shifting by 32 or more gives 0.\<close>

definition RemBit :: "u32 \<Rightarrow> u32 \<Rightarrow> u32" where
  "RemBit mk i = mk XOR push_bit (unat i) 1"

definition SetBit :: "u32 \<Rightarrow> u32 \<Rightarrow> u32" where
  "SetBit mk i = push_bit (unat i) 1 OR mk"

definition GetBit :: "u32 \<Rightarrow> u32 \<Rightarrow> bool" where
  "GetBit mk i \<longleftrightarrow> mk AND push_bit (unat i) 1 \<noteq> 0"


section \<open>Conversions\<close>

definition STU32 :: "string \<Rightarrow> u32" where
  "STU32 str = word_of_int (fst (Atoi str))"

definition STU64 :: "string \<Rightarrow> u64" where
  "STU64 str = word_of_nat (fst (ParseUint str))"

text \<open>\<^verbatim>\<open>ParseInt(s, 10, 64)\<close> is \<^verbatim>\<open>Atoi\<close> on a 64-bit platform.\<close>

definition STI64 :: "string \<Rightarrow> int" where
  "STI64 str = fst (Atoi str)"

text \<open>
  Values of interface type: strings, integers of a named type, and slices or arrays of a named type. Comparing two slices of
  the same type panics.
\<close>

datatype go_any = AnyString string | AnyInt string int | AnySlice string "go_any list"

definition ITS :: "go_any option \<Rightarrow> string outcome" where
  "ITS i = (case i of None \<Rightarrow> Ret [] | Some (AnyString s) \<Rightarrow> Ret s | Some _ \<Rightarrow> Panic ''interface conversion'')"

fun any_equal :: "go_any \<Rightarrow> go_any \<Rightarrow> bool outcome" where
  "any_equal (AnySlice t _) (AnySlice t' _) = (if t = t' then Panic ''comparing uncomparable type'' else Ret False)"
| "any_equal a b = Ret (a = b)"

fun In_loop :: "go_any list \<Rightarrow> go_any \<Rightarrow> bool outcome" where
  "In_loop [] v = Ret False"
| "In_loop (x # xs) v = out_bind (any_equal x v) (\<lambda>e. if e then Ret True else In_loop xs v)"

definition In_any :: "go_any \<Rightarrow> go_any \<Rightarrow> (bool \<times> go_error option) outcome" where
  "In_any arr v =
     (case arr of
        AnySlice _ xs \<Rightarrow> out_bind (In_loop xs v) (\<lambda>b. Ret (b, None))
      | _ \<Rightarrow> Ret (False, Some (GoErr ''unsupport type'')))"

lemma In_any_member:
  assumes "\<And>t ys. v \<noteq> AnySlice t ys"
  shows "In_any (AnySlice t xs) v = Ret (v \<in> set xs, None)"
proof -
  have "any_equal x v = Ret (x = v)" for x using assms by (cases x; cases v) auto
  then have "In_loop xs v = Ret (v \<in> set xs)" by (induction xs) auto
  then show ?thesis by (simp add: In_any_def)
qed

definition IfThen :: "bool \<Rightarrow> 'a \<Rightarrow> 'a \<Rightarrow> 'a" where
  "IfThen x a b = (if x then a else b)"

fun join_loop :: "string list \<Rightarrow> string \<Rightarrow> nat \<Rightarrow> string \<Rightarrow> string" where
  "join_loop [] sep i buffer = buffer"
| "join_loop (s # ss) sep i buffer =
     join_loop ss sep (Suc i) ((if i > 0 then buffer @ sep else buffer) @ s)"

definition Uint64ArratToString :: "u64 list \<Rightarrow> string \<Rightarrow> string" where
  "Uint64ArratToString arr sep = join_loop (map (\<lambda>w. FormatUint (unat w)) arr) sep 0 []"

definition Int64ArratToString :: "u64 list \<Rightarrow> string \<Rightarrow> string" where
  "Int64ArratToString arr sep = join_loop (map (\<lambda>w. Itoa (sint w)) arr) sep 0 []"

definition JoinUint64Array :: "u64 list \<Rightarrow> string \<Rightarrow> string" where
  "JoinUint64Array arr sep = join_loop (map (\<lambda>w. FormatUint (unat w)) arr) sep 0 []"

definition VietnamLocTime :: u64 where
  "VietnamLocTime = 1546275600"

definition GetVietnamDay :: "u64 \<Rightarrow> u64" where
  "GetVietnamDay ts = (ts - VietnamLocTime) div (24 * 3600)"

fun Upper :: "string \<Rightarrow> int \<Rightarrow> string" where
  "Upper [] n = []"
| "Upper (b # bs) n =
     (if n > 0
      then (if of_char b \<ge> (97 :: nat) \<and> of_char b \<le> (122 :: nat) then char_of (of_char b - 32 :: nat) else b) # Upper bs (n - 1)
      else b # Upper bs n)"

text \<open>A protected call: a panic of the body runs the failure function instead of escaping.\<close>

definition ProtectCall :: "('s \<Rightarrow> unit outcome \<times> 's) \<Rightarrow> ('s \<Rightarrow> 's) option \<Rightarrow> 's \<Rightarrow> 's" where
  "ProtectCall f failFunc s =
     (case f s of
        (Ret _, s') \<Rightarrow> s'
      | (Panic e, s') \<Rightarrow> (case failFunc of None \<Rightarrow> s' | Some g \<Rightarrow> g s'))"


section \<open>Versions\<close>

definition GetVersionFromStr :: "string \<Rightarrow> int list" where
  "GetVersionFromStr str = map (\<lambda>s. fst (Atoi s)) (Split CHR ''.'' str)"

fun compare_loop :: "int list \<Rightarrow> int list \<Rightarrow> nat \<Rightarrow> nat \<Rightarrow> int outcome" where
  "compare_loop a1 a2 i 0 = Ret 0"
| "compare_loop a1 a2 i (Suc m) =
     out_bind (index_at a1 i) (\<lambda>x. out_bind (index_at a2 i) (\<lambda>y.
       if x > y then Ret 1 else if x < y then Ret (- 1) else compare_loop a1 a2 (Suc i) m))"

definition CompareVersion :: "string \<Rightarrow> string \<Rightarrow> int outcome" where
  "CompareVersion v1 v2 = compare_loop (GetVersionFromStr v1) (GetVersionFromStr v2) 0 3"


section \<open>Exported functions\<close>

text \<open>\<^verbatim>\<open>strconv.ParseInt(s, 16, 32)\<close>\<close>

definition hex_digit :: "char \<Rightarrow> nat option" where
  "hex_digit c =
     (let n = of_char c :: nat in
      if 48 \<le> n \<and> n \<le> 57 then Some (n - 48)
      else if 97 \<le> n \<and> n \<le> 102 then Some (n - 87)
      else if 65 \<le> n \<and> n \<le> 70 then Some (n - 55)
      else None)"

fun hex_loop :: "string \<Rightarrow> nat \<Rightarrow> nat option" where
  "hex_loop [] n = Some n"
| "hex_loop (c # cs) n = (case hex_digit c of None \<Rightarrow> None | Some d \<Rightarrow> hex_loop cs (16 * n + d))"

definition ParseHex32 :: "string \<Rightarrow> int option" where
  "ParseHex32 s =
     (let (neg, ds) = strip_sign s in
      if ds = [] then None
      else case hex_loop ds 0 of
             None \<Rightarrow> None
           | Some n \<Rightarrow>
               if \<not> neg \<and> int n \<ge> 2 ^ 31 then None
               else if neg \<and> int n > 2 ^ 31 then None
               else Some (if neg then - int n else int n))"

fun ExportServiceFunction :: "string list \<Rightarrow> (u16, string) gmap \<Rightarrow> (u16, string) gmap" where
  "ExportServiceFunction [] funcs = funcs"
| "ExportServiceFunction (m # ms) funcs =
     (let l = length m in
      if l \<le> 5 then ExportServiceFunction ms funcs
      else case ParseHex32 (drop (l - 4) m) of
             None \<Rightarrow> ExportServiceFunction ms funcs
           | Some cmd \<Rightarrow> ExportServiceFunction ms (gmap_set (word_of_int cmd) m funcs))"


section \<open>What the helpers compute\<close>

lemma in_loop_set [simp]: "in_loop xs x \<longleftrightarrow> x \<in> set xs"
  by (induction xs) auto

lemma SubUint32Array_filter: "SubUint32Array a b = filter (\<lambda>x. x \<notin> set b) a"
  by (induction a) (auto simp: InUint32Array_def)

lemma Copy_same: "CopyUInt64Array s = s" "CopyInt64Array s = s" "CopyUInt32Array t = t" "CopyInt32Array t = t"
  by (simp_all add: CopyUInt64Array_def CopyInt64Array_def CopyUInt32Array_def CopyInt32Array_def map_nth)

lemma all_in_subset: "all_in a b \<longleftrightarrow> set a \<subseteq> set b"
  by (induction a) auto

lemma unique_loop_set:
  "unique_loop arr vs c = (r, c') \<Longrightarrow>
     set r = set arr \<union> set vs \<and> (distinct arr \<longrightarrow> distinct r) \<and> prefix arr r \<and> length r + c = length arr + c'"
proof (induction arr vs c rule: unique_loop.induct)
  case (2 arr v vs c)
  then show ?case by (cases "v \<in> set arr") (auto dest: append_prefixD)
qed simp

lemma index_loop_take:
  "index_loop xs v j = (if v \<in> set xs then Some (j + length (takeWhile (\<lambda>x. x \<noteq> v) xs)) else None)"
  by (induction xs arbitrary: j) auto

lemma RemoveUInt64Array_remove1: "RemoveUInt64Array arr vs = fold remove1 vs arr"
proof (induction arr vs rule: RemoveUInt64Array.induct)
  case (2 arr v vs)
  have "remove1 v arr = (case index_loop arr v 0 of None \<Rightarrow> arr | Some i \<Rightarrow> take i arr @ drop (i + 1) arr)"
  proof (cases "v \<in> set arr")
    case True
    then obtain a b where s: "arr = a @ v # b" "v \<notin> set a" by (meson split_list_first)
    from s(2) have t: "takeWhile (\<lambda>x. x \<noteq> v) (a @ v # b) = a" by (rule takeWhile_delim)
    show ?thesis using s by (simp add: index_loop_take t remove1_append)
  qed (simp add: index_loop_take remove1_idem)
  with 2 show ?case by simp
qed simp

lemma join_loop_Join: "join_loop ss sep i buf = (if i > 0 \<and> ss \<noteq> [] then buf @ sep else buf) @ Join sep ss"
proof (induction ss arbitrary: i buf)
  case (Cons s ss)
  have "join_loop ss sep (Suc i) ((if i > 0 then buf @ sep else buf) @ s) =
    (if ss \<noteq> [] then ((if i > 0 then buf @ sep else buf) @ s) @ sep else (if i > 0 then buf @ sep else buf) @ s) @ Join sep ss"
    using Cons.IH [of "Suc i"] by simp
  then show ?case by (cases ss) (simp_all split: if_splits)
qed simp

lemma GetBit_bit: "GetBit mk i \<longleftrightarrow> bit mk (unat i)"
proof -
  have "(mk AND push_bit (unat i) 1 = 0) \<longleftrightarrow> \<not> bit mk (unat i)"
    by (simp add: push_bit_eq_mult and_exp_eq_0_iff_not_bit)
  then show ?thesis by (simp add: GetBit_def)
qed

lemma GetBit_SetBit: "unat i < 32 \<Longrightarrow> GetBit (SetBit mk i) j \<longleftrightarrow> j = i \<or> GetBit mk j"
  unfolding GetBit_bit SetBit_def by (auto simp: bit_simps word_unat_eq_iff dest: bit_imp_le_length)

lemma RemBit_flips: "unat i < 32 \<Longrightarrow> GetBit (RemBit mk i) j \<longleftrightarrow> (if j = i then \<not> GetBit mk i else GetBit mk j)"
  unfolding GetBit_bit RemBit_def by (auto simp: bit_simps word_unat_eq_iff dest: bit_imp_le_length)


text \<open>Versions are compared by their first three components, from the left.\<close>

definition version_key :: "string \<Rightarrow> int list" where
  "version_key v = take 3 (GetVersionFromStr v)"

lemma length3: "3 \<le> length xs \<Longrightarrow> \<exists>a b c ys. xs = a # b # c # ys"
  by (cases xs; cases "tl xs"; cases "tl (tl xs)") auto

lemma take3 [simp]: "take 3 (a # b # c # ys) = [a, b, c]"
  by (simp add: numeral_3_eq_3)

text \<open>
  \<^verbatim>\<open>CompareVersion\<close> orders versions of at least three components: it returns
  \<open>-1\<close>, \<open>0\<close> or \<open>1\<close> as the first version's numbers are lexicographically below,
  equal to or above the second's, so it is a total order on the keys, and swapping the arguments
  changes the sign.
\<close>

theorem CompareVersion_lexicographic:
  assumes "3 \<le> length (Split CHR ''.'' v1)" and "3 \<le> length (Split CHR ''.'' v2)"
  shows "CompareVersion v1 v2 =
      Ret (if ord_class.lexordp (version_key v1) (version_key v2) then - 1
           else if version_key v1 = version_key v2 then 0 else 1) \<and>
    (\<forall>r. CompareVersion v1 v2 = Ret r \<longrightarrow> CompareVersion v2 v1 = Ret (- r))"
proof -
  have "3 \<le> length (GetVersionFromStr v1)" "3 \<le> length (GetVersionFromStr v2)"
    using assms by (simp_all add: GetVersionFromStr_def)
  then obtain a b c xs x y z ys where v: "GetVersionFromStr v1 = a # b # c # xs" "GetVersionFromStr v2 = x # y # z # ys"
    by (meson length3)
  show ?thesis
    by (simp add: CompareVersion_def version_key_def v numeral_3_eq_3 index_at_def)
qed

theorem CompareVersion_lexicographic_witness:
  "CompareVersion ''1.10.0'' ''1.9.3'' = Ret 1"
proof -
  have s: "Split CHR ''.'' ''1.10.0'' = [''1'', ''10'', ''0'']" "Split CHR ''.'' ''1.9.3'' = [''1'', ''9'', ''3'']"
    by simp_all
  have i: "Itoa 1 = ''1''" "Itoa 10 = ''10''" "Itoa 0 = ''0''" "Itoa 9 = ''9''" "Itoa 3 = ''3''"
    by (simp_all add: Itoa_def FormatUint.simps)
  have n: "fst (Atoi ''1'') = 1" "fst (Atoi ''10'') = 10" "fst (Atoi ''0'') = 0" "fst (Atoi ''9'') = 9" "fst (Atoi ''3'') = 3"
    using Atoi_Itoa [of 1] Atoi_Itoa [of 10] Atoi_Itoa [of 0] Atoi_Itoa [of 9] Atoi_Itoa [of 3]
    unfolding i by (simp_all add: min_int64_def max_int64_def)
  have "version_key ''1.10.0'' = [1, 10, 0]" "version_key ''1.9.3'' = [1, 9, 3]"
    unfolding version_key_def GetVersionFromStr_def s by (simp_all add: n)
  with CompareVersion_lexicographic [of "''1.10.0''" "''1.9.3''"] s show ?thesis by simp
qed

end
