(* ===== verification/Gnet_Message.thy ===== *)
theory Gnet_Message
  imports Crypto Util_Misc
begin

text \<open>
  The messages between a client and the gate (\<^verbatim>\<open>gnet/message.go\<close>), the older client protocol and
  the websocket stream of \<^verbatim>\<open>util/websocket.go\<close>. A message is a header of fourteen bytes and a
  body of at most 65535 bytes, encrypted when the connection has a key and the mask asks for it. The
  block cipher is the parameter \<open>aes\<close> of \<open>Crypto\<close>.
\<close>

section \<open>The gate protocol\<close>

record gate_request =
  gApp :: string
  gMask :: u8
  gLength :: u16
  gCmd :: u16
  gSeq :: u16
  gRet :: u16
  gBuff :: bytes
  gDisconn :: bool
  gNodeName :: string
  gNodeType :: string

definition empty_request :: gate_request where
  "empty_request =
     \<lparr>gApp = [], gMask = 0, gLength = 0, gCmd = 0, gSeq = 0, gRet = 0, gBuff = [], gDisconn = False, gNodeName = [], gNodeType = []\<rparr>"

definition isCrypto :: "gate_request \<Rightarrow> bool" where
  "isCrypto m = GetBit (ucast (gMask m)) 0"

definition isJson :: "gate_request \<Rightarrow> bool" where
  "isJson m = GetBit (ucast (gMask m)) 1"

definition header_fields :: "bytes \<Rightarrow> gate_request" where
  "header_fields header = empty_request\<lparr>
     gMask := header ! 1, gApp := bytes_string (take 4 (drop 2 header)), gLength := Uint16 (drop 6 header),
     gCmd := Uint16 (drop 8 header), gSeq := Uint16 (drop 10 header), gRet := Uint16 (drop 12 header)\<rparr>"

definition decrypt_body :: "block_lib \<Rightarrow> bytes \<Rightarrow> gate_request \<Rightarrow> bytes \<Rightarrow> (go_error + gate_request) outcome" where
  "decrypt_body aes key req buff =
     (if key \<noteq> [] \<and> isCrypto req then
        out_bind (AesDecrypt aes buff key)
          (\<lambda>r. Ret (case r of Inl err \<Rightarrow> Inl err | Inr b \<Rightarrow> Inr (req\<lparr>gBuff := b\<rparr>)))
      else Ret (Inr (req\<lparr>gBuff := buff\<rparr>)))"

definition ReadMessageWithKey :: "block_lib \<Rightarrow> bytes \<Rightarrow> bytes \<Rightarrow> (go_error + gate_request) outcome \<times> bytes" where
  "ReadMessageWithKey aes key r =
     (case ReadFull 14 r of
        (Inl err, r1) \<Rightarrow> (Ret (Inl err), r1)
      | (Inr header, r1) \<Rightarrow>
          if header ! 0 \<noteq> word_of_nat (of_char CHR ''G'') then (Ret (Inl (GoErr ''error message flag'')), r1)
          else
            let req = header_fields header in
            if gLength req = 0 then (Ret (Inr req), r1)
            else
              (case ReadFull (unat (gLength req)) r1 of
                 (Inl err, r2) \<Rightarrow> (Ret (Inl err), r2)
               | (Inr buff, r2) \<Rightarrow> (decrypt_body aes key req buff, r2)))"

definition emptyKey :: bytes where "emptyKey = []"

definition gate_ReadMessage :: "block_lib \<Rightarrow> bytes \<Rightarrow> (go_error + gate_request) outcome \<times> bytes" where
  "gate_ReadMessage aes r = ReadMessageWithKey aes emptyKey r"

definition frame_message :: "gate_request \<Rightarrow> bytes \<Rightarrow> bytes" where
  "frame_message req buff =
     [word_of_nat (of_char CHR ''G''), gMask req] @ string_bytes (gApp req) @ be16 (word_of_nat (length buff)) @
     be16 (gCmd req) @ be16 (gSeq req) @ be16 (gRet req) @ buff"

definition body_bytes :: "block_lib \<Rightarrow> bytes \<Rightarrow> gate_request \<Rightarrow> (go_error + bytes) outcome" where
  "body_bytes aes key req = (if key \<noteq> [] \<and> isCrypto req then AesEncrypt aes (gBuff req) key else Ret (Inr (gBuff req)))"

text \<open>The connection is a value of type \<open>'c\<close> with its \<^verbatim>\<open>Write\<close> as a parameter.\<close>

definition WriteMessageWithKey :: "block_lib \<Rightarrow> (bytes \<Rightarrow> 'c \<Rightarrow> go_error option \<times> 'c) \<Rightarrow> gate_request \<Rightarrow> bytes \<Rightarrow> 'c \<Rightarrow> go_error option outcome \<times> 'c" where
  "WriteMessageWithKey aes conn_Write req key conn =
     (case body_bytes aes key req of
        Panic e \<Rightarrow> (Panic e, conn)
      | Ret (Inl err) \<Rightarrow> (Ret (Some err), conn)
      | Ret (Inr buff) \<Rightarrow> (case conn_Write (frame_message req buff) conn of (err, conn') \<Rightarrow> (Ret err, conn')))"

definition gate_WriteMessage :: "block_lib \<Rightarrow> (bytes \<Rightarrow> 'c \<Rightarrow> go_error option \<times> 'c) \<Rightarrow> gate_request \<Rightarrow> 'c \<Rightarrow> go_error option outcome \<times> 'c" where
  "gate_WriteMessage aes conn_Write req conn = WriteMessageWithKey aes conn_Write req emptyKey conn"


section \<open>What is written is read\<close>

definition cipher_ok :: "block_lib \<Rightarrow> bytes \<Rightarrow> bool" where
  "cipher_ok aes key \<longleftrightarrow> block_laws aes 16 \<and> keySizes aes = [16, 24, 32] \<and> length key \<in> {0, 16, 24, 32}"

definition encoded :: "block_lib \<Rightarrow> bytes \<Rightarrow> gate_request \<Rightarrow> bytes" where
  "encoded aes key m = (case body_bytes aes key m of Ret (Inr b) \<Rightarrow> b | _ \<Rightarrow> [])"

text \<open>The messages as the receiver sees them: the length field is filled in, the local fields are empty.\<close>

definition gate_message_ok :: "block_lib \<Rightarrow> bytes \<Rightarrow> gate_request \<Rightarrow> bool" where
  "gate_message_ok aes key m \<longleftrightarrow>
     cipher_ok aes key \<and> length (gApp m) = 4 \<and> length (encoded aes key m) < 2 ^ 16 \<and>
     gLength m = word_of_nat (length (encoded aes key m)) \<and> \<not> gDisconn m \<and> gNodeName m = [] \<and> gNodeType m = []"

definition message_bytes :: "block_lib \<Rightarrow> bytes \<Rightarrow> gate_request \<Rightarrow> bytes" where
  "message_bytes aes key m = frame_message m (encoded aes key m)"

definition read_message :: "block_lib \<Rightarrow> bytes \<Rightarrow> (u8, gate_request) reader" where
  "read_message aes key r =
     (case ReadMessageWithKey aes key r of (Ret x, r') \<Rightarrow> (x, r') | (Panic e, r') \<Rightarrow> (Inl (GoErr e), r'))"

lemma body_roundtrip:
  assumes "cipher_ok aes key"
  shows "body_bytes aes key m = Ret (Inr (encoded aes key m))"
    and "isCrypto req = isCrypto m \<Longrightarrow> decrypt_body aes key req (encoded aes key m) = Ret (Inr (req\<lparr>gBuff := gBuff m\<rparr>))"
    and "encoded aes key m = [] \<Longrightarrow> gBuff m = []"
proof -
  have "body_bytes aes key m = Ret (Inr (encoded aes key m)) \<and>
    (isCrypto req = isCrypto m \<longrightarrow> decrypt_body aes key req (encoded aes key m) = Ret (Inr (req\<lparr>gBuff := gBuff m\<rparr>))) \<and>
    (encoded aes key m = [] \<longrightarrow> gBuff m = [])"
  proof (cases "key \<noteq> [] \<and> isCrypto m")
    case True
    then have "length key \<in> {16, 24, 32}" using assms by (auto simp: cipher_ok_def)
    with assms obtain c where "AesEncrypt aes (gBuff m) key = Ret (Inr c)" "length (gBuff m) < length c"
      "AesDecrypt aes c key = Ret (Inr (gBuff m))"
      using cbc_mode_roundtrip [of aes 16 key aes_iv "gBuff m"]
      by (auto simp: cipher_ok_def AesEncrypt_def AesDecrypt_def aes_iv_def)
    with True show ?thesis by (auto simp: body_bytes_def encoded_def decrypt_body_def)
  next
    case False
    then show ?thesis by (auto simp: body_bytes_def encoded_def decrypt_body_def)
  qed
  then show "body_bytes aes key m = Ret (Inr (encoded aes key m))"
    "isCrypto req = isCrypto m \<Longrightarrow> decrypt_body aes key req (encoded aes key m) = Ret (Inr (req\<lparr>gBuff := gBuff m\<rparr>))"
    "encoded aes key m = [] \<Longrightarrow> gBuff m = []" by auto
qed

lemma frame_split:
  assumes "length (gApp m) = 4"
  shows "frame_message m b = take 14 (frame_message m b) @ b" and "length (take 14 (frame_message m b)) = 14"
    and "frame_message m b ! 0 = word_of_nat (of_char CHR ''G'')"
    and "header_fields (take 14 (frame_message m b)) =
      empty_request\<lparr>gMask := gMask m, gApp := gApp m, gLength := word_of_nat (length b), gCmd := gCmd m, gSeq := gSeq m, gRet := gRet m\<rparr>"
proof -
  obtain c1 c2 c3 c4 where "gApp m = [c1, c2, c3, c4]" using assms by (auto simp: numeral_eq_Suc length_Suc_conv)
  then have f: "frame_message m b = (word_of_nat (of_char CHR ''G'') # gMask m # string_bytes [c1, c2, c3, c4] @ be16 (word_of_nat (length b)) @
     be16 (gCmd m) @ be16 (gSeq m) @ be16 (gRet m)) @ b" and a: "gApp m = [c1, c2, c3, c4]"
    by (simp_all add: frame_message_def)
  show "length (take 14 (frame_message m b)) = 14" by (simp add: f string_bytes_def be16_def)
  show "frame_message m b = take 14 (frame_message m b) @ b" by (simp add: f string_bytes_def be16_def)
  show "frame_message m b ! 0 = word_of_nat (of_char CHR ''G'')" by (simp add: f)
  have u: "Uint16 (ucast (drop_bit 8 w) # ucast w # x) = w" for w :: u16 and x
    using Uint16_be16 [of w x] by (simp add: be16_def)
  have s: "bytes_string [word_of_nat (of_char c1), word_of_nat (of_char c2), word_of_nat (of_char c3), word_of_nat (of_char c4)] = gApp m"
    using bytes_string_bytes [of "[c1, c2, c3, c4]"] a by (simp add: string_bytes_def del: bytes_string_bytes)
  show "header_fields (take 14 (frame_message m b)) =
      empty_request\<lparr>gMask := gMask m, gApp := gApp m, gLength := word_of_nat (length b), gCmd := gCmd m, gSeq := gSeq m, gRet := gRet m\<rparr>"
    by (simp add: f header_fields_def string_bytes_def be16_def u s del: Uint16.simps)
qed

lemma ReadMessage_frame:
  assumes "length (gApp m) = 4" and "length b < 2 ^ 16"
  defines "h \<equiv> empty_request\<lparr>gMask := gMask m, gApp := gApp m, gLength := word_of_nat (length b), gCmd := gCmd m, gSeq := gSeq m, gRet := gRet m\<rparr>"
  shows "ReadMessageWithKey aes key (frame_message m b @ r) =
    (if b = [] then (Ret (Inr h), r) else (decrypt_body aes key h b, r))"
proof -
  note F = frame_split [OF assms(1), of b]
  have l: "unat (word_of_nat (length b) :: u16) = length b" using assms(2) by (simp add: unat_of_nat)
  then have z: "(word_of_nat (length b) :: u16) = 0 \<longleftrightarrow> b = []"
    by (metis length_0_conv of_nat_0 unat_eq_zero)
  have "ReadFull 14 (frame_message m b @ r) = (Inr (take 14 (frame_message m b)), b @ r)"
    using ReadFull_exact [OF F(2), of "b @ r"] F(1) by (metis append.assoc)
  moreover have "take 14 (frame_message m b) ! 0 = word_of_nat (of_char CHR ''G'')" using F(3) by simp
  ultimately show ?thesis using l z unfolding ReadMessageWithKey_def
    by (simp add: F(4) Let_def h_def empty_request_def)
qed

lemma read_message_bytes:
  assumes "gate_message_ok aes key m"
  shows "read_message aes key (message_bytes aes key m @ r) = (Inr m, r)"
proof -
  let ?b = "encoded aes key m"
  let ?h = "empty_request\<lparr>gMask := gMask m, gApp := gApp m, gLength := word_of_nat (length ?b), gCmd := gCmd m, gSeq := gSeq m, gRet := gRet m\<rparr>"
  have ok: "cipher_ok aes key" "length (gApp m) = 4" "length ?b < 2 ^ 16" using assms by (auto simp: gate_message_ok_def)
  have m: "?h\<lparr>gBuff := gBuff m\<rparr> = m" "?h\<lparr>gBuff := []\<rparr> = ?h"
    using assms by (simp_all add: gate_message_ok_def empty_request_def)
  have "isCrypto ?h = isCrypto m" by (simp add: isCrypto_def)
  note R = body_roundtrip(2) [OF ok(1) this] body_roundtrip(3) [OF ok(1), of m]
  show ?thesis
  proof (cases "?b = []")
    case True
    with m R(2) have "?h = m" by metis
    with True ReadMessage_frame [OF ok(2,3), of aes key r] show ?thesis by (simp add: read_message_def message_bytes_def)
  qed (use ReadMessage_frame [OF ok(2,3), of aes key r] R m in \<open>simp add: read_message_def message_bytes_def\<close>)
qed

interpretation gate_wire: wire_codec "message_bytes aes key" "read_message aes key" "gate_message_ok aes key" for aes key
  by unfold_locales (rule read_message_bytes)

text \<open>What \<^verbatim>\<open>WriteMessageWithKey\<close> hands to the connection.\<close>

lemma write_message_bytes:
  "cipher_ok aes key \<Longrightarrow>
     WriteMessageWithKey aes conn_Write m key conn = (case conn_Write (message_bytes aes key m) conn of (err, conn') \<Rightarrow> (Ret err, conn'))"
  by (simp add: WriteMessageWithKey_def message_bytes_def body_roundtrip(1))

text \<open>A connection that accepts everything: the bytes sent so far.\<close>

definition pipe_write :: "bytes \<Rightarrow> bytes \<Rightarrow> go_error option \<times> bytes" where
  "pipe_write b out = (None, out @ b)"

fun write_all :: "block_lib \<Rightarrow> bytes \<Rightarrow> gate_request list \<Rightarrow> bytes \<Rightarrow> bytes" where
  "write_all aes key [] out = out"
| "write_all aes key (m # ms) out = write_all aes key ms (snd (WriteMessageWithKey aes pipe_write m key out))"

lemma write_all_bytes: "cipher_ok aes key \<Longrightarrow> write_all aes key ms out = out @ concat (map (message_bytes aes key) ms)"
  by (induction ms arbitrary: out) (simp_all add: write_message_bytes pipe_write_def)

text \<open>
  C30. The gate protocol is a faithful channel: a sequence of messages with application names of
  four bytes and bodies that fit the length field, written one after the other to a connection
  with or without a key, is read back as the same sequence of messages, decrypted, and the reader
  ends exactly where the next message begins.
\<close>

theorem gate_stream_roundtrip:
  assumes "\<forall>m\<in>set ms. gate_message_ok aes key m" and "cipher_ok aes key"
  shows "read_n (read_message aes key) (length ms) (write_all aes key ms [] @ r) = (Inr ms, r)"
  using gate_wire.stream_roundtrip [OF assms(1), of r] by (simp add: write_all_bytes [OF assms(2)])

text \<open>
  The length of the body is truncated to sixteen bits. A body of 65536 bytes or more, which the
  writer accepts, is cut off by the reader, and what is left over is taken for the next message: the
  stream is out of step from there on.
\<close>

theorem oversized_message_desync:
  assumes "length (gApp m) = 4" and "2 ^ 16 \<le> length (gBuff m)"
  shows "WriteMessageWithKey aes pipe_write m emptyKey [] = (Ret None, frame_message m (gBuff m)) \<and>
    (\<exists>req. ReadMessageWithKey aes emptyKey (frame_message m (gBuff m) @ r) =
       (Ret (Inr req), drop (length (gBuff m) mod 2 ^ 16) (gBuff m) @ r) \<and> length (gBuff req) < length (gBuff m))"
proof -
  let ?b = "gBuff m" and ?n = "length (gBuff m) mod 2 ^ 16"
  have n: "?n < 2 ^ 16" "?n \<le> length ?b" "length (take ?n ?b) = ?n" "?n < length ?b"
    using assms(2) mod_less_eq_dividend [of "length ?b" "2 ^ 16"] mod_less_divisor [of "2 ^ 16" "length ?b"] by (simp_all add: min_def)
  have w: "(word_of_nat (length ?b) :: u16) = word_of_nat ?n" by (simp flip: unsigned_of_nat add: word_of_nat_eq_iff take_bit_eq_mod)
  have f: "frame_message m ?b = frame_message m (take ?n ?b) @ drop ?n ?b"
    by (simp only: frame_message_def n(3) w append_assoc append_take_drop_id)
  have r: "ReadMessageWithKey aes emptyKey (frame_message m ?b @ r) =
      ReadMessageWithKey aes emptyKey (frame_message m (take ?n ?b) @ drop ?n ?b @ r)" by (simp add: f)
  have "\<exists>req. ReadMessageWithKey aes emptyKey (frame_message m (take ?n ?b) @ drop ?n ?b @ r) =
       (Ret (Inr req), drop ?n ?b @ r) \<and> length (gBuff req) \<le> ?n"
    using n unfolding ReadMessage_frame [OF assms(1), of "take ?n ?b", unfolded n(3), OF n(1)]
    by (auto simp: decrypt_body_def emptyKey_def empty_request_def)
  then show ?thesis using r n(4)
    by (auto simp: WriteMessageWithKey_def body_bytes_def emptyKey_def pipe_write_def)
qed


section \<open>Witnesses\<close>

definition demo_aes :: block_lib where "demo_aes = xor_cipher 16 [16, 24, 32]"

definition demo_key :: bytes where "demo_key = replicate 16 7"

definition demo_message :: gate_request where
  "demo_message = empty_request\<lparr>gApp := ''game'', gMask := 1, gCmd := 5, gSeq := 9, gBuff := [1, 2, 3], gLength := 16\<rparr>"

lemma demo_message_ok: "cipher_ok demo_aes demo_key" "gate_message_ok demo_aes demo_key demo_message"
proof -
  show c: "cipher_ok demo_aes demo_key"
    by (simp add: cipher_ok_def demo_aes_def demo_key_def xor_cipher_laws) (simp add: xor_cipher_def)
  have "length (encoded demo_aes demo_key demo_message) = 16" by code_simp
  with c show "gate_message_ok demo_aes demo_key demo_message"
    by (simp add: gate_message_ok_def demo_message_def empty_request_def)
qed

theorem gate_stream_roundtrip_witness:
  "read_n (read_message demo_aes demo_key) 2 (write_all demo_aes demo_key [demo_message, demo_message] []) = (Inr [demo_message, demo_message], [])"
  using gate_stream_roundtrip [of "[demo_message, demo_message]" demo_aes demo_key "[]"] demo_message_ok by (simp add: numeral_2_eq_2)

theorem oversized_message_desync_witness:
  "\<exists>req. ReadMessageWithKey demo_aes emptyKey (frame_message (demo_message\<lparr>gBuff := replicate 65540 0\<rparr>) (replicate 65540 0)) =
     (Ret (Inr req), replicate 65536 0) \<and> length (gBuff req) < 65540"
  using oversized_message_desync [of "demo_message\<lparr>gBuff := replicate 65540 0\<rparr>" demo_aes "[]"]
  by (auto simp: demo_message_def empty_request_def)

end
