(* ===== verification/Rpc_Codec.thy ===== *)
theory Rpc_Codec
  imports Go_Strings
begin

text \<open>
  The wire format of the rpc package, \<^verbatim>\<open>rpc/coder.go\<close>: length-prefixed frames, a header
  frame and a body frame per request and per response. The protobuf and JSON libraries are not
  part of the sources: the record \<open>pb_lib\<close> collects the calls the code makes, and
  \<open>pb_laws\<close> states that what was marshalled is unmarshalled again. The header structs are
  those generated from \<^verbatim>\<open>rpc/header.proto\<close>. A message of the application has a type
  \<open>'m\<close>; the type of the target of an unmarshalling is described by \<open>'t\<close>.
\<close>

record node_rpc_info =
  ServiceName :: string
  NodeName :: string

record rpc_context =
  GateName :: string
  Remote :: string
  ctxId :: u64
  Token :: string
  Uid :: u64
  Nodes :: "node_rpc_info list"
  CallId :: u64
  Game :: string
  Kvs :: "string \<rightharpoonup> string"
  Ps :: "string \<rightharpoonup> u64"

record req_header =
  qMethod :: string
  qSeq :: u64
  qContext :: "rpc_context option"
  qNoResp :: bool
  qRaw :: u32

record rsp_header =
  pMethod :: string
  pSeq :: u64
  pError :: string
  pRet :: u32
  pRaw :: u32

record rpc_request =
  ServiceMethod :: string
  rSeq :: u64
  NoResp :: bool
  Conn :: "rpc_context option"
  Raw :: int

record rpc_response =
  sServiceMethod :: string
  sSeq :: u64
  sError :: string
  sRet :: u16
  sRaw :: int

record ('t, 'm) pb_lib =
  Marshal :: "'m \<Rightarrow> go_error + bytes"
  Unmarshal :: "'t \<Rightarrow> bytes \<Rightarrow> go_error + 'm"
  jsonMarshal :: "'m \<Rightarrow> go_error + bytes"
  jsonUnmarshal :: "'t \<Rightarrow> bytes \<Rightarrow> go_error + 'm"
  MarshalReq :: "req_header \<Rightarrow> go_error + bytes"
  UnmarshalReq :: "bytes \<Rightarrow> go_error + req_header"
  MarshalRsp :: "rsp_header \<Rightarrow> go_error + bytes"
  UnmarshalRsp :: "bytes \<Rightarrow> go_error + rsp_header"
  NullMessage :: 'm

text \<open>
  An argument of type \<^verbatim>\<open>interface{}\<close>: a proto message, or something else of which only
  the type name is shown.
\<close>

datatype 'm any = Pb 'm | NotPb string

text \<open>A buffered writer on a connection: the bytes flushed and its sticky error.\<close>

record byte_writer =
  flushed :: bytes
  bwerr :: "go_error option"

definition bufio_Write :: "bytes \<Rightarrow> byte_writer \<Rightarrow> byte_writer \<times> go_error option" where
  "bufio_Write b w = (case bwerr w of Some e \<Rightarrow> (w, Some e) | None \<Rightarrow> (w\<lparr>flushed := flushed w @ b\<rparr>, None))"


section \<open>Frames\<close>

definition tooBig :: nat where
  "tooBig = 2 ^ 30"

definition errBadCount :: go_error where
  "errBadCount = GoErr ''invalid message length''"

definition writeFrame :: "bytes \<Rightarrow> bytes \<Rightarrow> go_error + bytes" where
  "writeFrame w buf =
     (let l = length buf in
      if l \<ge> tooBig then Inl errBadCount else Inr (w @ be32 (word_of_nat l) @ buf))"

definition readFrame :: "(u8, bytes) reader" where
  "readFrame r =
     (case ReadFull 4 r of
        (Inl err, r1) \<Rightarrow> (Inl err, r1)
      | (Inr header, r1) \<Rightarrow>
          (let l = unat (Uint32 header) in
           if l \<ge> tooBig then (Inl errBadCount, r1) else ReadFull l r1))"

definition encode :: "('t, 'm) pb_lib \<Rightarrow> bytes \<Rightarrow> u32 \<Rightarrow> 'm any \<Rightarrow> go_error + bytes" where
  "encode P w raw m =
     (case m of
        Pb pb \<Rightarrow>
          (case (if raw = 2 then jsonMarshal P pb else Marshal P pb) of
             Inl err \<Rightarrow> Inl err
           | Inr buf \<Rightarrow> writeFrame w buf)
      | NotPb t \<Rightarrow> Inl (GoErr (t @ '' does not implement proto.Message'')))"

text \<open>
  \<^verbatim>\<open>encode\<close> and \<^verbatim>\<open>decode\<close> of a header: always with \<^verbatim>\<open>raw = 0\<close>.
\<close>

definition encode_req :: "('t, 'm) pb_lib \<Rightarrow> bytes \<Rightarrow> req_header \<Rightarrow> go_error + bytes" where
  "encode_req P w h = (case MarshalReq P h of Inl err \<Rightarrow> Inl err | Inr buf \<Rightarrow> writeFrame w buf)"

definition encode_rsp :: "('t, 'm) pb_lib \<Rightarrow> bytes \<Rightarrow> rsp_header \<Rightarrow> go_error + bytes" where
  "encode_rsp P w h = (case MarshalRsp P h of Inl err \<Rightarrow> Inl err | Inr buf \<Rightarrow> writeFrame w buf)"

definition decode :: "('t, 'm) pb_lib \<Rightarrow> u32 \<Rightarrow> 't option \<Rightarrow> (u8, 'm option) reader" where
  "decode P raw target r =
     (case readFrame r of
        (Inl err, r') \<Rightarrow> (Inl err, r')
      | (Inr buff, r') \<Rightarrow>
          (case target of
             None \<Rightarrow> (Inr None, r')
           | Some t \<Rightarrow>
               (case (if raw = 2 then jsonUnmarshal P t buff else Unmarshal P t buff) of
                  Inl err \<Rightarrow> (Inl err, r')
                | Inr m \<Rightarrow> (Inr (Some m), r'))))"

definition decode_with :: "(bytes \<Rightarrow> go_error + 'h) \<Rightarrow> (u8, 'h) reader" where
  "decode_with unm r =
     (case readFrame r of
        (Inl err, r') \<Rightarrow> (Inl err, r')
      | (Inr buff, r') \<Rightarrow> (unm buff, r'))"


section \<open>The client's codec\<close>

text \<open>The context that travels: every field but \<^verbatim>\<open>Nodes\<close> is copied.\<close>

definition copy_context :: "rpc_context \<Rightarrow> rpc_context" where
  "copy_context c =
     \<lparr>GateName = GateName c, Remote = Remote c, ctxId = ctxId c, Token = Token c, Uid = Uid c, Nodes = [],
      CallId = CallId c, Game = Game c, Kvs = Kvs c, Ps = Ps c\<rparr>"

definition WriteRequest :: "('t, 'm) pb_lib \<Rightarrow> rpc_request \<Rightarrow> 'm any \<Rightarrow> byte_writer \<Rightarrow> byte_writer \<times> go_error option" where
  "WriteRequest P r body w =
     (let req = \<lparr>qMethod = ServiceMethod r, qSeq = rSeq r, qContext = map_option copy_context (Conn r),
                 qNoResp = NoResp r, qRaw = word_of_int (Raw r)\<rparr>
      in case encode_req P [] req of
           Inl err \<Rightarrow> (w, Some err)
         | Inr buff \<Rightarrow>
             (case encode P buff 0 body of
                Inl err \<Rightarrow> (w, Some err)
              | Inr buff' \<Rightarrow> bufio_Write buff' w))"

definition WriteByteRequest :: "('t, 'm) pb_lib \<Rightarrow> rpc_request \<Rightarrow> bytes \<Rightarrow> byte_writer \<Rightarrow> byte_writer \<times> go_error option" where
  "WriteByteRequest P r buf w =
     (let req = \<lparr>qMethod = ServiceMethod r, qSeq = rSeq r, qContext = map_option copy_context (Conn r),
                 qNoResp = False, qRaw = word_of_int (Raw r)\<rparr>
      in case encode_req P [] req of
           Inl err \<Rightarrow> (w, Some err)
         | Inr buff \<Rightarrow>
             (case writeFrame buff buf of
                Inl err \<Rightarrow> (w, Some err)
              | Inr buff' \<Rightarrow> bufio_Write buff' w))"

text \<open>The response struct is fresh in \<^verbatim>\<open>input\<close>, so \<^verbatim>\<open>Raw\<close>, which is not copied, is 0.\<close>

definition ReadResponseHeader :: "('t, 'm) pb_lib \<Rightarrow> (u8, rpc_response) reader" where
  "ReadResponseHeader P r =
     (case decode_with (UnmarshalRsp P) r of
        (Inl err, r') \<Rightarrow> (Inl err, r')
      | (Inr resp, r') \<Rightarrow>
          (Inr \<lparr>sServiceMethod = pMethod resp, sSeq = pSeq resp, sError = pError resp, sRet = ucast (pRet resp), sRaw = 0\<rparr>, r'))"

definition ReadResponseBody :: "('t, 'm) pb_lib \<Rightarrow> u32 \<Rightarrow> 't option \<Rightarrow> (u8, 'm option) reader" where
  "ReadResponseBody P raw body r = decode P raw body r"

definition ReadByteResponseBody :: "(u8, bytes) reader" where
  "ReadByteResponseBody r = readFrame r"


section \<open>The server's codec\<close>

definition WriteResponse :: "('t, 'm) pb_lib \<Rightarrow> rpc_response \<Rightarrow> 'm any \<Rightarrow> byte_writer \<Rightarrow> byte_writer \<times> go_error option" where
  "WriteResponse P resp body w =
     (let cresp = \<lparr>pMethod = sServiceMethod resp, pSeq = sSeq resp, pError = sError resp,
                   pRet = ucast (sRet resp), pRaw = word_of_int (sRaw resp)\<rparr>
      in case encode_rsp P [] cresp of
           Inl err \<Rightarrow> (w, Some err)
         | Inr buff \<Rightarrow>
             (case encode P buff (pRaw cresp) body of
                Inl err \<Rightarrow> (w, Some err)
              | Inr buff' \<Rightarrow> bufio_Write buff' w))"

definition ReadRequestHeader :: "('t, 'm) pb_lib \<Rightarrow> (u8, rpc_request) reader" where
  "ReadRequestHeader P r =
     (case decode_with (UnmarshalReq P) r of
        (Inl err, r') \<Rightarrow> (Inl err, r')
      | (Inr h, r') \<Rightarrow>
          (Inr \<lparr>ServiceMethod = qMethod h, rSeq = qSeq h, NoResp = qNoResp h,
                Conn = map_option copy_context (qContext h), Raw = sint (qRaw h)\<rparr>, r'))"

definition ReadRequestBody :: "('t, 'm) pb_lib \<Rightarrow> u32 \<Rightarrow> 't option \<Rightarrow> (u8, 'm option) reader" where
  "ReadRequestBody P raw body r = decode P raw body r"


section \<open>Laws of the libraries\<close>

text \<open>
  \<open>typ_of m t\<close>: the message \<open>m\<close> is of the type \<open>t\<close>. Unmarshalling into a target of
  the right type gives back what was marshalled.
\<close>

definition pb_laws :: "('t, 'm) pb_lib \<Rightarrow> ('m \<Rightarrow> 't \<Rightarrow> bool) \<Rightarrow> bool" where
  "pb_laws P typ_of \<longleftrightarrow>
     (\<forall>m t b. typ_of m t \<longrightarrow> Marshal P m = Inr b \<longrightarrow> Unmarshal P t b = Inr m) \<and>
     (\<forall>m t b. typ_of m t \<longrightarrow> jsonMarshal P m = Inr b \<longrightarrow> jsonUnmarshal P t b = Inr m) \<and>
     (\<forall>h b. MarshalReq P h = Inr b \<longrightarrow> UnmarshalReq P b = Inr h) \<and>
     (\<forall>h b. MarshalRsp P h = Inr b \<longrightarrow> UnmarshalRsp P b = Inr h)"


section \<open>Frames round-trip\<close>

definition frame_bytes :: "bytes \<Rightarrow> bytes" where
  "frame_bytes b = be32 (word_of_nat (length b)) @ b"

lemma writeFrame_bytes:
  "writeFrame w b = (if length b \<ge> tooBig then Inl errBadCount else Inr (w @ frame_bytes b))"
  by (simp add: writeFrame_def frame_bytes_def Let_def)

lemma frame_length_word: "l < tooBig \<Longrightarrow> unat (word_of_nat l :: u32) = l"
  by (simp add: unsigned_of_nat take_bit_nat_eq_self tooBig_def)

lemma readFrame_frame [go_wire_simps]:
  assumes "length b < tooBig"
  shows "readFrame (frame_bytes b @ r) = (Inr b, r)"
proof -
  let ?n = "be32 (word_of_nat (length b))"
  have "ReadFull 4 (?n @ b @ r) = (Inr ?n, b @ r)" by (simp add: ReadFull_exact)
  with assms show ?thesis by (simp add: readFrame_def frame_bytes_def frame_length_word)
qed

interpretation frame: wire_codec frame_bytes readFrame "\<lambda>b. length b < tooBig"
  by unfold_locales (rule readFrame_frame)


section \<open>Requests and responses round-trip\<close>

lemma encode_req_Inr:
  "encode_req P w h = Inr b \<longleftrightarrow> (\<exists>x. MarshalReq P h = Inr x \<and> length x < tooBig \<and> b = w @ frame_bytes x)"
  by (auto simp: encode_req_def writeFrame_bytes split: sum.splits if_splits)

lemma encode_rsp_Inr:
  "encode_rsp P w h = Inr b \<longleftrightarrow> (\<exists>x. MarshalRsp P h = Inr x \<and> length x < tooBig \<and> b = w @ frame_bytes x)"
  by (auto simp: encode_rsp_def writeFrame_bytes split: sum.splits if_splits)

lemma encode_Inr:
  "encode P w raw (Pb m) = Inr b \<longleftrightarrow>
     (\<exists>x. (if raw = 2 then jsonMarshal P m else Marshal P m) = Inr x \<and> length x < tooBig \<and> b = w @ frame_bytes x)"
  by (auto simp: encode_def writeFrame_bytes split: sum.splits if_splits)

lemma bufio_Write_None: "bufio_Write b w = (w', None) \<longleftrightarrow> bwerr w = None \<and> w' = w\<lparr>flushed := flushed w @ b\<rparr>"
  by (auto simp: bufio_Write_def split: option.splits)

lemma decode_with_frame:
  "length b < tooBig \<Longrightarrow> decode_with unm (frame_bytes b @ r) = (unm b, r)"
  by (simp add: decode_with_def readFrame_frame)

lemma decode_frame:
  assumes "length b < tooBig" and "(if raw = 2 then jsonUnmarshal P t b else Unmarshal P t b) = Inr m"
  shows "decode P raw (Some t) (frame_bytes b @ r) = (Inr (Some m), r)"
  using assms by (simp add: decode_def readFrame_frame split: if_splits)

lemma decode_discard: "length b < tooBig \<Longrightarrow> decode P raw None (frame_bytes b @ r) = (Inr None, r)"
  by (simp add: decode_def readFrame_frame)

lemma copy_context_idem [simp]: "copy_context (copy_context c) = copy_context c"
  by (simp add: copy_context_def)

lemma raw_word [simp]: "sint (0 :: u32) = 0" "sint (1 :: u32) = 1" "sint (2 :: u32) = 2"
  by simp_all

lemma ret_word [simp]: "ucast (ucast (x :: u16) :: u32) = x"
  by (rule bit_word_eqI) (simp add: bit_simps)

text \<open>The request the server sees, with the context reduced to what travels.\<close>

definition as_received :: "rpc_request \<Rightarrow> rpc_request" where
  "as_received r = r\<lparr>Conn := map_option copy_context (Conn r)\<rparr>"

lemma WriteRequest_roundtrip:
  assumes "pb_laws P typ_of" and "WriteRequest P r (Pb m) w = (w', None)" and "typ_of m t" and "Raw r = 0"
  shows "\<exists>out. flushed w' = flushed w @ out \<and> bwerr w' = None \<and>
    (\<forall>rest. \<exists>mid. ReadRequestHeader P (out @ rest) = (Inr (as_received r), mid) \<and>
       ReadRequestBody P 0 (Some t) mid = (Inr (Some m), rest))"
proof -
  let ?h = "\<lparr>qMethod = ServiceMethod r, qSeq = rSeq r, qContext = map_option copy_context (Conn r),
    qNoResp = NoResp r, qRaw = 0\<rparr>"
  from assms(2,4) obtain x y where x: "MarshalReq P ?h = Inr x" "length x < tooBig"
    and y: "Marshal P m = Inr y" "length y < tooBig"
    and w': "bwerr w = None" "w' = w\<lparr>flushed := flushed w @ frame_bytes x @ frame_bytes y\<rparr>"
    by (auto simp: WriteRequest_def Let_def encode_req_Inr encode_Inr bufio_Write_None split: sum.splits)
  from assms(1,3) x y have u: "UnmarshalReq P x = Inr ?h" "Unmarshal P t y = Inr m" by (auto simp: pb_laws_def)
  have "ReadRequestHeader P (frame_bytes x @ frame_bytes y @ rest) = (Inr (as_received r), frame_bytes y @ rest)" for rest
    using x(2) u(1) assms(4)
    by (simp add: ReadRequestHeader_def decode_with_frame as_received_def option.map_comp o_def)
  moreover have "ReadRequestBody P 0 (Some t) (frame_bytes y @ rest) = (Inr (Some m), rest)" for rest
    unfolding ReadRequestBody_def using y(2) u(2) by (intro decode_frame) simp_all
  ultimately show ?thesis using w' by (intro exI [of _ "frame_bytes x @ frame_bytes y"]) simp
qed

lemma WriteResponse_roundtrip:
  assumes "pb_laws P typ_of" and "WriteResponse P r (Pb m) w = (w', None)" and "typ_of m t"
    and "sRaw r \<in> {0, 1, 2}"
  shows "\<exists>out. flushed w' = flushed w @ out \<and> bwerr w' = None \<and>
    (\<forall>rest. \<exists>mid. ReadResponseHeader P (out @ rest) = (Inr (r\<lparr>sRaw := 0\<rparr>), mid) \<and>
       ReadResponseBody P (word_of_int (sRaw r)) (Some t) mid = (Inr (Some m), rest) \<and>
       ReadResponseBody P raw None mid = (Inr None, rest) \<and>
       (\<exists>b. (if sRaw r = 2 then jsonMarshal P m else Marshal P m) = Inr b \<and> ReadByteResponseBody mid = (Inr b, rest)))"
proof -
  let ?h = "\<lparr>pMethod = sServiceMethod r, pSeq = sSeq r, pError = sError r, pRet = ucast (sRet r), pRaw = word_of_int (sRaw r)\<rparr>"
  have raw: "(word_of_int (sRaw r) = (2 :: u32)) = (sRaw r = 2)" using assms(4) by auto
  from assms(2) obtain x y where x: "MarshalRsp P ?h = Inr x" "length x < tooBig"
    and y: "(if sRaw r = 2 then jsonMarshal P m else Marshal P m) = Inr y" "length y < tooBig"
    and w': "bwerr w = None" "w' = w\<lparr>flushed := flushed w @ frame_bytes x @ frame_bytes y\<rparr>"
    by (auto simp: WriteResponse_def Let_def encode_rsp_Inr encode_Inr bufio_Write_None raw split: sum.splits)
  from assms(1,3) x(1) y(1) have u: "UnmarshalRsp P x = Inr ?h"
    "(if sRaw r = 2 then jsonUnmarshal P t y else Unmarshal P t y) = Inr m"
    by (auto simp: pb_laws_def)
  have "ReadResponseHeader P (frame_bytes x @ frame_bytes y @ rest) = (Inr (r\<lparr>sRaw := 0\<rparr>), frame_bytes y @ rest)" for rest
    using x(2) u(1) by (cases r) (simp add: ReadResponseHeader_def decode_with_frame)
  moreover have "ReadResponseBody P (word_of_int (sRaw r)) (Some t) (frame_bytes y @ rest) = (Inr (Some m), rest)" for rest
    unfolding ReadResponseBody_def using y(2) u(2) by (intro decode_frame) (simp_all add: raw)
  moreover have "ReadResponseBody P raw None (frame_bytes y @ rest) = (Inr None, rest)" for rest
    unfolding ReadResponseBody_def using y(2) by (rule decode_discard)
  moreover have "ReadByteResponseBody (frame_bytes y @ rest) = (Inr y, rest)" for rest
    unfolding ReadByteResponseBody_def using y(2) by (rule readFrame_frame)
  ultimately show ?thesis using w' y(1) by (intro exI [of _ "frame_bytes x @ frame_bytes y"]) simp
qed

text \<open>A client that does not want the body can always step over it, or take it as bytes.\<close>

lemma WriteResponse_skip:
  assumes "pb_laws P typ_of" and "WriteResponse P r (Pb m) w = (w', None)"
  shows "\<exists>out. flushed w' = flushed w @ out \<and>
    (\<forall>rest. \<exists>mid. ReadResponseHeader P (out @ rest) = (Inr (r\<lparr>sRaw := 0\<rparr>), mid) \<and>
       ReadResponseBody P raw None mid = (Inr None, rest) \<and>
       (\<exists>b. (if (word_of_int (sRaw r) :: u32) = 2 then jsonMarshal P m else Marshal P m) = Inr b \<and> ReadByteResponseBody mid = (Inr b, rest)))"
proof -
  let ?h = "\<lparr>pMethod = sServiceMethod r, pSeq = sSeq r, pError = sError r, pRet = ucast (sRet r), pRaw = word_of_int (sRaw r)\<rparr>"
  from assms(2) obtain x y where x: "MarshalRsp P ?h = Inr x" "length x < tooBig" and y: "length y < tooBig"
    and b: "(if (word_of_int (sRaw r) :: u32) = 2 then jsonMarshal P m else Marshal P m) = Inr y"
    and w': "w' = w\<lparr>flushed := flushed w @ frame_bytes x @ frame_bytes y\<rparr>"
    by (auto simp: WriteResponse_def Let_def encode_rsp_Inr encode_Inr bufio_Write_None split: sum.splits)
  from assms(1) x(1) have u: "UnmarshalRsp P x = Inr ?h" by (auto simp: pb_laws_def)
  have "ReadResponseHeader P (frame_bytes x @ frame_bytes y @ rest) = (Inr (r\<lparr>sRaw := 0\<rparr>), frame_bytes y @ rest)" for rest
    using x(2) u by (cases r) (simp add: ReadResponseHeader_def decode_with_frame)
  moreover have "ReadResponseBody P raw None (frame_bytes y @ rest) = (Inr None, rest)" for rest
    unfolding ReadResponseBody_def using y by (rule decode_discard)
  moreover have "ReadByteResponseBody (frame_bytes y @ rest) = (Inr y, rest)" for rest
    unfolding ReadByteResponseBody_def using y by (rule readFrame_frame)
  ultimately show ?thesis using w' b by (intro exI [of _ "frame_bytes x @ frame_bytes y"]) simp
qed

lemma WriteByteRequest_roundtrip:
  assumes "pb_laws P typ_of" and "WriteByteRequest P r buf w = (w', None)" and "Raw r \<in> {1, 2}"
  shows "\<exists>out. flushed w' = flushed w @ out \<and> bwerr w' = None \<and>
    (\<forall>rest. \<exists>mid. ReadRequestHeader P (out @ rest) = (Inr ((as_received r)\<lparr>NoResp := False\<rparr>), mid) \<and>
       readFrame mid = (Inr buf, rest))"
proof -
  let ?h = "\<lparr>qMethod = ServiceMethod r, qSeq = rSeq r, qContext = map_option copy_context (Conn r),
    qNoResp = False, qRaw = word_of_int (Raw r)\<rparr>"
  from assms(2) obtain x where x: "MarshalReq P ?h = Inr x" "length x < tooBig" and y: "length buf < tooBig"
    and w': "bwerr w = None" "w' = w\<lparr>flushed := flushed w @ frame_bytes x @ frame_bytes buf\<rparr>"
    by (auto simp: WriteByteRequest_def Let_def encode_req_Inr writeFrame_bytes bufio_Write_None
        split: sum.splits if_splits)
  from assms(1) x have u: "UnmarshalReq P x = Inr ?h" by (auto simp: pb_laws_def)
  have "ReadRequestHeader P (frame_bytes x @ frame_bytes buf @ rest) =
      (Inr ((as_received r)\<lparr>NoResp := False\<rparr>), frame_bytes buf @ rest)" for rest
    using x(2) u assms(3) by (auto simp: ReadRequestHeader_def decode_with_frame as_received_def option.map_comp o_def)
  with w' y show ?thesis
    by (intro exI [of _ "frame_bytes x @ frame_bytes buf"]) (simp add: readFrame_frame)
qed


section \<open>Properties\<close>

text \<open>A connection: requests written one after the other, and read with the types the server expects.\<close>

fun write_requests :: "('t, 'm) pb_lib \<Rightarrow> (rpc_request \<times> 'm) list \<Rightarrow> byte_writer \<Rightarrow> byte_writer option" where
  "write_requests P [] w = Some w"
| "write_requests P ((r, m) # rs) w =
     (case WriteRequest P r (Pb m) w of (w', None) \<Rightarrow> write_requests P rs w' | (_, Some _) \<Rightarrow> None)"

fun read_requests :: "('t, 'm) pb_lib \<Rightarrow> 't list \<Rightarrow> (u8, (rpc_request \<times> 'm) list) reader" where
  "read_requests P [] s = (Inr [], s)"
| "read_requests P (t # ts) s =
     (case ReadRequestHeader P s of
        (Inl err, s') \<Rightarrow> (Inl err, s')
      | (Inr r, s') \<Rightarrow>
          (case ReadRequestBody P (word_of_int (Raw r)) (Some t) s' of
             (Inr (Some m), s'') \<Rightarrow>
               (case read_requests P ts s'' of
                  (Inl err, s3) \<Rightarrow> (Inl err, s3)
                | (Inr rs, s3) \<Rightarrow> (Inr ((r, m) # rs), s3))
           | (Inr None, s'') \<Rightarrow> (Inl (GoErr ''no body''), s'')
           | (Inl err, s'') \<Rightarrow> (Inl err, s'')))"

lemma requests_roundtrip:
  assumes "pb_laws P typ_of" and "write_requests P rs w = Some w'"
    and "list_all2 (\<lambda>(r, m) t. typ_of m t \<and> Raw r = 0) rs ts"
  shows "\<exists>out. flushed w' = flushed w @ out \<and>
    (\<forall>rest. read_requests P ts (out @ rest) = (Inr (map (\<lambda>(r, m). (as_received r, m)) rs), rest))"
  using assms(2,3)
proof (induction rs arbitrary: w ts)
  case (Cons x rs)
  obtain r m where x: "x = (r, m)" by (cases x)
  from Cons.prems(2) x obtain t ts' where ts: "ts = t # ts'" "typ_of m t" "Raw r = 0"
    "list_all2 (\<lambda>(r, m) t. typ_of m t \<and> Raw r = 0) rs ts'" by (auto simp: list_all2_Cons1)
  from Cons.prems(1) x obtain w1 where w1: "WriteRequest P r (Pb m) w = (w1, None)" "write_requests P rs w1 = Some w'"
    by (auto split: prod.splits option.splits)
  from WriteRequest_roundtrip [OF assms(1) w1(1) ts(2,3)] obtain o1 where o1: "flushed w1 = flushed w @ o1"
    "\<And>rest. \<exists>mid. ReadRequestHeader P (o1 @ rest) = (Inr (as_received r), mid) \<and>
       ReadRequestBody P 0 (Some t) mid = (Inr (Some m), rest)" by blast
  from Cons.IH [OF w1(2) ts(4)] obtain o2 where o2: "flushed w' = flushed w1 @ o2"
    "\<And>rest. read_requests P ts' (o2 @ rest) = (Inr (map (\<lambda>(r, m). (as_received r, m)) rs), rest)" by blast
  have "read_requests P ts (o1 @ o2 @ rest) = (Inr (map (\<lambda>(r, m). (as_received r, m)) (x # rs)), rest)" for rest
    using o1(2) [of "o2 @ rest"] o2(2) [of rest] ts x by (auto simp: as_received_def)
  with o1(1) o2(1) show ?case by (intro exI [of _ "o1 @ o2"]) simp
qed simp

text \<open>
  C24. What a client writes is what the server reads: any sequence of requests whose headers and
  bodies marshal, written with \<^verbatim>\<open>WriteRequest\<close> on one connection, is read by the
  server's codec in the same order, each with its method, sequence number, flags and body, and
  with its context except the \<^verbatim>\<open>Nodes\<close> list, which does not travel.
\<close>

theorem rpc_request_stream:
  assumes "pb_laws P typ_of" and "write_requests P rs \<lparr>flushed = [], bwerr = None\<rparr> = Some w'"
    and "list_all2 (\<lambda>(r, m) t. typ_of m t \<and> Raw r = 0) rs ts"
  shows "read_requests P ts (flushed w' @ rest) = (Inr (map (\<lambda>(r, m). (as_received r, m)) rs), rest)"
  using requests_roundtrip [OF assms] by auto

text \<open>
  What a server writes is what the client reads: a written response reaches the client with
  its method, sequence number, error text and 16-bit return code unchanged through the 32-bit
  header field, its body either decoded (protobuf or JSON, as the request asked), skipped, or
  taken as the raw bytes that were marshalled, and the stream left at the next response.
\<close>

theorem rpc_response_roundtrip:
  assumes "pb_laws P typ_of" and "WriteResponse P r (Pb m) w = (w', None)" and "typ_of m t"
    and "sRaw r \<in> {0, 1, 2}"
  shows "\<exists>out. flushed w' = flushed w @ out \<and>
    (\<forall>rest. \<exists>mid. ReadResponseHeader P (out @ rest) = (Inr (r\<lparr>sRaw := 0\<rparr>), mid) \<and>
       ReadResponseBody P (word_of_int (sRaw r)) (Some t) mid = (Inr (Some m), rest) \<and>
       ReadResponseBody P 0 None mid = (Inr None, rest) \<and>
       (\<exists>b. (if sRaw r = 2 then jsonMarshal P m else Marshal P m) = Inr b \<and> ReadByteResponseBody mid = (Inr b, rest)))"
  using WriteResponse_roundtrip [OF assms, of 0] by blast

text \<open>
  The byte-level calls lose the no-response flag: whatever request is written with
  \<^verbatim>\<open>WriteByteRequest\<close>, the server reads it with \<^verbatim>\<open>NoResp\<close> false, so a
  \<^verbatim>\<open>RawSend\<close> or \<^verbatim>\<open>JsonSend\<close> is answered.
\<close>

theorem raw_send_loses_NoResp:
  assumes "pb_laws P typ_of" and "WriteByteRequest P r buf w = (w', None)" and "Raw r \<in> {1, 2}"
  shows "\<exists>out. flushed w' = flushed w @ out \<and>
    (\<forall>rest. \<exists>mid. ReadRequestHeader P (out @ rest) = (Inr ((as_received r)\<lparr>NoResp := False\<rparr>), mid) \<and>
       readFrame mid = (Inr buf, rest))"
  using WriteByteRequest_roundtrip [OF assms] by blast

text \<open>A library that knows finitely many messages and writes each as its position.\<close>

definition pos_enc :: "'a list \<Rightarrow> 'a \<Rightarrow> go_error + bytes" where
  "pos_enc xs x =
     (if x \<in> set xs then Inr (replicate (length (takeWhile (\<lambda>y. y \<noteq> x) xs)) 0) else Inl (GoErr ''unknown''))"

definition pos_dec :: "'a list \<Rightarrow> bytes \<Rightarrow> go_error + 'a" where
  "pos_dec xs b = (if length b < length xs then Inr (xs ! length b) else Inl (GoErr ''unknown''))"

lemma takeWhile_found: "x \<in> set xs \<Longrightarrow> length (takeWhile (\<lambda>y. y \<noteq> x) xs) < length xs"
  by (induction xs) auto

lemma pos_dec_enc: "pos_enc xs x = Inr b \<Longrightarrow> pos_dec xs b = Inr x"
proof -
  assume "pos_enc xs x = Inr b"
  then have "x \<in> set xs" and b: "length b = length (takeWhile (\<lambda>y. y \<noteq> x) xs)"
    by (auto simp: pos_enc_def split: if_splits)
  then have l: "length (takeWhile (\<lambda>y. y \<noteq> x) xs) < length xs"
    by (intro takeWhile_found)
  from nth_length_takeWhile [OF l] l b show ?thesis by (simp add: pos_dec_def)
qed

definition pos_lib :: "req_header list \<Rightarrow> rsp_header list \<Rightarrow> string list \<Rightarrow> ('t, string) pb_lib" where
  "pos_lib qs ps ms =
     \<lparr>Marshal = pos_enc ms, Unmarshal = (\<lambda>_. pos_dec ms), jsonMarshal = pos_enc ms, jsonUnmarshal = (\<lambda>_. pos_dec ms),
      MarshalReq = pos_enc qs, UnmarshalReq = pos_dec qs, MarshalRsp = pos_enc ps, UnmarshalRsp = pos_dec ps,
      NullMessage = []\<rparr>"

lemma pos_lib_laws: "pb_laws (pos_lib qs ps ms) (\<lambda>_ _. True)"
  by (auto simp: pb_laws_def pos_lib_def intro: pos_dec_enc)

definition demo_context :: rpc_context where
  "demo_context =
     \<lparr>GateName = ''gate'', Remote = ''r'', ctxId = 1, Token = ''t'', Uid = 9, Nodes = [\<lparr>ServiceName = ''s'', NodeName = ''n''\<rparr>],
      CallId = 3, Game = ''g'', Kvs = [''a'' \<mapsto> ''b''], Ps = Map.empty\<rparr>"

definition demo_req :: "u64 \<Rightarrow> int \<Rightarrow> rpc_request" where
  "demo_req q raw = \<lparr>ServiceMethod = ''Db.Get'', rSeq = q, NoResp = True, Conn = Some demo_context, Raw = raw\<rparr>"

definition demo_header :: "u64 \<Rightarrow> bool \<Rightarrow> u32 \<Rightarrow> req_header" where
  "demo_header q nr raw =
     \<lparr>qMethod = ''Db.Get'', qSeq = q, qContext = Some (copy_context demo_context), qNoResp = nr, qRaw = raw\<rparr>"

definition demo_lib :: "(unit, string) pb_lib" where
  "demo_lib =
     pos_lib [demo_header 0 True 0, demo_header 1 True 0, demo_header 2 False 1]
       [\<lparr>pMethod = ''Db.Get'', pSeq = 4, pError = [], pRet = 70, pRaw = 2\<rparr>] [''x'', ''y'']"

lemma demo_lib_laws: "pb_laws demo_lib (\<lambda>_ _. True)"
  by (simp add: demo_lib_def pos_lib_laws)

lemmas demo_lib_simps = demo_lib_def pos_lib_def pos_enc_def demo_header_def demo_req_def tooBig_def
  encode_req_def encode_rsp_def encode_def writeFrame_bytes bufio_Write_def

theorem rpc_request_stream_witness:
  "\<exists>w'. write_requests demo_lib [(demo_req 0 0, ''y''), (demo_req 1 0, ''x'')] \<lparr>flushed = [], bwerr = None\<rparr> = Some w' \<and>
     read_requests demo_lib [(), ()] (flushed w' @ [7]) =
       (Inr [(as_received (demo_req 0 0), ''y''), (as_received (demo_req 1 0), ''x'')], [7])"
proof -
  let ?rs = "[(demo_req 0 0, ''y''), (demo_req 1 0, ''x'')]"
  obtain w' where w: "write_requests demo_lib ?rs \<lparr>flushed = [], bwerr = None\<rparr> = Some w'"
    by (simp add: WriteRequest_def demo_lib_simps)
  have "list_all2 (\<lambda>(r, m) t. True \<and> Raw r = 0) ?rs [(), ()]" by (simp add: demo_req_def)
  from w rpc_request_stream [OF demo_lib_laws w this, of "[7]"] show ?thesis by auto
qed

theorem rpc_response_roundtrip_witness:
  "\<exists>w' out. WriteResponse demo_lib \<lparr>sServiceMethod = ''Db.Get'', sSeq = 4, sError = [], sRet = 70, sRaw = 2\<rparr> (Pb ''y'')
      \<lparr>flushed = [], bwerr = None\<rparr> = (w', None) \<and> flushed w' = out \<and>
     (\<exists>mid. ReadResponseHeader demo_lib (out @ [7]) =
        (Inr \<lparr>sServiceMethod = ''Db.Get'', sSeq = 4, sError = [], sRet = 70, sRaw = 0\<rparr>, mid))"
proof -
  let ?r = "\<lparr>sServiceMethod = ''Db.Get'', sSeq = 4, sError = [], sRet = 70, sRaw = 2\<rparr>"
  obtain w' where w: "WriteResponse demo_lib ?r (Pb ''y'') \<lparr>flushed = [], bwerr = None\<rparr> = (w', None)"
    by (simp add: WriteResponse_def demo_lib_simps)
  with rpc_response_roundtrip [OF demo_lib_laws w] show ?thesis by fastforce
qed

theorem raw_send_loses_NoResp_witness:
  "\<exists>w' mid. WriteByteRequest demo_lib (demo_req 2 1) [1, 2] \<lparr>flushed = [], bwerr = None\<rparr> = (w', None) \<and> NoResp (demo_req 2 1) \<and>
     ReadRequestHeader demo_lib (flushed w' @ []) = (Inr ((as_received (demo_req 2 1))\<lparr>NoResp := False\<rparr>), mid)"
proof -
  obtain w' where w: "WriteByteRequest demo_lib (demo_req 2 1) [1, 2] \<lparr>flushed = [], bwerr = None\<rparr> = (w', None)"
    by (simp add: WriteByteRequest_def demo_lib_simps)
  have "Raw (demo_req 2 1) \<in> {1, 2}" "NoResp (demo_req 2 1)" by (simp_all add: demo_req_def)
  moreover from raw_send_loses_NoResp [OF demo_lib_laws w this(1)]
  obtain out where "flushed w' = [] @ out"
    and o: "\<exists>mid. ReadRequestHeader demo_lib (out @ []) = (Inr ((as_received (demo_req 2 1))\<lparr>NoResp := False\<rparr>), mid)"
    by (auto simp del: append_Nil2)
  then have "flushed w' = out" by simp
  with w o calculation show ?thesis by blast
qed

end
