(* ===== verification/Rpc_Server.thy ===== *)
theory Rpc_Server
  imports Rpc_Codec
begin

text \<open>
  The rpc server, \<^verbatim>\<open>rpc/go_server.go\<close>: registration of services by reflection, the
  dispatch of a request to a method, direct calls, and the loop that serves a connection. The
  reflected types are values of \<open>go_type\<close>; the handlers of the application are functions on
  its state \<open>'st\<close> that return or panic. \<^verbatim>\<open>util.Submit\<close> runs a call in another
  goroutine, so a connection is a transition system whose jobs complete in any order.
\<close>

section \<open>Reflection\<close>

datatype kind = KStruct | KInterface | KMap | KSlice | KBasic

datatype go_type = PtrTo go_type | Named string string kind

fun Elem :: "go_type \<Rightarrow> go_type outcome" where
  "Elem (PtrTo t) = Ret t"
| "Elem (Named n p k) = Panic ''reflect: Elem of invalid type''"

fun is_ptr :: "go_type \<Rightarrow> bool" where
  "is_ptr (PtrTo t) = True"
| "is_ptr (Named n p k) = False"

fun is_interface :: "go_type \<Rightarrow> bool" where
  "is_interface (Named n p KInterface) = True"
| "is_interface _ = False"

definition typeOfError :: go_type where
  "typeOfError = Named ''error'' [] KInterface"

definition typeOfUint16 :: go_type where
  "typeOfUint16 = Named ''uint16'' [] KBasic"

text \<open>
  \<^verbatim>\<open>unicode.IsUpper\<close> of the first rune: exact on ASCII, \<open>upper\<close> stands for the
  Unicode tables beyond it.
\<close>

definition isExported :: "(string \<Rightarrow> bool) \<Rightarrow> string \<Rightarrow> bool" where
  "isExported upper name =
     (case name of
        [] \<Rightarrow> False
      | c # _ \<Rightarrow> if of_char c < (128 :: nat) then 65 \<le> (of_char c :: nat) \<and> (of_char c :: nat) \<le> 90 else upper name)"

fun isExportedOrBuiltinType :: "(string \<Rightarrow> bool) \<Rightarrow> go_type \<Rightarrow> bool" where
  "isExportedOrBuiltinType upper (PtrTo t) = isExportedOrBuiltinType upper t"
| "isExportedOrBuiltinType upper (Named n pkg k) \<longleftrightarrow> isExported upper n \<or> pkg = []"

text \<open>A method of a receiver: its name, package path, argument and result types, and its code.\<close>

type_synonym ('m, 'st) handler =
  "rpc_context option \<Rightarrow> 'm \<Rightarrow> 'm \<Rightarrow> 'st \<Rightarrow> (u16 \<times> go_error option \<times> 'm) outcome \<times> 'st"

record ('m, 'st) method_sig =
  mName :: string
  PkgPath :: string
  Ins :: "go_type list"
  Outs :: "go_type list"
  Func :: "('m, 'st) handler"

record ('m, 'st) method_type =
  ArgType :: go_type
  ReplyType :: go_type
  mFunc :: "('m, 'st) handler"
  numCalls :: u64

type_synonym ('m, 'st) methods = "(string, ('m, 'st) method_type) gmap"

record ('m, 'st) receiver =
  TypeName :: string
  TypeString :: string
  MethodSet :: "('m, 'st) method_sig list"
  PtrMethodSet :: "('m, 'st) method_sig list"

record ('m, 'st) rpc_server =
  serviceMap :: "(string, ('m, 'st) methods) gmap"
  appState :: 'st
  hasCallBack :: bool
  cbLog :: "(rpc_context option \<times> string \<times> 'm \<times> 'm \<times> u16 \<times> go_error option) list"

text \<open>What else the code asks of the reflected types and the JSON decoder of protobuf.\<close>

record 'm reflect_lib =
  zero_of :: "go_type \<Rightarrow> 'm"
  isPb :: "go_type \<Rightarrow> bool"
  protojsonUnmarshal :: "go_type \<Rightarrow> bytes \<Rightarrow> go_error + 'm"
  partial :: "bool \<Rightarrow> go_type \<Rightarrow> bytes \<Rightarrow> 'm"

definition NewServer :: "'st \<Rightarrow> ('m, 'st) rpc_server" where
  "NewServer st = \<lparr>serviceMap = [], appState = st, hasCallBack = False, cbLog = []\<rparr>"


section \<open>Registration\<close>

definition suitable :: "(string \<Rightarrow> bool) \<Rightarrow> ('m, 'st) method_sig \<Rightarrow> bool" where
  "suitable upper m =
     (if PkgPath m \<noteq> [] then False
      else if length (Ins m) \<noteq> 4 then False
      else if \<not> isExportedOrBuiltinType upper (Ins m ! 2) then False
      else if \<not> is_ptr (Ins m ! 3) \<and> \<not> is_interface (Ins m ! 3) then False
      else if \<not> isExportedOrBuiltinType upper (Ins m ! 3) then False
      else if length (Outs m) \<noteq> 2 then False
      else if Outs m ! 1 \<noteq> typeOfError then False
      else Outs m ! 0 = typeOfUint16)"

fun suitableMethods :: "(string \<Rightarrow> bool) \<Rightarrow> ('m, 'st) method_sig list \<Rightarrow> ('m, 'st) methods \<Rightarrow> ('m, 'st) methods" where
  "suitableMethods upper [] methods = methods"
| "suitableMethods upper (m # ms) methods =
     suitableMethods upper ms
       (if suitable upper m
        then gmap_set (mName m) \<lparr>ArgType = Ins m ! 2, ReplyType = Ins m ! 3, mFunc = Func m, numCalls = 0\<rparr> methods
        else methods)"

definition register ::
  "(string \<Rightarrow> bool) \<Rightarrow> ('m, 'st) receiver \<Rightarrow> string \<Rightarrow> bool \<Rightarrow> ('m, 'st) rpc_server \<Rightarrow> ('m, 'st) rpc_server \<times> go_error option" where
  "register upper rcvr name useName server =
     (let sname = (if useName then name else TypeName rcvr) in
      if sname = [] then (server, Some (GoErr (''rpc.Register: no service name for type '' @ TypeString rcvr)))
      else if \<not> isExported upper sname \<and> \<not> useName
      then (server, Some (GoErr (''rpc.Register: type '' @ sname @ '' is not exported'')))
      else
        let methods = suitableMethods upper (MethodSet rcvr) [] in
        if methods = [] then
          (server, Some (GoErr
             (if suitableMethods upper (PtrMethodSet rcvr) [] \<noteq> []
              then ''rpc.Register: type '' @ sname @ '' has no exported methods of suitable type (hint: pass a pointer to value of that type)''
              else ''rpc.Register: type '' @ sname @ '' has no exported methods of suitable type'')))
        else if map_of (serviceMap server) sname \<noteq> None
        then (server, Some (GoErr (''rpc: service already defined: '' @ sname)))
        else (server\<lparr>serviceMap := gmap_set sname methods (serviceMap server)\<rparr>, None))"

definition Register where
  "Register upper rcvr server = register upper rcvr [] False server"

definition RegisterName where
  "RegisterName upper name rcvr server = register upper rcvr name True server"


section \<open>Dispatch\<close>

definition dot :: char where
  "dot = CHR 0x2E"

definition splitServiceMethod :: "string \<Rightarrow> string \<times> string" where
  "splitServiceMethod sm =
     (case LastIndex dot sm of None \<Rightarrow> ([], []) | Some d \<Rightarrow> (take d sm, drop (d + 1) sm))"

definition cant_find :: "string \<Rightarrow> string" where
  "cant_find what = ''can'' @ [CHR 0x27] @ ''t find '' @ what @ '' ''"

definition find_method :: "string \<Rightarrow> string \<Rightarrow> ('m, 'st) rpc_server \<Rightarrow> ('m, 'st) method_type option" where
  "find_method svc meth server =
     (case map_of (serviceMap server) svc of None \<Rightarrow> None | Some methods \<Rightarrow> map_of methods meth)"

definition NumCalls :: "string \<Rightarrow> string \<Rightarrow> ('m, 'st) rpc_server \<Rightarrow> u64" where
  "NumCalls svc meth server = (case find_method svc meth server of None \<Rightarrow> 0 | Some m \<Rightarrow> numCalls m)"

definition count_call :: "string \<Rightarrow> string \<Rightarrow> ('m, 'st) rpc_server \<Rightarrow> ('m, 'st) rpc_server" where
  "count_call svc meth server =
     (case map_of (serviceMap server) svc of
        None \<Rightarrow> server
      | Some methods \<Rightarrow>
          (case map_of methods meth of
             None \<Rightarrow> server
           | Some m \<Rightarrow>
               server\<lparr>serviceMap :=
                 gmap_set svc (gmap_set meth (m\<lparr>numCalls := numCalls m + 1\<rparr>) methods) (serviceMap server)\<rparr>))"

definition invoke ::
  "string \<Rightarrow> string \<Rightarrow> ('m, 'st) method_type \<Rightarrow> rpc_context option \<Rightarrow> 'm \<Rightarrow> 'm \<Rightarrow> ('m, 'st) rpc_server \<Rightarrow>
   (u16 \<times> go_error option \<times> 'm) outcome \<times> ('m, 'st) rpc_server" where
  "invoke svc meth m conn argv replyv server =
     (let server1 = count_call svc meth server;
          (res, st) = mFunc m conn argv replyv (appState server1)
      in (res, server1\<lparr>appState := st\<rparr>))"

definition call_back where
  "call_back entry server = (if hasCallBack server then server\<lparr>cbLog := cbLog server @ [entry]\<rparr> else server)"

text \<open>\<^verbatim>\<open>Server.RawCall\<close>: a byte string in, a byte string out. A panic of the handler escapes.\<close>

definition raw_arg :: "(go_type, 'm) pb_lib \<Rightarrow> 'm reflect_lib \<Rightarrow> bool \<Rightarrow> go_type \<Rightarrow> bytes \<Rightarrow> 'm" where
  "raw_arg P L js t buf =
     (case (if js then protojsonUnmarshal L t buf else Unmarshal P t buf) of
        Inl _ \<Rightarrow> partial L js t buf
      | Inr m \<Rightarrow> m)"

definition server_RawCall ::
  "(go_type, 'm) pb_lib \<Rightarrow> 'm reflect_lib \<Rightarrow> rpc_context option \<Rightarrow> string \<Rightarrow> bytes \<Rightarrow> bool \<Rightarrow> ('m, 'st) rpc_server \<Rightarrow>
   (u16 \<times> (go_error + bytes)) outcome \<times> ('m, 'st) rpc_server" where
  "server_RawCall P L conn serviceMethod reqBuff js server =
     (case splitServiceMethod serviceMethod of (serviceName, methodName) \<Rightarrow>
      if serviceName = [] \<or> methodName = []
      then (Ret (0, Inl (GoErr (''rpc: service/method request ill-formed: '' @ serviceMethod))), server)
      else case map_of (serviceMap server) serviceName of
        None \<Rightarrow> (Ret (0, Inl (GoErr (''rpc: '' @ cant_find ''service'' @ serviceName))), server)
      | Some methods \<Rightarrow>
          (case map_of methods methodName of
             None \<Rightarrow> (Ret (0, Inl (GoErr (''rpc1: '' @ cant_find ''method'' @ methodName))), server)
           | Some m \<Rightarrow>
               (case (Elem (ArgType m), Elem (ReplyType m)) of
                  (Ret ta, Ret tr) \<Rightarrow>
                    if \<not> isPb L ta then (Ret (0, Inl (GoErr ''does not implement proto.Message'')), server)
                    else
                      let argv = raw_arg P L js ta reqBuff in
                      (case invoke serviceName methodName m conn argv (zero_of L tr) server of
                         (Panic e, server') \<Rightarrow> (Panic e, server')
                       | (Ret (ret, err, reply), server') \<Rightarrow>
                           let server2 = call_back (conn, serviceMethod, argv, reply, ret, None) server' in
                           (case err of
                              Some e \<Rightarrow> (Ret (0, Inl e), server2)
                            | None \<Rightarrow>
                                if \<not> isPb L tr then (Ret (0, Inl (GoErr ''does not implement proto.Message'')), server2)
                                else (case (if js then jsonMarshal P reply else Marshal P reply) of
                                        Inl e \<Rightarrow> (Ret (0, Inl e), server2)
                                      | Inr buf \<Rightarrow> (Ret (ret, Inr buf), server2))))
                | _ \<Rightarrow> (Panic ''reflect: Elem of invalid type'', server))))"

text \<open>\<^verbatim>\<open>Server.InternalCall\<close>: the reply message is filled in place.\<close>

definition InternalCall ::
  "(go_type, 'm) pb_lib \<Rightarrow> rpc_context option \<Rightarrow> string \<Rightarrow> 'm \<Rightarrow> 'm option \<Rightarrow> ('m, 'st) rpc_server \<Rightarrow>
   (u16 \<times> go_error option \<times> 'm) outcome \<times> ('m, 'st) rpc_server" where
  "InternalCall P conn serviceMethod req rsp server =
     (let rsp' = (case rsp of None \<Rightarrow> NullMessage P | Some r \<Rightarrow> r) in
      case splitServiceMethod serviceMethod of (serviceName, methodName) \<Rightarrow>
      if serviceName = [] \<or> methodName = []
      then (Ret (0, Some (GoErr (''rpc: service/method request ill-formed: '' @ serviceMethod)), rsp'), server)
      else case map_of (serviceMap server) serviceName of
        None \<Rightarrow> (Ret (0, Some (GoErr (''rpc: '' @ cant_find ''service'' @ serviceName)), rsp'), server)
      | Some methods \<Rightarrow>
          (case map_of methods methodName of
             None \<Rightarrow> (Ret (0, Some (GoErr (''rpc2: '' @ cant_find ''method'' @ methodName)), rsp'), server)
           | Some m \<Rightarrow>
               (case invoke serviceName methodName m conn req rsp' server of
                  (Panic e, server') \<Rightarrow> (Panic e, server')
                | (Ret (ret, Some e, reply), server') \<Rightarrow> (Ret (0, Some e, reply), server')
                | (Ret (ret, None, reply), server') \<Rightarrow> (Ret (ret, None, reply), server'))))"


section \<open>Serving a connection\<close>

definition sendResponse ::
  "(go_type, 'm) pb_lib \<Rightarrow> rpc_request \<Rightarrow> 'm any \<Rightarrow> u16 \<Rightarrow> string \<Rightarrow> byte_writer \<Rightarrow> rpc_response \<times> byte_writer \<times> go_error option" where
  "sendResponse P req reply ret errmsg w =
     (let resp = \<lparr>sServiceMethod = ServiceMethod req, sSeq = rSeq req, sError = errmsg, sRet = ret, sRaw = Raw req\<rparr>;
          body = (if errmsg \<noteq> [] then Pb (NullMessage P) else reply);
          (w', err) = WriteResponse P resp body w
      in (resp, w', err))"

text \<open>
  A message value seen through its reflected type: only a proto message can be marshalled.
\<close>

definition as_any :: "'m reflect_lib \<Rightarrow> go_type \<Rightarrow> 'm \<Rightarrow> 'm any" where
  "as_any L t m = (if isPb L t then Pb m else NotPb ''message'')"

fun elem_or_self :: "go_type \<Rightarrow> go_type" where
  "elem_or_self (PtrTo t) = t"
| "elem_or_self (Named n p k) = Named n p k"

text \<open>
  A submitted call. The type of the reply is \<open>None\<close> for an interface parameter, whose value
  stays invalid and is replaced by a \<^verbatim>\<open>NullMessage\<close>.
\<close>

record 'm rpc_job =
  jService :: string
  jMethod :: string
  jReq :: rpc_request
  jArg :: 'm
  jReplyType :: "go_type option"

definition job_reply :: "(go_type, 'm) pb_lib \<Rightarrow> 'm reflect_lib \<Rightarrow> 'm rpc_job \<Rightarrow> 'm" where
  "job_reply P L j = (case jReplyType j of None \<Rightarrow> NullMessage P | Some t \<Rightarrow> zero_of L t)"

definition reply_any :: "'m reflect_lib \<Rightarrow> 'm rpc_job \<Rightarrow> 'm \<Rightarrow> 'm any" where
  "reply_any L j m = (case jReplyType j of None \<Rightarrow> Pb m | Some t \<Rightarrow> as_any L t m)"

text \<open>
  \<^verbatim>\<open>service.call\<close>: the deferred function answers also when the handler panics, unless no
  response was asked for. The result carries the response that was attempted.
\<close>

definition service_call ::
  "(go_type, 'm) pb_lib \<Rightarrow> 'm reflect_lib \<Rightarrow> 'm rpc_job \<Rightarrow> ('m, 'st) rpc_server \<Rightarrow> byte_writer \<Rightarrow>
   (rpc_response \<times> go_error option) option \<times> ('m, 'st) rpc_server \<times> byte_writer" where
  "service_call P L j server w =
     (case find_method (jService j) (jMethod j) server of
        None \<Rightarrow> (None, server, w)
      | Some m \<Rightarrow>
          let (res, server1) = invoke (jService j) (jMethod j) m (Conn (jReq j)) (jArg j) (job_reply P L j) server;
              (ret, errmsg, reply, server2) =
                (case res of
                   Panic e \<Rightarrow> (1, ''server exception'', job_reply P L j, server1)
                 | Ret (ret, err, reply) \<Rightarrow>
                     let errmsg = (case err of None \<Rightarrow> [] | Some e \<Rightarrow> err_msg e) in
                     (ret, errmsg, reply,
                      call_back (Conn (jReq j), ServiceMethod (jReq j), jArg j, reply, ret, Some (GoErr errmsg)) server1))
          in if NoResp (jReq j) then (None, server2, w)
             else (case sendResponse P (jReq j) (reply_any L j reply) ret errmsg w of
                     (resp, w', err) \<Rightarrow> (Some (resp, err), server2, w')))"

datatype 'm read_result =
    ReadStop go_error
  | ReadBad rpc_request go_error
  | ReadOk "'m rpc_job"
  | ReadPanic

text \<open>
  \<^verbatim>\<open>readRequestHeader\<close>: nothing to answer when the header cannot be read; after that
  an unknown name is an error the connection survives.
\<close>

definition readRequestHeader ::
  "(go_type, 'm) pb_lib \<Rightarrow> ('m, 'st) rpc_server \<Rightarrow>
   (u8, rpc_request \<times> (go_error + (string \<times> string \<times> ('m, 'st) method_type))) reader" where
  "readRequestHeader P server inp =
     (case ReadRequestHeader P inp of
        (Inl err, r) \<Rightarrow>
          (Inl (if err = EOF \<or> err = ErrUnexpectedEOF then err
                else GoErr (''rpc: server cannot decode request: '' @ err_msg err)), r)
      | (Inr req, r) \<Rightarrow>
          (Inr (req,
             case LastIndex dot (ServiceMethod req) of
               None \<Rightarrow> Inl (GoErr (''rpc: service/method request ill-formed: '' @ ServiceMethod req))
             | Some d \<Rightarrow>
                 let serviceName = take d (ServiceMethod req); methodName = drop (d + 1) (ServiceMethod req) in
                 (case map_of (serviceMap server) serviceName of
                    None \<Rightarrow> Inl (GoErr (''rpc: '' @ cant_find ''service'' @ ServiceMethod req))
                  | Some methods \<Rightarrow>
                      (case map_of methods methodName of
                         None \<Rightarrow> Inl (GoErr (''rpc3: '' @ cant_find ''method'' @ ServiceMethod req))
                       | Some m \<Rightarrow> Inr (serviceName, methodName, m)))), r))"

definition readRequest ::
  "(go_type, 'm) pb_lib \<Rightarrow> 'm reflect_lib \<Rightarrow> ('m, 'st) rpc_server \<Rightarrow> bytes \<Rightarrow> 'm read_result \<times> bytes" where
  "readRequest P L server inp =
     (case readRequestHeader P server inp of
        (Inl err, r) \<Rightarrow> (ReadStop err, r)
      | (Inr (req, Inl err), r) \<Rightarrow>
          (ReadBad req err, snd (ReadRequestBody P (word_of_int (Raw req)) None r))
      | (Inr (req, Inr (svc, meth, m)), r) \<Rightarrow>
          (let t = elem_or_self (ArgType m) in
           if \<not> isPb L t \<and> (word_of_int (Raw req) :: u32) \<noteq> 2 then
             (case readFrame r of (Inl err, r') \<Rightarrow> (ReadBad req err, r') | (Inr _, r') \<Rightarrow> (ReadPanic, r'))
           else
             (case ReadRequestBody P (word_of_int (Raw req)) (Some t) r of
                (Inl err, r') \<Rightarrow> (ReadBad req err, r')
              | (Inr None, r') \<Rightarrow> (ReadPanic, r')
              | (Inr (Some argv), r') \<Rightarrow>
                  (ReadOk \<lparr>jService = svc, jMethod = meth, jReq = req, jArg = argv,
                           jReplyType = (if is_interface (ReplyType m) then None else Some (elem_or_self (ReplyType m)))\<rparr>, r'))))"

text \<open>
  The loop of \<^verbatim>\<open>ServeCodec\<close> with its submitted calls. The ghost lists record the
  requests whose header was read and the responses attempted with the outcome of the write.
\<close>

record ('m, 'st) conn_state =
  cServer :: "('m, 'st) rpc_server"
  cIn :: bytes
  cOut :: byte_writer
  cJobs :: "'m rpc_job list"
  cServing :: bool
  cRead :: "rpc_request list"
  cAnswers :: "(rpc_response \<times> go_error option) list"

datatype serve_event = EvRead | EvRun nat

definition remove_nth :: "nat \<Rightarrow> 'a list \<Rightarrow> 'a list" where
  "remove_nth i xs = take i xs @ drop (Suc i) xs"

definition answer_bad :: "(go_type, 'm) pb_lib \<Rightarrow> rpc_request \<Rightarrow> go_error \<Rightarrow> ('m, 'st) conn_state \<Rightarrow> ('m, 'st) conn_state" where
  "answer_bad P req err c =
     (if NoResp req then c
      else case sendResponse P req (Pb (NullMessage P)) 0 (err_msg err) (cOut c) of
             (resp, w, e) \<Rightarrow> c\<lparr>cOut := w, cAnswers := cAnswers c @ [(resp, e)]\<rparr>)"

definition serve_read :: "(go_type, 'm) pb_lib \<Rightarrow> 'm reflect_lib \<Rightarrow> ('m, 'st) conn_state \<Rightarrow> ('m, 'st) conn_state" where
  "serve_read P L c =
     (case readRequest P L (cServer c) (cIn c) of
        (ReadStop err, r) \<Rightarrow> c\<lparr>cIn := r, cServing := False\<rparr>
      | (ReadBad req err, r) \<Rightarrow> (answer_bad P req err c)\<lparr>cIn := r, cRead := cRead c @ [req]\<rparr>
      | (ReadOk j, r) \<Rightarrow> c\<lparr>cIn := r, cJobs := cJobs c @ [j], cRead := cRead c @ [jReq j]\<rparr>
      | (ReadPanic, r) \<Rightarrow> c\<lparr>cIn := r, cServing := False\<rparr>)"

definition serve_run :: "(go_type, 'm) pb_lib \<Rightarrow> 'm reflect_lib \<Rightarrow> nat \<Rightarrow> ('m, 'st) conn_state \<Rightarrow> ('m, 'st) conn_state" where
  "serve_run P L i c =
     (case service_call P L (cJobs c ! i) (cServer c) (cOut c) of
        (ans, server, w) \<Rightarrow>
          c\<lparr>cServer := server, cOut := w, cJobs := remove_nth i (cJobs c),
            cAnswers := cAnswers c @ (case ans of None \<Rightarrow> [] | Some a \<Rightarrow> [a])\<rparr>)"

inductive serve_step ::
  "(go_type, 'm) pb_lib \<Rightarrow> 'm reflect_lib \<Rightarrow> serve_event \<Rightarrow> ('m, 'st) conn_state \<Rightarrow> ('m, 'st) conn_state \<Rightarrow> bool" for P L where
  serve_read: "cServing c \<Longrightarrow> serve_step P L EvRead c (serve_read P L c)"
| serve_run: "i < length (cJobs c) \<Longrightarrow> serve_step P L (EvRun i) c (serve_run P L i c)"

inductive_cases serve_stepE: "serve_step P L e c d"

definition ServeConn :: "('m, 'st) rpc_server \<Rightarrow> bytes \<Rightarrow> ('m, 'st) conn_state" where
  "ServeConn server inp =
     \<lparr>cServer = server, cIn = inp, cOut = \<lparr>flushed = [], bwerr = None\<rparr>, cJobs = [], cServing = True, cRead = [], cAnswers = []\<rparr>"

text \<open>\<^verbatim>\<open>ServeRequest\<close> serves one request and returns its error.\<close>

definition ServeRequest ::
  "(go_type, 'm) pb_lib \<Rightarrow> 'm reflect_lib \<Rightarrow> ('m, 'st) conn_state \<Rightarrow> go_error option outcome \<times> ('m, 'st) conn_state" where
  "ServeRequest P L c =
     (case readRequest P L (cServer c) (cIn c) of
        (ReadStop err, r) \<Rightarrow> (Ret (Some err), c\<lparr>cIn := r\<rparr>)
      | (ReadBad req err, r) \<Rightarrow> (Ret (Some err), (answer_bad P req err c)\<lparr>cIn := r, cRead := cRead c @ [req]\<rparr>)
      | (ReadOk j, r) \<Rightarrow> (Ret None, serve_run P L (length (cJobs c)) (c\<lparr>cIn := r, cJobs := cJobs c @ [j], cRead := cRead c @ [jReq j]\<rparr>))
      | (ReadPanic, r) \<Rightarrow> (Panic ''interface conversion'', c\<lparr>cIn := r\<rparr>))"


section \<open>Lookups survive calls\<close>

lemma find_method_count_call [simp]:
  "find_method s m (count_call svc meth server) =
     (if s = svc \<and> m = meth then map_option (\<lambda>m. m\<lparr>numCalls := numCalls m + 1\<rparr>) (find_method s m server)
      else find_method s m server)"
  by (auto simp: find_method_def count_call_def split: option.splits)

lemma find_method_updates [simp]:
  "find_method s m (server\<lparr>appState := st\<rparr>) = find_method s m server"
  "find_method s m (call_back e server) = find_method s m server"
  by (simp_all add: find_method_def call_back_def)

lemma find_method_invoke:
  "invoke svc meth m conn a r server = (res, server') \<Longrightarrow>
   find_method s n server' = None \<longleftrightarrow> find_method s n server = None"
  by (auto simp: invoke_def Let_def split: prod.splits if_splits)

lemma find_method_service_call:
  assumes "service_call P L j server w = (a, server', w')"
  shows "find_method s n server' = None \<longleftrightarrow> find_method s n server = None"
proof (cases "find_method (jService j) (jMethod j) server")
  case (Some m)
  obtain res server1 where i: "invoke (jService j) (jMethod j) m (Conn (jReq j)) (jArg j) (job_reply P L j) server = (res, server1)"
    by fastforce
  with assms Some have "find_method s n server' = find_method s n server1"
    by (auto simp: service_call_def Let_def split: outcome.splits prod.splits if_splits)
  with find_method_invoke [OF i] show ?thesis by simp
qed (use assms in \<open>simp add: service_call_def\<close>)


section \<open>One answer per request\<close>

definition req_key :: "rpc_request \<Rightarrow> u64 \<times> string" where
  "req_key r = (rSeq r, ServiceMethod r)"

definition ans_key :: "rpc_response \<times> go_error option \<Rightarrow> u64 \<times> string" where
  "ans_key a = (sSeq (fst a), sServiceMethod (fst a))"

definition wanted :: "rpc_request list \<Rightarrow> (u64 \<times> string) multiset" where
  "wanted rs = mset (map req_key (filter (\<lambda>r. \<not> NoResp r) rs))"

lemma wanted_append [simp]: "wanted (rs @ [r]) = wanted rs + (if NoResp r then {#} else {#req_key r#})"
  by (simp add: wanted_def)

definition serve_inv :: "('m, 'st) conn_state \<Rightarrow> bool" where
  "serve_inv c \<longleftrightarrow>
     wanted (cRead c) = mset (map ans_key (cAnswers c)) + wanted (map jReq (cJobs c)) \<and>
     (\<forall>j\<in>set (cJobs c). find_method (jService j) (jMethod j) (cServer c) \<noteq> None)"

lemma service_call_answers:
  assumes "service_call P L j server w = (a, server', w')" and "find_method (jService j) (jMethod j) server \<noteq> None"
  shows "map ans_key (case a of None \<Rightarrow> [] | Some x \<Rightarrow> [x]) = (if NoResp (jReq j) then [] else [req_key (jReq j)])"
  using assms by (auto simp: service_call_def sendResponse_def Let_def ans_key_def req_key_def
      split: outcome.splits prod.splits if_splits)

lemma wanted_remove:
  assumes "i < length js"
  shows "wanted (map jReq js) =
    (if NoResp (jReq (js ! i)) then {#} else {#req_key (jReq (js ! i))#}) + wanted (map jReq (remove_nth i js))"
proof -
  have "js = take i js @ js ! i # drop (Suc i) js" using assms by (rule id_take_nth_drop)
  then have "wanted (map jReq js) = wanted (map jReq (take i js @ js ! i # drop (Suc i) js))" by simp
  also have "\<dots> = (if NoResp (jReq (js ! i)) then {#} else {#req_key (jReq (js ! i))#}) + wanted (map jReq (remove_nth i js))"
    by (simp add: wanted_def remove_nth_def)
  finally show ?thesis .
qed

lemma set_remove_nth: "set (remove_nth i xs) \<subseteq> set xs"
  by (auto simp: remove_nth_def dest: in_set_takeD in_set_dropD)

lemma readRequest_job:
  "readRequest P L server inp = (ReadOk j, r) \<Longrightarrow> find_method (jService j) (jMethod j) server \<noteq> None"
  by (auto simp: readRequest_def readRequestHeader_def find_method_def Let_def
      split: prod.splits sum.splits option.splits if_splits)

lemma answer_bad_fields [simp]:
  "cJobs (answer_bad P req err c) = cJobs c" "cServer (answer_bad P req err c) = cServer c"
  "image_mset ans_key (mset (cAnswers (answer_bad P req err c))) =
     image_mset ans_key (mset (cAnswers c)) + (if NoResp req then {#} else {#req_key req#})"
  by (auto simp: answer_bad_def sendResponse_def ans_key_def req_key_def Let_def split: prod.splits)

lemma serve_inv_read: "serve_inv c \<Longrightarrow> serve_inv (serve_read P L c)"
proof -
  assume "serve_inv c"
  moreover obtain res r where "readRequest P L (cServer c) (cIn c) = (res, r)" by fastforce
  ultimately show ?thesis
    using readRequest_job [of P L "cServer c" "cIn c"]
    by (cases res) (auto simp: serve_inv_def serve_read_def simp del: not_None_eq)
qed

lemma serve_inv_run:
  assumes "serve_inv c" and "i < length (cJobs c)"
  shows "serve_inv (serve_run P L i c)"
proof -
  let ?j = "cJobs c ! i"
  obtain a server w where s: "service_call P L ?j (cServer c) (cOut c) = (a, server, w)" by (metis prod_cases3)
  from assms have "find_method (jService ?j) (jMethod ?j) (cServer c) \<noteq> None" by (auto simp: serve_inv_def)
  from service_call_answers [OF s this] have "mset (map ans_key (case a of None \<Rightarrow> [] | Some x \<Rightarrow> [x])) =
      (if NoResp (jReq ?j) then {#} else {#req_key (jReq ?j)#})" by simp
  with assms(1) wanted_remove [OF assms(2)] set_remove_nth [of i "cJobs c"] find_method_service_call [OF s]
  show ?thesis by (auto simp: serve_inv_def serve_run_def s)
qed

lemma serve_inv_init: "serve_inv (ServeConn server inp)"
  by (simp add: ServeConn_def serve_inv_def wanted_def)

interpretation serve: step_system "\<lambda>c. \<exists>server inp. c = ServeConn server inp" "serve_step P L" serve_inv for P L
  by unfold_locales (auto elim!: serve_stepE intro: serve_inv_init serve_inv_read serve_inv_run)


section \<open>Registration and dispatch\<close>

lemma LastIndex_method: "dot \<notin> set meth \<Longrightarrow> LastIndex dot (svc @ dot # meth) = Some (length svc)"
  by (rule LastIndex_append)

lemma splitServiceMethod_join: "dot \<notin> set meth \<Longrightarrow> splitServiceMethod (svc @ dot # meth) = (svc, meth)"
  by (simp add: splitServiceMethod_def LastIndex_method)

lemma splitServiceMethod_inv:
  "splitServiceMethod sm = (svc, meth) \<Longrightarrow> svc \<noteq> [] \<Longrightarrow> sm = svc @ dot # meth \<and> dot \<notin> set meth"
  by (auto simp: splitServiceMethod_def dest!: LastIndex_Some split: option.splits) (metis id_take_nth_drop)

definition entry_of :: "('m, 'st) method_sig \<Rightarrow> ('m, 'st) method_type" where
  "entry_of m = \<lparr>ArgType = Ins m ! 2, ReplyType = Ins m ! 3, mFunc = Func m, numCalls = 0\<rparr>"

lemma suitableMethods_lookup:
  assumes "distinct (map mName ms)"
  shows "map_of (suitableMethods upper ms acc) n =
    (case find (\<lambda>m. suitable upper m \<and> mName m = n) ms of
       Some m \<Rightarrow> Some (entry_of m)
     | None \<Rightarrow> map_of acc n)"
  using assms
proof (induction ms arbitrary: acc)
  case (Cons m ms)
  have "find (\<lambda>x. suitable upper x \<and> mName x = mName m) ms = None"
    using Cons.prems unfolding find_None_iff by (metis distinct.simps(2) image_eqI list.set_map list.simps(9))
  with Cons show ?case by (auto simp: entry_of_def split: option.splits)
qed simp

lemma suitableMethods_Nil:
  "suitableMethods upper ms [] = [] \<longleftrightarrow> (\<forall>m\<in>set ms. \<not> suitable upper m)"
proof -
  have ne: "acc \<noteq> [] \<Longrightarrow> suitableMethods upper xs acc \<noteq> []" for acc :: "('a, 'b) methods" and xs
    by (induction xs arbitrary: acc) auto
  show ?thesis
  proof (induction ms)
    case (Cons m ms)
    with ne [of "gmap_set (mName m) (entry_of m) []" ms] show ?case by (auto simp: entry_of_def)
  qed simp
qed

lemma register_ok:
  "register upper rcvr name useName server = (server', None) \<longleftrightarrow>
     (let sname = (if useName then name else TypeName rcvr) in
      sname \<noteq> [] \<and> (isExported upper sname \<or> useName) \<and> (\<exists>m\<in>set (MethodSet rcvr). suitable upper m) \<and>
      map_of (serviceMap server) sname = None \<and>
      server' = server\<lparr>serviceMap := gmap_set sname (suitableMethods upper (MethodSet rcvr) []) (serviceMap server)\<rparr>)"
  using suitableMethods_Nil [of upper "MethodSet rcvr"] by (auto simp: register_def Let_def)




section \<open>A call from end to end\<close>

text \<open>The request \<open>r\<close> with argument \<open>m\<close>, written by a client, names a method of the server.\<close>

definition addressed ::
  "(go_type, 'm) pb_lib \<Rightarrow> ('m \<Rightarrow> go_type \<Rightarrow> bool) \<Rightarrow> 'm reflect_lib \<Rightarrow> ('m, 'st) rpc_server \<Rightarrow> rpc_request \<Rightarrow> 'm \<Rightarrow>
   ('m, 'st) method_type \<Rightarrow> bytes \<Rightarrow> bool" where
  "addressed P typ_of L server r m mt inp \<longleftrightarrow>
     (\<exists>w. WriteRequest P r (Pb m) \<lparr>flushed = [], bwerr = None\<rparr> = (w, None) \<and> inp = flushed w) \<and>
     Raw r = 0 \<and> \<not> NoResp r \<and>
     (\<exists>svc meth. ServiceMethod r = svc @ dot # meth \<and> dot \<notin> set meth \<and> find_method svc meth server = Some mt) \<and>
     isPb L (elem_or_self (ArgType mt)) \<and> typ_of m (elem_or_self (ArgType mt)) \<and>
     (\<exists>tr. ReplyType mt = PtrTo tr \<and> isPb L tr)"

text \<open>The same without asking for an answer.\<close>

definition deliverable ::
  "(go_type, 'm) pb_lib \<Rightarrow> ('m \<Rightarrow> go_type \<Rightarrow> bool) \<Rightarrow> 'm reflect_lib \<Rightarrow> ('m, 'st) rpc_server \<Rightarrow> rpc_request \<Rightarrow> 'm \<Rightarrow>
   ('m, 'st) method_type \<Rightarrow> bytes \<Rightarrow> bool" where
  "deliverable P typ_of L server r m mt inp \<longleftrightarrow>
     (\<exists>w. WriteRequest P r (Pb m) \<lparr>flushed = [], bwerr = None\<rparr> = (w, None) \<and> inp = flushed w) \<and> Raw r = 0 \<and>
     (\<exists>svc meth. ServiceMethod r = svc @ dot # meth \<and> dot \<notin> set meth \<and> find_method svc meth server = Some mt) \<and>
     isPb L (elem_or_self (ArgType mt)) \<and> typ_of m (elem_or_self (ArgType mt)) \<and>
     (\<exists>tr. ReplyType mt = PtrTo tr \<and> isPb L tr)"

lemma addressed_deliverable: "addressed P typ_of L server r m mt inp \<longleftrightarrow> deliverable P typ_of L server r m mt inp \<and> \<not> NoResp r"
  by (auto simp: addressed_def deliverable_def)

lemma deliverable_read:
  assumes "pb_laws P typ_of" and "deliverable P typ_of L server r m mt inp"
  shows "\<exists>svc meth. find_method svc meth server = Some mt \<and>
    readRequest P L server inp =
      (ReadOk \<lparr>jService = svc, jMethod = meth, jReq = as_received r, jArg = m, jReplyType = Some (elem_or_self (ReplyType mt))\<rparr>, [])"
proof -
  let ?t = "elem_or_self (ArgType mt)"
  from assms(2) obtain w svc meth tr where w: "WriteRequest P r (Pb m) \<lparr>flushed = [], bwerr = None\<rparr> = (w, None)" "inp = flushed w"
    and raw: "Raw r = 0" and sm: "ServiceMethod r = svc @ dot # meth" "dot \<notin> set meth" "find_method svc meth server = Some mt"
    and t: "isPb L ?t" "typ_of m ?t" and tr: "ReplyType mt = PtrTo tr"
    by (auto simp: deliverable_def)
  from WriteRequest_roundtrip [OF assms(1) w(1) t(2) raw] obtain out where "flushed w = [] @ out"
    and o: "\<And>rest. \<exists>mid. ReadRequestHeader P (out @ rest) = (Inr (as_received r), mid) \<and>
      ReadRequestBody P 0 (Some ?t) mid = (Inr (Some m), rest)" by auto
  with w(2) o [of "[]"] obtain mid where mid: "ReadRequestHeader P inp = (Inr (as_received r), mid)"
    "ReadRequestBody P 0 (Some ?t) mid = (Inr (Some m), [])" by auto
  have sm': "ServiceMethod (as_received r) = svc @ dot # meth" "Raw (as_received r) = 0"
    using sm(1) raw by (simp_all add: as_received_def)
  from sm(3) obtain ms where "map_of (serviceMap server) svc = Some ms" "map_of ms meth = Some mt"
    by (auto simp: find_method_def split: option.splits)
  with mid sm' sm(2) have "readRequestHeader P server inp = (Inr (as_received r, Inr (svc, meth, mt)), mid)"
    by (simp add: readRequestHeader_def LastIndex_method)
  with mid(2) sm'(2) t(1) tr have "readRequest P L server inp =
      (ReadOk \<lparr>jService = svc, jMethod = meth, jReq = as_received r, jArg = m, jReplyType = Some (elem_or_self (ReplyType mt))\<rparr>, [])"
    by (simp add: readRequest_def Let_def)
  with sm(3) show ?thesis by blast
qed

text \<open>What the caller is told about the outcome of a handler.\<close>

fun reported :: "(u16 \<times> go_error option \<times> 'm) outcome \<Rightarrow> u16 \<times> string" where
  "reported (Panic e) = (1, ''server exception'')"
| "reported (Ret (ret, None, reply)) = (ret, [])"
| "reported (Ret (ret, Some e, reply)) = (ret, err_msg e)"

fun reply_of :: "'m \<Rightarrow> (u16 \<times> go_error option \<times> 'm) outcome \<Rightarrow> 'm" where
  "reply_of z (Panic e) = z"
| "reply_of z (Ret (ret, err, reply)) = reply"

definition response_to :: "rpc_request \<Rightarrow> (u16 \<times> go_error option \<times> 'm) outcome \<Rightarrow> rpc_response" where
  "response_to r res =
     \<lparr>sServiceMethod = ServiceMethod r, sSeq = rSeq r, sError = snd (reported res), sRet = fst (reported res), sRaw = Raw r\<rparr>"

lemma service_call_result:
  assumes "find_method (jService j) (jMethod j) server = Some mt" and "\<not> NoResp (jReq j)"
    and "jReplyType j = Some tr" and "isPb L tr"
    and "mFunc mt (Conn (jReq j)) (jArg j) (zero_of L tr) (appState server) = (res, st)"
    and "WriteResponse P (response_to (jReq j) res)
      (Pb (if snd (reported res) \<noteq> [] then NullMessage P else reply_of (zero_of L tr) res)) w = (w', err)"
  shows "\<exists>server'. service_call P L j server w = (Some (response_to (jReq j) res, err), server', w') \<and> appState server' = st"
proof -
  have a: "appState (count_call s n server) = appState server" for s n
    by (simp add: count_call_def split: option.splits)
  have c: "appState (call_back e x) = appState x" for e and x :: "('a, 'b) rpc_server"
    by (simp add: call_back_def)
  show ?thesis
  proof (cases res)
    case (Panic e)
    with assms a show ?thesis
      by (simp add: service_call_def invoke_def Let_def job_reply_def sendResponse_def response_to_def reply_any_def as_any_def)
  next
    case (Ret x)
    obtain ret e reply where "x = (ret, e, reply)" by (cases x)
    with Ret assms a show ?thesis
      by (cases e) (auto simp: service_call_def invoke_def Let_def job_reply_def sendResponse_def response_to_def
          reply_any_def as_any_def c)
  qed
qed

lemma service_call_silent:
  assumes "find_method (jService j) (jMethod j) server = Some mt" and "NoResp (jReq j)" and "jReplyType j = Some tr"
    and "mFunc mt (Conn (jReq j)) (jArg j) (zero_of L tr) (appState server) = (res, st)"
  shows "\<exists>server'. service_call P L j server w = (None, server', w) \<and> appState server' = st"
proof -
  have a: "appState (count_call s n server) = appState server" for s n
    by (simp add: count_call_def split: option.splits)
  have c: "appState (call_back e x) = appState x" for e and x :: "('a, 'b) rpc_server"
    by (simp add: call_back_def)
  show ?thesis
  proof (cases res)
    case (Ret x)
    obtain ret e reply where "x = (ret, e, reply)" by (cases x)
    with Ret assms a show ?thesis by (cases e) (auto simp: service_call_def invoke_def Let_def job_reply_def c)
  qed (use assms a in \<open>simp add: service_call_def invoke_def Let_def job_reply_def\<close>)
qed

lemma serve_job:
  assumes "readRequest P L server inp = (ReadOk j, [])" and "find_method (jService j) (jMethod j) server = Some mt"
    and "\<not> NoResp (jReq j)" and "jReplyType j = Some tr" and "isPb L tr"
    and "mFunc mt (Conn (jReq j)) (jArg j) (zero_of L tr) (appState server) = (res, st)"
    and "WriteResponse P (response_to (jReq j) res)
      (Pb (if snd (reported res) \<noteq> [] then NullMessage P else reply_of (zero_of L tr) res)) \<lparr>flushed = [], bwerr = None\<rparr> = (w', err)"
  shows "\<exists>c. run (serve_step P L) (ServeConn server inp) [EvRead, EvRun 0] c \<and> cJobs c = [] \<and>
    appState (cServer c) = st \<and> cOut c = w' \<and> cAnswers c = [(response_to (jReq j) res, err)]"
proof -
  from service_call_result [OF assms(2-7)] obtain server' where
    sc: "service_call P L j server \<lparr>flushed = [], bwerr = None\<rparr> = (Some (response_to (jReq j) res, err), server', w')" "appState server' = st" by blast
  let ?c0 = "ServeConn server inp" and ?c1 = "serve_read P L (ServeConn server inp)"
  let ?c2 = "serve_run P L 0 ?c1"
  have c1: "cJobs ?c1 = [j]" "cServer ?c1 = server" "cOut ?c1 = \<lparr>flushed = [], bwerr = None\<rparr>" "cAnswers ?c1 = []"
    by (simp_all add: serve_read_def ServeConn_def assms(1))
  have "serve_step P L EvRead ?c0 ?c1" by (rule serve_step.serve_read) (simp add: ServeConn_def)
  moreover have "serve_step P L (EvRun 0) ?c1 ?c2" by (rule serve_step.serve_run) (simp add: c1)
  ultimately have "run (serve_step P L) ?c0 [EvRead, EvRun 0] ?c2" by (blast intro: run_cons run_nil)
  moreover have "cJobs ?c2 = [] \<and> appState (cServer ?c2) = st \<and> cOut ?c2 = w' \<and> cAnswers ?c2 = [(response_to (jReq j) res, err)]"
    using sc by (simp add: serve_run_def [of P L 0 ?c1] c1 remove_nth_def)
  ultimately show ?thesis by blast
qed

lemma response_to_received [simp]: "response_to (as_received r) res = response_to r res"
  by (simp add: response_to_def as_received_def)

lemma received_fields: "NoResp (as_received r) = NoResp r" "Conn (as_received r) = map_option copy_context (Conn r)"
  by (simp_all add: as_received_def)

lemma serve_one:
  assumes "pb_laws P typ_of" and "addressed P typ_of L server r m mt inp" and "ReplyType mt = PtrTo tr"
    and "mFunc mt (map_option copy_context (Conn r)) m (zero_of L tr) (appState server) = (res, st)"
    and "WriteResponse P (response_to r res)
      (Pb (if snd (reported res) \<noteq> [] then NullMessage P else reply_of (zero_of L tr) res)) \<lparr>flushed = [], bwerr = None\<rparr> = (w', err)"
  shows "\<exists>c. run (serve_step P L) (ServeConn server inp) [EvRead, EvRun 0] c \<and> cJobs c = [] \<and>
    appState (cServer c) = st \<and> cOut c = w' \<and> cAnswers c = [(response_to r res, err)]"
proof -
  from assms(2) have "deliverable P typ_of L server r m mt inp" by (simp add: addressed_deliverable)
  from deliverable_read [OF assms(1) this] assms(3) obtain svc meth where f: "find_method svc meth server = Some mt"
    and rd: "readRequest P L server inp =
      (ReadOk \<lparr>jService = svc, jMethod = meth, jReq = as_received r, jArg = m, jReplyType = Some tr\<rparr>, [])" by auto
  have tr: "isPb L tr" "\<not> NoResp r" using assms(2,3) by (auto simp: addressed_def)
  from serve_job [OF rd, of mt tr res st w' err] f tr assms(4,5) show ?thesis by (simp add: received_fields)
qed

text \<open>
  A call from end to end. A request that a client writes for a registered method is decoded,
  the handler runs once with the client's argument and context (without its node list) on the
  server's state, and the client reads back a response with its own method and sequence number
  and the handler's return code: with the handler's reply as the body when it returned no error,
  with the text of its error, or with return code 1 and the text ``server exception'' when it
  panicked; in the last two cases the body is skipped and the stream stays in step.
\<close>

theorem rpc_call_end_to_end:
  assumes "pb_laws P typ_of" and "addressed P typ_of L server r m mt inp" and "ReplyType mt = PtrTo tr"
    and "mFunc mt (map_option copy_context (Conn r)) m (zero_of L tr) (appState server) = (res, st)"
    and "WriteResponse P (response_to r res)
      (Pb (if snd (reported res) \<noteq> [] then NullMessage P else reply_of (zero_of L tr) res)) \<lparr>flushed = [], bwerr = None\<rparr> = (w', None)"
    and "typ_of (reply_of (zero_of L tr) res) tr"
  shows "\<exists>c mid. run (serve_step P L) (ServeConn server inp) [EvRead, EvRun 0] c \<and> appState (cServer c) = st \<and>
    ReadResponseHeader P (flushed (cOut c)) = (Inr (response_to r res), mid) \<and>
    (if snd (reported res) = [] then ReadResponseBody P 0 (Some tr) mid = (Inr (Some (reply_of (zero_of L tr) res)), [])
     else ReadResponseBody P 0 None mid = (Inr None, []))"
proof -
  from serve_one [OF assms(1-5)] obtain c where c: "run (serve_step P L) (ServeConn server inp) [EvRead, EvRun 0] c"
    "appState (cServer c) = st" "cOut c = w'" by blast
  have raw: "sRaw (response_to r res) = 0" "(response_to r res)\<lparr>sRaw := 0\<rparr> = response_to r res"
    using assms(2) by (auto simp: addressed_def response_to_def)
  show ?thesis
  proof (cases "snd (reported res) = []")
    case True
    with assms(5) have "WriteResponse P (response_to r res) (Pb (reply_of (zero_of L tr) res)) \<lparr>flushed = [], bwerr = None\<rparr> = (w', None)"
      by simp
    from WriteResponse_roundtrip [OF assms(1) this assms(6)] raw(1)
    obtain out where "flushed w' = [] @ out" and
      "\<forall>rest. \<exists>mid. ReadResponseHeader P (out @ rest) = (Inr ((response_to r res)\<lparr>sRaw := 0\<rparr>), mid) \<and>
         ReadResponseBody P 0 (Some tr) mid = (Inr (Some (reply_of (zero_of L tr) res)), rest)" by auto
    then obtain mid where "ReadResponseHeader P (flushed w' @ []) = (Inr (response_to r res), mid)"
      "ReadResponseBody P 0 (Some tr) mid = (Inr (Some (reply_of (zero_of L tr) res)), [])"
      unfolding raw(2) by (metis append_Nil)
    with c True show ?thesis by auto
  next
    case False
    with assms(5) have "WriteResponse P (response_to r res) (Pb (NullMessage P)) \<lparr>flushed = [], bwerr = None\<rparr> = (w', None)"
      by simp
    from WriteResponse_skip [OF assms(1) this, of 0] obtain out where "flushed w' = [] @ out" and
      "\<forall>rest. \<exists>mid. ReadResponseHeader P (out @ rest) = (Inr ((response_to r res)\<lparr>sRaw := 0\<rparr>), mid) \<and>
         ReadResponseBody P 0 None mid = (Inr None, rest)" by auto
    then obtain mid where "ReadResponseHeader P (flushed w' @ []) = (Inr (response_to r res), mid)"
      "ReadResponseBody P 0 None mid = (Inr None, [])"
      unfolding raw(2) by (metis append_Nil)
    with c False show ?thesis by auto
  qed
qed


text \<open>
  An oversized body breaks the framing: when the length prefix of a body exceeds the limit,
  the server rejects the request but consumes only the four length bytes, keeps the connection
  open, and goes on reading the body's content as if it were the next header.
\<close>

theorem oversized_body_desync:
  assumes "ReadRequestHeader P inp = (Inr req, be32 n @ payload)" and "tooBig \<le> unat n"
    and "splitServiceMethod (ServiceMethod req) = (svc, meth)" and "svc \<noteq> []" and "find_method svc meth server = Some mt"
    and "cServing c" and "cServer c = server" and "cIn c = inp"
  shows "cIn (serve_read P L c) = payload \<and> cServing (serve_read P L c) \<and> cJobs (serve_read P L c) = cJobs c"
proof -
  have fr: "readFrame (be32 n @ payload) = (Inl errBadCount, payload)"
    using assms(2) ReadFull_exact [of "be32 n" 4 payload] by (simp add: readFrame_def)
  from splitServiceMethod_inv [OF assms(3,4)] have "LastIndex dot (ServiceMethod req) = Some (length svc)"
    "take (length svc) (ServiceMethod req) = svc" "drop (length svc + 1) (ServiceMethod req) = meth"
    by (auto simp: LastIndex_method)
  moreover from assms(5) obtain ms where "map_of (serviceMap server) svc = Some ms" "map_of ms meth = Some mt"
    by (auto simp: find_method_def split: option.splits)
  ultimately have "readRequestHeader P server inp = (Inr (req, Inr (svc, meth, mt)), be32 n @ payload)"
    using assms(1) by (simp add: readRequestHeader_def)
  then have rd: "readRequest P L server inp = (ReadBad req errBadCount, payload)"
    by (simp add: readRequest_def Let_def ReadRequestBody_def decode_def fr)
  have "cServing (answer_bad P req e c) = cServing c" for e
    by (simp add: answer_bad_def split: prod.splits)
  with rd assms(6-8) show ?thesis by (simp add: serve_read_def)
qed


section \<open>A concrete service\<close>

text \<open>
  A service \<open>Db\<close> with one method \<open>Get\<close> that returns the argument of the call before.
\<close>

definition req_t :: go_type where "req_t = Named ''Req'' ''pb'' KStruct"
definition rsp_t :: go_type where "rsp_t = Named ''Rsp'' ''pb'' KStruct"

definition get_sig :: "(string, string) method_sig" where
  "get_sig =
     \<lparr>mName = ''Get'', PkgPath = [],
      Ins = [PtrTo (Named ''Db'' ''main'' KStruct), PtrTo (Named ''Context'' ''rpc'' KStruct), PtrTo req_t, PtrTo rsp_t],
      Outs = [typeOfUint16, typeOfError],
      Func = (\<lambda>conn argv replyv st. (Ret (7, None, st), argv))\<rparr>"

definition db_receiver :: "(string, string) receiver" where
  "db_receiver = \<lparr>TypeName = ''Db'', TypeString = ''*main.Db'', MethodSet = [get_sig], PtrMethodSet = []\<rparr>"

definition db_server :: "(string, string) rpc_server" where
  "db_server = fst (Register (\<lambda>_. False) db_receiver (NewServer ''x''))"

definition db_reflect :: "string reflect_lib" where
  "db_reflect = \<lparr>zero_of = (\<lambda>_. []), isPb = (\<lambda>_. True), protojsonUnmarshal = (\<lambda>_ _. Inl EOF), partial = (\<lambda>_ _ _. [])\<rparr>"

definition db_lib :: "(go_type, string) pb_lib" where
  "db_lib =
     pos_lib [\<lparr>qMethod = ''Db.Get'', qSeq = 4, qContext = None, qNoResp = False, qRaw = 0\<rparr>,
              \<lparr>qMethod = ''Db.Get'', qSeq = 0, qContext = None, qNoResp = False, qRaw = 0\<rparr>]
       [\<lparr>pMethod = ''Db.Get'', pSeq = 4, pError = [], pRet = 7, pRaw = 0\<rparr>,
        \<lparr>pMethod = ''Db.Get'', pSeq = 0, pError = [], pRet = 7, pRaw = 0\<rparr>] [''x'', ''y'']"

definition db_req :: rpc_request where
  "db_req = \<lparr>ServiceMethod = ''Db.Get'', rSeq = 4, NoResp = False, Conn = None, Raw = 0\<rparr>"

definition db_input :: bytes where
  "db_input = flushed (fst (WriteRequest db_lib db_req (Pb ''y'') \<lparr>flushed = [], bwerr = None\<rparr>))"

lemma db_lib_laws: "pb_laws db_lib (\<lambda>_ _. True)"
  by (simp add: db_lib_def pos_lib_laws)

lemma get_suitable: "suitable (\<lambda>_. False) get_sig"
  by (simp add: suitable_def get_sig_def req_t_def rsp_t_def isExported_def)

lemma db_register:
  "register (\<lambda>_. False) db_receiver [] False (NewServer ''x'') =
     (\<lparr>serviceMap = [(''Db'', [(''Get'', entry_of get_sig)])], appState = ''x'', hasCallBack = False, cbLog = []\<rparr>, None)"
proof -
  have "mName get_sig = ''Get''" by (simp add: get_sig_def)
  then show ?thesis
    using get_suitable by (simp add: register_def db_receiver_def NewServer_def isExported_def entry_of_def)
qed

lemma db_server_eq:
  "db_server = \<lparr>serviceMap = [(''Db'', [(''Get'', entry_of get_sig)])], appState = ''x'', hasCallBack = False, cbLog = []\<rparr>"
  by (simp add: db_server_def Register_def db_register)

lemma db_registered: "register (\<lambda>_. False) db_receiver [] False (NewServer ''x'') = (db_server, None)"
  by (simp add: db_server_eq db_register)


lemma db_method: "find_method ''Db'' ''Get'' db_server = Some (entry_of get_sig)"
  by (simp add: db_server_eq find_method_def)

lemma db_addressed: "addressed db_lib (\<lambda>_ _. True) db_reflect db_server db_req ''y'' (entry_of get_sig) db_input"
proof -
  have w: "snd (WriteRequest db_lib db_req (Pb ''y'') \<lparr>flushed = [], bwerr = None\<rparr>) = None"
    by (simp add: WriteRequest_def db_req_def db_lib_def pos_lib_def pos_enc_def encode_req_def encode_def
        writeFrame_bytes bufio_Write_def tooBig_def)
  have "ServiceMethod db_req = ''Db'' @ dot # ''Get''" "dot \<notin> set ''Get''" by (simp_all add: db_req_def dot_def)
  with db_method have "\<exists>svc meth. ServiceMethod db_req = svc @ dot # meth \<and> dot \<notin> set meth \<and>
      find_method svc meth db_server = Some (entry_of get_sig)" by blast
  with w show ?thesis
    unfolding addressed_def db_input_def
    by (intro conjI) (auto simp: db_req_def db_reflect_def entry_of_def get_sig_def prod_eq_iff)
qed

lemma db_appState: "appState db_server = ''x''"
  by (simp add: db_server_eq)

lemma db_call: "mFunc (entry_of get_sig) (map_option copy_context (Conn db_req)) ''y'' (zero_of db_reflect rsp_t) (appState db_server) =
    (Ret (7, None, ''x''), ''y'')"
  by (simp add: entry_of_def get_sig_def db_appState)

lemma db_ReplyType: "ReplyType (entry_of get_sig) = PtrTo rsp_t"
  by (simp add: entry_of_def get_sig_def)

lemma db_WriteResponse:
  "\<exists>w'. WriteResponse db_lib (response_to db_req (Ret (7, None, ''x'')))
     (Pb (if snd (reported (Ret (7, None, ''x''))) \<noteq> [] then NullMessage db_lib else reply_of (zero_of db_reflect rsp_t) (Ret (7, None, ''x''))))
     \<lparr>flushed = [], bwerr = None\<rparr> = (w', None)"
  by (simp add: WriteResponse_def response_to_def db_req_def db_lib_def pos_lib_def pos_enc_def encode_rsp_def encode_def
      writeFrame_bytes bufio_Write_def tooBig_def)

theorem rpc_call_end_to_end_witness:
  "\<exists>c mid. run (serve_step db_lib db_reflect) (ServeConn db_server db_input) [EvRead, EvRun 0] c \<and>
     appState (cServer c) = ''y'' \<and>
     ReadResponseHeader db_lib (flushed (cOut c)) = (Inr \<lparr>sServiceMethod = ''Db.Get'', sSeq = 4, sError = [], sRet = 7, sRaw = 0\<rparr>, mid) \<and>
     ReadResponseBody db_lib 0 (Some rsp_t) mid = (Inr (Some ''x''), [])"
proof -
  obtain w' where w: "WriteResponse db_lib (response_to db_req (Ret (7, None, ''x'')))
     (Pb (if snd (reported (Ret (7, None, ''x''))) \<noteq> [] then NullMessage db_lib else reply_of (zero_of db_reflect rsp_t) (Ret (7, None, ''x''))))
     \<lparr>flushed = [], bwerr = None\<rparr> = (w', None)" using db_WriteResponse by blast
  from rpc_call_end_to_end [OF db_lib_laws db_addressed db_ReplyType db_call w] show ?thesis
    by (simp add: response_to_def db_req_def)
qed



theorem oversized_body_desync_witness:
  "cIn (serve_read (pos_lib [\<lparr>qMethod = ''Db.Get'', qSeq = 4, qContext = None, qNoResp = False, qRaw = 0\<rparr>] [] []) db_reflect
     ((ServeConn db_server (frame_bytes [] @ be32 0x40000000 @ [1, 2])))) = [1, 2]"
proof -
  let ?P = "pos_lib [\<lparr>qMethod = ''Db.Get'', qSeq = 4, qContext = None, qNoResp = False, qRaw = 0\<rparr>] [] [] :: (go_type, string) pb_lib"
  let ?inp = "frame_bytes [] @ be32 0x40000000 @ [1, 2]"
  have h: "ReadRequestHeader ?P ?inp = (Inr db_req, be32 0x40000000 @ [1, 2])"
    by (subst ReadRequestHeader_def, subst decode_with_frame)
       (simp_all add: tooBig_def pos_lib_def pos_dec_def db_req_def)
  have s: "splitServiceMethod (ServiceMethod db_req) = (''Db'', ''Get'')"
    using splitServiceMethod_join [of "''Get''" "''Db''"] by (simp add: dot_def db_req_def)
  have n: "tooBig \<le> unat (0x40000000 :: u32)" by (simp add: tooBig_def)
  from oversized_body_desync [OF h n s _ db_method, of "ServeConn db_server ?inp"] show ?thesis
    by (simp add: ServeConn_def)
qed

end
