(* ===== verification/Rpc_Client.thy ===== *)
theory Rpc_Client
  imports Rpc_Codec
begin

text \<open>
  The rpc client, \<^verbatim>\<open>rpc/go_client.go\<close>. A call is an entry of \<open>calls\<close> under its own
  id (the pointer of the source); \<^verbatim>\<open>pending\<close> maps sequence numbers to calls. A caller's
  \<^verbatim>\<open>send\<close> is two steps, since the mutex is released between registering the call and
  writing the request; the goroutine of \<^verbatim>\<open>input\<close> takes one step per response. The input
  stream holds every byte the server will send before the connection ends.

  The ghost fields \<open>Signals\<close> (how often \<^verbatim>\<open>done\<close> was called) and \<open>nSent\<close> (how
  many sequence numbers were used) are read by no operation.
\<close>

datatype 'm rpc_reply = NoReply | MsgReply 'm | BytesReply bytes

datatype 'm rpc_args = MsgArgs "'m any" | ByteArgs bytes

record ('t, 'm) call_info =
  cMethod :: string
  cArgs :: "'m rpc_args"
  cReplyType :: "'t option"
  cReply :: "'m rpc_reply"
  cError :: "go_error option"
  cDone :: nat
  cDoneCap :: nat
  cRaw :: int
  cRet :: u16
  cConn :: "rpc_context option"
  cNoResp :: bool
  Signals :: nat

record ('t, 'm) rpc_client =
  calls :: "(nat, ('t, 'm) call_info) gmap"
  seq :: u64
  pending :: "(u64, nat) gmap"
  closing :: bool
  shutdown :: bool
  cliOut :: byte_writer
  cliIn :: bytes
  writing :: "(nat \<times> u64) list"
  inputEnded :: bool
  Name :: string
  hasCloseCallback :: bool
  closeLog :: "(string \<times> go_error) list"
  Region :: u32
  TimeoutSec :: int
  nSent :: nat

definition NewClient :: "bytes \<Rightarrow> ('t, 'm) rpc_client" where
  "NewClient inp =
     \<lparr>calls = [], seq = 0, pending = [], closing = False, shutdown = False,
      cliOut = \<lparr>flushed = [], bwerr = None\<rparr>, cliIn = inp, writing = [], inputEnded = False,
      Name = [], hasCloseCallback = False, closeLog = [], Region = 0, TimeoutSec = 300, nSent = 0\<rparr>"

definition WithName :: "string \<Rightarrow> bool \<Rightarrow> ('t, 'm) rpc_client \<Rightarrow> ('t, 'm) rpc_client" where
  "WithName name cb cli = cli\<lparr>Name := name, hasCloseCallback := cb\<rparr>"

definition WithTimeout :: "int \<Rightarrow> ('t, 'm) rpc_client \<Rightarrow> ('t, 'm) rpc_client" where
  "WithTimeout t cli = cli\<lparr>TimeoutSec := t\<rparr>"

definition Dial ::
  "go_error + bytes \<Rightarrow> (('t, 'm) rpc_client \<Rightarrow> ('t, 'm) rpc_client) list \<Rightarrow> go_error + ('t, 'm) rpc_client" where
  "Dial conn options = (case conn of Inl err \<Rightarrow> Inl err | Inr inp \<Rightarrow> Inr (fold (\<lambda>opt c. opt c) options (NewClient inp)))"

definition upd_call :: "nat \<Rightarrow> (('t, 'm) call_info \<Rightarrow> ('t, 'm) call_info) \<Rightarrow> ('t, 'm) rpc_client \<Rightarrow> ('t, 'm) rpc_client" where
  "upd_call c f s = (case map_of (calls s) c of None \<Rightarrow> s | Some ci \<Rightarrow> s\<lparr>calls := gmap_set c (f ci) (calls s)\<rparr>)"

text \<open>\<^verbatim>\<open>done\<close> never blocks: a signal that finds the channel full is dropped.\<close>

definition call_done :: "('t, 'm) call_info \<Rightarrow> ('t, 'm) call_info" where
  "call_done ci =
     (if cDone ci < cDoneCap ci then ci\<lparr>cDone := Suc (cDone ci), Signals := Suc (Signals ci)\<rparr>
      else ci\<lparr>Signals := Suc (Signals ci)\<rparr>)"

definition fail_call :: "go_error \<Rightarrow> ('t, 'm) call_info \<Rightarrow> ('t, 'm) call_info" where
  "fail_call e ci = call_done (ci\<lparr>cError := Some e\<rparr>)"


section \<open>Sending\<close>

definition send_register :: "nat \<Rightarrow> ('t, 'm) rpc_client \<Rightarrow> ('t, 'm) rpc_client" where
  "send_register c s =
     (case map_of (calls s) c of
        None \<Rightarrow> s
      | Some call \<Rightarrow>
          if shutdown s \<or> closing s then upd_call c (fail_call ErrShutdown) s
          else
            s\<lparr>seq := seq s + 1, pending := (if cNoResp call then pending s else gmap_set (seq s) c (pending s)),
              writing := writing s @ [(c, seq s)], nSent := Suc (nSent s)\<rparr>)"

definition write_request ::
  "('t, 'm) pb_lib \<Rightarrow> ('t, 'm) call_info \<Rightarrow> u64 \<Rightarrow> byte_writer \<Rightarrow> byte_writer \<times> go_error option" where
  "write_request P call q w =
     (let request = \<lparr>ServiceMethod = cMethod call, rSeq = q, NoResp = cNoResp call, Conn = cConn call, Raw = cRaw call\<rparr>
      in case cArgs call of
           MsgArgs a \<Rightarrow> WriteRequest P request a w
         | ByteArgs b \<Rightarrow>
             if cRaw call = 0 then WriteRequest P request (NotPb ''[]uint8'') w else WriteByteRequest P request b w)"

definition send_write :: "('t, 'm) pb_lib \<Rightarrow> nat \<Rightarrow> u64 \<Rightarrow> ('t, 'm) rpc_client \<Rightarrow> ('t, 'm) rpc_client" where
  "send_write P c q s =
     (let s1 = s\<lparr>writing := remove1 (c, q) (writing s)\<rparr> in
      case map_of (calls s1) c of
        None \<Rightarrow> s1
      | Some call \<Rightarrow>
          (case write_request P call q (cliOut s1) of
             (w, err) \<Rightarrow>
               let s2 = s1\<lparr>cliOut := w\<rparr> in
               if cNoResp call then s2
               else case err of
                      None \<Rightarrow> s2
                    | Some e \<Rightarrow>
                        let s3 = s2\<lparr>pending := gmap_del q (pending s2)\<rparr> in
                        (case map_of (pending s2) q of
                           None \<Rightarrow> s3
                         | Some c' \<Rightarrow> upd_call c' (fail_call e) s3)))"

text \<open>
  \<^verbatim>\<open>Go\<close> and \<^verbatim>\<open>RawGo\<close> allocate the call and send it. A channel that the caller does
  not provide has capacity 10.
\<close>

definition new_call ::
  "rpc_context option \<Rightarrow> string \<Rightarrow> 'm rpc_args \<Rightarrow> 't option \<Rightarrow> nat option \<Rightarrow> bool \<Rightarrow> int \<Rightarrow> ('t, 'm) call_info" where
  "new_call conn sm args reply cap noResp raw =
     \<lparr>cMethod = sm, cArgs = args, cReplyType = reply, cReply = NoReply, cError = None, cDone = 0,
      cDoneCap = (case cap of None \<Rightarrow> 10 | Some n \<Rightarrow> n), cRaw = raw, cRet = 0, cConn = conn, cNoResp = noResp, Signals = 0\<rparr>"

definition start_call :: "nat \<Rightarrow> ('t, 'm) call_info \<Rightarrow> ('t, 'm) rpc_client \<Rightarrow> ('t, 'm) rpc_client" where
  "start_call c ci s = send_register c (s\<lparr>calls := gmap_set c ci (calls s)\<rparr>)"

definition Go :: "nat \<Rightarrow> rpc_context option \<Rightarrow> string \<Rightarrow> 'm any \<Rightarrow> 't option \<Rightarrow> nat option \<Rightarrow> bool \<Rightarrow> ('t, 'm) rpc_client \<Rightarrow> ('t, 'm) rpc_client" where
  "Go c conn sm args reply cap noResp s = start_call c (new_call conn sm (MsgArgs args) reply cap noResp 0) s"

definition RawGo :: "nat \<Rightarrow> rpc_context option \<Rightarrow> string \<Rightarrow> bytes \<Rightarrow> nat option \<Rightarrow> bool \<Rightarrow> int \<Rightarrow> ('t, 'm) rpc_client \<Rightarrow> ('t, 'm) rpc_client" where
  "RawGo c conn sm args cap noResp raw s = start_call c (new_call conn sm (ByteArgs args) None cap noResp raw) s"

definition Send :: "nat \<Rightarrow> rpc_context option \<Rightarrow> string \<Rightarrow> 'm any \<Rightarrow> ('t, 'm) rpc_client \<Rightarrow> ('t, 'm) rpc_client" where
  "Send c conn sm args s = Go c conn sm args None (Some 1) True s"

definition RawSend :: "nat \<Rightarrow> rpc_context option \<Rightarrow> string \<Rightarrow> bytes \<Rightarrow> ('t, 'm) rpc_client \<Rightarrow> ('t, 'm) rpc_client" where
  "RawSend c conn sm args s = RawGo c conn sm args (Some 1) True 1 s"

definition JsonSend :: "nat \<Rightarrow> rpc_context option \<Rightarrow> string \<Rightarrow> bytes \<Rightarrow> ('t, 'm) rpc_client \<Rightarrow> ('t, 'm) rpc_client" where
  "JsonSend c conn sm args s = RawGo c conn sm args (Some 1) True 2 s"

text \<open>
  What \<^verbatim>\<open>Call\<close>, \<^verbatim>\<open>RawCall\<close> and \<^verbatim>\<open>JsonCall\<close> return once their
  channel delivers, or when their timer fires first.
\<close>

definition Call_result :: "('t, 'm) call_info \<Rightarrow> u16 \<times> go_error option" where
  "Call_result call = (cRet call, cError call)"

definition Call_timeout :: "string \<Rightarrow> u16 \<times> go_error option" where
  "Call_timeout sm = (1, Some (GoErr (''methon['' @ sm @ ''] RawCall timeout'')))"

definition RawCall_result :: "('t, 'm) call_info \<Rightarrow> (u16 \<times> (go_error + bytes)) outcome" where
  "RawCall_result call =
     (case cError call of
        Some e \<Rightarrow> Ret (cRet call, Inl e)
      | None \<Rightarrow>
          (case cReply call of
             BytesReply b \<Rightarrow> Ret (cRet call, Inr b)
           | _ \<Rightarrow> Panic ''interface conversion''))"

definition JsonCall_timeout :: "string \<Rightarrow> u16 \<times> go_error option" where
  "JsonCall_timeout sm = (1, Some (GoErr (''methon['' @ sm @ ''] JsonCall timeout'')))"


section \<open>Receiving\<close>

definition finish_all :: "go_error \<Rightarrow> (u64 \<times> nat) list \<Rightarrow> ('t, 'm) rpc_client \<Rightarrow> ('t, 'm) rpc_client" where
  "finish_all err ps s = fold (\<lambda>(_, c). upd_call c (fail_call err)) ps s"

definition input_end :: "(u64, nat) gorder \<Rightarrow> go_error \<Rightarrow> ('t, 'm) rpc_client \<Rightarrow> ('t, 'm) rpc_client" where
  "input_end ord err s =
     (let err' = (if err = EOF then (if closing s then ErrShutdown else ErrUnexpectedEOF) else err);
          s1 = finish_all err' (ord (pending s)) (s\<lparr>shutdown := True, inputEnded := True\<rparr>)
      in if err' \<noteq> EOF \<and> closing s \<and> hasCloseCallback s1 then s1\<lparr>closeLog := closeLog s1 @ [(Name s1, err')]\<rparr> else s1)"

text \<open>The part of the loop after the header: the call gets its result, then the next round starts.\<close>

definition give_result ::
  "('t, 'm) pb_lib \<Rightarrow> rpc_response \<Rightarrow> ('t, 'm) call_info \<Rightarrow> bytes \<Rightarrow> ('t, 'm) call_info \<times> go_error option \<times> bytes" where
  "give_result P response call r =
     (if sError response \<noteq> [] then
        (case ReadResponseBody P 0 None r of
           (Inl e, r') \<Rightarrow> (call_done (call\<lparr>cError := Some (GoErr (sError response))\<rparr>), Some (GoErr (''reading error body: '' @ err_msg e)), r')
         | (Inr _, r') \<Rightarrow> (call_done (call\<lparr>cError := Some (GoErr (sError response))\<rparr>), None, r'))
      else if cRaw call = 0 then
        (case ReadResponseBody P 0 (cReplyType call) r of
           (Inl e, r') \<Rightarrow> (call_done (call\<lparr>cRet := sRet response, cError := Some (GoErr (''reading body '' @ err_msg e))\<rparr>), Some e, r')
         | (Inr None, r') \<Rightarrow> (call_done (call\<lparr>cRet := sRet response\<rparr>), None, r')
         | (Inr (Some m), r') \<Rightarrow> (call_done (call\<lparr>cRet := sRet response, cReply := MsgReply m\<rparr>), None, r'))
      else
        (case ReadByteResponseBody r of
           (Inl e, r') \<Rightarrow>
             (call_done (call\<lparr>cRet := sRet response, cReply := NoReply, cError := Some (GoErr (''reading body '' @ err_msg e))\<rparr>), Some e, r')
         | (Inr b, r') \<Rightarrow> (call_done (call\<lparr>cRet := sRet response, cReply := BytesReply b\<rparr>), None, r')))"

definition input_iter :: "('t, 'm) pb_lib \<Rightarrow> (u64, nat) gorder \<Rightarrow> ('t, 'm) rpc_client \<Rightarrow> ('t, 'm) rpc_client" where
  "input_iter P ord s =
     (case ReadResponseHeader P (cliIn s) of
        (Inl err, r) \<Rightarrow> input_end ord err (s\<lparr>cliIn := r\<rparr>)
      | (Inr response, r) \<Rightarrow>
          let s1 = s\<lparr>pending := gmap_del (sSeq response) (pending s)\<rparr> in
          (case map_of (pending s) (sSeq response) of
             None \<Rightarrow>
               (case ReadResponseBody P (word_of_int (sRaw response)) None r of
                  (Inl e, r') \<Rightarrow> input_end ord (GoErr (''reading error body: '' @ err_msg e)) (s1\<lparr>cliIn := r'\<rparr>)
                | (Inr _, r') \<Rightarrow> s1\<lparr>cliIn := r'\<rparr>)
           | Some c \<Rightarrow>
               (case map_of (calls s) c of
                  None \<Rightarrow> s1
                | Some call \<Rightarrow>
                    (case give_result P response call r of
                       (call', err, r') \<Rightarrow>
                         let s2 = (upd_call c (\<lambda>_. call') s1)\<lparr>cliIn := r'\<rparr> in
                         (case err of None \<Rightarrow> s2 | Some e \<Rightarrow> input_end ord e s2)))))"

definition Close :: "('t, 'm) rpc_client \<Rightarrow> ('t, 'm) rpc_client \<times> go_error option" where
  "Close s = (if closing s then (s, Some ErrShutdown) else (s\<lparr>closing := True\<rparr>, None))"

definition IsClose :: "('t, 'm) rpc_client \<Rightarrow> bool" where
  "IsClose s \<longleftrightarrow> shutdown s \<or> closing s"


section \<open>The client as a transition system\<close>

datatype ('t, 'm) client_event =
    CNew nat "('t, 'm) call_info"
  | CWrite nat u64
  | CInput
  | CClose
  | CTake nat

text \<open>
  \<open>CNew\<close> is a \<^verbatim>\<open>Go\<close> or \<^verbatim>\<open>RawGo\<close> up to the release of the mutex;
  \<open>CTake\<close> is the caller receiving from the channel of its call.
\<close>

definition fresh_call :: "('t, 'm) call_info \<Rightarrow> bool" where
  "fresh_call ci \<longleftrightarrow> (\<exists>conn sm args reply cap noResp raw. ci = new_call conn sm args reply cap noResp raw)"

inductive client_step ::
  "('t, 'm) pb_lib \<Rightarrow> ('t, 'm) client_event \<Rightarrow> ('t, 'm) rpc_client \<Rightarrow> ('t, 'm) rpc_client \<Rightarrow> bool" for P where
  c_new: "map_of (calls s) c = None \<Longrightarrow> fresh_call ci \<Longrightarrow> client_step P (CNew c ci) s (start_call c ci s)"
| c_write: "(c, q) \<in> set (writing s) \<Longrightarrow> client_step P (CWrite c q) s (send_write P c q s)"
| c_input: "\<not> inputEnded s \<Longrightarrow> range_order ord \<Longrightarrow> client_step P CInput s (input_iter P ord s)"
| c_close: "client_step P CClose s (fst (Close s))"
| c_take: "map_of (calls s) c = Some ci \<Longrightarrow> cDone ci = Suc n \<Longrightarrow>
    client_step P (CTake c) s (upd_call c (\<lambda>ci. ci\<lparr>cDone := n\<rparr>) s)"


section \<open>Invariant\<close>

text \<open>
  As long as sequence numbers have not wrapped: a call that waits for a response is pending or
  has been signalled; a pending call is known, waits for a response and is under one number; as
  long as the reader runs, a pending call has not been signalled and no call more than once; once
  the reader has ended, every pending call has been signalled.
\<close>

definition is_pending :: "('t, 'm) rpc_client \<Rightarrow> nat \<Rightarrow> bool" where
  "is_pending s c \<longleftrightarrow> (\<exists>q. map_of (pending s) q = Some c)"

definition pend_ok :: "('t, 'm) rpc_client \<Rightarrow> u64 \<Rightarrow> nat \<Rightarrow> bool" where
  "pend_ok s q c \<longleftrightarrow>
     unat q < nSent s \<and> (\<exists>ci. map_of (calls s) c = Some ci \<and> \<not> cNoResp ci) \<and>
     (\<forall>q'. map_of (pending s) q' = Some c \<longrightarrow> q' = q)"

definition call_ok :: "('t, 'm) rpc_client \<Rightarrow> nat \<Rightarrow> ('t, 'm) call_info \<Rightarrow> bool" where
  "call_ok s c ci \<longleftrightarrow>
     (\<not> cNoResp ci \<longrightarrow> is_pending s c \<or> 0 < Signals ci) \<and>
     (if inputEnded s then \<not> cNoResp ci \<longrightarrow> 0 < Signals ci
      else Signals ci \<le> 1 \<and> (is_pending s c \<longrightarrow> Signals ci = 0))"

definition client_ok :: "('t, 'm) rpc_client \<Rightarrow> bool" where
  "client_ok s \<longleftrightarrow>
     gmap_ok (pending s) \<and> seq s = word_of_nat (nSent s) \<and> inputEnded s = shutdown s \<and>
     (\<forall>q c. map_of (pending s) q = Some c \<longrightarrow> pend_ok s q c) \<and>
     (\<forall>c ci. map_of (calls s) c = Some ci \<longrightarrow> call_ok s c ci)"

definition client_inv :: "('t, 'm) rpc_client \<Rightarrow> bool" where
  "client_inv s \<longleftrightarrow> (nSent s \<le> 2 ^ 64 \<longrightarrow> client_ok s)"


section \<open>The invariant is kept\<close>

lemma upd_call_fields [simp]:
  "seq (upd_call c f s) = seq s" "pending (upd_call c f s) = pending s" "closing (upd_call c f s) = closing s"
  "shutdown (upd_call c f s) = shutdown s" "cliOut (upd_call c f s) = cliOut s" "cliIn (upd_call c f s) = cliIn s"
  "writing (upd_call c f s) = writing s" "inputEnded (upd_call c f s) = inputEnded s" "nSent (upd_call c f s) = nSent s"
  "hasCloseCallback (upd_call c f s) = hasCloseCallback s" "closeLog (upd_call c f s) = closeLog s" "Name (upd_call c f s) = Name s"
  by (auto simp: upd_call_def split: option.splits)

lemma map_of_upd_call [simp]:
  "map_of (calls (upd_call c f s)) d = (if d = c then map_option f (map_of (calls s) c) else map_of (calls s) d)"
  by (auto simp: upd_call_def split: option.splits)

lemma call_done_fields [simp]:
  "Signals (call_done ci) = Suc (Signals ci)" "cNoResp (call_done ci) = cNoResp ci"
  "cError (call_done ci) = cError ci" "cRet (call_done ci) = cRet ci" "cReply (call_done ci) = cReply ci"
  "cMethod (call_done ci) = cMethod ci" "cRaw (call_done ci) = cRaw ci"
  by (auto simp: call_done_def)

lemma finish_all_fields [simp]:
  "seq (finish_all e ps s) = seq s" "pending (finish_all e ps s) = pending s" "closing (finish_all e ps s) = closing s"
  "shutdown (finish_all e ps s) = shutdown s" "inputEnded (finish_all e ps s) = inputEnded s" "nSent (finish_all e ps s) = nSent s"
  "closeLog (finish_all e ps s) = closeLog s" "hasCloseCallback (finish_all e ps s) = hasCloseCallback s"
  "Name (finish_all e ps s) = Name s"
  by (induction ps arbitrary: s) (auto simp: finish_all_def)

lemma fail_call_fields [simp]:
  "Signals (fail_call e ci) = Suc (Signals ci)" "cNoResp (fail_call e ci) = cNoResp ci" "cError (fail_call e ci) = Some e"
  by (auto simp: fail_call_def)

lemma finish_all_call:
  "map_of (calls (finish_all e ps s)) c =
     map_option (fail_call e ^^ length (filter (\<lambda>p. snd p = c) ps)) (map_of (calls s) c)"
proof (induction ps arbitrary: s)
  case (Cons p ps)
  have "finish_all e (p # ps) s = finish_all e ps (upd_call (snd p) (fail_call e) s)"
    by (simp add: finish_all_def case_prod_beta)
  with Cons.IH show ?case
    by (cases "map_of (calls s) c") (auto simp: funpow_swap1)
qed (simp add: finish_all_def option.map_id0)

lemma fail_call_pow [simp]:
  "Signals ((fail_call e ^^ n) ci) = n + Signals ci" "cNoResp ((fail_call e ^^ n) ci) = cNoResp ci"
  "0 < n \<Longrightarrow> cError ((fail_call e ^^ n) ci) = Some e"
  by (induction n) auto

lemma input_end_fields [simp]:
  "seq (input_end ord e s) = seq s" "pending (input_end ord e s) = pending s" "nSent (input_end ord e s) = nSent s"
  "shutdown (input_end ord e s)" "inputEnded (input_end ord e s)"
  by (simp_all add: input_end_def Let_def)

lemma input_end_call:
  assumes "range_order ord" and "map_of (calls s) c = Some ci"
  shows "\<exists>n e'. map_of (calls (input_end ord e s)) c = Some ((fail_call e' ^^ n) ci) \<and>
    (0 < n \<longleftrightarrow> c \<in> snd ` set (pending s))"
proof -
  let ?n = "length (filter (\<lambda>p. snd p = c) (ord (pending s)))"
  have "0 < ?n \<longleftrightarrow> c \<in> snd ` set (pending s)"
    using range_order_set [OF assms(1), of "pending s"] by (auto simp: filter_empty_conv)
  with assms(2) show ?thesis
    by (auto simp: input_end_def Let_def finish_all_call)
qed

lemma input_end_call_None: "map_of (calls s) c = None \<Longrightarrow> map_of (calls (input_end ord e s)) c = None"
  by (simp add: input_end_def Let_def finish_all_call)

lemma fresh_call_Signals: "fresh_call ci \<Longrightarrow> Signals ci = 0"
  by (auto simp: fresh_call_def new_call_def)

lemma pending_snd: "map_of (pending s) q = Some c \<Longrightarrow> c \<in> snd ` set (pending s)"
  by (force dest: map_of_SomeD)

lemma client_ok_init: "client_ok (NewClient inp)"
  by (simp add: client_ok_def NewClient_def)

lemma client_okD:
  assumes "client_ok s"
  shows "gmap_ok (pending s)" "seq s = word_of_nat (nSent s)" "inputEnded s = shutdown s"
    "map_of (pending s) q = Some c \<Longrightarrow> pend_ok s q c" "map_of (calls s) c = Some ci \<Longrightarrow> call_ok s c ci"
  using assms by (simp_all add: client_ok_def)

lemma client_okI:
  assumes "gmap_ok (pending s)" "seq s = word_of_nat (nSent s)" "inputEnded s = shutdown s"
    and "\<And>q c. map_of (pending s) q = Some c \<Longrightarrow> pend_ok s q c"
    and "\<And>c ci. map_of (calls s) c = Some ci \<Longrightarrow> call_ok s c ci"
  shows "client_ok s"
  using assms by (simp add: client_ok_def)

text \<open>The state in which the reader ends: every call is pending or signalled.\<close>

lemma client_ok_input_end:
  assumes ord: "range_order ord" and g: "gmap_ok (pending s)" "seq s = word_of_nat (nSent s)"
    and p: "\<And>q c. map_of (pending s) q = Some c \<Longrightarrow> pend_ok s q c"
    and c: "\<And>c ci. map_of (calls s) c = Some ci \<Longrightarrow> \<not> cNoResp ci \<Longrightarrow> is_pending s c \<or> 0 < Signals ci"
  shows "client_ok (input_end ord e s)"
proof (rule client_okI)
  let ?t = "input_end ord e s"
  show "pend_ok ?t q c" if "map_of (pending ?t) q = Some c" for q c
  proof -
    from that have "pend_ok s q c" by (simp add: p)
    then obtain ci where "map_of (calls s) c = Some ci" "\<not> cNoResp ci" by (auto simp: pend_ok_def)
    with input_end_call [OF ord this(1), of e] have "\<exists>cj. map_of (calls ?t) c = Some cj \<and> \<not> cNoResp cj" by auto
    with \<open>pend_ok s q c\<close> show ?thesis by (simp add: pend_ok_def)
  qed
  show "call_ok ?t c ci" if ci: "map_of (calls ?t) c = Some ci" for c ci
  proof -
    from ci input_end_call_None [of s c ord e] obtain cj where cj: "map_of (calls s) c = Some cj"
      by (cases "map_of (calls s) c") auto
    obtain n e' where n: "map_of (calls ?t) c = Some ((fail_call e' ^^ n) cj)" "0 < n \<longleftrightarrow> c \<in> snd ` set (pending s)"
      using input_end_call [OF ord cj] by blast
    have "0 < Signals ci" if "\<not> cNoResp ci"
      using c [OF cj] that n ci by (auto simp: is_pending_def dest: pending_snd)
    then show ?thesis by (simp add: call_ok_def)
  qed
qed (use g in simp_all)

lemma pending_known: "client_ok s \<Longrightarrow> map_of (calls s) c = None \<Longrightarrow> \<not> is_pending s c"
  using client_okD(4) [of s _ c] by (force simp: is_pending_def pend_ok_def)

lemma seq_fresh:
  assumes "client_ok s" and "nSent s < 2 ^ 64"
  shows "map_of (pending s) (seq s) = None"
proof (rule ccontr)
  assume "map_of (pending s) (seq s) \<noteq> None"
  then obtain c where "map_of (pending s) (seq s) = Some c" by auto
  then have "unat (seq s) < nSent s" using client_okD(4) [OF assms(1)] by (auto simp: pend_ok_def)
  moreover have "unat (seq s) = nSent s"
    using client_okD(2) [OF assms(1)] assms(2) by (simp add: unsigned_of_nat take_bit_nat_eq_self)
  ultimately show False by simp
qed

lemma pend_ok_mono:
  assumes "pend_ok s q c" and "nSent s \<le> nSent t"
    and "\<And>ci. map_of (calls s) c = Some ci \<Longrightarrow> \<exists>cj. map_of (calls t) c = Some cj \<and> cNoResp cj = cNoResp ci"
    and "\<And>q'. map_of (pending t) q' = Some c \<Longrightarrow> map_of (pending s) q' = Some c"
  shows "pend_ok t q c"
proof -
  from assms(1) obtain ci where "map_of (calls s) c = Some ci" "\<not> cNoResp ci" by (auto simp: pend_ok_def)
  with assms(3) obtain cj where "map_of (calls t) c = Some cj" "\<not> cNoResp cj" by auto
  moreover have "unat q < nSent t" using assms(1,2) by (auto simp: pend_ok_def)
  moreover have "\<forall>q'. map_of (pending t) q' = Some c \<longrightarrow> q' = q"
    using assms(1,4) unfolding pend_ok_def by blast
  ultimately show ?thesis unfolding pend_ok_def by blast
qed

lemma call_ok_cong:
  "call_ok s c ci \<Longrightarrow> inputEnded t = inputEnded s \<Longrightarrow> is_pending t c = is_pending s c \<Longrightarrow> call_ok t c ci"
  by (simp only: call_ok_def)

lemma client_ok_cong:
  assumes ok: "client_ok s" and eq: "calls t = calls s" "map_of (pending t) = map_of (pending s)" and g: "gmap_ok (pending t)"
    and f: "seq t = seq s" "nSent t = nSent s" "shutdown t = shutdown s" "inputEnded t = inputEnded s"
  shows "client_ok t"
proof (rule client_okI)
  have "pend_ok t q c = pend_ok s q c" "call_ok t c ci = call_ok s c ci" for q c ci
    by (simp_all only: pend_ok_def call_ok_def is_pending_def eq f)
  then show "pend_ok t q c" if "map_of (pending t) q = Some c" for q c
    using client_okD(4) [OF ok] that eq(2) by simp
  show "call_ok t c ci" if "map_of (calls t) c = Some ci" for c ci
    using client_okD(5) [OF ok] that eq(1) \<open>\<And>q c ci. call_ok t c ci = call_ok s c ci\<close> by simp
qed (use g f client_okD(2,3) [OF ok] in simp_all)

lemma pend_call_ne:
  assumes "client_ok s" and "map_of (calls s) c = None" and "map_of (pending s) q = Some d"
  shows "d \<noteq> c"
  using pending_known [OF assms(1,2)] assms(3) by (auto simp: is_pending_def)

lemma client_ok_start:
  assumes ok: "client_ok s" and c: "map_of (calls s) c = None" and ci: "fresh_call ci"
    and n: "nSent (start_call c ci s) \<le> 2 ^ 64"
  shows "client_ok (start_call c ci s)"
proof (cases "shutdown s \<or> closing s")
  case True
  let ?t = "upd_call c (fail_call ErrShutdown) (s\<lparr>calls := gmap_set c ci (calls s)\<rparr>)"
  have t: "start_call c ci s = ?t" using True by (simp add: start_call_def send_register_def)
  show ?thesis unfolding t
  proof (rule client_okI)
    show "pend_ok ?t q d" if "map_of (pending ?t) q = Some d" for q d
    proof (rule pend_ok_mono [of s])
      show "pend_ok s q d" using that by (simp add: client_okD(4) [OF ok])
      show "\<exists>cj. map_of (calls ?t) d = Some cj \<and> cNoResp cj = cNoResp ci" if "map_of (calls s) d = Some ci" for ci
        using that c by auto
    qed simp_all
    show "call_ok ?t d di" if "map_of (calls ?t) d = Some di" for d di
      using client_okD(5) [OF ok, of d di] pending_known [OF ok c] that fresh_call_Signals [OF ci] c
      by (auto simp: call_ok_def is_pending_def split: if_splits)
  qed (use client_okD(1-3) [OF ok] in simp_all)
next
  case False
  let ?t = "s\<lparr>calls := gmap_set c ci (calls s), seq := seq s + 1,
    pending := (if cNoResp ci then pending s else gmap_set (seq s) c (pending s)),
    writing := writing s @ [(c, seq s)], nSent := Suc (nSent s)\<rparr>"
  have t: "start_call c ci s = ?t" using False by (simp add: start_call_def send_register_def)
  with n have n': "nSent s < 2 ^ 64" by simp
  have u: "unat (seq s) = nSent s"
    using client_okD(2) [OF ok] n' by (simp add: unsigned_of_nat take_bit_nat_eq_self)
  have np: "map_of (pending s) q \<noteq> Some c" for q using pending_known [OF ok c] by (auto simp: is_pending_def)
  show ?thesis unfolding t
  proof (rule client_okI)
    show "pend_ok ?t q d" if qd: "map_of (pending ?t) q = Some d" for q d
    proof (cases "d = c")
      case True
      with qd np have "q = seq s" "\<not> cNoResp ci" by (auto split: if_splits)
      with True u np show ?thesis by (auto simp: pend_ok_def split: if_splits)
    next
      case False
      with qd have "map_of (pending s) q = Some d" by (auto split: if_splits)
      then show ?thesis
        by (rule pend_ok_mono [OF client_okD(4) [OF ok]]) (use False in \<open>auto split: if_splits\<close>)
    qed
    show "call_ok ?t d di" if di: "map_of (calls ?t) d = Some di" for d di
    proof (cases "d = c")
      case True
      with di fresh_call_Signals [OF ci] client_okD(3) [OF ok] False show ?thesis
        by (auto simp: call_ok_def is_pending_def)
    next
      case dc: False
      have "map_of (pending ?t) q = Some d \<longleftrightarrow> map_of (pending s) q = Some d" for q
        using seq_fresh [OF ok n'] dc by auto
      then have "is_pending ?t d = is_pending s d" by (simp only: is_pending_def)
      moreover have "call_ok s d di" using client_okD(5) [OF ok] di dc by simp
      ultimately show ?thesis by (rule_tac call_ok_cong) simp_all
    qed
  qed (use client_okD(1-3) [OF ok] in \<open>simp_all add: add.commute\<close>)
qed

lemma client_ok_complete:
  assumes ok: "client_ok s" and q: "map_of (pending s) q = Some c"
    and f: "\<And>ci. cNoResp (f ci) = cNoResp ci" "\<And>ci. map_of (calls s) c = Some ci \<Longrightarrow> Signals (f ci) = Suc (Signals ci)"
  shows "client_ok (upd_call c f (s\<lparr>pending := gmap_del q (pending s)\<rparr>))" (is "client_ok ?t")
proof (rule client_okI)
  have c: "map_of (pending ?t) q' \<noteq> Some c" for q'
    using client_okD(4) [OF ok q] by (auto simp: pend_ok_def)
  then have nc: "\<not> is_pending ?t c" by (simp add: is_pending_def)
  show "pend_ok ?t q' d" if "map_of (pending ?t) q' = Some d" for q' d
  proof (rule pend_ok_mono [of s])
    show "pend_ok s q' d" using that by (auto intro: client_okD(4) [OF ok] split: if_splits)
    show "\<exists>cj. map_of (calls ?t) d = Some cj \<and> cNoResp cj = cNoResp ci" if "map_of (calls s) d = Some ci" for ci
      using that f(1) by auto
  qed (auto split: if_splits)
  show "call_ok ?t d di" if "map_of (calls ?t) d = Some di" for d di
  proof (cases "d = c")
    case True
    with that obtain ci where ci: "map_of (calls s) c = Some ci" "di = f ci" by auto
    from client_okD(5) [OF ok ci(1)] q have "\<not> inputEnded s \<Longrightarrow> Signals ci = 0" by (auto simp: call_ok_def is_pending_def)
    with ci f True nc show ?thesis by (auto simp: call_ok_def)
  next
    case False
    with that have di: "map_of (calls s) d = Some di" by simp
    have "is_pending ?t d \<longleftrightarrow> is_pending s d"
      using q False by (auto simp: is_pending_def) (metis option.inject)
    with client_okD(5) [OF ok di] show ?thesis by (rule_tac call_ok_cong) simp_all
  qed
qed (use client_okD(1-3) [OF ok] in simp_all)

lemma client_ok_outside:
  assumes "client_ok s"
  shows "client_ok (s\<lparr>writing := w\<rparr>)" "client_ok (s\<lparr>cliOut := out\<rparr>)" "client_ok (s\<lparr>cliIn := inp\<rparr>)" "client_ok (s\<lparr>closing := b\<rparr>)"
  by (rule client_ok_cong [OF assms]; simp add: client_okD [OF assms])+

lemma client_ok_unknown:
  assumes "client_ok s" and "map_of (pending s) q = None"
  shows "client_ok (s\<lparr>pending := gmap_del q (pending s)\<rparr>)"
  by (rule client_ok_cong [OF assms(1)]) (simp_all add: client_okD [OF assms(1)] assms(2) fun_upd_idem)

lemma client_ok_write:
  assumes "client_ok s"
  shows "client_ok (send_write P c q s)"
proof -
  let ?t = "\<lambda>w. s\<lparr>writing := remove1 (c, q) (writing s), cliOut := w\<rparr>"
  have t: "client_ok (?t w)" for w
    using client_ok_outside(2) [OF client_ok_outside(1) [OF assms]] by simp
  have "client_ok (upd_call c' (fail_call e) ((?t w)\<lparr>pending := gmap_del q (pending (?t w))\<rparr>))"
    if "map_of (pending (?t w)) q = Some c'" for c' e w
    using t that by (rule client_ok_complete) simp_all
  moreover have "client_ok ((?t w)\<lparr>pending := gmap_del q (pending (?t w))\<rparr>)" if "map_of (pending (?t w)) q = None" for w
    using t that by (rule client_ok_unknown)
  ultimately show ?thesis
    using t client_ok_outside(1) [OF assms]
    unfolding send_write_def Let_def by (simp split: option.splits prod.splits)
qed

lemma give_result_call:
  "give_result P response call r = (call', err, r') \<Longrightarrow>
   Signals call' = Suc (Signals call) \<and> cNoResp call' = cNoResp call"
  by (auto simp: give_result_def split: if_splits sum.splits prod.splits option.splits)

lemma client_ok_end:
  assumes "client_ok s" and "range_order ord"
  shows "client_ok (input_end ord e s)"
proof (rule client_ok_input_end)
  show "is_pending s c \<or> 0 < Signals ci" if "map_of (calls s) c = Some ci" "\<not> cNoResp ci" for c ci
    using client_okD(5) [OF assms(1) that(1)] that(2) by (simp add: call_ok_def)
qed (use assms client_okD [OF assms(1)] in simp_all)

lemma client_ok_input:
  assumes "client_ok s" and "range_order ord"
  shows "client_ok (input_iter P ord s)"
proof -
  obtain h r where h: "ReadResponseHeader P (cliIn s) = (h, r)" by fastforce
  show ?thesis
  proof (cases h)
    case (Inl e)
    with h assms client_ok_end [OF client_ok_outside(3)] show ?thesis by (simp add: input_iter_def)
  next
    case (Inr response)
    let ?s1 = "s\<lparr>pending := gmap_del (sSeq response) (pending s)\<rparr>"
    show ?thesis
    proof (cases "map_of (pending s) (sSeq response)")
      case None
      have s1: "client_ok (?s1\<lparr>cliIn := r'\<rparr>)" for r'
        using client_ok_unknown [OF assms(1) None] by (rule client_ok_outside(3))
      moreover from s1 assms(2) have "client_ok (input_end ord e (?s1\<lparr>cliIn := r'\<rparr>))" for e r' by (rule client_ok_end)
      ultimately show ?thesis using h Inr None
        by (simp add: input_iter_def Let_def split: prod.splits sum.splits)
    next
      case (Some c)
      from client_okD(4) [OF assms(1) Some] obtain call where call: "map_of (calls s) c = Some call"
        by (auto simp: pend_ok_def)
      obtain call' err r' where g: "give_result P response call r = (call', err, r')" by (metis prod_cases3)
      have eq: "upd_call c (\<lambda>_. call') ?s1 = upd_call c (\<lambda>ci. if ci = call then call' else fail_call EOF ci) ?s1"
        using call by (simp add: upd_call_def)
      have "client_ok (upd_call c (\<lambda>_. call') ?s1)"
        unfolding eq using assms(1) Some by (rule client_ok_complete) (use give_result_call [OF g] call in auto)
      then have s2: "client_ok ((upd_call c (\<lambda>_. call') ?s1)\<lparr>cliIn := r'\<rparr>)" by (rule client_ok_outside(3))
      with client_ok_end [OF s2 assms(2)] h Inr Some call g show ?thesis
        by (simp add: input_iter_def Let_def split: option.splits)
    qed
  qed
qed

lemma client_ok_take:
  assumes "client_ok s"
  shows "client_ok (upd_call c (\<lambda>ci. ci\<lparr>cDone := n\<rparr>) s)" (is "client_ok ?t")
proof (rule client_okI)
  show "pend_ok ?t q d" if "map_of (pending ?t) q = Some d" for q d
    by (rule pend_ok_mono [OF client_okD(4) [OF assms]]) (use that in auto)
  show "call_ok ?t d di" if "map_of (calls ?t) d = Some di" for d di
    using that client_okD(5) [OF assms] by (force simp: call_ok_def is_pending_def split: if_splits)
qed (use client_okD(1-3) [OF assms] in simp_all)

lemma nSent_mono: "client_step P e s t \<Longrightarrow> nSent s \<le> nSent t"
proof (induction rule: client_step.induct)
  case (c_new s c ci)
  then show ?case by (simp add: start_call_def send_register_def)
next
  case (c_write c q s)
  then show ?case by (auto simp: send_write_def Let_def split: option.splits prod.splits)
next
  case (c_input s ord)
  then show ?case by (auto simp: input_iter_def Let_def split: sum.splits option.splits prod.splits)
qed (auto simp: Close_def)

lemma client_inv_step: "client_step P e s t \<Longrightarrow> client_inv s \<Longrightarrow> client_inv t"
  unfolding client_inv_def
proof (intro impI)
  assume st: "client_step P e s t" and inv: "nSent s \<le> 2 ^ 64 \<longrightarrow> client_ok s" and n: "nSent t \<le> 2 ^ 64"
  from nSent_mono [OF st] n inv have ok: "client_ok s" by simp
  from st ok n show "client_ok t"
    by cases (auto simp: Close_def intro: client_ok_start client_ok_write client_ok_input client_ok_take client_ok_outside)
qed

interpretation client: step_system "\<lambda>s. \<exists>inp. s = NewClient inp" "client_step P" client_inv for P
  by unfold_locales (auto simp: client_inv_def client_ok_init intro: client_inv_step [unfolded client_inv_def, rule_format])


section \<open>Properties\<close>

text \<open>
  C5. No call is lost and none is completed twice by the reader: as long as fewer than
  \<open>2 ^ 64\<close> requests were sent, in every reachable state of a client (any interleaving of
  callers, failed writes, responses, closes) a call that waits for a response is still pending
  and not yet signalled, or has been signalled exactly once, while the reader runs; and once the
  reader has ended every such call has been signalled.
\<close>

theorem no_call_lost:
  assumes "run (client_step P) (NewClient inp) es s" and "nSent s \<le> 2 ^ 64"
    and "map_of (calls s) c = Some ci" and "\<not> cNoResp ci"
  shows "if inputEnded s then 0 < Signals ci
    else Signals ci \<le> 1 \<and> (Signals ci = 0 \<longleftrightarrow> (\<exists>q. map_of (pending s) q = Some c))"
proof -
  have "client_inv s" using client.reachable_inv [OF _ assms(1)] by blast
  with assms(2) have "client_ok s" by (simp add: client_inv_def)
  from client_okD(5) [OF this assms(3)] assms(4) show ?thesis
    by (auto simp: call_ok_def is_pending_def split: if_splits)
qed

lemma readFrame_consumes: "readFrame r = (Inr b, r') \<Longrightarrow> length r' < length r"
  by (auto simp: readFrame_def ReadFull_def Let_def split: if_splits prod.splits)

lemma readFrame_length: "length (snd (readFrame r)) \<le> length r"
  by (auto simp: readFrame_def ReadFull_def Let_def split: if_splits prod.splits)

lemma header_consumes: "ReadResponseHeader P r = (Inr h, r') \<Longrightarrow> length r' < length r"
  by (auto simp: ReadResponseHeader_def decode_with_def split: prod.splits sum.splits dest: readFrame_consumes)

lemma decode_length: "length (snd (decode P raw t r)) \<le> length r"
  using readFrame_length [of r] by (auto simp: decode_def split: prod.splits sum.splits option.splits)

lemma give_result_length: "give_result P response call r = (call', err, r') \<Longrightarrow> length r' \<le> length r"
  using decode_length [of P 0 None r] decode_length [of P 0 "cReplyType call" r] readFrame_length [of r]
  by (auto simp: give_result_def ReadResponseBody_def ReadByteResponseBody_def
      split: if_splits sum.splits prod.splits option.splits)

lemma input_iter_progress:
  assumes "client_ok s"
  shows "inputEnded (input_iter P ord s) \<or> length (cliIn (input_iter P ord s)) < length (cliIn s)"
proof -
  obtain h r where h: "ReadResponseHeader P (cliIn s) = (h, r)" by fastforce
  show ?thesis
  proof (cases h)
    case (Inr response)
    with h have r: "length r < length (cliIn s)" by (simp add: header_consumes)
    show ?thesis
    proof (cases "map_of (pending s) (sSeq response)")
      case None
      with h Inr r decode_length [of P "word_of_int (sRaw response)" None r] show ?thesis
        by (auto simp: input_iter_def ReadResponseBody_def Let_def split: prod.splits sum.splits)
    next
      case (Some c)
      from client_okD(4) [OF assms Some] obtain call where "map_of (calls s) c = Some call" by (auto simp: pend_ok_def)
      with h Inr Some r show ?thesis
        by (auto simp: input_iter_def Let_def split: prod.splits option.splits dest: give_result_length)
    qed
  qed (use h in \<open>simp add: input_iter_def\<close>)
qed

text \<open>The loop of \<^verbatim>\<open>input\<close> on its own, with as many rounds as given.\<close>

fun input_loop :: "nat \<Rightarrow> ('t, 'm) pb_lib \<Rightarrow> (u64, nat) gorder \<Rightarrow> ('t, 'm) rpc_client \<Rightarrow> ('t, 'm) rpc_client" where
  "input_loop 0 P ord s = s"
| "input_loop (Suc n) P ord s = (if inputEnded s then s else input_loop n P ord (input_iter P ord s))"

lemma input_loop_ends:
  assumes "client_ok s" and "range_order ord" and "length (cliIn s) < n"
  shows "inputEnded (input_loop n P ord s) \<and> client_ok (input_loop n P ord s)"
  using assms(1,3)
proof (induction n arbitrary: s)
  case (Suc n)
  have ok: "client_ok (input_iter P ord s)" using Suc.prems(1) assms(2) by (rule client_ok_input)
  show ?case
  proof (cases "inputEnded s \<or> inputEnded (input_iter P ord s)")
    case True
    then show ?thesis using Suc.prems ok by (cases n) auto
  next
    case False
    with input_iter_progress [OF Suc.prems(1), of P ord] Suc.prems(2) Suc.IH [OF ok] show ?thesis by auto
  qed
qed simp

text \<open>
  C21. The reader terminates and nobody waits forever: whatever bytes the server sends before the
  connection ends, the loop of \<^verbatim>\<open>input\<close> started in any reachable state ends within
  one round more than there are bytes left, and then every call that waits for a response has
  been signalled.
\<close>

theorem input_terminates:
  assumes "run (client_step P) (NewClient inp) es s" and "nSent s \<le> 2 ^ 64" and "range_order ord"
    and "t = input_loop (Suc (length (cliIn s))) P ord s"
  shows "inputEnded t \<and> (\<forall>c ci. map_of (calls t) c = Some ci \<longrightarrow> \<not> cNoResp ci \<longrightarrow> 0 < Signals ci)"
proof -
  have "client_inv s" using client.reachable_inv [OF _ assms(1)] by blast
  with assms(2) have "client_ok s" by (simp add: client_inv_def)
  from input_loop_ends [OF this assms(3), of "Suc (length (cliIn s))" P] assms(4)
  have "inputEnded t" "client_ok t" by auto
  then show ?thesis using client_okD(5) [OF \<open>client_ok t\<close>] by (auto simp: call_ok_def)
qed

lemma routed_step:
  assumes "pb_laws P typ_of" and "WriteResponse P r (Pb m) w = (w', None)" and "flushed w' = flushed w @ out"
    and "cliIn s = out @ rest" and "map_of (pending s) (sSeq r) = Some c" and "map_of (calls s) c = Some call"
    and "cRaw call = 0" and "sRaw r = 0" and "cReplyType call = Some t" and "sError r = [] \<longrightarrow> typ_of m t"
  shows "input_iter P ord s =
    (upd_call c (\<lambda>call. if sError r \<noteq> [] then call_done (call\<lparr>cError := Some (GoErr (sError r))\<rparr>)
        else call_done (call\<lparr>cRet := sRet r, cReply := MsgReply m\<rparr>))
      (s\<lparr>pending := gmap_del (sSeq r) (pending s)\<rparr>))\<lparr>cliIn := rest\<rparr>"
proof -
  let ?f = "\<lambda>call. if sError r \<noteq> [] then call_done (call\<lparr>cError := Some (GoErr (sError r))\<rparr>)
    else call_done (call\<lparr>cRet := sRet r, cReply := MsgReply m\<rparr>)"
  have "\<exists>mid. ReadResponseHeader P (out @ rest) = (Inr (r\<lparr>sRaw := 0\<rparr>), mid) \<and>
      give_result P (r\<lparr>sRaw := 0\<rparr>) call mid = (?f call, None, rest)"
  proof (cases "sError r = []")
    case True
    have "sRaw r \<in> {0, 1, 2}" using assms(8) by simp
    from WriteResponse_roundtrip [OF assms(1,2) _ this, of t 0] assms(3,10) True obtain mid where
      "ReadResponseHeader P (out @ rest) = (Inr (r\<lparr>sRaw := 0\<rparr>), mid)"
      "ReadResponseBody P 0 (Some t) mid = (Inr (Some m), rest)"
      using assms(8) by fastforce
    with True assms(7,9) show ?thesis by (intro exI [of _ mid]) (simp add: give_result_def)
  next
    case False
    from WriteResponse_skip [OF assms(1,2), of 0] assms(3) obtain mid where
      "ReadResponseHeader P (out @ rest) = (Inr (r\<lparr>sRaw := 0\<rparr>), mid)"
      "ReadResponseBody P 0 None mid = (Inr None, rest)" by fastforce
    with False show ?thesis by (intro exI [of _ mid]) (simp add: give_result_def)
  qed
  then obtain mid where "ReadResponseHeader P (out @ rest) = (Inr (r\<lparr>sRaw := 0\<rparr>), mid)"
    "give_result P (r\<lparr>sRaw := 0\<rparr>) call mid = (?f call, None, rest)" by blast
  with assms(4-6) show ?thesis by (simp add: input_iter_def upd_call_def)
qed

text \<open>
  A response reaches its own call: when the next response in the stream answers a pending
  message call, that call gets the return code and the decoded reply and is signalled, its entry
  is removed, no other call and no other entry changes, and the reader stands at the next
  response. A response with an error text gives the call that error instead.
\<close>

theorem response_routed:
  assumes "pb_laws P typ_of" and "WriteResponse P r (Pb m) w = (w', None)" and "flushed w' = flushed w @ out"
    and "cliIn s = out @ rest" and "map_of (pending s) (sSeq r) = Some c" and "map_of (calls s) c = Some call"
    and "cRaw call = 0" and "sRaw r = 0" and "cReplyType call = Some t" and "sError r = [] \<longrightarrow> typ_of m t"
  shows "input_iter P ord s =
    (upd_call c (\<lambda>call. if sError r \<noteq> [] then call_done (call\<lparr>cError := Some (GoErr (sError r))\<rparr>)
        else call_done (call\<lparr>cRet := sRet r, cReply := MsgReply m\<rparr>))
      (s\<lparr>pending := gmap_del (sSeq r) (pending s)\<rparr>))\<lparr>cliIn := rest\<rparr>"
  using routed_step [OF assms] .

definition log_ok :: "('t, 'm) rpc_client \<Rightarrow> bool" where
  "log_ok s \<longleftrightarrow> (closeLog s \<noteq> [] \<longrightarrow> closing s)"

lemma log_ok_simps [simp]:
  "log_ok (upd_call c f s) = log_ok s" "log_ok (s\<lparr>cliIn := i\<rparr>) = log_ok s" "log_ok (s\<lparr>cliOut := out\<rparr>) = log_ok s"
  "log_ok (s\<lparr>pending := p\<rparr>) = log_ok s" "log_ok (s\<lparr>writing := w\<rparr>) = log_ok s" "log_ok (s\<lparr>calls := cs\<rparr>) = log_ok s"
  "log_ok (s\<lparr>seq := q, pending := p, writing := w, nSent := n\<rparr>) = log_ok s"
  by (simp_all add: log_ok_def)

lemma log_ok_input_end: "log_ok s \<Longrightarrow> log_ok (input_end ord e s)"
  by (auto simp: log_ok_def input_end_def Let_def)

lemma closeLog_step: "client_step P e s t \<Longrightarrow> log_ok s \<Longrightarrow> log_ok t"
proof (induction rule: client_step.induct)
  case (c_new s c ci)
  then show ?case by (auto simp: start_call_def send_register_def log_ok_def)
next
  case (c_write c q s)
  then show ?case by (simp add: send_write_def Let_def split: option.splits prod.splits)
next
  case (c_input s ord)
  then show ?case
    by (simp add: input_iter_def Let_def log_ok_input_end split: sum.splits option.splits prod.splits)
qed (simp_all add: Close_def log_ok_def)

interpretation close_log: step_system "\<lambda>s. closeLog s = []" "client_step P" log_ok for P
proof unfold_locales
  show "closeLog s = [] \<Longrightarrow> log_ok s" for s :: "('a, 'b) rpc_client" by (simp add: log_ok_def)
qed (rule closeLog_step)

text \<open>
  The close callback reports only the user's own close: in no reachable state has the callback
  of a client been invoked unless \<^verbatim>\<open>Close\<close> was called, so a connection lost to the
  network never triggers it.
\<close>

theorem close_callback_only_after_Close:
  assumes "run (client_step P) (WithName name True (NewClient inp)) es s" and "closeLog s \<noteq> []"
  shows "closing s"
  using close_log.reachable_inv [OF _ assms(1)] assms(2) by (simp add: WithName_def NewClient_def log_ok_def)

text \<open>A client with one call whose answer is in the stream.\<close>

definition cl_rsp :: rpc_response where
  "cl_rsp = \<lparr>sServiceMethod = ''Db.Get'', sSeq = 0, sError = [], sRet = 5, sRaw = 0\<rparr>"

definition cl_lib :: "(unit, string) pb_lib" where
  "cl_lib = pos_lib [] [\<lparr>pMethod = ''Db.Get'', pSeq = 0, pError = [], pRet = 5, pRaw = 0\<rparr>] [''x'']"

definition cl_call :: "(unit, string) call_info" where
  "cl_call = new_call None ''Db.Get'' (MsgArgs (Pb ''x'')) (Some ()) (Some 1) False 0"

definition cl_out :: bytes where
  "cl_out = flushed (fst (WriteResponse cl_lib cl_rsp (Pb ''x'') \<lparr>flushed = [], bwerr = None\<rparr>))"

definition cl_state :: "(unit, string) rpc_client" where
  "cl_state = start_call 0 cl_call (NewClient cl_out)"

lemma cl_run: "run (client_step cl_lib) (NewClient cl_out) [CNew 0 cl_call] cl_state"
proof -
  have "fresh_call cl_call" unfolding fresh_call_def cl_call_def by blast
  then have "client_step cl_lib (CNew 0 cl_call) (NewClient cl_out) cl_state"
    unfolding cl_state_def by (intro c_new) (simp_all add: NewClient_def)
  then show ?thesis by (blast intro: run_cons run_nil)
qed

lemma cl_state_simps:
  "nSent cl_state = 1" "map_of (calls cl_state) 0 = Some cl_call" "\<not> cNoResp cl_call" "cliIn cl_state = cl_out"
  "map_of (pending cl_state) 0 = Some 0" "\<not> inputEnded cl_state" "Signals cl_call = 0"
  "cRaw cl_call = 0" "cReplyType cl_call = Some ()" "closeLog cl_state = []"
  by (simp_all add: cl_state_def start_call_def send_register_def NewClient_def cl_call_def new_call_def)

theorem no_call_lost_witness: "Signals cl_call = 0 \<and> (\<exists>q. map_of (pending cl_state) q = Some 0)"
  using no_call_lost [OF cl_run _ cl_state_simps(2,3)] cl_state_simps by simp

theorem input_terminates_witness:
  "\<exists>t. t = input_loop (Suc (length (cliIn cl_state))) cl_lib (\<lambda>m. m) cl_state \<and> inputEnded t"
  using input_terminates [OF cl_run _ range_order_id refl] cl_state_simps by simp

theorem response_routed_witness:
  "map_of (calls (input_iter cl_lib (\<lambda>m. m) cl_state)) 0 = Some (call_done (cl_call\<lparr>cRet := 5, cReply := MsgReply ''x''\<rparr>))"
proof -
  have w: "WriteResponse cl_lib cl_rsp (Pb ''x'') \<lparr>flushed = [], bwerr = None\<rparr> = (\<lparr>flushed = cl_out, bwerr = None\<rparr>, None)"
    by (simp add: cl_out_def WriteResponse_def cl_rsp_def cl_lib_def pos_lib_def pos_enc_def encode_rsp_def encode_def
        writeFrame_bytes bufio_Write_def tooBig_def)
  have l: "pb_laws cl_lib (\<lambda>_ _. True)" by (simp add: cl_lib_def pos_lib_laws)
  have i: "cliIn cl_state = cl_out @ []" by (simp add: cl_state_simps)
  have p: "map_of (pending cl_state) (sSeq cl_rsp) = Some 0" by (simp add: cl_rsp_def cl_state_simps)
  from response_routed [OF l w _ i p cl_state_simps(2,8) _ cl_state_simps(9)] show ?thesis
    by (simp add: cl_rsp_def cl_state_simps)
qed

theorem close_callback_only_after_Close_witness:
  "\<exists>s. run (client_step cl_lib) (WithName ''n'' True (NewClient [])) [CClose, CInput] s \<and> closeLog s = [(''n'', ErrShutdown)] \<and> closing s"
proof -
  let ?a = "WithName ''n'' True (NewClient []) :: (unit, string) rpc_client"
  let ?b = "fst (Close ?a)"
  let ?s = "input_iter cl_lib (\<lambda>m. m) ?b"
  have "client_step cl_lib CClose ?a ?b" by (rule c_close)
  moreover have "client_step cl_lib CInput ?b ?s"
    by (rule c_input) (simp_all add: Close_def WithName_def NewClient_def)
  ultimately have r: "run (client_step cl_lib) ?a [CClose, CInput] ?s" by (blast intro: run_cons run_nil)
  have l: "closeLog ?s = [(''n'', ErrShutdown)]"
    by (simp add: input_iter_def input_end_def finish_all_def ReadResponseHeader_def decode_with_def readFrame_def ReadFull_def
        Close_def WithName_def NewClient_def)
  from close_callback_only_after_Close [OF r] l r show ?thesis by auto
qed

end
