(* ===== verification/Hash_Set.thy ===== *)
theory Hash_Set
  imports Go_Strings
begin

text \<open>
  The two-level hash table of \<^verbatim>\<open>util/hash_set.go\<close> and its write-through persistence
  \<^verbatim>\<open>util/hash_set_db.go\<close>. The record \<open>hash_set\<close> holds \<^verbatim>\<open>HashSet.Data\<close> and
  the global \<^verbatim>\<open>boltDB\<close> (\<open>None\<close> for the nil pointer); the mutex serialises the
  operations, so each is one function from state to state. The bolt library is not part of the
  sources: the record \<open>bolt\<close> collects the calls the code makes, and \<open>bolt_laws\<close> states
  its documented behaviour.
\<close>

section \<open>The database interface\<close>

type_synonym fields = "(string, string) gmap"

record 'db bolt =
  Update :: "('db \<Rightarrow> go_error + 'db) \<Rightarrow> 'db \<Rightarrow> 'db"
  CreateBucketIfNotExists :: "string \<Rightarrow> 'db \<Rightarrow> go_error + 'db"
  Put :: "string \<Rightarrow> string \<Rightarrow> string \<Rightarrow> 'db \<Rightarrow> 'db"
  Delete :: "string \<Rightarrow> string \<Rightarrow> 'db \<Rightarrow> 'db"
  DeleteBucket :: "string \<Rightarrow> 'db \<Rightarrow> 'db"
  ForEach :: "'db \<Rightarrow> (string \<times> fields) list"

record 'db hash_set =
  Data :: "(string, fields) gmap"
  boltDB :: "'db option"

record kfv_info =
  Key :: string
  Field :: string
  Value :: string

definition NewHashSet :: "'db option \<Rightarrow> 'db hash_set" where
  "NewHashSet db = \<lparr>Data = [], boltDB = db\<rparr>"


section \<open>Persistence, util/hash-set-db.go\<close>

definition GetAllKfv :: "'db bolt \<Rightarrow> 'db option \<Rightarrow> kfv_info list" where
  "GetAllKfv B db =
     (case db of
        None \<Rightarrow> []
      | Some d \<Rightarrow>
          concat (map (\<lambda>(name, b). map (\<lambda>(k, v). \<lparr>Key = name, Field = k, Value = v\<rparr>) b) (ForEach B d)))"

definition AddKvs :: "'db bolt \<Rightarrow> string \<Rightarrow> string \<Rightarrow> string \<Rightarrow> 'db option \<Rightarrow> 'db option" where
  "AddKvs B key field value db =
     (case db of
        None \<Rightarrow> None
      | Some d \<Rightarrow>
          Some (Update B (\<lambda>tx. case CreateBucketIfNotExists B key tx of
                                 Inl err \<Rightarrow> Inl err
                               | Inr tx' \<Rightarrow> Inr (Put B key field value tx')) d))"

definition UpdateKvs :: "'db bolt \<Rightarrow> string \<Rightarrow> string \<Rightarrow> string \<Rightarrow> 'db option \<Rightarrow> 'db option" where
  "UpdateKvs B key field value db = (case db of None \<Rightarrow> None | Some _ \<Rightarrow> AddKvs B key field value db)"

definition DelKvs :: "'db bolt \<Rightarrow> string \<Rightarrow> string \<Rightarrow> 'db option \<Rightarrow> 'db option" where
  "DelKvs B key field db =
     (case db of
        None \<Rightarrow> None
      | Some d \<Rightarrow>
          Some (Update B (\<lambda>tx. case CreateBucketIfNotExists B key tx of
                                 Inl err \<Rightarrow> Inl err
                               | Inr tx' \<Rightarrow> Inr (Delete B key field tx')) d))"

definition DelKey :: "'db bolt \<Rightarrow> string \<Rightarrow> 'db option \<Rightarrow> 'db option" where
  "DelKey B key db =
     (case db of
        None \<Rightarrow> None
      | Some d \<Rightarrow> Some (Update B (\<lambda>tx. Inr (DeleteBucket B key tx)) d))"


section \<open>Operations, util/hash-set.go\<close>

definition key_info :: "'db hash_set \<Rightarrow> string \<Rightarrow> fields" where
  "key_info s key = (case map_of (Data s) key of None \<Rightarrow> [] | Some ki \<Rightarrow> ki)"

definition KeyPrefix :: "(string, fields) gorder \<Rightarrow> string \<Rightarrow> 'db hash_set \<Rightarrow> string list" where
  "KeyPrefix ord pre s = map fst (filter (\<lambda>(k, _). prefix pre k) (ord (Data s)))"

definition Del :: "'db bolt \<Rightarrow> string \<Rightarrow> 'db hash_set \<Rightarrow> 'db hash_set" where
  "Del B key s = s\<lparr>Data := gmap_del key (Data s), boltDB := DelKey B key (boltDB s)\<rparr>"

definition Hget :: "string \<Rightarrow> string \<Rightarrow> 'db hash_set \<Rightarrow> string" where
  "Hget key field s =
     (if key = [] \<or> field = [] then []
      else case map_of (Data s) key of
             None \<Rightarrow> []
           | Some keyInfo \<Rightarrow> (case map_of keyInfo field of None \<Rightarrow> [] | Some value \<Rightarrow> value))"

definition Hgetall :: "(string, string) gorder \<Rightarrow> string \<Rightarrow> 'db hash_set \<Rightarrow> string list" where
  "Hgetall ord key s =
     (if key = [] then []
      else case map_of (Data s) key of
             None \<Rightarrow> []
           | Some keyInfo \<Rightarrow> concat (map (\<lambda>(field, value). [field, value]) (ord keyInfo)))"

text \<open>Status 0 is an update, 1 an addition, 2 a deletion; the flag is false for empty names.\<close>

definition hset :: "string \<Rightarrow> string \<Rightarrow> string \<Rightarrow> 'db hash_set \<Rightarrow> 'db hash_set \<times> nat \<times> bool" where
  "hset key field value s =
     (if key = [] \<or> field = [] then (s, 0, False)
      else
        let keyInfo = key_info s key;
            present = (map_of keyInfo field \<noteq> None);
            (keyInfo', status) =
              (if value = [] then (gmap_del field keyInfo, 2)
               else if present then (gmap_set field value keyInfo, 0)
               else (gmap_set field value keyInfo, 1))
        in (s\<lparr>Data := gmap_set key keyInfo' (Data s)\<rparr>, status, True))"

definition Hset :: "'db bolt \<Rightarrow> string \<Rightarrow> string \<Rightarrow> string \<Rightarrow> 'db hash_set \<Rightarrow> 'db hash_set \<times> bool" where
  "Hset B key field value s =
     (case hset key field value s of
        (s', status, ok) \<Rightarrow>
          if \<not> ok then (s', False)
          else if status = 0 then (s'\<lparr>boltDB := UpdateKvs B key field value (boltDB s')\<rparr>, True)
          else if status = 1 then (s'\<lparr>boltDB := AddKvs B key field value (boltDB s')\<rparr>, True)
          else (s'\<lparr>boltDB := DelKvs B key field (boltDB s')\<rparr>, True))"

definition hincrby :: "string \<Rightarrow> string \<Rightarrow> int \<Rightarrow> 'db hash_set \<Rightarrow> 'db hash_set \<times> nat \<times> string \<times> bool" where
  "hincrby key field add s =
     (if key = [] \<or> field = [] then (s, 0, [], False)
      else
        let keyInfo = key_info s key;
            old = map_of keyInfo field;
            value = (case old of None \<Rightarrow> [] | Some v \<Rightarrow> v);
            oldValue = fst (Atoi value);
            value' = Itoa (wrap_int64 (add + oldValue));
            status = (if old \<noteq> None then 0 else 1)
        in (s\<lparr>Data := gmap_set key (gmap_set field value' keyInfo) (Data s)\<rparr>, status, value', True))"

definition Hincrby :: "'db bolt \<Rightarrow> string \<Rightarrow> string \<Rightarrow> int \<Rightarrow> 'db hash_set \<Rightarrow> 'db hash_set \<times> string" where
  "Hincrby B key field add s =
     (case hincrby key field add s of
        (s', status, value, ok) \<Rightarrow>
          if \<not> ok then (s', [])
          else if status = 0 then (s'\<lparr>boltDB := UpdateKvs B key field value (boltDB s')\<rparr>, value)
          else (s'\<lparr>boltDB := AddKvs B key field value (boltDB s')\<rparr>, value))"

fun load_all :: "kfv_info list \<Rightarrow> 'db hash_set \<Rightarrow> 'db hash_set" where
  "load_all [] s = s"
| "load_all (x # xs) s = load_all xs (fst (hset (Key x) (Field x) (Value x) s))"

definition Load :: "'db bolt \<Rightarrow> 'db hash_set \<Rightarrow> 'db hash_set" where
  "Load B s = load_all (GetAllKfv B (boltDB s)) s"

text \<open>Keys and fields are distinct at both levels.\<close>

definition hash_set_ok :: "'db hash_set \<Rightarrow> bool" where
  "hash_set_ok s \<longleftrightarrow> gmap_ok (Data s) \<and> (\<forall>(k, ki)\<in>set (Data s). gmap_ok ki)"


section \<open>The contract of a hash store\<close>

text \<open>
  What the users of the table rely on: a read returns the last value written to its key and
  field, deletion of a key empties every field of it, and writes with an empty name are ignored.
\<close>

datatype store_cmd = CmdSet string string string | CmdDel string

fun spec_cmd :: "store_cmd \<Rightarrow> (string \<Rightarrow> string \<Rightarrow> string) \<Rightarrow> string \<Rightarrow> string \<Rightarrow> string" where
  "spec_cmd (CmdSet k f v) g =
     (if k = [] \<or> f = [] then g else (\<lambda>k' f'. if k' = k \<and> f' = f then v else g k' f'))"
| "spec_cmd (CmdDel k) g = (\<lambda>k' f'. if k' = k then [] else g k' f')"

fun exec_cmd :: "(string \<Rightarrow> string \<Rightarrow> string \<Rightarrow> 's \<Rightarrow> 's) \<Rightarrow> (string \<Rightarrow> 's \<Rightarrow> 's) \<Rightarrow> store_cmd \<Rightarrow> 's \<Rightarrow> 's" where
  "exec_cmd put del (CmdSet k f v) s = put k f v s"
| "exec_cmd put del (CmdDel k) s = del k s"

fun cmd_legal :: "(string \<Rightarrow> bool) \<Rightarrow> store_cmd \<Rightarrow> bool" where
  "cmd_legal legal (CmdSet k f v) \<longleftrightarrow> legal k \<and> legal f \<and> legal v"
| "cmd_legal legal (CmdDel k) \<longleftrightarrow> legal k"

locale hash_store =
  fixes inv :: "'s \<Rightarrow> bool"
    and legal :: "string \<Rightarrow> bool"
    and get :: "string \<Rightarrow> string \<Rightarrow> 's \<Rightarrow> string"
    and put :: "string \<Rightarrow> string \<Rightarrow> string \<Rightarrow> 's \<Rightarrow> 's"
    and del :: "string \<Rightarrow> 's \<Rightarrow> 's"
  assumes inv_put: "inv s \<Longrightarrow> legal k \<Longrightarrow> legal f \<Longrightarrow> legal v \<Longrightarrow> inv (put k f v s)"
    and inv_del: "inv s \<Longrightarrow> legal k \<Longrightarrow> inv (del k s)"
    and get_put: "inv s \<Longrightarrow> legal k \<Longrightarrow> legal f \<Longrightarrow> legal v \<Longrightarrow> legal k' \<Longrightarrow> legal f' \<Longrightarrow>
      get k' f' (put k f v s) =
        (if k \<noteq> [] \<and> f \<noteq> [] \<and> k' = k \<and> f' = f then v else get k' f' s)"
    and get_del: "inv s \<Longrightarrow> legal k \<Longrightarrow> legal k' \<Longrightarrow> legal f' \<Longrightarrow>
      get k' f' (del k s) = (if k' = k then [] else get k' f' s)"
begin

lemma inv_exec: "inv s \<Longrightarrow> cmd_legal legal c \<Longrightarrow> inv (exec_cmd put del c s)"
  by (cases c) (auto intro: inv_put inv_del)

lemma exec_refines:
  "inv s \<Longrightarrow> cmd_legal legal c \<Longrightarrow> \<forall>k f. legal k \<longrightarrow> legal f \<longrightarrow> get k f s = g k f \<Longrightarrow>
   legal k \<Longrightarrow> legal f \<Longrightarrow> get k f (exec_cmd put del c s) = spec_cmd c g k f"
  by (cases c) (auto simp: get_put get_del)

lemma inv_run: "inv s \<Longrightarrow> \<forall>c\<in>set cs. cmd_legal legal c \<Longrightarrow> inv (fold (exec_cmd put del) cs s)"
  by (induction cs arbitrary: s) (auto intro: inv_exec)

lemma run_refines:
  assumes "inv s" and "\<forall>c\<in>set cs. cmd_legal legal c"
    and "\<forall>k f. legal k \<longrightarrow> legal f \<longrightarrow> get k f s = g k f" and "legal k" and "legal f"
  shows "get k f (fold (exec_cmd put del) cs s) = fold spec_cmd cs g k f"
  using assms
proof (induction cs arbitrary: s g)
  case (Cons c cs)
  have "get k f (fold (exec_cmd put del) cs (exec_cmd put del c s)) = fold spec_cmd cs (spec_cmd c g) k f"
    using Cons.prems by (intro Cons.IH) (auto intro: inv_exec exec_refines)
  then show ?case by simp
qed simp

end


section \<open>The table satisfies it\<close>

lemma key_info_eq: "map_of (Data s) k = Some ki \<Longrightarrow> key_info s k = ki"
  by (simp add: key_info_def)

lemma Hget_alt:
  "Hget k f s = (if k = [] \<or> f = [] then [] else case map_of (key_info s k) f of None \<Rightarrow> [] | Some v \<Rightarrow> v)"
  by (auto simp: Hget_def key_info_def split: option.splits)

lemma key_info_ok: "hash_set_ok s \<Longrightarrow> gmap_ok (key_info s k)"
  by (auto simp: hash_set_ok_def key_info_def dest: map_of_SomeD split: option.splits)

lemma hash_set_ok_upd:
  "hash_set_ok s \<Longrightarrow> gmap_ok ki \<Longrightarrow> hash_set_ok (s\<lparr>Data := gmap_set k ki (Data s)\<rparr>)"
  unfolding hash_set_ok_def by (auto dest: subsetD [OF gmap_set_subset])

lemma hash_set_ok_boltDB [simp]: "hash_set_ok (s\<lparr>boltDB := db\<rparr>) = hash_set_ok s"
  by (simp add: hash_set_ok_def)

lemma hash_set_ok_New [simp]: "hash_set_ok (NewHashSet db)"
  by (simp add: hash_set_ok_def NewHashSet_def)

lemma key_info_upd [simp]:
  "key_info (s\<lparr>Data := gmap_set k ki (Data s)\<rparr>) k' = (if k' = k then ki else key_info s k')"
  by (simp add: key_info_def)

lemma key_info_boltDB [simp]: "key_info (s\<lparr>boltDB := db\<rparr>) k = key_info s k"
  by (simp add: key_info_def)

lemma hash_set_ok_hset: "hash_set_ok s \<Longrightarrow> hash_set_ok (fst (hset k f v s))"
  by (auto simp: hset_def Let_def intro!: hash_set_ok_upd simp: key_info_ok)

lemma hash_set_ok_Hset: "hash_set_ok s \<Longrightarrow> hash_set_ok (fst (Hset B k f v s))"
  using hash_set_ok_hset [of s k f v] by (auto simp: Hset_def split: prod.splits)

lemma hash_set_ok_hincrby: "hash_set_ok s \<Longrightarrow> hash_set_ok (fst (hincrby k f n s))"
  by (auto simp: hincrby_def Let_def intro!: hash_set_ok_upd simp: key_info_ok)

lemma hash_set_ok_Hincrby: "hash_set_ok s \<Longrightarrow> hash_set_ok (fst (Hincrby B k f n s))"
  using hash_set_ok_hincrby [of s k f n] by (auto simp: Hincrby_def split: prod.splits)

lemma hash_set_ok_Del: "hash_set_ok s \<Longrightarrow> hash_set_ok (Del B k s)"
  unfolding hash_set_ok_def Del_def by (auto dest: subsetD [OF gmap_del_subset])

lemma Hget_boltDB [simp]: "Hget k f (s\<lparr>boltDB := db\<rparr>) = Hget k f s"
  by (simp add: Hget_def)

lemma Hget_hset:
  "Hget k' f' (fst (hset k f v s)) =
     (if k \<noteq> [] \<and> f \<noteq> [] \<and> k' = k \<and> f' = f then v else Hget k' f' s)"
  by (auto simp: hset_def Hget_alt Let_def)

lemma Hget_Hset:
  "Hget k' f' (fst (Hset B k f v s)) =
     (if k \<noteq> [] \<and> f \<noteq> [] \<and> k' = k \<and> f' = f then v else Hget k' f' s)"
  using Hget_hset [of k' f' k f v s] by (auto simp: Hset_def split: prod.splits)

lemma Hget_Del: "Hget k' f' (Del B k s) = (if k' = k then [] else Hget k' f' s)"
  by (simp add: Del_def Hget_def)

interpretation hs: hash_store hash_set_ok "\<lambda>_. True" Hget "\<lambda>k f v s. fst (Hset B k f v s)" "Del B" for B
  by unfold_locales (auto simp: hash_set_ok_Hset hash_set_ok_Del Hget_Hset Hget_Del)

lemma Hget_Hincrby:
  "k \<noteq> [] \<Longrightarrow> f \<noteq> [] \<Longrightarrow>
   Hget k' f' (fst (Hincrby B k f n s)) =
     (if k' = k \<and> f' = f then Itoa (wrap_int64 (n + fst (Atoi (Hget k f s)))) else Hget k' f' s)"
  by (auto simp: Hincrby_def hincrby_def Let_def Hget_alt split: prod.splits option.splits)


section \<open>Write-through persistence\<close>

text \<open>
  The documented behaviour of the bolt calls: a transaction commits when its function returns
  no error and is rolled back otherwise; bucket and key names are non-empty and at most 32768
  bytes long, values at most \<open>2 ^ 31 - 2\<close>; iteration visits every bucket and key once.
  \<open>view\<close> is the content of the database.
\<close>

type_synonym 'db db_view = "'db \<Rightarrow> string \<Rightarrow> (string \<Rightarrow> string option) option"

definition legal_name :: "string \<Rightarrow> bool" where
  "legal_name n \<longleftrightarrow> n \<noteq> [] \<and> length n \<le> 32768"

definition legal_value :: "string \<Rightarrow> bool" where
  "legal_value v \<longleftrightarrow> length v \<le> 2147483646"

definition bolt_laws :: "'db bolt \<Rightarrow> 'db db_view \<Rightarrow> bool" where
  "bolt_laws B view \<longleftrightarrow>
     (\<forall>f d. Update B f d = (case f d of Inl e \<Rightarrow> d | Inr d' \<Rightarrow> d')) \<and>
     (\<forall>k d. legal_name k \<longrightarrow>
        (\<exists>d'. CreateBucketIfNotExists B k d = Inr d' \<and>
          view d' = (if view d k = None then (view d)(k \<mapsto> Map.empty) else view d))) \<and>
     (\<forall>k f v d b. view d k = Some b \<longrightarrow> legal_name f \<longrightarrow> legal_value v \<longrightarrow>
        view (Put B k f v d) = (view d)(k \<mapsto> b(f \<mapsto> v))) \<and>
     (\<forall>k f d b. view d k = Some b \<longrightarrow> view (Delete B k f d) = (view d)(k \<mapsto> b(f := None))) \<and>
     (\<forall>k d. view (DeleteBucket B k d) = (view d)(k := None)) \<and>
     (\<forall>d. gmap_ok (ForEach B d) \<and> (\<forall>(k, kvs)\<in>set (ForEach B d). gmap_ok kvs) \<and>
        view d = (\<lambda>k. map_option map_of (map_of (ForEach B d) k)))"

definition memory :: "'db hash_set \<Rightarrow> string \<Rightarrow> (string \<Rightarrow> string option) option" where
  "memory s = (\<lambda>k. map_option map_of (map_of (Data s) k))"

definition mirrors :: "'db db_view \<Rightarrow> 'db hash_set \<Rightarrow> bool" where
  "mirrors view s \<longleftrightarrow> (case boltDB s of None \<Rightarrow> True | Some d \<Rightarrow> view d = memory s)"

lemma bolt_update: "bolt_laws B view \<Longrightarrow> Update B f d = (case f d of Inl e \<Rightarrow> d | Inr d' \<Rightarrow> d')"
  by (simp add: bolt_laws_def)

lemma bolt_create:
  "bolt_laws B view \<Longrightarrow> legal_name k \<Longrightarrow>
     \<exists>d'. CreateBucketIfNotExists B k d = Inr d' \<and>
       view d' = (if view d k = None then (view d)(k \<mapsto> Map.empty) else view d)"
  unfolding bolt_laws_def by blast

lemma bolt_put:
  "bolt_laws B view \<Longrightarrow> view d k = Some b \<Longrightarrow> legal_name f \<Longrightarrow> legal_value v \<Longrightarrow>
     view (Put B k f v d) = (view d)(k \<mapsto> b(f \<mapsto> v))"
  unfolding bolt_laws_def by blast

lemma bolt_delete:
  "bolt_laws B view \<Longrightarrow> view d k = Some b \<Longrightarrow> view (Delete B k f d) = (view d)(k \<mapsto> b(f := None))"
  unfolding bolt_laws_def by blast

lemma bolt_delete_bucket: "bolt_laws B view \<Longrightarrow> view (DeleteBucket B k d) = (view d)(k := None)"
  unfolding bolt_laws_def by blast

lemma bolt_foreach:
  assumes "bolt_laws B view"
  shows "gmap_ok (ForEach B d)" "\<forall>(k, kvs)\<in>set (ForEach B d). gmap_ok kvs"
    "view d = (\<lambda>k. map_option map_of (map_of (ForEach B d) k))"
  using assms unfolding bolt_laws_def by blast+

abbreviation bucket :: "(string \<Rightarrow> (string \<Rightarrow> string option) option) \<Rightarrow> string \<Rightarrow> (string \<Rightarrow> string option)" where
  "bucket m k \<equiv> (case m k of None \<Rightarrow> Map.empty | Some b \<Rightarrow> b)"

lemma view_AddKvs:
  assumes "bolt_laws B view" and "legal_name k" and "legal_name f" and "legal_value v"
  shows "\<exists>d'. AddKvs B k f v (Some d) = Some d' \<and> view d' = (view d)(k \<mapsto> (bucket (view d) k)(f \<mapsto> v))"
proof -
  obtain t where t: "CreateBucketIfNotExists B k d = Inr t"
    "view t = (if view d k = None then (view d)(k \<mapsto> Map.empty) else view d)"
    using bolt_create [OF assms(1,2)] by blast
  then have "view t k = Some (bucket (view d) k)" by auto
  then have "view (Put B k f v t) = (view t)(k \<mapsto> (bucket (view d) k)(f \<mapsto> v))"
    using assms by (auto intro: bolt_put)
  with t show ?thesis
    by (auto simp: AddKvs_def bolt_update [OF assms(1)])
qed

lemma view_DelKvs:
  assumes "bolt_laws B view" and "legal_name k"
  shows "\<exists>d'. DelKvs B k f (Some d) = Some d' \<and> view d' = (view d)(k \<mapsto> (bucket (view d) k)(f := None))"
proof -
  obtain t where t: "CreateBucketIfNotExists B k d = Inr t"
    "view t = (if view d k = None then (view d)(k \<mapsto> Map.empty) else view d)"
    using bolt_create [OF assms] by blast
  then have "view t k = Some (bucket (view d) k)" by auto
  then have "view (Delete B k f t) = (view t)(k \<mapsto> (bucket (view d) k)(f := None))"
    using assms(1) by (auto intro: bolt_delete)
  with t show ?thesis
    by (auto simp: DelKvs_def bolt_update [OF assms(1)])
qed

lemma memory_upd [simp]:
  "memory (s\<lparr>Data := gmap_set k ki (Data s)\<rparr>) = (memory s)(k \<mapsto> map_of ki)"
  by (auto simp: memory_def)

lemma memory_boltDB [simp]: "memory (s\<lparr>boltDB := db\<rparr>) = memory s"
  by (simp add: memory_def)

lemma bucket_memory: "bucket (memory s) k = map_of (key_info s k)"
  by (auto simp: memory_def key_info_def split: option.splits)

lemma UpdateKvs_AddKvs [simp]: "UpdateKvs B k f v db = AddKvs B k f v db"
  by (simp add: UpdateKvs_def AddKvs_def split: option.splits)

lemma mirrors_add:
  assumes "bolt_laws B view" "legal_name k" "legal_name f" "legal_value v" and "mirrors view s"
  shows "mirrors view (s\<lparr>Data := gmap_set k (gmap_set f v (key_info s k)) (Data s),
    boltDB := AddKvs B k f v (boltDB s)\<rparr>)"
proof (cases "boltDB s")
  case None
  then show ?thesis by (simp add: mirrors_def AddKvs_def)
next
  case (Some d)
  with assms(5) have "view d = memory s" by (simp add: mirrors_def)
  with view_AddKvs [OF assms(1-4), of d] Some show ?thesis
    by (auto simp: mirrors_def bucket_memory)
qed

lemma mirrors_remove:
  assumes "bolt_laws B view" "legal_name k" and "mirrors view s"
  shows "mirrors view (s\<lparr>Data := gmap_set k (gmap_del f (key_info s k)) (Data s),
    boltDB := DelKvs B k f (boltDB s)\<rparr>)"
proof (cases "boltDB s")
  case None
  then show ?thesis by (simp add: mirrors_def DelKvs_def)
next
  case (Some d)
  with assms(3) have "view d = memory s" by (simp add: mirrors_def)
  with view_DelKvs [OF assms(1-2), of f d] Some show ?thesis
    by (auto simp: mirrors_def bucket_memory)
qed

lemma legal_nameD: "legal_name n \<Longrightarrow> n \<noteq> []"
  by (simp add: legal_name_def)

lemma mirrors_Hset:
  assumes "bolt_laws B view" "legal_name k" "legal_name f" "legal_value v" and "mirrors view s"
  shows "mirrors view (fst (Hset B k f v s))"
  using mirrors_add [OF assms] mirrors_remove [OF assms(1,2,5), of f] assms(2,3) [THEN legal_nameD]
  by (simp add: Hset_def hset_def Let_def)

lemma mirrors_Hincrby:
  assumes "bolt_laws B view" "legal_name k" "legal_name f" and "mirrors view s"
  shows "mirrors view (fst (Hincrby B k f n s))"
proof -
  let ?v = "Itoa (wrap_int64 (n + fst (Atoi (case map_of (key_info s k) f of None \<Rightarrow> [] | Some v \<Rightarrow> v))))"
  have "legal_value ?v"
    using length_Itoa_int64 [OF wrap_int64_range] unfolding legal_value_def by (rule order_trans) simp
  from mirrors_add [OF assms(1-3) this assms(4)] show ?thesis
    using assms(2,3) [THEN legal_nameD] by (auto simp: Hincrby_def hincrby_def Let_def)
qed

lemma mirrors_Del:
  assumes "bolt_laws B view" and "mirrors view s"
  shows "mirrors view (Del B k s)"
  using assms(2)
  by (auto simp: Del_def mirrors_def memory_def DelKey_def bolt_update [OF assms(1)]
      bolt_delete_bucket [OF assms(1)] split: option.splits)

text \<open>Reading the database back after a restart.\<close>

lemma Hget_noname: "k = [] \<or> f = [] \<Longrightarrow> Hget k f s = []"
  by (auto simp: Hget_def)

lemma Hget_load_all:
  "distinct (map (\<lambda>x. (Key x, Field x)) xs) \<Longrightarrow>
   Hget k f (load_all xs s) =
     (case map_of (map (\<lambda>x. ((Key x, Field x), Value x)) xs) (k, f) of
        None \<Rightarrow> Hget k f s
      | Some v \<Rightarrow> if k = [] \<or> f = [] then [] else v)"
proof (induction xs arbitrary: s)
  case (Cons x xs)
  show ?case
  proof (cases "(Key x, Field x) = (k, f)")
    case True
    with Cons.prems have "map_of (map (\<lambda>x. ((Key x, Field x), Value x)) xs) (k, f) = None"
      by (force simp: map_of_eq_None_iff)
    with True Cons show ?thesis using Hget_noname by (auto simp: Hget_hset)
  next
    case False
    with Cons show ?thesis by (auto simp: Hget_hset split: option.splits)
  qed
qed simp

lemma map_of_nested:
  assumes "gmap_ok L"
  shows "map_of (concat (map (\<lambda>(n, b). map (\<lambda>(g, v). ((n, g), v)) b) L)) (k, f) =
    (case map_of L k of None \<Rightarrow> None | Some b \<Rightarrow> map_of b f)"
  using assms
proof (induction L)
  case (Cons x L)
  obtain n b where x: "x = (n, b)" by (cases x)
  have 1: "map_of (map (\<lambda>(g, v). ((n, g), v)) b) (k, f) = (if k = n then map_of b f else None)"
    by (induction b) auto
  have 2: "map_of L n = None" using Cons.prems by (simp add: x map_of_eq_None_iff)
  from Cons 1 2 show ?case
    by (auto simp: x map_add_def split: option.splits)
qed simp


lemma kfv_pairs:
  "map (\<lambda>x. ((Key x, Field x), Value x)) (GetAllKfv B (Some d)) =
   concat (map (\<lambda>(n, b). map (\<lambda>(g, v). ((n, g), v)) b) (ForEach B d))"
  by (simp add: GetAllKfv_def map_concat o_def case_prod_unfold)

lemma distinct_nested:
  "gmap_ok L \<Longrightarrow> \<forall>(k, b)\<in>set L. gmap_ok b \<Longrightarrow>
   distinct (concat (map (\<lambda>(n, b). map (\<lambda>(g, v). (n, g)) b) L))"
proof (induction L)
  case (Cons x L)
  obtain n b where x: "x = (n, b)" by (cases x)
  have "map (\<lambda>(g, v). (n, g)) b = map (Pair n) (map fst b)" by auto
  with Cons.prems have "distinct (map (\<lambda>(g, v). (n, g)) b)"
    by (auto simp: x distinct_map inj_on_def)
  with Cons show ?case by (force simp: x)
qed simp

lemma distinct_kfv:
  assumes "bolt_laws B view"
  shows "distinct (map (\<lambda>x. (Key x, Field x)) (GetAllKfv B (Some d)))"
proof -
  have "map (\<lambda>x. (Key x, Field x)) (GetAllKfv B (Some d)) =
      concat (map (\<lambda>(n, b). map (\<lambda>(g, v). (n, g)) b) (ForEach B d))"
    by (simp add: GetAllKfv_def map_concat o_def case_prod_unfold)
  with distinct_nested [OF bolt_foreach(1,2) [OF assms]] show ?thesis by simp
qed

lemma Hget_Load:
  assumes "bolt_laws B view"
  shows "Hget k f (Load B (NewHashSet (Some d))) =
    (if k = [] \<or> f = [] then [] else case bucket (view d) k f of None \<Rightarrow> [] | Some v \<Rightarrow> v)"
proof -
  let ?n = "NewHashSet (Some d)"
  have n: "Hget k f ?n = []" by (simp add: NewHashSet_def Hget_def)
  have m: "map_of (concat (map (\<lambda>(n, b). map (\<lambda>(g, v). ((n, g), v)) b) (ForEach B d))) (k, f) =
      bucket (view d) k f"
    by (simp add: map_of_nested [OF bolt_foreach(1) [OF assms]] bolt_foreach(3) [OF assms, of d]
        split: option.splits)
  show ?thesis
    using Hget_load_all [OF distinct_kfv [OF assms], of k f d ?n] n
    by (simp add: Load_def NewHashSet_def kfv_pairs m split: option.splits)
qed


section \<open>Listing\<close>

lemma Hgetall_pairs:
  assumes "range_order ord" and "hash_set_ok s" and "k \<noteq> []"
  shows "\<exists>ps. Hgetall ord k s = concat (map (\<lambda>(f, v). [f, v]) ps) \<and> gmap_ok ps \<and>
    map_of ps = map_of (key_info s k)"
proof (cases "map_of (Data s) k")
  case None
  with assms(3) show ?thesis
    by (intro exI [of _ "[]"]) (simp add: Hgetall_def key_info_def)
next
  case (Some ki)
  moreover have "gmap_ok ki" using key_info_ok [OF assms(2), of k] Some by (simp add: key_info_def)
  ultimately show ?thesis
    using assms by (intro exI [of _ "ord ki"]) (simp add: Hgetall_def key_info_def go_map_simps)
qed


section \<open>Runs of the table\<close>

datatype table_op = OpSet string string string | OpIncr string string int | OpDel string

fun table_step :: "'db bolt \<Rightarrow> table_op \<Rightarrow> 'db hash_set \<Rightarrow> 'db hash_set" where
  "table_step B (OpSet k f v) s = fst (Hset B k f v s)"
| "table_step B (OpIncr k f n) s = fst (Hincrby B k f n s)"
| "table_step B (OpDel k) s = Del B k s"

fun op_legal :: "table_op \<Rightarrow> bool" where
  "op_legal (OpSet k f v) \<longleftrightarrow> legal_name k \<and> legal_name f \<and> legal_value v"
| "op_legal (OpIncr k f n) \<longleftrightarrow> legal_name k \<and> legal_name f"
| "op_legal (OpDel k) \<longleftrightarrow> True"

lemma mirrors_run:
  "bolt_laws B view \<Longrightarrow> \<forall>x\<in>set ops. op_legal x \<Longrightarrow> mirrors view s \<Longrightarrow>
   mirrors view (fold (table_step B) ops s)"
proof (induction ops arbitrary: s)
  case (Cons x ops)
  then have "mirrors view (table_step B x s)"
    by (cases x) (auto intro: mirrors_Hset mirrors_Hincrby mirrors_Del)
  with Cons show ?case by simp
qed simp

lemma Hincrby_run:
  assumes "k \<noteq> []" and "f \<noteq> []"
  shows "ns \<noteq> [] \<Longrightarrow> Hget k f (fold (\<lambda>n s. fst (Hincrby B k f n s)) ns s) =
    Itoa (wrap_int64 (fst (Atoi (Hget k f s)) + sum_list ns))"
proof (induction ns arbitrary: s)
  case (Cons n ns)
  show ?case
  proof (cases "ns = []")
    case True
    then show ?thesis by (simp add: Hget_Hincrby [OF assms] add.commute)
  next
    case False
    with Cons.IH [OF False, of "fst (Hincrby B k f n s)"] show ?thesis
      by (simp add: Hget_Hincrby [OF assms] wrap_int64_range wrap_int64_add_right algebra_simps)
  qed
qed simp


section \<open>Properties\<close>

text \<open>
  C13. Starting from an empty table, after any sequence of \<^verbatim>\<open>Hset\<close> and \<^verbatim>\<open>Del\<close>
  calls \<^verbatim>\<open>Hget\<close> returns for every key and field exactly what the abstract store
  returns: the last value set for that key and field since the key was deleted, and the empty
  string otherwise; calls with an empty key or field change nothing. This holds whatever the
  database behind the table does.
\<close>

theorem hash_set_refines_store:
  "Hget k f (fold (exec_cmd (\<lambda>k f v s. fst (Hset B k f v s)) (Del B)) cs (NewHashSet db)) =
   fold spec_cmd cs (\<lambda>_ _. []) k f"
proof (rule hs.run_refines)
  show "\<forall>c\<in>set cs. cmd_legal (\<lambda>_. True) c"
  proof
    fix c show "cmd_legal (\<lambda>_. True) c" by (cases c) auto
  qed
qed (auto simp: NewHashSet_def hash_set_ok_def Hget_def)

text \<open>
  C14. Write-through persistence: when the database behaves as bolt documents, then after any
  sequence of \<^verbatim>\<open>Hset\<close>, \<^verbatim>\<open>Hincrby\<close> and \<^verbatim>\<open>Del\<close> calls with names and values
  that bolt accepts, starting from an empty database, a new process that calls
  \<^verbatim>\<open>Load\<close> reads for every key and field the value the old process would have read.
\<close>

theorem restart_restores_table:
  assumes "bolt_laws B view" and "view d0 = Map.empty" and "\<forall>x\<in>set ops. op_legal x"
    and "boltDB (fold (table_step B) ops (NewHashSet (Some d0))) = Some d"
  shows "Hget k f (Load B (NewHashSet (Some d))) =
    Hget k f (fold (table_step B) ops (NewHashSet (Some d0)))"
proof -
  let ?s = "fold (table_step B) ops (NewHashSet (Some d0))"
  have "mirrors view (NewHashSet (Some d0))"
    using assms(2) by (simp add: mirrors_def NewHashSet_def memory_def)
  then have "mirrors view ?s" using assms(1,3) by (intro mirrors_run)
  with assms(4) have "view d = memory ?s" by (simp add: mirrors_def)
  then show ?thesis
    unfolding Hget_Load [OF assms(1)] by (simp add: bucket_memory Hget_alt)
qed

text \<open>A database that is an association list, as an instance of the laws.\<close>

definition alist_bolt :: "(string, fields) gmap bolt" where
  "alist_bolt =
     \<lparr>Update = (\<lambda>f d. case f d of Inl e \<Rightarrow> d | Inr d' \<Rightarrow> d'),
      CreateBucketIfNotExists = (\<lambda>k d. Inr (case map_of d k of None \<Rightarrow> gmap_set k [] d | Some _ \<Rightarrow> d)),
      Put = (\<lambda>k f v d. gmap_set k (gmap_set f v (case map_of d k of None \<Rightarrow> [] | Some b \<Rightarrow> b)) d),
      Delete = (\<lambda>k f d. gmap_set k (gmap_del f (case map_of d k of None \<Rightarrow> [] | Some b \<Rightarrow> b)) d),
      DeleteBucket = gmap_del,
      ForEach = (\<lambda>d. map (\<lambda>(k, b). (k, AList.clearjunk b)) (AList.clearjunk d))\<rparr>"

definition alist_view :: "(string, fields) gmap db_view" where
  "alist_view d = (\<lambda>k. map_option map_of (map_of d k))"

lemma map_of_clearjunk_nested:
  "map_of (map (\<lambda>(k, b). (k, AList.clearjunk b)) d) k = map_option AList.clearjunk (map_of d k)"
  by (induction d) auto

lemma alist_bolt_foreach:
  "gmap_ok (ForEach alist_bolt d)" "\<forall>(k, kvs)\<in>set (ForEach alist_bolt d). gmap_ok kvs"
  "alist_view d = (\<lambda>k. map_option map_of (map_of (ForEach alist_bolt d) k))"
  by (auto simp: alist_bolt_def alist_view_def o_def case_prod_unfold distinct_clearjunk
      map_of_clearjunk_nested [unfolded case_prod_unfold] map_of_clearjunk option.map_comp)

lemma alist_bolt_laws: "bolt_laws alist_bolt alist_view"
  unfolding bolt_laws_def
  using alist_bolt_foreach
  by (auto simp: alist_bolt_def alist_view_def fun_eq_iff split: option.splits)

lemma boltDB_run: "boltDB s \<noteq> None \<Longrightarrow> boltDB (fold (table_step B) ops s) \<noteq> None"
proof (induction ops arbitrary: s)
  case (Cons x ops)
  then have "boltDB (table_step B x s) \<noteq> None"
    by (cases x) (auto simp: Hset_def hset_def Hincrby_def hincrby_def Del_def Let_def
        AddKvs_def DelKvs_def DelKey_def)
  with Cons.IH show ?case by simp
qed simp

theorem restart_restores_table_witness:
  "let ops = [OpSet ''node'' ''a'' ''1'', OpIncr ''load'' ''a'' 5, OpSet ''node'' ''b'' ''2'', OpDel ''node'',
        OpIncr ''load'' ''a'' (- 2)];
       s = fold (table_step alist_bolt) ops (NewHashSet (Some []))
   in (\<exists>d. boltDB s = Some d \<and>
        Hget ''load'' ''a'' (Load alist_bolt (NewHashSet (Some d))) = Hget ''load'' ''a'' s)"
proof -
  let ?ops = "[OpSet ''node'' ''a'' ''1'', OpIncr ''load'' ''a'' 5, OpSet ''node'' ''b'' ''2'', OpDel ''node'',
        OpIncr ''load'' ''a'' (- 2)]"
  have "boltDB (fold (table_step alist_bolt) ?ops (NewHashSet (Some []))) \<noteq> None"
    by (rule boltDB_run) (simp add: NewHashSet_def)
  then obtain d where d: "boltDB (fold (table_step alist_bolt) ?ops (NewHashSet (Some []))) = Some d" by blast
  have "alist_view [] = Map.empty" by (simp add: alist_view_def)
  moreover have "\<forall>x\<in>set ?ops. op_legal x" by (simp add: legal_name_def legal_value_def)
  ultimately have "Hget ''load'' ''a'' (Load alist_bolt (NewHashSet (Some d))) =
      Hget ''load'' ''a'' (fold (table_step alist_bolt) ?ops (NewHashSet (Some [])))"
    using d by (intro restart_restores_table [OF alist_bolt_laws])
  with d show ?thesis by (simp only: Let_def) blast
qed

text \<open>
  C15. \<^verbatim>\<open>Hincrby\<close> is a counter in 64-bit two's complement: after any non-empty sequence
  of increments the field holds the decimal text of the old number plus the sum of the
  increments, wrapped to 64 bits; a missing or non-numeric field counts from zero.
\<close>

theorem Hincrby_accumulates:
  assumes "k \<noteq> []" and "f \<noteq> []" and "ns \<noteq> []"
  shows "Hget k f (fold (\<lambda>n s. fst (Hincrby B k f n s)) ns s) =
    Itoa (wrap_int64 (fst (Atoi (Hget k f s)) + sum_list ns))"
  using assms by (rule Hincrby_run)

theorem Hincrby_accumulates_witness:
  "Hget ''load'' ''n1'' (fold (\<lambda>n s. fst (Hincrby alist_bolt ''load'' ''n1'' n s)) [3, - 5, 7] (NewHashSet None)) =
   ''5''"
  using Hincrby_accumulates [of "''load''" "''n1''" "[3, - 5, 7]" alist_bolt "NewHashSet None"]
  by (simp add: NewHashSet_def Hget_def Itoa_def FormatUint.simps wrap_int64_def)

end
