(* ===== verification/Watch_Message.thy ===== *)
theory Watch_Message
  imports Go_Strings
begin

text \<open>
  The text protocol of the watch service, \<^verbatim>\<open>watch/message.go\<close>: a command line, a
  sequence number line, a count line and one line per value. A \<^verbatim>\<open>bufio.Writer\<close> is the
  text written so far and its sticky error.
\<close>

record watch_message =
  Cmd :: string
  Seq :: int
  Values :: "string list"

record bufio_writer =
  written :: string
  werr :: "go_error option"

definition WriteString :: "string \<Rightarrow> bufio_writer \<Rightarrow> bufio_writer \<times> go_error option" where
  "WriteString s w =
     (case werr w of Some e \<Rightarrow> (w, Some e) | None \<Rightarrow> (w\<lparr>written := written w @ s\<rparr>, None))"

text \<open>The value lines, read until the count is reached or the stream ends.\<close>

fun read_values :: "nat \<Rightarrow> (char, string list) reader" where
  "read_values 0 r = (Inr [], r)"
| "read_values (Suc n) r =
     (case ReadString newline r of
        (Inl err, r') \<Rightarrow> (Inl err, r')
      | (Inr value, r') \<Rightarrow>
          (case read_values n r' of
             (Inl err, r'') \<Rightarrow> (Inl err, r'')
           | (Inr vs, r'') \<Rightarrow> (Inr (TrimNewlines value # vs), r'')))"

definition ReadWatchMessage :: "(char, watch_message) reader" where
  "ReadWatchMessage r =
     (case ReadString newline r of
        (Inl err, r1) \<Rightarrow> (Inl err, r1)
      | (Inr cmd, r1) \<Rightarrow>
          (case ReadString newline r1 of
             (Inl err, r2) \<Rightarrow> (Inl err, r2)
           | (Inr seqStr, r2) \<Rightarrow>
               (case ReadString newline r2 of
                  (Inl err, r3) \<Rightarrow> (Inl err, r3)
                | (Inr nStr, r3) \<Rightarrow>
                    (let n = fst (Atoi (TrimNewlines nStr)) in
                     case read_values (nat n) r3 of
                       (Inl err, r4) \<Rightarrow> (Inl err, r4)
                     | (Inr vs, r4) \<Rightarrow>
                         (Inr \<lparr>Cmd = TrimSpace cmd, Seq = fst (Atoi (TrimNewlines seqStr)), Values = vs\<rparr>, r4)))))"

fun write_values :: "string list \<Rightarrow> bufio_writer \<Rightarrow> bufio_writer \<times> go_error option" where
  "write_values [] w = (w, None)"
| "write_values (v # vs) w =
     (case WriteString (v @ [newline]) w of
        (w', Some err) \<Rightarrow> (w', Some err)
      | (w', None) \<Rightarrow> write_values vs w')"

definition WriteWatchMessage :: "watch_message \<Rightarrow> bufio_writer \<Rightarrow> bufio_writer \<times> go_error option" where
  "WriteWatchMessage m w =
     (case WriteString (Cmd m @ [newline]) w of
        (w1, Some err) \<Rightarrow> (w1, Some err)
      | (w1, None) \<Rightarrow>
          (case WriteString (Itoa (Seq m) @ [newline]) w1 of
             (w2, Some err) \<Rightarrow> (w2, Some err)
           | (w2, None) \<Rightarrow>
               (case WriteString (Itoa (int (length (Values m))) @ [newline]) w2 of
                  (w3, Some err) \<Rightarrow> (w3, Some err)
                | (w3, None) \<Rightarrow> write_values (Values m) w3)))"

text \<open>The text a message is written as.\<close>

definition message_text :: "watch_message \<Rightarrow> string" where
  "message_text m =
     Cmd m @ [newline] @ Itoa (Seq m) @ [newline] @ Itoa (int (length (Values m))) @ [newline] @
     concat (map (\<lambda>v. v @ [newline]) (Values m))"

text \<open>
  What the line format can carry: a command with no white space at its ends, values without a
  line break, and numbers that fit in an \<^verbatim>\<open>int\<close>.
\<close>

definition line_ok :: "string \<Rightarrow> bool" where
  "line_ok s \<longleftrightarrow> newline \<notin> set s"

definition message_ok :: "watch_message \<Rightarrow> bool" where
  "message_ok m \<longleftrightarrow>
     trimmed (Cmd m) \<and> line_ok (Cmd m) \<and> int64_range (Seq m) \<and>
     int (length (Values m)) \<le> max_int64 \<and> (\<forall>v\<in>set (Values m). line_ok v)"


section \<open>Round trip\<close>

lemma write_values_text:
  "werr w = None \<Longrightarrow>
   write_values vs w = (w\<lparr>written := written w @ concat (map (\<lambda>v. v @ [newline]) vs)\<rparr>, None)"
  by (induction vs arbitrary: w) (simp_all add: WriteString_def)

lemma WriteWatchMessage_text:
  "werr w = None \<Longrightarrow> WriteWatchMessage m w = (w\<lparr>written := written w @ message_text m\<rparr>, None)"
  by (simp add: WriteWatchMessage_def WriteString_def write_values_text message_text_def)

lemma WriteWatchMessage_error: "werr w = Some e \<Longrightarrow> WriteWatchMessage m w = (w, Some e)"
  by (simp add: WriteWatchMessage_def WriteString_def)

lemma read_values_text:
  "\<forall>v\<in>set vs. line_ok v \<Longrightarrow>
   read_values (length vs) (concat (map (\<lambda>v. v @ [newline]) vs) @ r) = (Inr vs, r)"
  by (induction vs) (simp_all add: ReadString_line TrimNewlines_newline line_ok_def)

lemma Itoa_line: "newline \<notin> set (Itoa i)"
  using Itoa_no_newline by (simp add: newline_def)

lemma TrimSpace_line: "trimmed s \<Longrightarrow> TrimSpace (s @ [newline]) = s"
proof (cases "s = []")
  case True
  have "strip_spaces space_codes [newline] = []"
    by (subst strip_spaces.simps) (simp add: space_codes_nonempty, simp add: space_codes_def newline_def)
  moreover have "strip_spaces (map rev space_codes) [] = []"
    by (rule strip_spaces_None) (simp add: space_codes_def)
  ultimately show ?thesis using True by (simp add: TrimSpace_def)
qed (simp add: TrimSpace_newline)

lemma ReadWatchMessage_text:
  assumes "message_ok m"
  shows "ReadWatchMessage (message_text m @ r) = (Inr m, r)"
  using assms
  by (simp add: ReadWatchMessage_def message_text_def message_ok_def line_ok_def ReadString_line
      Itoa_line TrimNewlines_newline TrimSpace_line read_values_text [unfolded line_ok_def] min_int64_def)

interpretation msg: wire_codec message_text ReadWatchMessage message_ok
  by unfold_locales (rule ReadWatchMessage_text)


section \<open>Properties\<close>

fun write_all :: "watch_message list \<Rightarrow> bufio_writer \<Rightarrow> bufio_writer" where
  "write_all [] w = w"
| "write_all (m # ms) w = write_all ms (fst (WriteWatchMessage m w))"

lemma write_all_text:
  "werr w = None \<Longrightarrow>
   written (write_all ms w) = written w @ concat (map message_text ms)"
  by (induction ms arbitrary: w) (simp_all add: WriteWatchMessage_text)

text \<open>
  C20. A connection of the watch protocol carries a sequence of messages faithfully: whatever
  well-formed messages one side writes with \<^verbatim>\<open>WriteWatchMessage\<close> on a healthy writer,
  the other side reads back in the same order with \<^verbatim>\<open>ReadWatchMessage\<close>, and the
  reader stops exactly at the end of the last message.
\<close>

theorem watch_stream_roundtrip:
  assumes "\<forall>m\<in>set ms. message_ok m"
  shows "read_n ReadWatchMessage (length ms) (written (write_all ms \<lparr>written = [], werr = None\<rparr>) @ rest) =
    (Inr ms, rest)"
  using msg.stream_roundtrip [OF assms, of rest] by (simp add: write_all_text)

theorem watch_stream_roundtrip_witness:
  "read_n ReadWatchMessage 2
     (written (write_all [\<lparr>Cmd = ''hset'', Seq = 7, Values = [''node'', ''a b'', []]\<rparr>,
                          \<lparr>Cmd = ''watch'', Seq = - 1, Values = []\<rparr>] \<lparr>written = [], werr = None\<rparr>) @ ''x'') =
   (Inr [\<lparr>Cmd = ''hset'', Seq = 7, Values = [''node'', ''a b'', []]\<rparr>, \<lparr>Cmd = ''watch'', Seq = - 1, Values = []\<rparr>], ''x'')"
proof -
  let ?ms = "[\<lparr>Cmd = ''hset'', Seq = 7, Values = [''node'', ''a b'', []]\<rparr>,
    \<lparr>Cmd = ''watch'', Seq = - 1, Values = []\<rparr>]"
  have "\<forall>m\<in>set ?ms. message_ok m"
    by (simp add: message_ok_def line_ok_def newline_def trimmed_def space_codes_def min_int64_def max_int64_def)
  from watch_stream_roundtrip [OF this, of "''x''"] show ?thesis by (simp add: numeral_2_eq_2)
qed

end
