(* ===== verification/Watch_Server.thy ===== *)
theory Watch_Server
  imports Hash_Set Watch_Message
begin

text \<open>
  The watch server, \<^verbatim>\<open>watch/server.go\<close>. The state is the \<^verbatim>\<open>WatchServer\<close>
  struct with the connection counter of \<^verbatim>\<open>Start\<close>; a pointer to a \<^verbatim>\<open>WatchConnect\<close>
  is its id, since ids are never reused. A connection carries its two buffered channels of
  capacity 32 and the state of its two goroutines: \<open>Closed\<close> when the reader has closed the
  \<^verbatim>\<open>Close\<close> channel, \<open>Running\<close> while the loop of \<^verbatim>\<open>runConn\<close> runs, and
  \<open>Sent\<close> for the messages written to the socket.

  A handler is a function that either completes, panics (which ends the loop of its connection,
  because \<^verbatim>\<open>runConn\<close> recovers outside the loop), or blocks because it writes to a full
  channel. The step relation interleaves the goroutines of all connections; a handler is one
  step, taken when none of its channel writes blocks.
\<close>

datatype 'a exec = Done 'a | Blocked | Crash

fun exec_bind :: "'a exec \<Rightarrow> ('a \<Rightarrow> 'b exec) \<Rightarrow> 'b exec" where
  "exec_bind (Done x) f = f x"
| "exec_bind Blocked f = Blocked"
| "exec_bind Crash f = Crash"

record watch_connect =
  cId :: nat
  Status :: nat
  WatchKeys :: "string list"
  Out :: "watch_message list"
  In :: "watch_message list"
  Closed :: bool
  Running :: bool
  Sent :: "watch_message list"

type_synonym watchers = "(nat, nat) gmap"

record 'db watch_server =
  Clients :: "(nat, watch_connect) gmap"
  KeyWatchers :: "(string, watchers) gmap"
  KvSet :: "'db hash_set"
  NextId :: nat

text \<open>The iteration orders of the three kinds of map the handlers range over.\<close>

record range_orders =
  ordK :: "(string, fields) gorder"
  ordF :: "(string, string) gorder"
  ordW :: "(nat, nat) gorder"

definition orders_ok :: "range_orders \<Rightarrow> bool" where
  "orders_ok R \<longleftrightarrow> range_order (ordK R) \<and> range_order (ordF R) \<and> range_order (ordW R)"

definition chan_cap :: nat where
  "chan_cap = 32"

definition NewWatchServer :: "'db option \<Rightarrow> 'db watch_server" where
  "NewWatchServer db = \<lparr>Clients = [], KeyWatchers = [], KvSet = NewHashSet db, NextId = 0\<rparr>"

definition upd_client :: "nat \<Rightarrow> (watch_connect \<Rightarrow> watch_connect) \<Rightarrow> 'db watch_server \<Rightarrow> 'db watch_server" where
  "upd_client i f s =
     (case map_of (Clients s) i of None \<Rightarrow> s | Some wc \<Rightarrow> s\<lparr>Clients := gmap_set i (f wc) (Clients s)\<rparr>)"


section \<open>Handlers\<close>

definition writeMsgToClient :: "nat \<Rightarrow> watch_message \<Rightarrow> 'db watch_server \<Rightarrow> 'db watch_server exec" where
  "writeMsgToClient i msg s =
     (case map_of (Clients s) i of
        None \<Rightarrow> Crash
      | Some wc \<Rightarrow>
          if length (Out wc) < chan_cap then Done (upd_client i (\<lambda>wc. wc\<lparr>Out := Out wc @ [msg]\<rparr>) s)
          else Blocked)"

fun register_keys :: "nat \<Rightarrow> string list \<Rightarrow> 'db watch_server \<Rightarrow> 'db watch_server" where
  "register_keys i [] s = s"
| "register_keys i (key # keys) s =
     (let clients = (case map_of (KeyWatchers s) key of None \<Rightarrow> [] | Some c \<Rightarrow> c)
      in register_keys i keys (s\<lparr>KeyWatchers := gmap_set key (gmap_set i i clients) (KeyWatchers s)\<rparr>))"

definition initializeProcess :: "nat \<Rightarrow> watch_message \<Rightarrow> 'db watch_server \<Rightarrow> 'db watch_server exec" where
  "initializeProcess i msg s =
     exec_bind
       (writeMsgToClient i \<lparr>Cmd = Cmd msg, Seq = Seq msg, Values = []\<rparr>
          (upd_client i (\<lambda>wc. wc\<lparr>Status := 1, WatchKeys := Values msg\<rparr>) s))
       (\<lambda>s'. Done (register_keys i (Values msg) s'))"

fun notify_all :: "(nat \<times> nat) list \<Rightarrow> watch_message \<Rightarrow> 'db watch_server \<Rightarrow> ('db watch_server \<times> nat list) exec" where
  "notify_all [] m s = Done (s, [])"
| "notify_all ((i, client) # cs) m s =
     (case map_of (Clients s) client of
        None \<Rightarrow> Crash
      | Some wc \<Rightarrow>
          if Status wc = 2 then exec_bind (notify_all cs m s) (\<lambda>(s', delId). Done (s', i # delId))
          else exec_bind (writeMsgToClient client m s) (notify_all cs m))"

definition notify :: "(nat, nat) gorder \<Rightarrow> string \<Rightarrow> string \<Rightarrow> string \<Rightarrow> 'db watch_server \<Rightarrow> 'db watch_server exec" where
  "notify ord key field value s =
     (case map_of (KeyWatchers s) key of
        None \<Rightarrow> Done s
      | Some clients \<Rightarrow>
          exec_bind (notify_all (ord clients) \<lparr>Cmd = ''watch'', Seq = 0, Values = [key, field, value]\<rparr> s)
            (\<lambda>(s', delId). Done (s'\<lparr>KeyWatchers := gmap_set key (fold gmap_del delId clients) (KeyWatchers s')\<rparr>)))"

definition heartbeatProcess :: "nat \<Rightarrow> watch_message \<Rightarrow> 'db watch_server \<Rightarrow> 'db watch_server exec" where
  "heartbeatProcess i msg s = writeMsgToClient i \<lparr>Cmd = Cmd msg, Seq = Seq msg, Values = []\<rparr> s"

definition KeyPrefixtProcess :: "range_orders \<Rightarrow> nat \<Rightarrow> watch_message \<Rightarrow> 'db watch_server \<Rightarrow> 'db watch_server exec" where
  "KeyPrefixtProcess R i msg s =
     (case Values msg of
        key # _ \<Rightarrow>
          writeMsgToClient i \<lparr>Cmd = Cmd msg, Seq = Seq msg, Values = KeyPrefix (ordK R) key (KvSet s)\<rparr> s
      | _ \<Rightarrow> Crash)"

definition delProcess :: "'db bolt \<Rightarrow> range_orders \<Rightarrow> nat \<Rightarrow> watch_message \<Rightarrow> 'db watch_server \<Rightarrow> 'db watch_server exec" where
  "delProcess B R i msg s =
     (case Values msg of
        key # _ \<Rightarrow>
          exec_bind
            (writeMsgToClient i \<lparr>Cmd = Cmd msg, Seq = Seq msg, Values = []\<rparr> (s\<lparr>KvSet := Del B key (KvSet s)\<rparr>))
            (notify (ordW R) key [] [])
      | _ \<Rightarrow> Crash)"

definition hgetProcess :: "nat \<Rightarrow> watch_message \<Rightarrow> 'db watch_server \<Rightarrow> 'db watch_server exec" where
  "hgetProcess i msg s =
     (case Values msg of
        key # field # _ \<Rightarrow>
          writeMsgToClient i \<lparr>Cmd = Cmd msg, Seq = Seq msg, Values = [Hget key field (KvSet s)]\<rparr> s
      | _ \<Rightarrow> Crash)"

definition hgetallProcess :: "range_orders \<Rightarrow> nat \<Rightarrow> watch_message \<Rightarrow> 'db watch_server \<Rightarrow> 'db watch_server exec" where
  "hgetallProcess R i msg s =
     (case Values msg of
        key # _ \<Rightarrow>
          writeMsgToClient i \<lparr>Cmd = Cmd msg, Seq = Seq msg, Values = Hgetall (ordF R) key (KvSet s)\<rparr> s
      | _ \<Rightarrow> Crash)"

definition hsetProcess :: "'db bolt \<Rightarrow> range_orders \<Rightarrow> nat \<Rightarrow> watch_message \<Rightarrow> 'db watch_server \<Rightarrow> 'db watch_server exec" where
  "hsetProcess B R i msg s =
     (case Values msg of
        key # field # value # _ \<Rightarrow>
          exec_bind
            (writeMsgToClient i \<lparr>Cmd = Cmd msg, Seq = Seq msg, Values = []\<rparr>
               (s\<lparr>KvSet := fst (Hset B key field value (KvSet s))\<rparr>))
            (notify (ordW R) key field value)
      | _ \<Rightarrow> Crash)"

definition hincrbyProcess :: "'db bolt \<Rightarrow> range_orders \<Rightarrow> nat \<Rightarrow> watch_message \<Rightarrow> 'db watch_server \<Rightarrow> 'db watch_server exec" where
  "hincrbyProcess B R i msg s =
     (case Values msg of
        key # field # num # _ \<Rightarrow>
          (let (kv, value) = Hincrby B key field (fst (Atoi num)) (KvSet s) in
           exec_bind
             (writeMsgToClient i \<lparr>Cmd = Cmd msg, Seq = Seq msg, Values = [value]\<rparr> (s\<lparr>KvSet := kv\<rparr>))
             (notify (ordW R) key field value))
      | _ \<Rightarrow> Crash)"

text \<open>The dispatch of one incoming message in \<^verbatim>\<open>runConn\<close>; unknown commands are dropped.\<close>

definition handle_in :: "'db bolt \<Rightarrow> range_orders \<Rightarrow> nat \<Rightarrow> watch_message \<Rightarrow> 'db watch_server \<Rightarrow> 'db watch_server exec" where
  "handle_in B R i msg s =
     (if Cmd msg = ''initialize'' then initializeProcess i msg s
      else if Cmd msg = ''heartbeat'' then heartbeatProcess i msg s
      else if Cmd msg = ''hset'' then hsetProcess B R i msg s
      else if Cmd msg = ''hget'' then hgetProcess i msg s
      else if Cmd msg = ''key_prefix'' then KeyPrefixtProcess R i msg s
      else if Cmd msg = ''hgetall'' then hgetallProcess R i msg s
      else if Cmd msg = ''del'' then delProcess B R i msg s
      else if Cmd msg = ''hincrby'' then hincrbyProcess B R i msg s
      else Done s)"


section \<open>The goroutines\<close>

definition new_connect :: "nat \<Rightarrow> watch_connect" where
  "new_connect i =
     \<lparr>cId = i, Status = 0, WatchKeys = [], Out = [], In = [], Closed = False, Running = True, Sent = []\<rparr>"

datatype ws_event =
    Accept nat
  | Recv nat watch_message
  | RecvFail nat
  | Flush nat
  | Handle nat watch_message
  | Panicked nat
  | LoopClose nat
  | Timeout nat

inductive ws_step :: "'db bolt \<Rightarrow> ws_event \<Rightarrow> 'db watch_server \<Rightarrow> 'db watch_server \<Rightarrow> bool" for B where
  accept: "i = Suc (NextId s) \<Longrightarrow>
    ws_step B (Accept i) s (s\<lparr>Clients := gmap_set i (new_connect i) (Clients s), NextId := i\<rparr>)"
| recv: "map_of (Clients s) i = Some wc \<Longrightarrow> \<not> Closed wc \<Longrightarrow> length (In wc) < chan_cap \<Longrightarrow>
    ws_step B (Recv i m) s (upd_client i (\<lambda>wc. wc\<lparr>In := In wc @ [m]\<rparr>) s)"
| recv_fail: "map_of (Clients s) i = Some wc \<Longrightarrow> \<not> Closed wc \<Longrightarrow>
    ws_step B (RecvFail i) s (upd_client i (\<lambda>wc. wc\<lparr>Closed := True, Status := 2\<rparr>) s)"
| flush: "map_of (Clients s) i = Some wc \<Longrightarrow> Running wc \<Longrightarrow> Out wc = m # ms \<Longrightarrow>
    ws_step B (Flush i) s (upd_client i (\<lambda>wc. wc\<lparr>Out := ms, Sent := Sent wc @ [m]\<rparr>) s)"
| handle: "map_of (Clients s) i = Some wc \<Longrightarrow> Running wc \<Longrightarrow> In wc = m # ms \<Longrightarrow> orders_ok R \<Longrightarrow>
    handle_in B R i m (upd_client i (\<lambda>wc. wc\<lparr>In := ms\<rparr>) s) = Done t \<Longrightarrow> ws_step B (Handle i m) s t"
| panicked: "map_of (Clients s) i = Some wc \<Longrightarrow> Running wc \<Longrightarrow> In wc = m # ms \<Longrightarrow> orders_ok R \<Longrightarrow>
    handle_in B R i m (upd_client i (\<lambda>wc. wc\<lparr>In := ms\<rparr>) s) = Crash \<Longrightarrow>
    ws_step B (Panicked i) s (upd_client i (\<lambda>wc. wc\<lparr>In := ms, Running := False\<rparr>) s)"
| loop_close: "map_of (Clients s) i = Some wc \<Longrightarrow> Running wc \<Longrightarrow> Closed wc \<Longrightarrow>
    ws_step B (LoopClose i) s (upd_client i (\<lambda>wc. wc\<lparr>Running := False\<rparr>) s)"
| timeout: "map_of (Clients s) i = Some wc \<Longrightarrow> Running wc \<Longrightarrow>
    ws_step B (Timeout i) s (upd_client i (\<lambda>wc. wc\<lparr>Running := False\<rparr>) s)"


section \<open>Invariant\<close>

definition watching :: "'db watch_server \<Rightarrow> string \<Rightarrow> nat \<Rightarrow> bool" where
  "watching s key i \<longleftrightarrow> (\<exists>ws. map_of (KeyWatchers s) key = Some ws \<and> map_of ws i = Some i)"

definition conn_ok :: "watch_connect \<Rightarrow> bool" where
  "conn_ok wc \<longleftrightarrow> length (Out wc) \<le> chan_cap \<and> length (In wc) \<le> chan_cap \<and> Status wc \<le> 2"

definition watchers_ok :: "'db watch_server \<Rightarrow> bool" where
  "watchers_ok s \<longleftrightarrow>
     gmap_ok (KeyWatchers s) \<and>
     (\<forall>k ws. map_of (KeyWatchers s) k = Some ws \<longrightarrow>
        gmap_ok ws \<and> (\<forall>i p. map_of ws i = Some p \<longrightarrow> p = i \<and> map_of (Clients s) i \<noteq> None))"

definition ws_inv :: "'db watch_server \<Rightarrow> bool" where
  "ws_inv s \<longleftrightarrow>
     gmap_ok (Clients s) \<and> hash_set_ok (KvSet s) \<and> watchers_ok s \<and>
     (\<forall>i wc. map_of (Clients s) i = Some wc \<longrightarrow>
        cId wc = i \<and> i \<le> NextId s \<and> conn_ok wc \<and>
        (Status wc = 1 \<longrightarrow> (\<forall>k\<in>set (WatchKeys wc). watching s k i)))"


section \<open>Lemmas on the state\<close>

lemma exec_bind_Done [simp]: "exec_bind x f = Done y \<longleftrightarrow> (\<exists>z. x = Done z \<and> f z = Done y)"
  by (cases x) auto

lemma upd_client_fields [simp]:
  "KeyWatchers (upd_client i f s) = KeyWatchers s" "KvSet (upd_client i f s) = KvSet s"
  "NextId (upd_client i f s) = NextId s"
  by (auto simp: upd_client_def split: option.splits)

lemma map_of_upd_client [simp]:
  "map_of (Clients (upd_client i f s)) j =
     (if j = i then map_option f (map_of (Clients s) i) else map_of (Clients s) j)"
  by (auto simp: upd_client_def split: option.splits)

lemma gmap_ok_upd_client [simp]: "gmap_ok (Clients s) \<Longrightarrow> gmap_ok (Clients (upd_client i f s))"
  by (auto simp: upd_client_def split: option.splits)

lemma watching_cong: "KeyWatchers s = KeyWatchers t \<Longrightarrow> watching s k i = watching t k i"
  by (simp add: watching_def)

lemma watching_simps [simp]:
  "watching (upd_client j f s) k i = watching s k i" "watching (s\<lparr>KvSet := kv\<rparr>) k i = watching s k i"
  "watching (s\<lparr>Clients := c\<rparr>) k i = watching s k i" "watching (s\<lparr>NextId := n\<rparr>) k i = watching s k i"
  by (simp_all add: watching_def)

lemma writeMsgToClient_Done:
  "writeMsgToClient i m s = Done t \<longleftrightarrow>
     (\<exists>wc. map_of (Clients s) i = Some wc \<and> length (Out wc) < chan_cap \<and>
        t = upd_client i (\<lambda>wc. wc\<lparr>Out := Out wc @ [m]\<rparr>) s)"
  by (auto simp: writeMsgToClient_def split: option.splits if_splits)

text \<open>What a broadcast does to the clients: one more message for each live watcher.\<close>

definition deliver :: "watch_message \<Rightarrow> watch_connect \<Rightarrow> watch_connect" where
  "deliver m wc = (if Status wc = 2 then wc else wc\<lparr>Out := Out wc @ [m]\<rparr>)"

lemma notify_all_Done:
  assumes "notify_all cs m s = Done (t, del)" and "distinct (map fst cs)" and "\<forall>(i, p)\<in>set cs. p = i"
  shows "map_of (Clients t) j = (if j \<in> fst ` set cs then map_option (deliver m) (map_of (Clients s) j) else map_of (Clients s) j)
    \<and> KeyWatchers t = KeyWatchers s \<and> KvSet t = KvSet s \<and> NextId t = NextId s
    \<and> (gmap_ok (Clients s) \<longrightarrow> gmap_ok (Clients t))
    \<and> (\<forall>i. i \<in> set del \<longleftrightarrow> i \<in> fst ` set cs \<and> (\<exists>wc. map_of (Clients s) i = Some wc \<and> Status wc = 2))"
  using assms
proof (induction cs arbitrary: s t del)
  case Nil
  then show ?case by simp
next
  case (Cons c cs)
  from Cons.prems(3) obtain i where c: "c = (i, i)" by (cases c) auto
  from Cons.prems c have d: "distinct (map fst cs)" "\<forall>(i, p)\<in>set cs. p = i" "i \<notin> fst ` set cs" by auto
  from Cons.prems(1) c obtain wc where wc: "map_of (Clients s) i = Some wc"
    by (auto split: option.splits)
  show ?case
  proof (cases "Status wc = 2")
    case True
    with Cons.prems(1) c wc obtain del' where "notify_all cs m s = Done (t, del')" "del = i # del'" by auto
    moreover from True have "deliver m wc = wc" by (simp add: deliver_def)
    ultimately show ?thesis
      using Cons.IH [of s t del'] d True wc c by auto
  next
    case False
    let ?s = "upd_client i (\<lambda>wc. wc\<lparr>Out := Out wc @ [m]\<rparr>) s"
    from False Cons.prems(1) c wc have l: "length (Out wc) < chan_cap" "notify_all cs m ?s = Done (t, del)"
      by (auto simp: writeMsgToClient_Done)
    have m: "map_of (Clients ?s) k = (if k = i then Some (deliver m wc) else map_of (Clients s) k)" for k
      using wc False by (simp add: deliver_def)
    note IH = Cons.IH [OF l(2) d(1,2)]
    have n: "k \<in> fst ` set cs \<Longrightarrow> k \<noteq> i" for k using d(3) by auto
    show ?thesis
      using IH l(1) False wc d(3) c unfolding m by (auto dest: n)
  qed
qed

lemma map_of_fold_del: "map_of (fold gmap_del ks m) i = (if i \<in> set ks then None else map_of m i)"
  by (induction ks arbitrary: m) auto

lemma gmap_ok_fold_del: "gmap_ok m \<Longrightarrow> gmap_ok (fold gmap_del ks m)"
  by (induction ks arbitrary: m) auto

text \<open>The effect of \<^verbatim>\<open>notify\<close> on a state with the invariant, client by client.\<close>

lemma notify_Done:
  assumes "notify ord key f v s = Done t" and "range_order ord" and "watchers_ok s"
  shows "map_of (Clients t) j =
      (if watching s key j then map_option (deliver \<lparr>Cmd = ''watch'', Seq = 0, Values = [key, f, v]\<rparr>) (map_of (Clients s) j)
       else map_of (Clients s) j)
    \<and> KvSet t = KvSet s \<and> NextId t = NextId s
    \<and> (gmap_ok (Clients s) \<longrightarrow> gmap_ok (Clients t))
    \<and> (watching t k j \<longleftrightarrow> watching s k j \<and> (k = key \<longrightarrow> (\<forall>wc. map_of (Clients s) j = Some wc \<longrightarrow> Status wc \<noteq> 2)))
    \<and> (gmap_ok (Clients s) \<longrightarrow> watchers_ok t)"
proof (cases "map_of (KeyWatchers s) key")
  case None
  with assms(1,3) show ?thesis by (auto simp: notify_def watching_def)
next
  case (Some ws)
  let ?m = "\<lparr>Cmd = ''watch'', Seq = 0, Values = [key, f, v]\<rparr>"
  from assms(1) Some obtain s' del where n: "notify_all (ord ws) ?m s = Done (s', del)"
    and t: "t = s'\<lparr>KeyWatchers := gmap_set key (fold gmap_del del ws) (KeyWatchers s')\<rparr>"
    by (auto simp: notify_def)
  from assms(3) Some have ws: "gmap_ok ws" "\<And>i p. map_of ws i = Some p \<Longrightarrow> p = i \<and> map_of (Clients s) i \<noteq> None"
    by (auto simp: watchers_ok_def)
  have d: "distinct (map fst (ord ws))" "\<forall>(i, p)\<in>set (ord ws). p = i"
    using assms(2) ws by (auto simp: range_order_distinct range_order_set)
  have w: "j \<in> fst ` set (ord ws) \<longleftrightarrow> watching s key j" for j
    using Some ws by (force simp: range_order_set [OF assms(2)] watching_def)
  note N = notify_all_Done [OF n d, unfolded w]
  have K: "map_of (KeyWatchers t) = (map_of (KeyWatchers s))(key \<mapsto> fold gmap_del del ws)"
    using N [of j] t by simp
  have c: "\<exists>wc. map_of (Clients s) i = Some wc" if "watching s key i" for i
    using that ws Some by (auto simp: watching_def)
  have W: "watching t k j \<longleftrightarrow> watching s k j \<and> (k = key \<longrightarrow> (\<forall>wc. map_of (Clients s) j = Some wc \<longrightarrow> Status wc \<noteq> 2))"
    using N [of j] Some c [of j] by (auto simp: watching_def K map_of_fold_del)
  have C: "map_of (Clients t) i = None \<longleftrightarrow> map_of (Clients s) i = None" for i
    using N [of i] t by (auto split: if_splits)
  have G: "gmap_ok (KeyWatchers t)"
    using assms(3) t N [of j] by (auto simp: watchers_ok_def)
  have "watchers_ok t"
    using assms(3) Some G unfolding watchers_ok_def K C
    by (auto simp only: map_of_fold_del gmap_ok_fold_del fun_upd_apply not_None_eq split: if_splits)
  with N [of j] t W show ?thesis by auto
qed


section \<open>The invariant is kept\<close>

lemma watchers_ok_upd_client [simp]: "watchers_ok s \<Longrightarrow> watchers_ok (upd_client i f s)"
  by (auto simp: watchers_ok_def)

lemma ws_inv_upd_client:
  assumes "ws_inv s" and "map_of (Clients s) i = Some wc" and "cId (f wc) = cId wc" and "conn_ok (f wc)"
    and "Status (f wc) = 1 \<Longrightarrow> Status wc = 1 \<and> WatchKeys (f wc) = WatchKeys wc"
  shows "ws_inv (upd_client i f s)"
  using assms by (auto simp: ws_inv_def)

lemma ws_inv_KvSet [simp]: "ws_inv s \<Longrightarrow> hash_set_ok kv \<Longrightarrow> ws_inv (s\<lparr>KvSet := kv\<rparr>)"
  by (auto simp: ws_inv_def watchers_ok_def)

lemma ws_inv_writeMsgToClient:
  assumes "ws_inv s" and "writeMsgToClient i m s = Done t"
  shows "ws_inv t"
proof -
  from assms(2) obtain wc where "map_of (Clients s) i = Some wc" "length (Out wc) < chan_cap"
    and t: "t = upd_client i (\<lambda>wc. wc\<lparr>Out := Out wc @ [m]\<rparr>) s"
    by (auto simp: writeMsgToClient_Done)
  with assms(1) show ?thesis
    unfolding t by (intro ws_inv_upd_client) (auto simp: ws_inv_def conn_ok_def)
qed

lemma register_keys_fields [simp]:
  "Clients (register_keys i ks s) = Clients s" "KvSet (register_keys i ks s) = KvSet s"
  "NextId (register_keys i ks s) = NextId s"
  by (induction i ks s rule: register_keys.induct) (auto simp: Let_def)

lemma watching_register_keys:
  "watching (register_keys i ks s) k j \<longleftrightarrow> watching s k j \<or> (j = i \<and> k \<in> set ks)"
  by (induction i ks s rule: register_keys.induct)
     (auto simp: watching_def Let_def split: option.splits if_splits)

lemma watchers_ok_register_keys:
  "watchers_ok s \<Longrightarrow> map_of (Clients s) i \<noteq> None \<Longrightarrow> watchers_ok (register_keys i ks s)"
proof (induction i ks s rule: register_keys.induct)
  case (2 i key keys s)
  let ?c = "case map_of (KeyWatchers s) key of None \<Rightarrow> [] | Some c \<Rightarrow> c"
  from 2(2) have "gmap_ok ?c" "\<forall>j p. map_of ?c j = Some p \<longrightarrow> p = j \<and> map_of (Clients s) j \<noteq> None"
    unfolding watchers_ok_def by (cases "map_of (KeyWatchers s) key"; simp del: map_of_eq_Some_iff)+
  with 2(2,3) have "watchers_ok (s\<lparr>KeyWatchers := gmap_set key (gmap_set i i ?c) (KeyWatchers s)\<rparr>)"
    by (auto simp: watchers_ok_def simp del: not_None_eq)
  with 2 show ?case by (simp add: Let_def)
qed simp

lemma ws_inv_initializeProcess:
  assumes "ws_inv s" and "initializeProcess i m s = Done t"
  shows "ws_inv t"
proof -
  let ?r = "\<lparr>Cmd = Cmd m, Seq = Seq m, Values = []\<rparr>"
  from assms(2) obtain wc where wc: "map_of (Clients s) i = Some wc" "length (Out wc) < chan_cap"
    and t: "t = register_keys i (Values m) (upd_client i (\<lambda>wc. wc\<lparr>Out := Out wc @ [?r]\<rparr>)
          (upd_client i (\<lambda>wc. wc\<lparr>Status := 1, WatchKeys := Values m\<rparr>) s))"
    by (auto simp: initializeProcess_def writeMsgToClient_Done)
  with assms(1) show ?thesis
    by (auto simp: ws_inv_def watching_register_keys watchers_ok_register_keys conn_ok_def)
qed

lemma notify_all_conn_ok:
  "notify_all cs m s = Done (t, del) \<Longrightarrow> (\<And>j wc. map_of (Clients s) j = Some wc \<Longrightarrow> conn_ok wc) \<Longrightarrow>
   map_of (Clients t) j = Some wc \<Longrightarrow> conn_ok wc"
proof (induction cs arbitrary: s del)
  case (Cons c cs)
  obtain i client where c: "c = (i, client)" by (cases c)
  with Cons.prems(1) obtain wd where wd: "map_of (Clients s) client = Some wd" by (auto split: option.splits)
  show ?case
  proof (cases "Status wd = 2")
    case True
    with Cons.prems(1) c wd obtain del' where "notify_all cs m s = Done (t, del')" by auto
    then show ?thesis by (rule Cons.IH) (use Cons.prems in auto)
  next
    case False
    let ?s = "upd_client client (\<lambda>wc. wc\<lparr>Out := Out wc @ [m]\<rparr>) s"
    from False Cons.prems(1) c wd have l: "length (Out wd) < chan_cap" "notify_all cs m ?s = Done (t, del)"
      by (auto simp: writeMsgToClient_Done)
    have "conn_ok wd" using wd Cons.prems(2) by blast
    with l(1) wd Cons.prems(2) have "conn_ok w" if "map_of (Clients ?s) k = Some w" for k w
      using that by (auto simp: conn_ok_def split: if_splits)
    from Cons.IH [OF l(2) this Cons.prems(3)] show ?thesis .
  qed
qed simp

lemma notify_conn_ok:
  "notify ord key f v s = Done t \<Longrightarrow> (\<And>j wc. map_of (Clients s) j = Some wc \<Longrightarrow> conn_ok wc) \<Longrightarrow>
   map_of (Clients t) j = Some wc \<Longrightarrow> conn_ok wc"
  by (auto simp: notify_def split: option.splits elim: notify_all_conn_ok)

lemma deliver_fields [simp]:
  "cId (deliver m wc) = cId wc" "Status (deliver m wc) = Status wc" "WatchKeys (deliver m wc) = WatchKeys wc"
  by (auto simp: deliver_def)

lemma ws_inv_notify:
  assumes "ws_inv s" and "notify ord key f v s = Done t" and "range_order ord"
  shows "ws_inv t"
proof -
  from assms(1) have w: "watchers_ok s" "gmap_ok (Clients s)" "hash_set_ok (KvSet s)" by (auto simp: ws_inv_def)
  note N = notify_Done [OF assms(2,3) w(1)]
  have c: "conn_ok wc" if "map_of (Clients t) j = Some wc" for j wc
    by (rule notify_conn_ok [OF assms(2) _ that]) (use assms(1) in \<open>auto simp: ws_inv_def\<close>)
  have "cId wc = j \<and> j \<le> NextId t \<and> (Status wc = 1 \<longrightarrow> (\<forall>k\<in>set (WatchKeys wc). watching t k j))"
    if "map_of (Clients t) j = Some wc" for j wc
  proof -
    from that N [of j key] obtain wd where wd: "map_of (Clients s) j = Some wd"
      "cId wc = cId wd" "Status wc = Status wd" "WatchKeys wc = WatchKeys wd"
      by (auto split: if_splits)
    with assms(1) have "cId wd = j \<and> j \<le> NextId s \<and> (Status wd = 1 \<longrightarrow> (\<forall>k\<in>set (WatchKeys wd). watching s k j))"
      by (auto simp: ws_inv_def)
    with wd N [of j] show ?thesis by auto
  qed
  moreover have "gmap_ok (Clients t) \<and> hash_set_ok (KvSet t) \<and> watchers_ok t"
    using N [of 0 key] w by auto
  ultimately show ?thesis using c unfolding ws_inv_def by blast
qed

lemma ws_inv_write_notify:
  assumes "exec_bind (writeMsgToClient i m (s\<lparr>KvSet := kv\<rparr>)) (notify ord key f v) = Done t"
    and "ws_inv s" and "hash_set_ok kv" and "range_order ord"
  shows "ws_inv t"
proof -
  from assms(1) obtain u where "writeMsgToClient i m (s\<lparr>KvSet := kv\<rparr>) = Done u" "notify ord key f v u = Done t"
    by auto
  with ws_inv_notify [OF ws_inv_writeMsgToClient [OF ws_inv_KvSet [OF assms(2,3)]] _ assms(4)]
  show ?thesis by blast
qed

lemma ws_inv_hash_set_ok: "ws_inv s \<Longrightarrow> hash_set_ok (KvSet s)"
  by (simp add: ws_inv_def)

lemma ws_inv_readers:
  assumes "ws_inv s"
  shows "heartbeatProcess i m s = Done t \<Longrightarrow> ws_inv t" "hgetProcess i m s = Done t \<Longrightarrow> ws_inv t"
    "KeyPrefixtProcess R i m s = Done t \<Longrightarrow> ws_inv t" "hgetallProcess R i m s = Done t \<Longrightarrow> ws_inv t"
  unfolding heartbeatProcess_def hgetProcess_def KeyPrefixtProcess_def hgetallProcess_def
  by (auto split: list.splits elim: ws_inv_writeMsgToClient [OF assms])

lemma ws_inv_writers:
  assumes "ws_inv s" and "orders_ok R"
  shows "hsetProcess B R i m s = Done t \<Longrightarrow> ws_inv t" "delProcess B R i m s = Done t \<Longrightarrow> ws_inv t"
    "hincrbyProcess B R i m s = Done t \<Longrightarrow> ws_inv t"
proof -
  note kv = ws_inv_hash_set_ok [OF assms(1)]
  from assms(2) have R: "range_order (ordW R)" by (simp add: orders_ok_def)
  note W = ws_inv_write_notify [OF _ assms(1) _ R]
  show "hsetProcess B R i m s = Done t \<Longrightarrow> ws_inv t"
    by (auto simp: hsetProcess_def simp del: exec_bind_Done split: list.splits elim!: W intro: hash_set_ok_Hset kv)
  show "delProcess B R i m s = Done t \<Longrightarrow> ws_inv t"
    by (auto simp: delProcess_def simp del: exec_bind_Done split: list.splits elim!: W intro: hash_set_ok_Del kv)
  have h: "Hincrby B k f n (KvSet s) = (x, v) \<Longrightarrow> hash_set_ok x" for k f n x v
    using hash_set_ok_Hincrby [OF kv, of B k f n] by simp
  show "hincrbyProcess B R i m s = Done t \<Longrightarrow> ws_inv t"
    by (auto simp: hincrbyProcess_def simp del: exec_bind_Done split: list.splits prod.splits elim!: W intro: h)
qed

lemma ws_inv_handle_in:
  assumes "ws_inv s" and "handle_in B R i m s = Done t" and "orders_ok R"
  shows "ws_inv t"
proof -
  note H = ws_inv_initializeProcess [OF assms(1)] ws_inv_readers [OF assms(1)] ws_inv_writers [OF assms(1,3)]
  from assms show ?thesis unfolding handle_in_def by (simp only: split: if_splits) (auto dest: H)
qed

lemma conn_ok_new [simp]: "conn_ok (new_connect i)"
  by (simp add: conn_ok_def new_connect_def chan_cap_def)

lemma new_connect_simps [simp]:
  "cId (new_connect i) = i" "Status (new_connect i) = 0" "WatchKeys (new_connect i) = []"
  by (simp_all add: new_connect_def)

lemma ws_inv_New: "ws_inv (NewWatchServer db)"
  by (simp add: ws_inv_def NewWatchServer_def watchers_ok_def)

lemma ws_inv_client:
  "ws_inv s \<Longrightarrow> map_of (Clients s) i = Some wc \<Longrightarrow> cId wc = i \<and> i \<le> NextId s \<and> conn_ok wc"
  by (auto simp: ws_inv_def)

lemma ws_inv_accept:
  "ws_inv s \<Longrightarrow> i = Suc (NextId s) \<Longrightarrow>
   ws_inv (s\<lparr>Clients := gmap_set i (new_connect i) (Clients s), NextId := i\<rparr>)"
  unfolding ws_inv_def watchers_ok_def watching_def
  by (auto simp: le_Suc_eq)

lemma ws_inv_pop: "ws_inv s \<Longrightarrow> map_of (Clients s) i = Some wc \<Longrightarrow> In wc = m # ms \<Longrightarrow>
   ws_inv (upd_client i (\<lambda>wc. wc\<lparr>In := ms\<rparr>) s)"
  using ws_inv_client [of s i wc] by (intro ws_inv_upd_client) (auto simp: conn_ok_def)

lemma ws_inv_step: "ws_step B e s t \<Longrightarrow> ws_inv s \<Longrightarrow> ws_inv t"
proof (induction rule: ws_step.induct)
  case (handle s i wc m ms R t)
  with ws_inv_pop show ?case by (blast intro: ws_inv_handle_in)
qed (auto intro!: ws_inv_accept ws_inv_upd_client dest: ws_inv_client simp: conn_ok_def)

interpretation ws: step_system "\<lambda>s. \<exists>db. s = NewWatchServer db" "ws_step B" ws_inv for B
  by unfold_locales (auto intro: ws_inv_New ws_inv_step)


section \<open>Properties of the server\<close>


definition hset_msg :: "string \<Rightarrow> string \<Rightarrow> string \<Rightarrow> int \<Rightarrow> watch_message" where
  "hset_msg k f v q = \<lparr>Cmd = ''hset'', Seq = q, Values = [k, f, v]\<rparr>"

lemma handle_in_hset:
  "handle_in B R i (hset_msg k f v q) s =
     exec_bind (writeMsgToClient i \<lparr>Cmd = ''hset'', Seq = q, Values = []\<rparr> (s\<lparr>KvSet := fst (Hset B k f v (KvSet s))\<rparr>))
       (notify (ordW R) k f v)"
  by (simp add: handle_in_def hset_msg_def hsetProcess_def)

text \<open>
  A handled \<^verbatim>\<open>hset\<close> stores the value (unless key or field is empty), answers its own connection with the same
  sequence number, appends exactly one \<^verbatim>\<open>watch\<close> message with key, field and value
  to the channel of every connection that watches the key and is not marked closed (after the
  answer, for the caller itself), changes no other channel, and drops exactly the closed
  connections from the watchers of the key.
\<close>

theorem hset_delivers:
  assumes "handle_in B R i (hset_msg k f v q) s = Done t" and "ws_inv s" and "orders_ok R"
    and "map_of (Clients s) j = Some wc"
  shows "(\<forall>k' f'. Hget k' f' (KvSet t) = (if k \<noteq> [] \<and> f \<noteq> [] \<and> k' = k \<and> f' = f then v else Hget k' f' (KvSet s))) \<and>
    map_of (Clients t) j = Some (wc\<lparr>Out := Out wc @
      (if j = i then [\<lparr>Cmd = ''hset'', Seq = q, Values = []\<rparr>] else []) @
      (if watching s k j \<and> Status wc \<noteq> 2 then [\<lparr>Cmd = ''watch'', Seq = 0, Values = [k, f, v]\<rparr>] else [])\<rparr>)
    \<and> (watching t key j \<longleftrightarrow> watching s key j \<and> (key = k \<longrightarrow> Status wc \<noteq> 2))"
proof -
  let ?u = "upd_client i (\<lambda>wc. wc\<lparr>Out := Out wc @ [\<lparr>Cmd = ''hset'', Seq = q, Values = []\<rparr>]\<rparr>)
    (s\<lparr>KvSet := fst (Hset B k f v (KvSet s))\<rparr>)"
  from assms(1) have n: "notify (ordW R) k f v ?u = Done t"
    by (auto simp: handle_in_hset writeMsgToClient_Done)
  have R: "range_order (ordW R)" and u: "watchers_ok ?u"
    using assms(2,3) by (auto simp: orders_ok_def ws_inv_def watchers_ok_def)
  show ?thesis
    using notify_Done [OF n R u, of j key] assms(4)
    by (auto simp: deliver_def Hget_Hset)
qed

text \<open>A server with one silent watcher (id 1) of a key and one other connection (id 2).\<close>

definition demo_server :: "'db watch_server" where
  "demo_server =
     \<lparr>Clients = [(1, (new_connect 1)\<lparr>Status := 1, WatchKeys := [''k'']\<rparr>), (2, new_connect 2)],
      KeyWatchers = [(''k'', [(1, 1)])], KvSet = NewHashSet None, NextId = 2\<rparr>"

definition id_orders :: range_orders where
  "id_orders = \<lparr>ordK = \<lambda>m. m, ordF = \<lambda>m. m, ordW = \<lambda>m. m\<rparr>"

lemma id_orders_ok [simp]: "orders_ok id_orders"
  by (simp add: orders_ok_def id_orders_def)

lemma demo_server_inv: "ws_inv demo_server"
  by (auto simp: ws_inv_def demo_server_def watchers_ok_def watching_def conn_ok_def new_connect_def
      chan_cap_def split: if_splits)

text \<open>Room in the channels is enough for a handler to complete.\<close>

definition has_room :: "'db watch_server \<Rightarrow> bool" where
  "has_room s \<longleftrightarrow> (\<forall>i wc. map_of (Clients s) i = Some wc \<longrightarrow> length (Out wc) + 2 \<le> chan_cap)"

lemma has_roomD: "has_room s \<Longrightarrow> map_of (Clients s) i = Some wc \<Longrightarrow> length (Out wc) < chan_cap"
  unfolding has_room_def by fastforce

lemma notify_all_progress:
  assumes "distinct (map fst cs)" and "\<forall>(i, p)\<in>set cs. p = i"
    and "\<forall>i\<in>fst ` set cs. \<exists>wc. map_of (Clients s) i = Some wc \<and> length (Out wc) < chan_cap"
  shows "\<exists>t del. notify_all cs m s = Done (t, del)"
  using assms
proof (induction cs arbitrary: s)
  case (Cons c cs)
  from Cons.prems(2) obtain i where c: "c = (i, i)" by (cases c) auto
  with Cons.prems(3) obtain wc where wc: "map_of (Clients s) i = Some wc" "length (Out wc) < chan_cap" by auto
  let ?s = "upd_client i (\<lambda>wc. wc\<lparr>Out := Out wc @ [m]\<rparr>) s"
  from Cons.prems c have "\<forall>j\<in>fst ` set cs. \<exists>wc. map_of (Clients ?s) j = Some wc \<and> length (Out wc) < chan_cap"
    by auto
  with Cons.IH [of ?s] Cons.IH [of s] Cons.prems c wc show ?case
    by (auto simp: writeMsgToClient_def)
qed simp

lemma notify_progress:
  assumes "range_order ord" and "watchers_ok s"
    and "\<And>i wc. map_of (Clients s) i = Some wc \<Longrightarrow> length (Out wc) < chan_cap"
  shows "\<exists>t. notify ord key f v s = Done t"
proof (cases "map_of (KeyWatchers s) key")
  case (Some ws)
  with assms(2) have ws: "gmap_ok ws" "\<And>i p. map_of ws i = Some p \<Longrightarrow> p = i \<and> map_of (Clients s) i \<noteq> None"
    by (auto simp: watchers_ok_def)
  have "\<exists>t del. notify_all (ord ws) \<lparr>Cmd = ''watch'', Seq = 0, Values = [key, f, v]\<rparr> s = Done (t, del)"
    using assms ws by (intro notify_all_progress) (force simp: range_order_distinct range_order_set)+
  with Some show ?thesis by (auto simp: notify_def)
qed (simp add: notify_def)

text \<open>The number of values a handler indexes.\<close>

definition arity :: "string \<Rightarrow> nat" where
  "arity cmd =
     (if cmd = ''hset'' \<or> cmd = ''hincrby'' then 3 else if cmd = ''hget'' then 2
      else if cmd = ''key_prefix'' \<or> cmd = ''hgetall'' \<or> cmd = ''del'' then 1 else 0)"

lemma write_progress:
  assumes "has_room s" and "map_of (Clients s) i = Some wc"
  shows "\<exists>t. writeMsgToClient i m s = Done t"
  using has_roomD [OF assms] assms(2) by (auto simp: writeMsgToClient_def)

lemma write_notify_progress:
  assumes "ws_inv s" and "has_room s" and "map_of (Clients s) i = Some wc" and "range_order ord"
  shows "\<exists>t. exec_bind (writeMsgToClient i m (s\<lparr>KvSet := kv\<rparr>)) (notify ord key f v) = Done t"
proof -
  let ?u = "upd_client i (\<lambda>wc. wc\<lparr>Out := Out wc @ [m]\<rparr>) (s\<lparr>KvSet := kv\<rparr>)"
  have "watchers_ok (s\<lparr>KvSet := kv\<rparr>)" using assms(1) by (auto simp: ws_inv_def watchers_ok_def)
  moreover have "length (Out w) < chan_cap" if "map_of (Clients ?u) j = Some w" for j w
    using that assms(2,3) by (fastforce simp: has_room_def split: if_splits)
  ultimately obtain t where "notify ord key f v ?u = Done t"
    using notify_progress [OF assms(4), of ?u key f v] by (auto simp del: map_of_upd_client)
  moreover have "writeMsgToClient i m (s\<lparr>KvSet := kv\<rparr>) = Done ?u"
    using has_roomD [OF assms(2,3)] assms(3) by (auto simp: writeMsgToClient_def)
  ultimately show ?thesis by simp
qed

lemma list_cases3: "(\<exists>a b c r. xs = a # b # c # r) \<or> xs = [] \<or> (\<exists>a. xs = [a]) \<or> (\<exists>a b. xs = [a, b])"
  by (cases xs; cases "tl xs"; cases "tl (tl xs)") auto


lemma demo_has_room: "has_room demo_server"
  by (auto simp: has_room_def demo_server_def new_connect_def chan_cap_def split: if_splits)

lemma demo_client2: "map_of (Clients demo_server) 2 = Some (new_connect 2)"
  by (simp add: demo_server_def)


text \<open>
  The pinned state: a connection whose loop has ended and whose reader has closed, registered
  with \<^verbatim>\<open>Status\<close> 1 and with a full channel.
\<close>

definition pinned :: "string \<Rightarrow> nat \<Rightarrow> 'db watch_server \<Rightarrow> bool" where
  "pinned k i s \<longleftrightarrow> watching s k i \<and>
     (\<exists>wc. map_of (Clients s) i = Some wc \<and> \<not> Running wc \<and> Closed wc \<and> Status wc = 1 \<and> length (Out wc) = chan_cap)"

lemma notify_all_full:
  assumes "distinct (map fst cs)" and "\<forall>(i, p)\<in>set cs. p = i" and "i \<in> fst ` set cs"
    and "\<forall>j\<in>fst ` set cs. map_of (Clients s) j \<noteq> None"
    and "map_of (Clients s) i = Some wc" and "Status wc \<noteq> 2" and "length (Out wc) = chan_cap"
  shows "notify_all cs m s = Blocked"
  using assms
proof (induction cs arbitrary: s)
  case (Cons c cs)
  from Cons.prems(2) obtain j where c: "c = (j, j)" by (cases c) auto
  with Cons.prems(4) obtain wd where wd: "map_of (Clients s) j = Some wd" by auto
  let ?s = "upd_client j (\<lambda>wc. wc\<lparr>Out := Out wc @ [m]\<rparr>) s"
  show ?case
  proof (cases "j = i")
    case True
    with c wd Cons.prems(5-7) show ?thesis by (simp add: writeMsgToClient_def)
  next
    case False
    with Cons.prems c have "i \<in> fst ` set cs" by auto
    with Cons.IH [of s] Cons.IH [of ?s] False Cons.prems c wd show ?thesis
      by (auto simp: writeMsgToClient_def)
  qed
qed simp

lemma pinned_notify_blocks:
  assumes "pinned k i s" and "watchers_ok s" and "range_order ord"
  shows "notify ord k f v s = Blocked"
proof -
  from assms(1) obtain ws wc where ws: "map_of (KeyWatchers s) k = Some ws" "map_of ws i = Some i"
    and wc: "map_of (Clients s) i = Some wc" "Status wc = 1" "length (Out wc) = chan_cap"
    by (auto simp: pinned_def watching_def)
  from assms(2) ws have w: "gmap_ok ws" "\<And>i p. map_of ws i = Some p \<Longrightarrow> p = i \<and> map_of (Clients s) i \<noteq> None"
    by (auto simp: watchers_ok_def)
  have "notify_all (ord ws) \<lparr>Cmd = ''watch'', Seq = 0, Values = [k, f, v]\<rparr> s = Blocked"
  proof (rule notify_all_full)
    show "i \<in> fst ` set (ord ws)"
      using ws(2) map_of_SomeD [of ws i i] by (force simp: range_order_set [OF assms(3)])
  qed (use w wc assms(3) in \<open>force simp: range_order_distinct range_order_set\<close>)+
  with ws show ?thesis by (simp add: notify_def)
qed

text \<open>What a handler does to the connections that did not send the message.\<close>

definition only_appends :: "nat \<Rightarrow> 'db watch_server \<Rightarrow> 'db watch_server \<Rightarrow> bool" where
  "only_appends j s t \<longleftrightarrow>
     (\<forall>wc. map_of (Clients s) j = Some wc \<longrightarrow>
        (\<exists>ms. map_of (Clients t) j = Some (wc\<lparr>Out := Out wc @ ms\<rparr>)) \<and>
        (Status wc \<noteq> 2 \<longrightarrow> (\<forall>k. watching s k j \<longrightarrow> watching t k j)))"

lemma only_appends_refl [simp]: "only_appends j s s"
  unfolding only_appends_def by (auto intro: exI [of _ "[]"])

lemma only_appends_write: "writeMsgToClient i m s = Done t \<Longrightarrow> j \<noteq> i \<Longrightarrow> only_appends j s t"
  unfolding only_appends_def by (auto simp: writeMsgToClient_Done intro: exI [of _ "[]"])

lemma only_appends_initialize: "initializeProcess i m s = Done t \<Longrightarrow> j \<noteq> i \<Longrightarrow> only_appends j s t"
  unfolding only_appends_def
  by (auto simp: initializeProcess_def writeMsgToClient_Done watching_register_keys intro: exI [of _ "[]"])

lemma only_appends_notify:
  assumes "exec_bind (writeMsgToClient i m (s\<lparr>KvSet := kv\<rparr>)) (notify ord key f v) = Done t"
    and "watchers_ok s" and "range_order ord" and "j \<noteq> i"
  shows "only_appends j s t"
proof -
  let ?u = "upd_client i (\<lambda>wc. wc\<lparr>Out := Out wc @ [m]\<rparr>) (s\<lparr>KvSet := kv\<rparr>)"
  from assms(1) have n: "notify ord key f v ?u = Done t" by (auto simp: writeMsgToClient_Done)
  have u: "watchers_ok ?u" using assms(2) by (auto simp: watchers_ok_def)
  show ?thesis
    using notify_Done [OF n assms(3) u, of j] assms(4)
    by (force simp: only_appends_def deliver_def intro: exI [of _ "[]"] split: if_splits)
qed

lemma handle_in_only_appends:
  assumes "handle_in B R i m s = Done t" and "watchers_ok s" and "orders_ok R" and "j \<noteq> i"
  shows "only_appends j s t"
proof -
  have R: "range_order (ordW R)" using assms(3) by (simp add: orders_ok_def)
  note N = only_appends_notify [OF _ assms(2) R assms(4)] and W = only_appends_write [OF _ assms(4)]
  have w: "heartbeatProcess i m s = Done t \<Longrightarrow> only_appends j s t" "hgetProcess i m s = Done t \<Longrightarrow> only_appends j s t"
    "KeyPrefixtProcess R i m s = Done t \<Longrightarrow> only_appends j s t" "hgetallProcess R i m s = Done t \<Longrightarrow> only_appends j s t"
    unfolding heartbeatProcess_def hgetProcess_def KeyPrefixtProcess_def hgetallProcess_def
    by (auto split: list.splits elim: W)
  have n: "hsetProcess B R i m s = Done t \<Longrightarrow> only_appends j s t" "delProcess B R i m s = Done t \<Longrightarrow> only_appends j s t"
    "hincrbyProcess B R i m s = Done t \<Longrightarrow> only_appends j s t"
    unfolding hsetProcess_def delProcess_def hincrbyProcess_def
    by (auto simp del: exec_bind_Done split: list.splits prod.splits elim!: N)
  from assms(1) show ?thesis
    unfolding handle_in_def
    by (simp only: split: if_splits) (auto dest: w n only_appends_initialize [OF _ assms(4)])
qed

lemma pinned_upd_client:
  "pinned k i s \<Longrightarrow> map_of (Clients s) j = Some wc \<Longrightarrow> Running wc \<or> \<not> Closed wc \<Longrightarrow> pinned k i (upd_client j f s)"
  by (auto simp: pinned_def)

lemma pinned_accept:
  assumes "pinned k i s" and "ws_inv s" and "j = Suc (NextId s)"
  shows "pinned k i (s\<lparr>Clients := gmap_set j w (Clients s), NextId := j\<rparr>)"
proof -
  from assms(1) obtain wc where "map_of (Clients s) i = Some wc" by (auto simp: pinned_def)
  with assms(2,3) have "i \<noteq> j" using ws_inv_client [of s i wc] by simp
  with assms(1) show ?thesis by (simp add: pinned_def)
qed

lemma pinned_step: "ws_step B e s t \<Longrightarrow> ws_inv s \<Longrightarrow> pinned k i s \<Longrightarrow> pinned k i t"
proof (induction rule: ws_step.induct)
  case (handle s j wc m ms R t)
  let ?s = "upd_client j (\<lambda>wc. wc\<lparr>In := ms\<rparr>) s"
  from handle.prems(2) obtain wi where wi: "map_of (Clients s) i = Some wi" "\<not> Running wi" "Closed wi"
    "Status wi = 1" "length (Out wi) = chan_cap" "watching s k i" by (auto simp: pinned_def)
  with handle.hyps have ij: "i \<noteq> j" by auto
  have inv: "ws_inv ?s" using ws_inv_pop handle by blast
  then have "ws_inv t" using handle.hyps by (blast intro: ws_inv_handle_in)
  moreover have "only_appends i ?s t"
    using handle_in_only_appends [OF handle.hyps(5) _ handle.hyps(4) ij] inv by (simp add: ws_inv_def)
  ultimately obtain os where "map_of (Clients t) i = Some (wi\<lparr>Out := Out wi @ os\<rparr>)" "watching t k i"
    "length (Out wi @ os) \<le> chan_cap"
    using wi ij by (fastforce simp: only_appends_def ws_inv_def conn_ok_def)
  with wi show ?case by (auto simp: pinned_def)
qed (blast intro: pinned_accept pinned_upd_client)+

interpretation stuck: step_system "\<lambda>s. ws_inv s \<and> pinned k i s" "ws_step B" "\<lambda>s. ws_inv s \<and> pinned k i s" for B k i
  by unfold_locales (auto intro: ws_inv_step pinned_step)

text \<open>
  A registered watcher that is gone but marked initialised holds up its key forever: once its
  channel is full, no sequence of steps of any connection frees it, and every later
  \<^verbatim>\<open>hset\<close> of the key that gets as far as the notification blocks inside
  \<^verbatim>\<open>notify\<close>, where the server's mutex is held.
\<close>

theorem pinned_forever:
  assumes "ws_inv s" and "pinned k i s" and "run (ws_step B) s es t" and "range_order ord"
  shows "pinned k i t \<and> notify ord k f v t = Blocked"
proof -
  have "ws_inv t \<and> pinned k i t" using stuck.run_inv [OF assms(3), of k i] assms(1,2) by blast
  moreover from this have "watchers_ok t" by (simp add: ws_inv_def)
  ultimately show ?thesis using pinned_notify_blocks assms(4) by blast
qed

definition pinned_server :: "'db watch_server" where
  "pinned_server =
     \<lparr>Clients = [(1, (new_connect 1)\<lparr>Status := 1, WatchKeys := [''k''], Closed := True, Running := False,
          Out := replicate 32 \<lparr>Cmd = ''watch'', Seq = 0, Values = [''k'', ''f'', ''v'']\<rparr>\<rparr>)],
      KeyWatchers = [(''k'', [(1, 1)])], KvSet = NewHashSet None, NextId = 1\<rparr>"

lemma pinned_server_ok: "ws_inv pinned_server" "pinned ''k'' 1 pinned_server"
  by (auto simp: ws_inv_def pinned_def pinned_server_def watchers_ok_def watching_def conn_ok_def new_connect_def
      chan_cap_def split: if_splits)

theorem pinned_forever_witness:
  "pinned ''k'' 1 (pinned_server :: 'db watch_server) \<and> notify rev ''k'' ''f'' ''v'' (pinned_server :: 'db watch_server) = Blocked"
  using pinned_forever [OF pinned_server_ok run_nil range_order_rev] by blast

definition init_msg :: "string \<Rightarrow> watch_message" where
  "init_msg k = \<lparr>Cmd = ''initialize'', Seq = 0, Values = [k]\<rparr>"

text \<open>
  Such a watcher exists: when a client sends its \<^verbatim>\<open>initialize\<close> and its
  connection breaks before the loop has handled the message, the reader's
  \<^verbatim>\<open>Status = 2\<close> is overwritten by \<^verbatim>\<open>Status = 1\<close>, and the dead
  connection stays registered as a live watcher after its loop has returned.
\<close>

theorem dead_watcher_revived:
  "\<exists>es t wc. run (ws_step B) (NewWatchServer db) es t \<and> map_of (Clients t) 1 = Some wc \<and>
     Status wc = 1 \<and> Closed wc \<and> \<not> Running wc \<and> watching t k 1"
proof -
  let ?s0 = "NewWatchServer db :: 'a watch_server" and ?m = "init_msg k"
  let ?s1 = "?s0\<lparr>Clients := gmap_set 1 (new_connect 1) (Clients ?s0), NextId := 1\<rparr>"
  let ?s2 = "upd_client 1 (\<lambda>wc. wc\<lparr>In := In wc @ [?m]\<rparr>) ?s1"
  let ?s3 = "upd_client 1 (\<lambda>wc. wc\<lparr>Closed := True, Status := 2\<rparr>) ?s2"
  let ?s4 = "register_keys 1 [k] (upd_client 1 (\<lambda>wc. wc\<lparr>Out := Out wc @ [?m\<lparr>Values := []\<rparr>]\<rparr>)
     (upd_client 1 (\<lambda>wc. wc\<lparr>Status := 1, WatchKeys := [k]\<rparr>) (upd_client 1 (\<lambda>wc. wc\<lparr>In := []\<rparr>) ?s3)))"
  let ?s5 = "upd_client 1 (\<lambda>wc. wc\<lparr>Running := False\<rparr>) ?s4"
  note defs = NewWatchServer_def new_connect_def chan_cap_def init_msg_def
  have "ws_step B (Accept 1) ?s0 ?s1" by (rule accept) (simp add: defs)
  moreover have "ws_step B (Recv 1 ?m) ?s1 ?s2" by (rule recv, (simp add: defs)+)
  moreover have "ws_step B (RecvFail 1) ?s2 ?s3" by (rule recv_fail, (simp add: defs)+)
  moreover have "handle_in B id_orders 1 ?m (upd_client 1 (\<lambda>wc. wc\<lparr>In := []\<rparr>) ?s3) = Done ?s4"
    by (simp add: handle_in_def initializeProcess_def writeMsgToClient_def defs)
  then have "ws_step B (Handle 1 ?m) ?s3 ?s4"
    by (intro handle [where R = id_orders], (simp add: defs)+)
  moreover have "ws_step B (LoopClose 1) ?s4 ?s5" by (rule loop_close, (simp add: defs)+)
  ultimately have "run (ws_step B) ?s0 [Accept 1, Recv 1 ?m, RecvFail 1, Handle 1 ?m, LoopClose 1] ?s5"
    by (blast intro: run_cons run_nil)
  moreover have "watching ?s5 k 1" by (simp add: watching_def defs)
  ultimately show ?thesis
    by (intro exI [of _ "[Accept 1, Recv 1 ?m, RecvFail 1, Handle 1 ?m, LoopClose 1]"] exI [of _ ?s5])
       (simp add: defs)
qed


theorem hset_delivers_witness:
  "\<exists>t. handle_in alist_bolt id_orders 2 (hset_msg ''k'' ''f'' ''v'' 5) demo_server = Done t \<and>
     map_of (Clients t) 1 = Some ((new_connect 1)\<lparr>Status := 1, WatchKeys := [''k''],
       Out := [\<lparr>Cmd = ''watch'', Seq = 0, Values = [''k'', ''f'', ''v'']\<rparr>]\<rparr>)"
proof -
  have "range_order (ordW id_orders)" by (simp add: id_orders_def)
  from write_notify_progress [OF demo_server_inv demo_has_room demo_client2 this]
  obtain t where t: "handle_in alist_bolt id_orders 2 (hset_msg ''k'' ''f'' ''v'' 5) (demo_server :: (string, fields) gmap watch_server) = Done t"
    unfolding handle_in_hset by blast
  have c: "map_of (Clients (demo_server :: (string, fields) gmap watch_server)) 1 = Some ((new_connect 1)\<lparr>Status := 1, WatchKeys := [''k'']\<rparr>)"
    by (simp add: demo_server_def)
  have "watching demo_server ''k'' 1" by (simp add: watching_def demo_server_def)
  with hset_delivers [OF t demo_server_inv id_orders_ok c] t show ?thesis
    by (auto simp: new_connect_def)
qed

end
