(* ===== verification/Watch_Client.thy ===== *)
theory Watch_Client
  imports Watch_Server
begin

text \<open>
  The watch client, \<^verbatim>\<open>watch/client.go\<close>. A client keeps the channels of the calls in
  flight by sequence number (\<^verbatim>\<open>MessageChan\<close>), a channel of capacity 1 for the pushed
  messages (\<^verbatim>\<open>WatchChan\<close>) and its callbacks (\<^verbatim>\<open>Calls\<close>); \<open>Fired\<close> logs
  the callbacks invoked and \<open>Watching\<close> says that the goroutine that invokes them still
  runs. The network is a parameter \<open>net\<close>: given the text written, it fails or yields the
  messages the reader receives before the timer of \<^verbatim>\<open>readChan\<close> fires. The last part of
  the theory puts the model of the server in its place.
\<close>

type_synonym 'w net = "string \<Rightarrow> 'w \<Rightarrow> (go_error + watch_message list) \<times> 'w"

record 'cb watch_client =
  Keys :: "string list"
  MessageChan :: "(int, watch_message list) gmap"
  WatchChan :: "watch_message list"
  Calls :: "(string, 'cb) gmap"
  isClose :: bool
  cSeq :: u32
  Watching :: bool
  Fired :: "('cb \<times> string \<times> string) list"

definition NewWatchClient :: "'cb watch_client" where
  "NewWatchClient =
     \<lparr>Keys = [], MessageChan = [], WatchChan = [], Calls = [], isClose = False, cSeq = 0, Watching = False, Fired = []\<rparr>"

definition RegisterCallback :: "string \<Rightarrow> 'cb \<Rightarrow> 'cb watch_client \<Rightarrow> 'cb watch_client" where
  "RegisterCallback key call wc = wc\<lparr>Keys := Keys wc @ [key], Calls := gmap_set key call (Calls wc)\<rparr>"

text \<open>
  \<^verbatim>\<open>int(atomic.AddInt32(&wc.Seq, 1))\<close>: the counter wraps around at 32 bits.
\<close>

definition next_seq :: "'cb watch_client \<Rightarrow> int \<times> 'cb watch_client" where
  "next_seq wc = (sint (cSeq wc + 1), wc\<lparr>cSeq := cSeq wc + 1\<rparr>)"


section \<open>The goroutines of Start\<close>

text \<open>One message in the reader: \<open>None\<close> when it blocks on a full channel.\<close>

definition dispatch :: "watch_message \<Rightarrow> 'cb watch_client \<Rightarrow> 'cb watch_client option" where
  "dispatch msg wc =
     (case map_of (MessageChan wc) (Seq msg) of
        Some c \<Rightarrow>
          if length c < 1 then Some (wc\<lparr>MessageChan := gmap_set (Seq msg) (c @ [msg]) (MessageChan wc)\<rparr>) else None
      | None \<Rightarrow>
          if Cmd msg = ''watch'' then
            if length (WatchChan wc) < 1 then Some (wc\<lparr>WatchChan := WatchChan wc @ [msg]\<rparr>) else None
          else Some wc)"

definition Watch :: "watch_message \<Rightarrow> (string \<times> string \<times> string) outcome" where
  "Watch rsp =
     out_bind (index_at (Values rsp) 0) (\<lambda>a. out_bind (index_at (Values rsp) 1) (\<lambda>b.
     out_bind (index_at (Values rsp) 2) (\<lambda>c. Ret (a, b, c))))"

definition watch_iter :: "'cb watch_client \<Rightarrow> 'cb watch_client outcome" where
  "watch_iter wc =
     (if \<not> Watching wc then Ret wc
      else case WatchChan wc of
        [] \<Rightarrow> Ret wc
      | rsp # rest \<Rightarrow>
          out_bind (Watch rsp) (\<lambda>(key, k, v).
            let wc' = wc\<lparr>WatchChan := rest\<rparr> in
            if key = [] then Ret (wc'\<lparr>Watching := False\<rparr>)
            else case map_of (Calls wc') key of
                   None \<Rightarrow> Ret wc'
                 | Some call \<Rightarrow> Ret (wc'\<lparr>Fired := Fired wc' @ [(call, k, v)]\<rparr>)))"

text \<open>
  The reader takes the messages in order; the watch goroutine empties its channel in between.
  A blocked reader leaves the remaining messages unread.
\<close>

fun receive :: "watch_message list \<Rightarrow> 'cb watch_client \<Rightarrow> 'cb watch_client outcome" where
  "receive [] wc = Ret wc"
| "receive (m # ms) wc =
     (case dispatch m wc of
        None \<Rightarrow> Ret wc
      | Some wc' \<Rightarrow> out_bind (watch_iter wc') (receive ms))"


section \<open>Requests\<close>

definition readChan :: "int \<Rightarrow> 'cb watch_client \<Rightarrow> watch_message option" where
  "readChan seq wc = (case map_of (MessageChan wc) seq of Some (ret # _) \<Rightarrow> Some ret | _ \<Rightarrow> None)"

text \<open>The second component of the result is the message pointer, \<open>None\<close> for nil.\<close>

definition SendAndRecvMessage ::
  "'w net \<Rightarrow> watch_message \<Rightarrow> 'cb watch_client \<times> 'w \<Rightarrow> ((go_error + watch_message option) \<times> 'cb watch_client \<times> 'w) outcome" where
  "SendAndRecvMessage net req cw =
     (let (wc, w) = cw;
          wc1 = wc\<lparr>MessageChan := gmap_set (Seq req) [] (MessageChan wc)\<rparr>;
          unregister = (\<lambda>c. c\<lparr>MessageChan := gmap_del (Seq req) (MessageChan c)\<rparr>);
          out = written (fst (WriteWatchMessage req \<lparr>written = [], werr = None\<rparr>))
      in case net out w of
           (Inl err, w') \<Rightarrow> Ret (Inl err, unregister wc1, w')
         | (Inr msgs, w') \<Rightarrow>
             out_bind (receive msgs wc1) (\<lambda>wc2. Ret (Inr (readChan (Seq req) wc2), unregister wc2, w')))"

definition request ::
  "'w net \<Rightarrow> string \<Rightarrow> string list \<Rightarrow> 'cb watch_client \<times> 'w \<Rightarrow> ((go_error + watch_message option) \<times> 'cb watch_client \<times> 'w) outcome" where
  "request net cmd values cw =
     (let (wc, w) = cw; (seq, wc') = next_seq wc
      in SendAndRecvMessage net \<lparr>Cmd = cmd, Seq = seq, Values = values\<rparr> (wc', w))"

text \<open>Reading a field of the result: the nil message panics.\<close>

fun msg_values :: "watch_message option \<Rightarrow> string list outcome" where
  "msg_values None = Panic ''nil pointer dereference''"
| "msg_values (Some m) = Ret (Values m)"

definition RawCall :: "'w net \<Rightarrow> string list \<Rightarrow> 'cb watch_client \<times> 'w \<Rightarrow> (string list \<times> 'cb watch_client \<times> 'w) outcome" where
  "RawCall net param cw =
     out_bind (index_at param 0) (\<lambda>cmd.
     out_bind (request net cmd (tl param) cw) (\<lambda>(r, cw').
       case r of Inl err \<Rightarrow> Ret ([], cw') | Inr msg \<Rightarrow> out_bind (msg_values msg) (\<lambda>vs. Ret (vs, cw'))))"

definition client_initialize :: "'w net \<Rightarrow> 'cb watch_client \<times> 'w \<Rightarrow> ('cb watch_client \<times> 'w) outcome" where
  "client_initialize net cw =
     (if isClose (fst cw) then Ret cw
      else out_bind (request net ''initialize'' (Keys (fst cw)) cw) (\<lambda>(_, cw'). Ret cw'))"

definition Start :: "'w net \<Rightarrow> 'cb watch_client \<times> 'w \<Rightarrow> ('cb watch_client \<times> 'w) outcome" where
  "Start net cw = client_initialize net (fst cw\<lparr>isClose := False, Watching := True\<rparr>, snd cw)"

text \<open>
  \<^verbatim>\<open>Reconnect\<close>: the result says whether another attempt was scheduled. The reader's
  exit closes the client.
\<close>

definition Reconnect :: "'w net \<Rightarrow> bool \<Rightarrow> 'cb watch_client \<times> 'w \<Rightarrow> (bool \<times> 'cb watch_client \<times> 'w) outcome" where
  "Reconnect net dialled cw =
     (if dialled then out_bind (Start net cw) (\<lambda>cw'. Ret (False, cw')) else Ret (True, cw))"

definition reader_exit :: "'cb watch_client \<Rightarrow> 'cb watch_client" where
  "reader_exit wc = wc\<lparr>isClose := True\<rparr>"

definition heartbeat :: "'w net \<Rightarrow> 'cb watch_client \<times> 'w \<Rightarrow> ('cb watch_client \<times> 'w) outcome" where
  "heartbeat net cw =
     (if isClose (fst cw) then Ret cw
      else out_bind (request net ''heartbeat'' [] cw) (\<lambda>(_, cw'). Ret cw'))"

definition client_Hget :: "'w net \<Rightarrow> string \<Rightarrow> string \<Rightarrow> 'cb watch_client \<times> 'w \<Rightarrow> (string \<times> 'cb watch_client \<times> 'w) outcome" where
  "client_Hget net key field cw =
     (if isClose (fst cw) then Ret ([], cw)
      else out_bind (request net ''hget'' [key, field] cw) (\<lambda>(r, cw').
        case r of
          Inl err \<Rightarrow> Ret ([], cw')
        | Inr msg \<Rightarrow> out_bind (msg_values msg) (\<lambda>vs. out_bind (index_at vs 0) (\<lambda>v. Ret (v, cw')))))"

definition client_Hgetall :: "'w net \<Rightarrow> string \<Rightarrow> 'cb watch_client \<times> 'w \<Rightarrow> (string list \<times> 'cb watch_client \<times> 'w) outcome" where
  "client_Hgetall net key cw =
     (if isClose (fst cw) then Ret ([], cw)
      else out_bind (request net ''hgetall'' [key] cw) (\<lambda>(r, cw').
        case r of Inl err \<Rightarrow> Ret ([], cw') | Inr msg \<Rightarrow> out_bind (msg_values msg) (\<lambda>vs. Ret (vs, cw'))))"

definition client_Hset :: "'w net \<Rightarrow> string \<Rightarrow> string \<Rightarrow> string \<Rightarrow> 'cb watch_client \<times> 'w \<Rightarrow> ('cb watch_client \<times> 'w) outcome" where
  "client_Hset net key field value cw =
     (if isClose (fst cw) then Ret cw
      else out_bind (request net ''hset'' [key, field, value] cw) (\<lambda>(_, cw'). Ret cw'))"

definition client_KeyPrefix :: "'w net \<Rightarrow> string \<Rightarrow> 'cb watch_client \<times> 'w \<Rightarrow> (string list \<times> 'cb watch_client \<times> 'w) outcome" where
  "client_KeyPrefix net pre cw =
     (if isClose (fst cw) then Ret ([], cw)
      else out_bind (request net ''key_prefix'' [pre] cw) (\<lambda>(r, cw').
        case r of Inl err \<Rightarrow> Ret ([], cw') | Inr msg \<Rightarrow> out_bind (msg_values msg) (\<lambda>vs. Ret (vs, cw'))))"

definition client_Del :: "'w net \<Rightarrow> string \<Rightarrow> 'cb watch_client \<times> 'w \<Rightarrow> ('cb watch_client \<times> 'w) outcome" where
  "client_Del net key cw =
     (if isClose (fst cw) then Ret cw
      else out_bind (request net ''del'' [key] cw) (\<lambda>(_, cw'). Ret cw'))"

definition client_Hincrby :: "'w net \<Rightarrow> string \<Rightarrow> string \<Rightarrow> int \<Rightarrow> 'cb watch_client \<times> 'w \<Rightarrow> (int \<times> 'cb watch_client \<times> 'w) outcome" where
  "client_Hincrby net key field add cw =
     (if isClose (fst cw) then Ret (0, cw)
      else out_bind (request net ''hincrby'' [key, field, Itoa add] cw) (\<lambda>(r, cw').
        case r of
          Inl err \<Rightarrow> Ret (0, cw')
        | Inr msg \<Rightarrow>
            out_bind (msg_values msg) (\<lambda>vs. out_bind (index_at vs 0) (\<lambda>v. Ret (fst (Atoi v), cw')))))"


section \<open>The server behind the network\<close>

text \<open>
  One round trip of connection \<open>i\<close>: the server reads the text, its loop handles the message,
  every loop writes out what its channel holds, and the client reads its own share.
\<close>

definition flush_all :: "'db watch_server \<Rightarrow> 'db watch_server" where
  "flush_all s = s\<lparr>Clients := map (\<lambda>(j, wc). (j, wc\<lparr>Out := [], Sent := Sent wc @ Out wc\<rparr>)) (Clients s)\<rparr>"

definition outs_of :: "nat \<Rightarrow> 'db watch_server \<Rightarrow> watch_message list" where
  "outs_of i s = (case map_of (Clients s) i of None \<Rightarrow> [] | Some wc \<Rightarrow> Out wc)"

definition over_wire :: "watch_message list \<Rightarrow> watch_message list" where
  "over_wire ms =
     (case read_n ReadWatchMessage (length ms) (written (write_all ms \<lparr>written = [], werr = None\<rparr>)) of
        (Inr ms', _) \<Rightarrow> ms' | (Inl _, _) \<Rightarrow> [])"

definition server_net :: "'db bolt \<Rightarrow> range_orders \<Rightarrow> nat \<Rightarrow> 'db watch_server net" where
  "server_net B R i text s =
     (case ReadWatchMessage text of
        (Inl _, _) \<Rightarrow> (Inr [], s)
      | (Inr m, _) \<Rightarrow>
          (case handle_in B R i m s of
             Done t \<Rightarrow> (Inr (over_wire (outs_of i t)), flush_all t)
           | _ \<Rightarrow> (Inr [], s)))"


section \<open>A round trip\<close>

lemma outcome_bind_simps [simp]: "out_bind x Ret = x"
  by (cases x) auto

definition field_lines :: "fields \<Rightarrow> bool" where
  "field_lines fs \<longleftrightarrow> (\<forall>(f, v)\<in>set fs. line_ok f \<and> line_ok v)"

definition table_lines :: "'db hash_set \<Rightarrow> bool" where
  "table_lines kv \<longleftrightarrow> (\<forall>(k, fs)\<in>set (Data kv). line_ok k \<and> field_lines fs)"

definition quiet :: "'db watch_server \<Rightarrow> bool" where
  "quiet s \<longleftrightarrow> (\<forall>j c. map_of (Clients s) j = Some c \<longrightarrow> Out c = [])"

text \<open>
  A client between two calls, connected as \<open>i\<close> to a server with nothing left to write and
  not registered for any key.
\<close>

definition link_inv :: "nat \<Rightarrow> 'cb watch_client \<times> 'db watch_server \<Rightarrow> bool" where
  "link_inv i cw \<longleftrightarrow>
     \<not> isClose (fst cw) \<and> MessageChan (fst cw) = [] \<and> WatchChan (fst cw) = [] \<and>
     ws_inv (snd cw) \<and> map_of (Clients (snd cw)) i \<noteq> None \<and> quiet (snd cw) \<and>
     (\<forall>k. \<not> watching (snd cw) k i) \<and> table_lines (KvSet (snd cw))"

lemma flush_all_fields [simp]:
  "KvSet (flush_all s) = KvSet s" "KeyWatchers (flush_all s) = KeyWatchers s" "NextId (flush_all s) = NextId s"
  "watching (flush_all s) k i = watching s k i"
  by (simp_all add: flush_all_def)

lemma map_of_flush_all [simp]:
  "map_of (Clients (flush_all s)) j = map_option (\<lambda>wc. wc\<lparr>Out := [], Sent := Sent wc @ Out wc\<rparr>) (map_of (Clients s) j)"
  by (simp add: flush_all_def map_of_map)

lemma quiet_flush_all [simp]: "quiet (flush_all s)"
  by (auto simp: quiet_def)

lemma ws_inv_flush_all: "ws_inv s \<Longrightarrow> ws_inv (flush_all s)"
proof -
  assume s: "ws_inv s"
  have "map fst (Clients (flush_all s)) = map fst (Clients s)" by (simp add: flush_all_def case_prod_beta)
  with s show ?thesis
    unfolding ws_inv_def watchers_ok_def by (auto simp del: map_of_eq_Some_iff simp: conn_ok_def)
qed

lemma over_wire_ok: "\<forall>m\<in>set ms. message_ok m \<Longrightarrow> over_wire ms = ms"
  using msg.stream_roundtrip [of ms "[]"] by (simp add: over_wire_def write_all_text)

lemma sint32_range: "int64_range (sint (w :: u32))"
  using sint_ge [of w] sint_lt [of w] by (simp add: min_int64_def max_int64_def)

lemma quiet_has_room: "quiet s \<Longrightarrow> has_room s"
  by (auto simp: quiet_def has_room_def chan_cap_def)

lemma request_ok:
  assumes "link_inv i (wc, s)" and "trimmed cmd" "line_ok cmd" and "\<forall>v\<in>set vs. line_ok v" "int (length vs) \<le> max_int64"
    and "handle_in B R i \<lparr>Cmd = cmd, Seq = sint (cSeq wc + 1), Values = vs\<rparr> s = Done t"
    and "outs_of i t = [\<lparr>Cmd = cmd, Seq = sint (cSeq wc + 1), Values = rs\<rparr>]"
    and "\<forall>v\<in>set rs. line_ok v" "int (length rs) \<le> max_int64"
  shows "request (server_net B R i) cmd vs (wc, s) =
    Ret (Inr (Some \<lparr>Cmd = cmd, Seq = sint (cSeq wc + 1), Values = rs\<rparr>), wc\<lparr>cSeq := cSeq wc + 1\<rparr>, flush_all t)"
proof -
  let ?q = "sint (cSeq wc + 1)"
  have ok: "message_ok \<lparr>Cmd = cmd, Seq = ?q, Values = vs\<rparr>" "message_ok \<lparr>Cmd = cmd, Seq = ?q, Values = rs\<rparr>"
    using assms by (auto simp: message_ok_def sint32_range)
  from ReadWatchMessage_text [OF ok(1), of "[]"] assms(6,7) over_wire_ok [of "outs_of i t"] ok(2)
  have "server_net B R i (message_text \<lparr>Cmd = cmd, Seq = ?q, Values = vs\<rparr>) s =
      (Inr [\<lparr>Cmd = cmd, Seq = ?q, Values = rs\<rparr>], flush_all t)"
    by (simp add: server_net_def)
  moreover have "MessageChan wc = []" "WatchChan wc = []" using assms(1) by (auto simp: link_inv_def)
  ultimately show ?thesis
    by (simp add: request_def next_seq_def SendAndRecvMessage_def WriteWatchMessage_text
        dispatch_def watch_iter_def readChan_def)
qed

text \<open>What the server has done when connection \<open>i\<close> is answered by \<open>m\<close>.\<close>

definition answered :: "nat \<Rightarrow> watch_message \<Rightarrow> 'db hash_set \<Rightarrow> 'db watch_server \<Rightarrow> bool" where
  "answered i m kv t \<longleftrightarrow>
     outs_of i t = [m] \<and> ws_inv t \<and> KvSet t = kv \<and> (\<forall>k. \<not> watching t k i) \<and> map_of (Clients t) i \<noteq> None"

lemma write_answers:
  assumes "link_inv i (wc, s)"
  shows "\<exists>t. writeMsgToClient i m s = Done t \<and> answered i m (KvSet s) t"
proof -
  from assms obtain c where c: "map_of (Clients s) i = Some c" "Out c = []" "ws_inv s" "\<forall>k. \<not> watching s k i"
    by (auto simp: link_inv_def quiet_def)
  then have w: "writeMsgToClient i m s = Done (upd_client i (\<lambda>wc. wc\<lparr>Out := Out wc @ [m]\<rparr>) s)"
    by (auto simp: writeMsgToClient_Done chan_cap_def)
  with ws_inv_writeMsgToClient [OF c(3) w] c show ?thesis
    by (simp add: answered_def outs_of_def)
qed

lemma write_notify_answers:
  assumes "link_inv i (wc, s)" and "hash_set_ok kv" and "range_order ord"
  shows "\<exists>t. exec_bind (writeMsgToClient i m (s\<lparr>KvSet := kv\<rparr>)) (notify ord key f v) = Done t \<and> answered i m kv t"
proof -
  from assms(1) obtain c where c: "map_of (Clients s) i = Some c" "Out c = []" "ws_inv s" "has_room s" "\<forall>k. \<not> watching s k i"
    by (auto simp: link_inv_def quiet_def quiet_has_room)
  obtain t where t: "exec_bind (writeMsgToClient i m (s\<lparr>KvSet := kv\<rparr>)) (notify ord key f v) = Done t"
    using write_notify_progress [OF c(3,4,1) assms(3)] by blast
  then have n: "notify ord key f v (upd_client i (\<lambda>wc. wc\<lparr>Out := Out wc @ [m]\<rparr>) (s\<lparr>KvSet := kv\<rparr>)) = Done t"
    by (auto simp: writeMsgToClient_Done)
  have "watchers_ok (upd_client i (\<lambda>wc. wc\<lparr>Out := Out wc @ [m]\<rparr>) (s\<lparr>KvSet := kv\<rparr>))"
    using ws_inv_KvSet [OF c(3) assms(2)] by (simp add: ws_inv_def)
  from notify_Done [OF n assms(3) this, of i] ws_inv_write_notify [OF t c(3) assms(2,3)] c
  have "answered i m kv t" by (auto simp: answered_def outs_of_def)
  with t show ?thesis by blast
qed

lemma link_inv_answered:
  "link_inv i (wc, s) \<Longrightarrow> answered i m kv t \<Longrightarrow> table_lines kv \<Longrightarrow>
   link_inv i (wc\<lparr>cSeq := q\<rparr>, flush_all t)"
  by (auto simp: link_inv_def answered_def ws_inv_flush_all)

lemma lines_ok [simp]: "line_ok []" "line_ok (Itoa n)"
  by (simp_all add: line_ok_def Itoa_line)

lemma request_answers:
  assumes "link_inv i (wc, s)" and "trimmed cmd" "line_ok cmd" and "\<forall>v\<in>set vs. line_ok v" "int (length vs) \<le> max_int64"
    and "\<exists>t. handle_in B R i \<lparr>Cmd = cmd, Seq = sint (cSeq wc + 1), Values = vs\<rparr> s = Done t \<and>
      answered i \<lparr>Cmd = cmd, Seq = sint (cSeq wc + 1), Values = rs\<rparr> kv t"
    and "\<forall>v\<in>set rs. line_ok v" "int (length rs) \<le> max_int64" and "table_lines kv"
  shows "\<exists>wc' s'. request (server_net B R i) cmd vs (wc, s) =
      Ret (Inr (Some \<lparr>Cmd = cmd, Seq = sint (cSeq wc + 1), Values = rs\<rparr>), wc', s') \<and>
    link_inv i (wc', s') \<and> KvSet s' = kv"
proof -
  from assms(6) obtain t where h: "handle_in B R i \<lparr>Cmd = cmd, Seq = sint (cSeq wc + 1), Values = vs\<rparr> s = Done t"
    and a: "answered i \<lparr>Cmd = cmd, Seq = sint (cSeq wc + 1), Values = rs\<rparr> kv t" by blast
  from a have o: "outs_of i t = [\<lparr>Cmd = cmd, Seq = sint (cSeq wc + 1), Values = rs\<rparr>]" "KvSet t = kv"
    by (auto simp: answered_def)
  show ?thesis
    using request_ok [OF assms(1-5) h o(1) assms(7,8)] link_inv_answered [OF assms(1) a assms(9)] o(2) by auto
qed

lemma field_lines_set: "field_lines fs \<Longrightarrow> line_ok f \<Longrightarrow> line_ok v \<Longrightarrow> field_lines (gmap_set f v fs)"
  unfolding field_lines_def by (rule gmap_set_ball) auto

lemma field_lines_del: "field_lines fs \<Longrightarrow> field_lines (gmap_del f fs)"
  unfolding field_lines_def by (rule gmap_del_ball)

lemma table_lines_upd:
  "table_lines s \<Longrightarrow> line_ok k \<Longrightarrow> field_lines fs \<Longrightarrow> table_lines (s\<lparr>Data := gmap_set k fs (Data s)\<rparr>)"
  using gmap_set_ball [of "Data s" "\<lambda>(k, fs). line_ok k \<and> field_lines fs" k fs]
  by (simp add: table_lines_def)

lemma table_lines_boltDB [simp]: "table_lines (s\<lparr>boltDB := db\<rparr>) = table_lines s"
  by (simp add: table_lines_def)

lemma field_lines_Nil [simp]: "field_lines []"
  by (simp add: field_lines_def)

lemma key_info_lines: "table_lines s \<Longrightarrow> field_lines (key_info s k)"
  unfolding table_lines_def key_info_def
  by (cases "map_of (Data s) k") (auto dest: map_of_SomeD)

lemmas table_lines_intros = table_lines_upd field_lines_set field_lines_del key_info_lines

lemma table_lines_Hset:
  "table_lines s \<Longrightarrow> line_ok k \<Longrightarrow> line_ok f \<Longrightarrow> line_ok v \<Longrightarrow> table_lines (fst (Hset B k f v s))"
  by (auto simp: Hset_def hset_def Let_def intro!: table_lines_intros split: prod.splits)

lemma table_lines_Hincrby:
  "table_lines s \<Longrightarrow> line_ok k \<Longrightarrow> line_ok f \<Longrightarrow>
   table_lines (fst (Hincrby B k f n s)) \<and> line_ok (snd (Hincrby B k f n s))"
  by (auto simp: Hincrby_def hincrby_def Let_def intro!: table_lines_intros split: prod.splits)

lemma table_lines_Del: "table_lines s \<Longrightarrow> table_lines (Del B k s)"
  using gmap_del_ball [of "Data s" "\<lambda>(k, fs). line_ok k \<and> field_lines fs" k]
  by (simp add: table_lines_def Del_def)

lemma Hget_line: "table_lines s \<Longrightarrow> line_ok (Hget k f s)"
  using key_info_lines [of s k]
  by (cases "map_of (key_info s k) f") (auto simp: Hget_alt field_lines_def dest: map_of_SomeD)

lemma link_invD:
  "link_inv i (wc, s) \<Longrightarrow> ws_inv s \<and> table_lines (KvSet s) \<and> hash_set_ok (KvSet s) \<and> \<not> isClose wc"
  by (simp add: link_inv_def ws_inv_def)

text \<open>Each call of a linked client: it returns, with the value of the table.\<close>

lemmas cmd_simps = trimmed_def space_codes_def line_ok_def newline_def max_int64_def

lemma client_Hget_linked:
  assumes "link_inv i (wc, s)" and "line_ok k" and "line_ok f"
  shows "\<exists>wc' s'. client_Hget (server_net B R i) k f (wc, s) = Ret (Hget k f (KvSet s), wc', s') \<and>
    link_inv i (wc', s') \<and> KvSet s' = KvSet s"
proof -
  note D = link_invD [OF assms(1)]
  let ?q = "sint (cSeq wc + 1)"
  obtain t where "writeMsgToClient i \<lparr>Cmd = ''hget'', Seq = ?q, Values = [Hget k f (KvSet s)]\<rparr> s = Done t"
    "answered i \<lparr>Cmd = ''hget'', Seq = ?q, Values = [Hget k f (KvSet s)]\<rparr> (KvSet s) t"
    using write_answers [OF assms(1)] by blast
  then have "\<exists>t. handle_in B R i \<lparr>Cmd = ''hget'', Seq = ?q, Values = [k, f]\<rparr> s = Done t \<and>
      answered i \<lparr>Cmd = ''hget'', Seq = ?q, Values = [Hget k f (KvSet s)]\<rparr> (KvSet s) t"
    by (simp add: handle_in_def hgetProcess_def)
  from request_answers [OF assms(1) _ _ _ _ this] assms D Hget_line [of "KvSet s" k f]
  show ?thesis by (auto simp: client_Hget_def index_at_def cmd_simps)
qed

lemma client_Hset_linked:
  assumes "link_inv i (wc, s)" and "line_ok k" and "line_ok f" and "line_ok v" and "orders_ok R"
  shows "\<exists>wc' s'. client_Hset (server_net B R i) k f v (wc, s) = Ret (wc', s') \<and>
    link_inv i (wc', s') \<and> KvSet s' = fst (Hset B k f v (KvSet s))"
proof -
  note D = link_invD [OF assms(1)]
  let ?q = "sint (cSeq wc + 1)" and ?kv = "fst (Hset B k f v (KvSet s))"
  have "\<exists>t. handle_in B R i \<lparr>Cmd = ''hset'', Seq = ?q, Values = [k, f, v]\<rparr> s = Done t \<and>
      answered i \<lparr>Cmd = ''hset'', Seq = ?q, Values = []\<rparr> ?kv t"
    using write_notify_answers [OF assms(1) hash_set_ok_Hset, of "KvSet s" "ordW R"] D assms(5)
    by (simp add: handle_in_def hsetProcess_def orders_ok_def del: exec_bind_Done)
  from request_answers [OF assms(1) _ _ _ _ this] assms D table_lines_Hset [of "KvSet s" k f v B]
  show ?thesis by (auto simp: client_Hset_def cmd_simps)
qed

lemma client_Del_linked:
  assumes "link_inv i (wc, s)" and "line_ok k" and "orders_ok R"
  shows "\<exists>wc' s'. client_Del (server_net B R i) k (wc, s) = Ret (wc', s') \<and>
    link_inv i (wc', s') \<and> KvSet s' = Del B k (KvSet s)"
proof -
  note D = link_invD [OF assms(1)]
  let ?q = "sint (cSeq wc + 1)" and ?kv = "Del B k (KvSet s)"
  have "\<exists>t. handle_in B R i \<lparr>Cmd = ''del'', Seq = ?q, Values = [k]\<rparr> s = Done t \<and>
      answered i \<lparr>Cmd = ''del'', Seq = ?q, Values = []\<rparr> ?kv t"
    using write_notify_answers [OF assms(1) hash_set_ok_Del, of "KvSet s" "ordW R"] D assms(3)
    by (simp add: handle_in_def delProcess_def orders_ok_def del: exec_bind_Done)
  from request_answers [OF assms(1) _ _ _ _ this] assms D table_lines_Del [of "KvSet s" B k]
  show ?thesis by (auto simp: client_Del_def cmd_simps)
qed

lemma client_Hincrby_linked:
  assumes "link_inv i (wc, s)" and "line_ok k" and "line_ok f" and "int64_range n" and "orders_ok R"
  shows "\<exists>wc' s'. client_Hincrby (server_net B R i) k f n (wc, s) = Ret (fst (Atoi (snd (Hincrby B k f n (KvSet s)))), wc', s') \<and>
    link_inv i (wc', s') \<and> KvSet s' = fst (Hincrby B k f n (KvSet s))"
proof -
  note D = link_invD [OF assms(1)]
  let ?q = "sint (cSeq wc + 1)" and ?kv = "fst (Hincrby B k f n (KvSet s))" and ?v = "snd (Hincrby B k f n (KvSet s))"
  have "\<exists>t. handle_in B R i \<lparr>Cmd = ''hincrby'', Seq = ?q, Values = [k, f, Itoa n]\<rparr> s = Done t \<and>
      answered i \<lparr>Cmd = ''hincrby'', Seq = ?q, Values = [?v]\<rparr> ?kv t"
    using write_notify_answers [OF assms(1) hash_set_ok_Hincrby, of "KvSet s" "ordW R"] D assms(4,5)
    by (simp add: handle_in_def hincrbyProcess_def orders_ok_def case_prod_beta del: exec_bind_Done)
  from request_answers [OF assms(1) _ _ _ _ this] assms D table_lines_Hincrby [of "KvSet s" k f B n] lines_ok(2) [of n]
  show ?thesis by (auto simp: client_Hincrby_def cmd_simps index_at_def)
qed

lemma Hgetall_lines: "table_lines s \<Longrightarrow> range_order ord \<Longrightarrow> \<forall>v\<in>set (Hgetall ord k s). line_ok v"
  using key_info_lines [of s k]
  by (auto simp: Hgetall_def field_lines_def key_info_def range_order_set split: option.splits)

lemma client_Hgetall_linked:
  assumes "link_inv i (wc, s)" and "line_ok k" and "orders_ok R"
    and "int (length (Hgetall (ordF R) k (KvSet s))) \<le> max_int64"
  shows "\<exists>wc' s'. client_Hgetall (server_net B R i) k (wc, s) = Ret (Hgetall (ordF R) k (KvSet s), wc', s') \<and>
    link_inv i (wc', s') \<and> KvSet s' = KvSet s"
proof -
  note D = link_invD [OF assms(1)]
  let ?q = "sint (cSeq wc + 1)" and ?r = "Hgetall (ordF R) k (KvSet s)"
  have "\<exists>t. handle_in B R i \<lparr>Cmd = ''hgetall'', Seq = ?q, Values = [k]\<rparr> s = Done t \<and>
      answered i \<lparr>Cmd = ''hgetall'', Seq = ?q, Values = ?r\<rparr> (KvSet s) t"
    using write_answers [OF assms(1)] by (simp add: handle_in_def hgetallProcess_def)
  from request_answers [OF assms(1) _ _ _ _ this] assms D Hgetall_lines [of "KvSet s" "ordF R" k]
  show ?thesis by (auto simp: client_Hgetall_def cmd_simps orders_ok_def)
qed


section \<open>Properties of the client\<close>

definition remote_get :: "'db bolt \<Rightarrow> range_orders \<Rightarrow> nat \<Rightarrow> string \<Rightarrow> string \<Rightarrow> 'cb watch_client \<times> 'db watch_server \<Rightarrow> string" where
  "remote_get B R i k f cw = (case client_Hget (server_net B R i) k f cw of Ret (v, _) \<Rightarrow> v | Panic _ \<Rightarrow> [])"

definition remote_put ::
  "'db bolt \<Rightarrow> range_orders \<Rightarrow> nat \<Rightarrow> string \<Rightarrow> string \<Rightarrow> string \<Rightarrow> 'cb watch_client \<times> 'db watch_server \<Rightarrow> 'cb watch_client \<times> 'db watch_server" where
  "remote_put B R i k f v cw = (case client_Hset (server_net B R i) k f v cw of Ret cw' \<Rightarrow> cw' | Panic _ \<Rightarrow> cw)"

definition remote_del ::
  "'db bolt \<Rightarrow> range_orders \<Rightarrow> nat \<Rightarrow> string \<Rightarrow> 'cb watch_client \<times> 'db watch_server \<Rightarrow> 'cb watch_client \<times> 'db watch_server" where
  "remote_del B R i k cw = (case client_Del (server_net B R i) k cw of Ret cw' \<Rightarrow> cw' | Panic _ \<Rightarrow> cw)"

lemma remote_get_eq:
  "link_inv i cw \<Longrightarrow> line_ok k \<Longrightarrow> line_ok f \<Longrightarrow> remote_get B R i k f cw = Hget k f (KvSet (snd cw))"
  using client_Hget_linked [of i "fst cw" "snd cw" k f B R] by (auto simp: remote_get_def)

lemma remote_put_eq:
  "link_inv i cw \<Longrightarrow> line_ok k \<Longrightarrow> line_ok f \<Longrightarrow> line_ok v \<Longrightarrow> orders_ok R \<Longrightarrow>
   link_inv i (remote_put B R i k f v cw) \<and>
   KvSet (snd (remote_put B R i k f v cw)) = fst (Hset B k f v (KvSet (snd cw)))"
  using client_Hset_linked [of i "fst cw" "snd cw" k f v R B] by (auto simp: remote_put_def)

lemma remote_del_eq:
  "link_inv i cw \<Longrightarrow> line_ok k \<Longrightarrow> orders_ok R \<Longrightarrow>
   link_inv i (remote_del B R i k cw) \<and> KvSet (snd (remote_del B R i k cw)) = Del B k (KvSet (snd cw))"
  using client_Del_linked [of i "fst cw" "snd cw" k R B] by (auto simp: remote_del_def)

interpretation remote: hash_store "\<lambda>cw. link_inv i cw \<and> orders_ok R" line_ok "remote_get B R i" "remote_put B R i" "remote_del B R i"
  for B R i
  by unfold_locales (auto simp: remote_get_eq remote_put_eq remote_del_eq Hget_Hset Hget_Del)


definition demo_link :: "unit watch_client \<times> (string, fields) gmap watch_server" where
  "demo_link = (NewWatchClient, demo_server)"

lemma demo_link_inv: "link_inv 2 demo_link"
  using demo_server_inv
  by (auto simp: link_inv_def demo_link_def NewWatchClient_def demo_server_def quiet_def watching_def
      new_connect_def table_lines_def NewHashSet_def split: if_splits)


text \<open>
  Counters are shared safely through the server: \<^verbatim>\<open>Hincrby\<close> of a client adds its
  argument to the number stored under key and field (wrapping at 64 bits), returns the new
  number, and leaves it in the table.
\<close>

theorem remote_Hincrby:
  assumes "link_inv i cw" and "orders_ok R" and "line_ok k" and "line_ok f" and "k \<noteq> []" and "f \<noteq> []" and "int64_range n"
  shows "\<exists>cw'. client_Hincrby (server_net B R i) k f n cw =
      Ret (wrap_int64 (n + fst (Atoi (Hget k f (KvSet (snd cw))))), cw') \<and> link_inv i cw' \<and>
    Hget k f (KvSet (snd cw')) = Itoa (wrap_int64 (n + fst (Atoi (Hget k f (KvSet (snd cw))))))"
proof -
  obtain wc s where cw: "cw = (wc, s)" by (cases cw)
  let ?n = "wrap_int64 (n + fst (Atoi (Hget k f (KvSet s))))"
  have v: "snd (Hincrby B k f n (KvSet s)) = Itoa ?n"
    using assms(5,6) by (auto simp: Hincrby_def hincrby_def Let_def Hget_alt split: prod.splits option.splits)
  have "Atoi (Itoa ?n) = (?n, None)" using wrap_int64_range by (rule Atoi_Itoa)
  with client_Hincrby_linked [of i wc s k f n R B] assms v show ?thesis
    unfolding cw by (auto simp: Hget_Hincrby)
qed

theorem remote_Hincrby_witness:
  "\<exists>cw'. client_Hincrby (server_net alist_bolt id_orders 2) ''k'' ''n'' 5 demo_link = Ret (5, cw')"
proof -
  have "line_ok ''k''" "line_ok ''n''" "''k'' \<noteq> []" "''n'' \<noteq> []" "int64_range 5"
    by (simp_all add: line_ok_def newline_def min_int64_def max_int64_def)
  moreover have "Hget ''k'' ''n'' (KvSet (snd demo_link)) = []"
    by (simp add: demo_link_def demo_server_def NewHashSet_def Hget_def)
  moreover have "wrap_int64 5 = 5" by (rule wrap_int64_id) (simp add: min_int64_def max_int64_def)
  ultimately show ?thesis
    using remote_Hincrby [OF demo_link_inv id_orders_ok, of "''k''" "''n''" 5 alist_bolt] by auto
qed

text \<open>
  C17. Watching works end to end: when some connection's \<^verbatim>\<open>hset\<close> of key, field and
  value is handled, every other connected client that registered a callback for the key (and is
  reading) gets exactly that callback invoked once, with the field and the value.
\<close>

theorem watch_callback_fires:
  assumes "handle_in B R i (hset_msg k f v q) s = Done t" and "ws_inv s" and "orders_ok R"
    and "map_of (Clients s) j = Some c" and "Out c = []" and "Status c \<noteq> 2" and "watching s k j" and "j \<noteq> i"
    and "line_ok k" and "line_ok f" and "line_ok v" and "k \<noteq> []"
    and "Watching wc" and "WatchChan wc = []" and "map_of (MessageChan wc) 0 = None" and "map_of (Calls wc) k = Some call"
  shows "receive (over_wire (outs_of j t)) wc = Ret (wc\<lparr>Fired := Fired wc @ [(call, f, v)]\<rparr>)"
proof -
  let ?m = "\<lparr>Cmd = ''watch'', Seq = 0, Values = [k, f, v]\<rparr>"
  have "message_ok ?m" using assms(9-11) by (simp add: message_ok_def cmd_simps min_int64_def)
  moreover have "outs_of j t = [?m]"
    using hset_delivers [OF assms(1-4), of k] assms(5-8) by (simp add: outs_of_def)
  ultimately have "over_wire (outs_of j t) = [?m]" by (simp add: over_wire_ok)
  with assms(12-16) show ?thesis
    by (simp add: dispatch_def watch_iter_def Watch_def index_at_def)
qed

theorem watch_callback_fires_witness:
  "\<exists>t. handle_in alist_bolt id_orders 2 (hset_msg ''k'' ''f'' ''v'' 5) demo_server = Done t \<and>
     receive (over_wire (outs_of 1 t)) (RegisterCallback ''k'' True NewWatchClient\<lparr>Watching := True\<rparr>) =
       Ret (RegisterCallback ''k'' True NewWatchClient\<lparr>Watching := True, Fired := [(True, ''f'', ''v'')]\<rparr>)"
proof -
  have "range_order (ordW id_orders)" by (simp add: id_orders_def)
  from write_notify_progress [OF demo_server_inv demo_has_room demo_client2 this]
  obtain t where t: "handle_in alist_bolt id_orders 2 (hset_msg ''k'' ''f'' ''v'' 5) (demo_server :: (string, fields) gmap watch_server) = Done t"
    unfolding handle_in_hset by blast
  have c: "map_of (Clients (demo_server :: (string, fields) gmap watch_server)) 1 = Some ((new_connect 1)\<lparr>Status := 1, WatchKeys := [''k'']\<rparr>)"
    by (simp add: demo_server_def)
  have w: "watching (demo_server :: (string, fields) gmap watch_server) ''k'' 1" by (simp add: watching_def demo_server_def)
  have l: "line_ok ''k''" "line_ok ''f''" "line_ok ''v''" by (simp_all add: line_ok_def newline_def)
  let ?wc = "RegisterCallback ''k'' True NewWatchClient\<lparr>Watching := True\<rparr>"
  have "Watching ?wc" "WatchChan ?wc = []" "map_of (MessageChan ?wc) 0 = None" "map_of (Calls ?wc) ''k'' = Some True"
    by (simp_all add: RegisterCallback_def NewWatchClient_def)
  from watch_callback_fires [OF t demo_server_inv id_orders_ok c _ _ w _ l _ this] t show ?thesis
    by (intro exI [of _ t] conjI) (simp_all add: new_connect_def RegisterCallback_def NewWatchClient_def)
qed

text \<open>A network that accepts every request and answers none of them in time.\<close>

definition silent_net :: "unit net" where
  "silent_net text w = (Inr [], w)"

text \<open>
  An unanswered read panics: when no answer arrives before the timer of
  \<^verbatim>\<open>readChan\<close>, \<^verbatim>\<open>SendAndRecvMessage\<close> returns a nil message with a
  nil error, and \<^verbatim>\<open>Hget\<close>, \<^verbatim>\<open>Hgetall\<close>,
  \<^verbatim>\<open>KeyPrefix\<close>, \<^verbatim>\<open>Hincrby\<close> and \<^verbatim>\<open>RawCall\<close>
  dereference it.
\<close>

theorem timeout_panics:
  "client_Hget silent_net k f (wc\<lparr>isClose := False\<rparr>, ()) = Panic ''nil pointer dereference'' \<and>
   client_Hgetall silent_net k (wc\<lparr>isClose := False\<rparr>, ()) = Panic ''nil pointer dereference'' \<and>
   client_KeyPrefix silent_net k (wc\<lparr>isClose := False\<rparr>, ()) = Panic ''nil pointer dereference'' \<and>
   client_Hincrby silent_net k f n (wc\<lparr>isClose := False\<rparr>, ()) = Panic ''nil pointer dereference'' \<and>
   RawCall silent_net (cmd # vs) (wc, ()) = Panic ''nil pointer dereference''"
  by (simp add: client_Hget_def client_Hgetall_def client_KeyPrefix_def client_Hincrby_def RawCall_def
      request_def next_seq_def SendAndRecvMessage_def silent_net_def readChan_def index_at_def)

end
