(* ===== verification/Util_Rand.thy ===== *)
theory Util_Rand
  imports Goms_Prelude
begin

text \<open>
  Random numbers, \<^verbatim>\<open>util/rand.go\<close>. The source of randomness is a sequence of 64-bit
  draws with a cursor; an operation returns its value with the new cursor, panics, or (the
  rejection loops) does not return within the given number of draws, which is the value
  \<open>None\<close>.
\<close>

type_synonym draws = "nat \<Rightarrow> u64"
type_synonym 'a rnd = "draws \<Rightarrow> nat \<Rightarrow> ('a \<times> nat) outcome option"

definition ret :: "'a \<Rightarrow> 'a rnd" where
  "ret x d p = Some (Ret (x, p))"

definition rbind :: "'a rnd \<Rightarrow> ('a \<Rightarrow> 'b rnd) \<Rightarrow> 'b rnd" where
  "rbind m f d p =
     (case m d p of
        None \<Rightarrow> None
      | Some (Panic e) \<Rightarrow> Some (Panic e)
      | Some (Ret (x, p')) \<Rightarrow> f x d p')"

definition rpanic :: "string \<Rightarrow> 'a rnd" where
  "rpanic e d p = Some (Panic e)"

definition Uint64 :: "u64 rnd" where
  "Uint64 d p = Some (Ret (d p, Suc p))"

text \<open>\<^verbatim>\<open>rand.Int31\<close> takes 31 bits of a draw; \<^verbatim>\<open>Int63\<close> the upper 63.\<close>

definition int31_of :: "u64 \<Rightarrow> int" where
  "int31_of w = uint (drop_bit 32 (w AND mask 63))"

definition int63_of :: "u64 \<Rightarrow> int" where
  "int63_of w = uint (drop_bit 1 w)"

definition Int31 :: "int rnd" where
  "Int31 d p = Some (Ret (int31_of (d p), Suc p))"

definition Int63 :: "int rnd" where
  "Int63 d p = Some (Ret (int63_of (d p), Suc p))"

text \<open>What one draw of \<open>b\<close> bits is turned into: \<open>None\<close> is another round of the loop.\<close>

definition accept :: "nat \<Rightarrow> int \<Rightarrow> int \<Rightarrow> int option" where
  "accept b n v =
     (if n AND (n - 1) = 0 then Some (v AND (n - 1))
      else
        let max = 2 ^ b - 1 - 2 ^ b mod n in
        if v > max then None else Some (v mod n))"

fun redraw :: "nat \<Rightarrow> (u64 \<Rightarrow> int option) \<Rightarrow> int rnd" where
  "redraw 0 f d p = None"
| "redraw (Suc fuel) f d p = (case f (d p) of Some v \<Rightarrow> Some (Ret (v, Suc p)) | None \<Rightarrow> redraw fuel f d (Suc p))"

definition Int31n :: "nat \<Rightarrow> int \<Rightarrow> int rnd" where
  "Int31n fuel n = (if n \<le> 0 then rpanic ''invalid argument to Int31n'' else redraw fuel (\<lambda>w. accept 31 n (int31_of w)))"

definition Int63n :: "nat \<Rightarrow> int \<Rightarrow> int rnd" where
  "Int63n fuel n = (if n \<le> 0 then rpanic ''invalid argument to Int63n'' else redraw fuel (\<lambda>w. accept 63 n (int63_of w)))"

definition int32 :: "int \<Rightarrow> int" where
  "int32 n = signed_take_bit 31 n"

definition Intn :: "nat \<Rightarrow> int \<Rightarrow> int rnd" where
  "Intn fuel n =
     (if n = 0 then rpanic ''invalid argument to int''
      else if n \<le> 2 ^ 31 - 1 then Int31n fuel (int32 n)
      else Int63n fuel n)"

definition randomStr :: string where
  "randomStr = ''0123456789abcdefghijklmnopqrstuvwxyzABCDEFGHIJKLMNOPQRSTUVWXYZ''"

fun GetRandomString :: "nat \<Rightarrow> nat \<Rightarrow> string rnd" where
  "GetRandomString fuel 0 = ret []"
| "GetRandomString fuel (Suc n) =
     rbind (Intn fuel (int (length randomStr))) (\<lambda>i.
     rbind (GetRandomString fuel n) (\<lambda>s. ret (randomStr ! nat i # s)))"

definition RandomUint32 :: "nat \<Rightarrow> u32 \<Rightarrow> u32 \<Rightarrow> u32 rnd" where
  "RandomUint32 fuel lo hi = rbind (Intn fuel (uint (hi - lo + 1))) (\<lambda>i. ret (word_of_int i + lo))"

definition RandomInt32 :: "nat \<Rightarrow> u32 \<Rightarrow> u32 \<Rightarrow> u32 rnd" where
  "RandomInt32 fuel lo hi = rbind (Intn fuel (sint (hi - lo + 1))) (\<lambda>i. ret (word_of_int i + lo))"

definition swap :: "nat \<Rightarrow> nat \<Rightarrow> 'a list \<Rightarrow> 'a list" where
  "swap r j x = (x[r := x ! j])[j := x ! r]"

fun shuffle_pass :: "nat \<Rightarrow> nat \<Rightarrow> 'a list \<Rightarrow> 'a list rnd" where
  "shuffle_pass fuel 0 x = ret x"
| "shuffle_pass fuel (Suc j) x = rbind (Intn fuel (int j + 1)) (\<lambda>r. shuffle_pass fuel j (swap (nat r) j x))"

fun ShuffleUint32Array :: "nat \<Rightarrow> 'a list \<Rightarrow> nat \<Rightarrow> 'a list rnd" where
  "ShuffleUint32Array fuel x 0 = ret x"
| "ShuffleUint32Array fuel x (Suc n) = rbind (shuffle_pass fuel (length x) x) (\<lambda>y. ShuffleUint32Array fuel y n)"


text \<open>The version for the other element type has the same body.\<close>

definition ShuffleInt32Array :: "nat \<Rightarrow> u32 list \<Rightarrow> nat \<Rightarrow> u32 list rnd" where
  "ShuffleInt32Array fuel x n = ShuffleUint32Array fuel x n"


section \<open>Weighted choice\<close>

fun max_weight :: "u64 list \<Rightarrow> u64 \<Rightarrow> u64" where
  "max_weight [] m = m"
| "max_weight (w # ws) m = max_weight ws (if w > m then w else m)"

fun pick :: "u64 list \<Rightarrow> u64 \<Rightarrow> nat \<Rightarrow> nat option" where
  "pick [] r i = None"
| "pick (w # ws) r i = (if r < w then Some i else pick ws (r - w) (Suc i))"

definition raised :: "u64 \<Rightarrow> u64" where
  "raised m = (if m < 10 then m + 10 else m + m div 5)"

definition inverted :: "u64 list \<Rightarrow> u64 list" where
  "inverted weights = map (\<lambda>w. raised (max_weight weights 0) - w) weights"

text \<open>The weights are rewritten in place: the slice the caller passed is returned as well.\<close>

definition RandLessWight :: "u64 list \<Rightarrow> (nat \<times> u64 list) rnd" where
  "RandLessWight weights =
     (if weights = [] then rpanic ''invalid argument to RandLessWight''
      else if length weights = 1 then ret (0, weights)
      else
        let ws = inverted weights; total = sum_list ws in
        rbind Uint64 (\<lambda>u.
          if total = 0 then rpanic ''runtime error: integer divide by zero''
          else ret (case pick ws (u mod total) 0 of None \<Rightarrow> 0 | Some i \<Rightarrow> i, ws)))"

definition RandLessWight32 :: "u32 list \<Rightarrow> nat rnd" where
  "RandLessWight32 weights = rbind (RandLessWight (map ucast weights)) (\<lambda>(i, _). ret i)"


section \<open>Uniformity\<close>

lemma accept_iff:
  assumes "0 < n" and "n \<le> 2 ^ b" and "0 \<le> v" and "v < 2 ^ b"
  shows "accept b n v = (if v < 2 ^ b div n * n then Some (v mod n) else None)"
proof (cases "n AND (n - 1) = 0")
  case True
  from and_pred_pow2 [OF assms(1) True] obtain k where k: "n = 2 ^ k" by blast
  with assms(2) have "k \<le> b" by simp
  then have "2 ^ b div n * n = 2 ^ b" using k by (simp add: dvd_div_mult_self le_imp_power_dvd)
  moreover have "v AND (n - 1) = v mod n"
    using k by (simp add: mask_eq_exp_minus_1 [symmetric] take_bit_eq_mask [symmetric] take_bit_eq_mod)
  ultimately show ?thesis using True assms(4) by (simp add: accept_def)
next
  case False
  have "2 ^ b div n * n = 2 ^ b - 2 ^ b mod n" by (simp add: minus_mod_eq_div_mult)
  with False show ?thesis by (auto simp: accept_def Let_def)
qed

lemma card_residue:
  assumes "0 \<le> k" and "k < n"
  shows "card {v :: int. 0 \<le> v \<and> v < int q * n \<and> v mod n = k} = q"
proof -
  have "{v. 0 \<le> v \<and> v < int q * n \<and> v mod n = k} = (\<lambda>i. int i * n + k) ` {..<q}" (is "?A = ?f ` _")
  proof (intro set_eqI iffI)
    fix v assume v: "v \<in> ?A"
    then have "v = ?f (nat (v div n))"
      using assms div_mult_mod_eq [of v n] by (simp add: pos_imp_zdiv_nonneg_iff)
    moreover have "v div n < int q"
    proof (rule ccontr)
      assume "\<not> v div n < int q"
      then have "int q * n \<le> v div n * n" using assms by (intro mult_right_mono) auto
      also have "\<dots> \<le> v" using assms div_mult_mod_eq [of v n] pos_mod_sign [of n v] by linarith
      finally show False using v by simp
    qed
    then have "nat (v div n) < q" using v assms by (simp add: nat_less_iff pos_imp_zdiv_nonneg_iff)
    ultimately show "v \<in> ?f ` {..<q}" by blast
  next
    fix v assume "v \<in> ?f ` {..<q}"
    then obtain i where i: "v = int i * n + k" "i < q" by auto
    have "int i * n + k < (int i + 1) * n" using assms by (simp add: algebra_simps)
    also have "\<dots> \<le> int q * n" using i(2) assms by (intro mult_right_mono) auto
    finally show "v \<in> ?A" using i assms by simp
  qed
  moreover have "inj_on ?f {..<q}" using assms by (auto simp: inj_on_def)
  ultimately show ?thesis by (simp add: card_image)
qed




section \<open>The weighted choice\<close>

abbreviation nat_sum :: "u64 list \<Rightarrow> nat" where
  "nat_sum ws \<equiv> sum_list (map unat ws)"

lemma pick_iff:
  "pick ws r k = Some (k + i) \<longleftrightarrow>
     i < length ws \<and> nat_sum (take i ws) \<le> unat r \<and> unat r < nat_sum (take (Suc i) ws)"
proof (induction ws r k arbitrary: i rule: pick.induct)
  case (2 w ws r k)
  show ?case
  proof (cases "r < w")
    case True
    then have "unat r < unat w" by (simp add: word_less_nat_alt)
    with True show ?thesis by (cases i) auto
  next
    case False
    then have le: "unat w \<le> unat r" and sub: "unat (r - w) = unat r - unat w"
      by (simp_all add: word_less_nat_alt unat_sub word_le_nat_alt)
    show ?thesis
    proof (cases i)
      case 0
      have "pick ws (r - w) (Suc k) \<noteq> Some k" for k
      proof -
        have "pick ws r j = Some m \<Longrightarrow> j \<le> m" for r j m
          by (induction ws r j rule: pick.induct) (auto split: if_splits)
        then show ?thesis by fastforce
      qed
      with 0 False le show ?thesis by simp
    next
      case (Suc j)
      with 2 [OF False, of j] False le sub show ?thesis by (auto simp: le_diff_conv2 less_diff_conv2)
    qed
  qed
qed simp

lemma unat_sum_list: "nat_sum ws < 2 ^ 64 \<Longrightarrow> unat (sum_list ws) = nat_sum ws"
proof (induction ws)
  case (Cons w ws)
  then show ?case by (simp add: unat_word_ariths)
qed simp

lemma nat_sum_take_le: "nat_sum (take i ws) \<le> nat_sum ws"
proof -
  have "nat_sum ws = nat_sum (take i ws) + nat_sum (drop i ws)"
    by (metis append_take_drop_id map_append sum_list_append)
  then show ?thesis by simp
qed

lemma card_pick:
  assumes "nat_sum ws < 2 ^ 64" and "i < length ws"
  shows "card {r. r < sum_list ws \<and> pick ws r 0 = Some i} = unat (ws ! i)"
proof -
  let ?S = "\<lambda>i. nat_sum (take i ws)"
  have "unat ` {r. r < sum_list ws \<and> pick ws r 0 = Some i} = {?S i ..< ?S (Suc i)}" (is "unat ` ?A = ?B")
  proof (intro set_eqI iffI)
    fix n assume "n \<in> unat ` ?A"
    then show "n \<in> ?B" using pick_iff [of ws _ 0 i] by auto
  next
    fix n assume n: "n \<in> ?B"
    then have lt: "n < nat_sum ws" using nat_sum_take_le [of "Suc i" ws] by simp
    then have u: "unat (word_of_nat n :: u64) = n" using assms(1) by (simp add: unat_of_nat)
    then have "word_of_nat n \<in> ?A"
      using n lt assms pick_iff [of ws "word_of_nat n" 0 i]
      by (simp add: word_less_nat_alt unat_sum_list)
    then have "unat (word_of_nat n :: u64) \<in> unat ` ?A" by (rule imageI)
    then show "n \<in> unat ` ?A" unfolding u .
  qed
  moreover have "card (unat ` ?A) = card ?A" by (intro card_image inj_onI) (simp add: word_unat_eq_iff)
  ultimately have "card ?A = ?S (Suc i) - ?S i" by simp
  also have "\<dots> = unat (ws ! i)" using assms(2) by (simp add: take_Suc_conv_app_nth)
  finally show ?thesis .
qed

lemma max_weight_ge: "m \<le> max_weight ws m" "w \<in> set ws \<Longrightarrow> w \<le> max_weight ws m"
  by (induction ws m rule: max_weight.induct) (auto split: if_splits intro: order_trans less_imp_le)

lemma max_weight_in: "max_weight ws m \<in> insert m (set ws)"
  by (induction ws m rule: max_weight.induct) (auto split: if_splits)

lemma unat_raised:
  assumes "2 * unat m + 10 < 2 ^ 64"
  shows "unat (raised m) = (if unat m < 10 then unat m + 10 else unat m + unat m div 5)"
proof -
  have "m < 10 \<longleftrightarrow> unat m < 10" by (simp add: word_less_nat_alt)
  moreover have "unat (m div 5) = unat m div 5" by (simp add: unat_div)
  ultimately show ?thesis using assms by (simp add: raised_def unat_word_ariths)
qed

definition light_weights :: "u64 list \<Rightarrow> bool" where
  "light_weights weights \<longleftrightarrow>
     2 \<le> length weights \<and> (\<forall>w\<in>set weights. (2 * unat w + 10) * length weights < 2 ^ 64)"

abbreviation top_weight :: "u64 list \<Rightarrow> u64" where
  "top_weight weights \<equiv> raised (max_weight weights 0)"

lemma max_in_weights:
  assumes "light_weights weights"
  shows "max_weight weights 0 \<in> set weights"
proof -
  obtain w where w: "w \<in> set weights" using assms by (cases weights) (auto simp: light_weights_def)
  from max_weight_in [of weights 0] consider "max_weight weights 0 = 0" | ?thesis by auto
  then show ?thesis
  proof cases
    case 1
    with max_weight_ge(2) [OF w, of 0] have "w = 0" by simp
    with 1 w show ?thesis by simp
  qed
qed

lemma top_bounds:
  assumes "light_weights weights"
  shows "w \<in> set weights \<Longrightarrow> unat w < unat (top_weight weights)"
    and "unat (top_weight weights) * length weights < 2 ^ 64"
proof -
  let ?m = "max_weight weights 0"
  have b: "(2 * unat ?m + 10) * length weights < 2 ^ 64" "0 < length weights"
    using max_in_weights [OF assms] assms by (auto simp: light_weights_def)
  then have "2 * unat ?m + 10 < 2 ^ 64"
    by (metis One_nat_def Suc_leI le_less_trans mult.right_neutral mult_le_mono2)
  note top = unat_raised [OF this]
  show "unat w < unat (top_weight weights)" if "w \<in> set weights"
    using max_weight_ge(2) [OF that, of 0] unfolding top by (simp add: word_le_nat_alt) linarith
  have "unat (top_weight weights) \<le> 2 * unat ?m + 10"
    unfolding top using div_le_dividend [of "unat ?m" 5] by (simp add: trans_le_add1)
  then show "unat (top_weight weights) * length weights < 2 ^ 64"
    using b(1) by (meson le_less_trans mult_le_mono1)
qed

lemma unat_inverted:
  assumes "light_weights weights" and "i < length weights"
  shows "unat (inverted weights ! i) = unat (top_weight weights) - unat (weights ! i)"
  using top_bounds(1) [OF assms(1), of "weights ! i"] assms(2)
  by (simp add: inverted_def unat_sub word_le_nat_alt)

lemma inverted_sum:
  assumes "light_weights weights"
  shows "nat_sum (inverted weights) < 2 ^ 64" "0 < nat_sum (inverted weights)"
proof -
  have "nat_sum (inverted weights) \<le> sum_list (map (\<lambda>_. unat (top_weight weights)) weights)"
    unfolding inverted_def map_map o_def
    using top_bounds(1) [OF assms] by (intro sum_list_mono) (simp add: unat_sub word_le_nat_alt less_imp_le)
  also have "\<dots> = unat (top_weight weights) * length weights" by (simp add: sum_list_triv)
  finally show "nat_sum (inverted weights) < 2 ^ 64" using top_bounds(2) [OF assms] by simp
  have "0 < length weights" using assms by (auto simp: light_weights_def)
  then have "0 < unat (inverted weights ! 0)"
    using top_bounds(1) [OF assms, of "weights ! 0"] unat_inverted [OF assms, of 0] by simp
  moreover have "unat (inverted weights ! 0) \<in> set (map unat (inverted weights))"
    using \<open>0 < length weights\<close> nth_mem [of 0 "map unat (inverted weights)"] by (simp add: inverted_def)
  ultimately show "0 < nat_sum (inverted weights)" by (intro less_le_trans [OF _ member_le_sum_list]) simp_all
qed

lemma RandLessWight_eq:
  assumes "light_weights weights"
  shows "RandLessWight weights d p =
     Some (Ret ((case pick (inverted weights) (d p mod sum_list (inverted weights)) 0 of None \<Rightarrow> 0 | Some i \<Rightarrow> i,
                 inverted weights), Suc p))"
proof -
  have "unat (sum_list (inverted weights)) \<noteq> 0"
    unfolding unat_sum_list [OF inverted_sum(1) [OF assms]] using inverted_sum(2) [OF assms] by (rule gr_implies_not0)
  then have "sum_list (inverted weights) \<noteq> 0" by (metis unat_0)
  moreover have "weights \<noteq> []" "length weights \<noteq> 1" using assms by (auto simp: light_weights_def)
  ultimately show ?thesis
    by (simp add: RandLessWight_def rbind_def ret_def Uint64_def Let_def)
qed

lemma pick_some: "unat r < nat_sum ws \<Longrightarrow> pick ws r k \<noteq> None"
  by (induction ws r k rule: pick.induct) (auto simp: word_less_nat_alt unat_sub word_le_nat_alt)

lemma pick_total:
  assumes "light_weights weights" and "r < sum_list (inverted weights)"
  shows "\<exists>i < length weights. pick (inverted weights) r 0 = Some i"
proof -
  have "unat r < nat_sum (inverted weights)"
    using assms inverted_sum [OF assms(1)] by (simp add: word_less_nat_alt unat_sum_list)
  from pick_some [OF this] obtain i where "pick (inverted weights) r 0 = Some i" by blast
  then show ?thesis using pick_iff [of "inverted weights" r 0 i] by (auto simp: inverted_def)
qed

text \<open>The residues of the draw for which index \<open>i\<close> is chosen.\<close>

definition choosing :: "u64 list \<Rightarrow> nat \<Rightarrow> u64 set" where
  "choosing weights i =
     {r. r < sum_list (inverted weights) \<and>
         RandLessWight weights (\<lambda>_. r) 0 = Some (Ret ((i, inverted weights), 1))}"

lemma choosing_pick:
  assumes "light_weights weights"
  shows "choosing weights i = {r. r < sum_list (inverted weights) \<and> pick (inverted weights) r 0 = Some i}"
proof -
  have "RandLessWight weights (\<lambda>_. r) 0 = Some (Ret ((i, inverted weights), 1)) \<longleftrightarrow> pick (inverted weights) r 0 = Some i"
    if r: "r < sum_list (inverted weights)" for r
    using RandLessWight_eq [OF assms, of "\<lambda>_. r" 0] pick_total [OF assms r] mod_word_less [OF r] by auto
  then show ?thesis by (auto simp: choosing_def)
qed

text \<open>
  The load balancer's weighted choice does what its comment says, prefer the small value:
  when the raised weights fit in 64 bits, \<^verbatim>\<open>RandLessWight\<close> never panics and always
  returns an index of the list; index \<open>i\<close> is chosen for exactly \<open>top - weights ! i\<close> of
  the residues of the draw, where \<open>top\<close> is the raised maximum, so every index can be
  chosen and a smaller weight is strictly more likely.
\<close>

theorem RandLessWight_prefers_small:
  assumes "light_weights weights"
  shows "(\<exists>i < length weights. RandLessWight weights d p = Some (Ret ((i, inverted weights), Suc p))) \<and>
    (\<forall>i < length weights. card (choosing weights i) = unat (top_weight weights) - unat (weights ! i)) \<and>
    (\<forall>i < length weights. 0 < card (choosing weights i)) \<and>
    (\<forall>i < length weights. \<forall>j < length weights. weights ! i < weights ! j \<longrightarrow>
       card (choosing weights j) < card (choosing weights i))"
proof (intro conjI allI impI)
  have nz: "0 < sum_list (inverted weights)"
    using inverted_sum [OF assms] by (simp add: word_less_nat_alt unat_sum_list)
  have "d p mod sum_list (inverted weights) < sum_list (inverted weights)"
    by (rule word_mod_less_divisor [OF nz])
  from pick_total [OF assms this]
  show "\<exists>i < length weights. RandLessWight weights d p = Some (Ret ((i, inverted weights), Suc p))"
    unfolding RandLessWight_eq [OF assms] by auto
  show share: "card (choosing weights i) = unat (top_weight weights) - unat (weights ! i)"
    if "i < length weights" for i
    using card_pick [OF inverted_sum(1) [OF assms], of i] that unat_inverted [OF assms that]
    by (simp add: choosing_pick [OF assms] inverted_def)
  have lt: "unat (weights ! i) < unat (top_weight weights)" if "i < length weights" for i
    using top_bounds(1) [OF assms, of "weights ! i"] that by simp
  show "0 < card (choosing weights i)" if "i < length weights" for i
    using share [OF that] lt [OF that] by simp
  show "card (choosing weights j) < card (choosing weights i)"
    if "i < length weights" "j < length weights" "weights ! i < weights ! j" for i j
    using share [OF that(1)] share [OF that(2)] lt [OF that(2)] that(3)
    by (simp add: word_less_nat_alt diff_less_mono2)
qed

theorem RandLessWight_prefers_small_witness:
  "card (choosing [3, 20, 7] 0) = 21 \<and> card (choosing [3, 20, 7] 1) < card (choosing [3, 20, 7] 0)"
proof -
  have l: "light_weights [3, 20, 7]" by (simp add: light_weights_def)
  show ?thesis
    using RandLessWight_prefers_small [OF l] by (auto simp: raised_def)
qed

end
