(* ===== verification/Watch_Config.thy ===== *)
theory Watch_Config
  imports Watch_Client Util_Rand
begin

text \<open>
  The configuration layer over the watch client, \<^verbatim>\<open>watch_config/gate.go\<close>,
  \<^verbatim>\<open>node.go\<close> and \<^verbatim>\<open>service.go\<close>: gates, nodes and their configuration,
  registration of nodes with their services, and allocation of a node by load. The functions are
  those of the code over the model of the client, whose network is a parameter; the JSON encoding
  of the records is a parameter too, of which the properties assume that it round-trips and that a
  text it produces has no line break.
\<close>

record gate_info =
  gName :: string
  gAddress :: string
  gSSLAddress :: string
  gKCPAddress :: string
  gRegion :: u32
  gTime :: int

record function_info =
  fName :: string
  fCmd :: u16

record service_info =
  sName :: string
  sFunc :: "function_info list"

record node_info =
  nId :: u64
  nName :: string
  nType :: string
  nAddress :: string
  nService :: "service_info list"
  nRegion :: u32
  nSet :: string

text \<open>
  \<^verbatim>\<open>json.Unmarshal\<close> into a zero value: the value afterwards, whatever was decoded of
  it, and the error. \<^verbatim>\<open>json.Marshal\<close> cannot fail on these types.
\<close>

record 'a json =
  to_json :: "'a \<Rightarrow> string"
  of_json :: "string \<Rightarrow> 'a \<times> go_error option"

definition GateKey :: string where "GateKey = ''gate''"
definition NodeKey :: string where "NodeKey = ''node:''"
definition NodeRegisterKey :: string where "NodeRegisterKey = ''nodeRegister''"
definition NodeLoadKey :: string where "NodeLoadKey = ''node_load''"
definition ServiceLoadKey :: string where "ServiceLoadKey = ''service_load''"

text \<open>\<^verbatim>\<open>fmt.Sprintf("%v:%v", a, b)\<close>\<close>

definition colon :: "string \<Rightarrow> string \<Rightarrow> string" where
  "colon a b = a @ '':'' @ b"

text \<open>The loops over the flat list of \<^verbatim>\<open>Hgetall\<close> read two elements at a time.\<close>

fun by_two :: "string list \<Rightarrow> (string \<times> string) list outcome" where
  "by_two [] = Ret []"
| "by_two [x] = Panic ''index out of range''"
| "by_two (f # v # vs) = out_bind (by_two vs) (\<lambda>ps. Ret ((f, v) # ps))"


section \<open>Gates\<close>

definition GetAllGate :: "gate_info json \<Rightarrow> 'w net \<Rightarrow> 'cb watch_client \<times> 'w \<Rightarrow> (gate_info list \<times> 'cb watch_client \<times> 'w) outcome" where
  "GetAllGate J net cw =
     out_bind (client_Hgetall net GateKey cw) (\<lambda>(values, cw').
     out_bind (by_two values) (\<lambda>ps. Ret (map (\<lambda>(_, v). fst (of_json J v)) ps, cw')))"

definition SetGateInfo :: "gate_info json \<Rightarrow> 'w net \<Rightarrow> gate_info \<Rightarrow> 'cb watch_client \<times> 'w \<Rightarrow> ('cb watch_client \<times> 'w) outcome" where
  "SetGateInfo J net gate cw = client_Hset net GateKey (gName gate) (to_json J gate) cw"

definition GetGateInfo :: "gate_info json \<Rightarrow> 'w net \<Rightarrow> string \<Rightarrow> 'cb watch_client \<times> 'w \<Rightarrow> (gate_info option \<times> 'cb watch_client \<times> 'w) outcome" where
  "GetGateInfo J net name cw =
     out_bind (client_Hget net GateKey name cw) (\<lambda>(value, cw').
       if value = [] then Ret (None, cw')
       else case of_json J value of (gate, None) \<Rightarrow> Ret (Some gate, cw') | (_, Some err) \<Rightarrow> Ret (None, cw'))"


section \<open>Nodes\<close>

definition GetAllName :: "'w net \<Rightarrow> string \<Rightarrow> 'cb watch_client \<times> 'w \<Rightarrow> (string list \<times> 'cb watch_client \<times> 'w) outcome" where
  "GetAllName net pre cw =
     out_bind (client_KeyPrefix net pre cw) (\<lambda>(nodes, cw').
       Ret (concat (map (\<lambda>n. let arr = Split CHR '':'' n in if length arr = 2 then [arr ! 1] else []) nodes), cw'))"

definition GetNodeAllName :: "'w net \<Rightarrow> 'cb watch_client \<times> 'w \<Rightarrow> (string list \<times> 'cb watch_client \<times> 'w) outcome" where
  "GetNodeAllName net cw = GetAllName net NodeKey cw"

definition GetNodeAllConfig :: "'w net \<Rightarrow> string \<Rightarrow> 'cb watch_client \<times> 'w \<Rightarrow> ((string, string) gmap \<times> 'cb watch_client \<times> 'w) outcome" where
  "GetNodeAllConfig net nodeName cw =
     out_bind (client_Hgetall net (NodeKey @ nodeName) cw) (\<lambda>(values, cw').
     out_bind (by_two values) (\<lambda>ps. Ret (fold (\<lambda>(k, v) m. gmap_set k v m) ps [], cw')))"

definition SetNodeConfig :: "'w net \<Rightarrow> string \<Rightarrow> string \<Rightarrow> string \<Rightarrow> 'cb watch_client \<times> 'w \<Rightarrow> ('cb watch_client \<times> 'w) outcome" where
  "SetNodeConfig net nodeName key value cw = client_Hset net (NodeKey @ nodeName) key value cw"

definition DelNodeConfig :: "'w net \<Rightarrow> string \<Rightarrow> 'cb watch_client \<times> 'w \<Rightarrow> ('cb watch_client \<times> 'w) outcome" where
  "DelNodeConfig net nodeName cw = client_Del net (NodeKey @ nodeName) cw"

definition GetNodeConfig :: "'w net \<Rightarrow> string \<Rightarrow> string \<Rightarrow> 'cb watch_client \<times> 'w \<Rightarrow> (string \<times> 'cb watch_client \<times> 'w) outcome" where
  "GetNodeConfig net nodeName key cw = client_Hget net (NodeKey @ nodeName) key cw"

definition GetAllRegisterNode :: "node_info json \<Rightarrow> 'w net \<Rightarrow> string \<Rightarrow> 'cb watch_client \<times> 'w \<Rightarrow> ((string, node_info) gmap \<times> 'cb watch_client \<times> 'w) outcome" where
  "GetAllRegisterNode J net grp cw =
     out_bind (client_Hgetall net (colon NodeRegisterKey grp) cw) (\<lambda>(values, cw').
     out_bind (by_two values) (\<lambda>ps. Ret (fold (\<lambda>(k, v) m. gmap_set k (fst (of_json J v)) m) ps [], cw')))"

text \<open>The loop that resets the load of a node for each of its services.\<close>

fun reset_loads :: "'w net \<Rightarrow> string \<Rightarrow> service_info list \<Rightarrow> 'cb watch_client \<times> 'w \<Rightarrow> ('cb watch_client \<times> 'w) outcome" where
  "reset_loads net name [] cw = Ret cw"
| "reset_loads net name (v # vs) cw =
     out_bind (client_Hset net (colon ServiceLoadKey (sName v)) name ''0'' cw) (reset_loads net name vs)"

definition RegisterNode :: "node_info json \<Rightarrow> 'w net \<Rightarrow> node_info \<Rightarrow> 'cb watch_client \<times> 'w \<Rightarrow> ('cb watch_client \<times> 'w) outcome" where
  "RegisterNode J net info cw =
     out_bind (client_Hset net (colon NodeRegisterKey (nSet info)) (nName info) (to_json J info) cw) (\<lambda>cw1.
     out_bind (client_Hset net (colon NodeLoadKey (nType info)) (nName info) ''0'' cw1) (\<lambda>cw2.
     reset_loads net (nName info) (nService info) cw2))"

definition DelRegisterNode :: "'w net \<Rightarrow> node_info \<Rightarrow> 'cb watch_client \<times> 'w \<Rightarrow> ('cb watch_client \<times> 'w) outcome" where
  "DelRegisterNode net info cw =
     out_bind (client_Hset net (colon NodeRegisterKey (nSet info)) (nName info) [] cw) (\<lambda>cw1.
     out_bind (client_Hset net (colon NodeLoadKey (nType info)) (nName info) [] cw1) (\<lambda>cw2.
     reset_loads net (nName info) (nService info) cw2))"

definition GetRegisterNode :: "node_info json \<Rightarrow> 'w net \<Rightarrow> string \<Rightarrow> string \<Rightarrow> 'cb watch_client \<times> 'w \<Rightarrow> (node_info option \<times> 'cb watch_client \<times> 'w) outcome" where
  "GetRegisterNode J net nodeName grp cw =
     out_bind (client_Hget net (colon NodeRegisterKey grp) nodeName cw) (\<lambda>(value, cw').
       Ret (if value = [] then None else Some (fst (of_json J value)), cw'))"


section \<open>Allocation by load\<close>

text \<open>
  The random draw is \<open>RandLessWight\<close>, which panics on an empty list: the test for a
  negative index that follows it is never true.
\<close>

definition allocLoad :: "'w net \<Rightarrow> string \<Rightarrow> draws \<Rightarrow> nat \<Rightarrow> 'cb watch_client \<times> 'w \<Rightarrow> (string \<times> 'cb watch_client \<times> 'w) outcome option" where
  "allocLoad net key d p cw =
     (case out_bind (client_Hgetall net key cw) (\<lambda>(values, cw'). out_bind (by_two values) (\<lambda>ps. Ret (ps, cw'))) of
        Panic e \<Rightarrow> Some (Panic e)
      | Ret (ps, cw') \<Rightarrow>
          (let names = map fst ps; weights = map (\<lambda>(_, v). word_of_int (fst (Atoi v))) ps in
           case RandLessWight weights d p of
             None \<Rightarrow> None
           | Some (Panic e) \<Rightarrow> Some (Panic e)
           | Some (Ret ((i, _), _)) \<Rightarrow> Some (out_bind (index_at names i) (\<lambda>n. Ret (n, cw')))))"

definition AllocServiceNode :: "'w net \<Rightarrow> string \<Rightarrow> draws \<Rightarrow> nat \<Rightarrow> 'cb watch_client \<times> 'w \<Rightarrow> (string \<times> 'cb watch_client \<times> 'w) outcome option" where
  "AllocServiceNode net serviceName d p cw = allocLoad net (colon ServiceLoadKey serviceName) d p cw"

definition AddServiceLoad :: "'w net \<Rightarrow> string \<Rightarrow> string \<Rightarrow> int \<Rightarrow> 'cb watch_client \<times> 'w \<Rightarrow> ('cb watch_client \<times> 'w) outcome" where
  "AddServiceLoad net nodeName serviceName add cw =
     out_bind (client_Hincrby net (colon ServiceLoadKey serviceName) nodeName add cw) (\<lambda>(_, cw'). Ret cw')"

definition AllocNode :: "'w net \<Rightarrow> string \<Rightarrow> draws \<Rightarrow> nat \<Rightarrow> 'cb watch_client \<times> 'w \<Rightarrow> (string \<times> 'cb watch_client \<times> 'w) outcome option" where
  "AllocNode net NodeType d p cw = allocLoad net (colon NodeLoadKey NodeType) d p cw"

definition AddNodeLoad :: "'w net \<Rightarrow> string \<Rightarrow> string \<Rightarrow> int \<Rightarrow> 'cb watch_client \<times> 'w \<Rightarrow> ('cb watch_client \<times> 'w) outcome" where
  "AddNodeLoad net nodeName NodeType add cw =
     out_bind (client_Hincrby net (colon NodeLoadKey NodeType) nodeName add cw) (\<lambda>(_, cw'). Ret cw')"


section \<open>Registration against the server's table\<close>

text \<open>What the code relies on of the encoding, for the values in \<open>ok\<close>.\<close>

definition json_laws :: "'a json \<Rightarrow> ('a \<Rightarrow> bool) \<Rightarrow> bool" where
  "json_laws J ok \<longleftrightarrow>
     (\<forall>x. ok x \<longrightarrow> of_json J (to_json J x) = (x, None)) \<and>
     (\<forall>x. to_json J x \<noteq> [] \<and> line_ok (to_json J x))"

definition node_lines :: "node_info \<Rightarrow> bool" where
  "node_lines info \<longleftrightarrow>
     nName info \<noteq> [] \<and> line_ok (nName info) \<and> line_ok (nSet info) \<and> line_ok (nType info) \<and>
     (\<forall>v\<in>set (nService info). line_ok (sName v))"

lemma colon_simps [simp]:
  "colon a b = colon a c \<longleftrightarrow> b = c" "colon a b \<noteq> []" "line_ok (colon a b) \<longleftrightarrow> line_ok a \<and> line_ok b"
  by (auto simp: colon_def line_ok_def newline_def)

lemma key_lines [simp]:
  "line_ok GateKey" "line_ok NodeRegisterKey" "line_ok NodeLoadKey" "line_ok ServiceLoadKey" "line_ok ''0''"
  by (simp_all add: line_ok_def newline_def GateKey_def NodeRegisterKey_def NodeLoadKey_def ServiceLoadKey_def)

lemma keys_disjoint [simp]:
  "colon NodeRegisterKey a \<noteq> colon NodeLoadKey b" "colon NodeRegisterKey a \<noteq> colon ServiceLoadKey b"
  "colon NodeLoadKey a \<noteq> colon ServiceLoadKey b" "colon NodeLoadKey a \<noteq> colon NodeRegisterKey b"
  "colon ServiceLoadKey a \<noteq> colon NodeRegisterKey b" "colon ServiceLoadKey a \<noteq> colon NodeLoadKey b"
  by (simp_all add: colon_def NodeRegisterKey_def NodeLoadKey_def ServiceLoadKey_def)

text \<open>The view of the table that a linked client has.\<close>

abbreviation cell :: "'cb watch_client \<times> 'db watch_server \<Rightarrow> string \<Rightarrow> string \<Rightarrow> string" where
  "cell cw k f \<equiv> Hget k f (KvSet (snd cw))"

lemma client_Hset_cell:
  assumes "link_inv i cw" and "orders_ok R" and "line_ok k" and "line_ok f" and "line_ok v" and "k \<noteq> []" and "f \<noteq> []"
  obtains cw' where "client_Hset (server_net B R i) k f v cw = Ret cw'" and "link_inv i cw'"
    and "\<And>k' f'. cell cw' k' f' = (if k' = k \<and> f' = f then v else cell cw k' f')"
  using client_Hset_linked [of i "fst cw" "snd cw" k f v R B] assms by (auto simp: Hget_Hset)

lemma reset_loads_cell:
  assumes "link_inv i cw" and "orders_ok R" and "line_ok n" and "n \<noteq> []" and "\<forall>v\<in>set vs. line_ok (sName v)"
  shows "\<exists>cw'. reset_loads (server_net B R i) n vs cw = Ret cw' \<and> link_inv i cw' \<and>
    (\<forall>k f. cell cw' k f = (if f = n \<and> k \<in> (\<lambda>v. colon ServiceLoadKey (sName v)) ` set vs then ''0'' else cell cw k f))"
  using assms
proof (induction vs arbitrary: cw)
  case (Cons v vs)
  obtain cw1 where 1: "client_Hset (server_net B R i) (colon ServiceLoadKey (sName v)) n ''0'' cw = Ret cw1" "link_inv i cw1"
    "\<And>k f. cell cw1 k f = (if k = colon ServiceLoadKey (sName v) \<and> f = n then ''0'' else cell cw k f)"
    using client_Hset_cell [OF Cons.prems(1,2), of "colon ServiceLoadKey (sName v)" n "''0''" B] Cons.prems(3-5) by auto
  from Cons.IH [OF 1(2) Cons.prems(2-4)] Cons.prems(5) obtain cw2 where
    2: "reset_loads (server_net B R i) n vs cw1 = Ret cw2" "link_inv i cw2"
      "\<forall>k f. cell cw2 k f = (if f = n \<and> k \<in> (\<lambda>v. colon ServiceLoadKey (sName v)) ` set vs then ''0'' else cell cw1 k f)"
    by auto
  with 1 show ?case by auto
qed simp

text \<open>Both registration functions write the same cells.\<close>

lemma write_node_cells:
  assumes "link_inv i cw" and "orders_ok R" and "node_lines info" and "line_ok a" and "line_ok b"
  shows "\<exists>cw'. out_bind (client_Hset (server_net B R i) (colon NodeRegisterKey (nSet info)) (nName info) a cw) (\<lambda>cw1.
      out_bind (client_Hset (server_net B R i) (colon NodeLoadKey (nType info)) (nName info) b cw1) (\<lambda>cw2.
      reset_loads (server_net B R i) (nName info) (nService info) cw2)) = Ret cw' \<and> link_inv i cw' \<and>
    cell cw' (colon NodeRegisterKey (nSet info)) (nName info) = a \<and>
    cell cw' (colon NodeLoadKey (nType info)) (nName info) = b \<and>
    (\<forall>v\<in>set (nService info). cell cw' (colon ServiceLoadKey (sName v)) (nName info) = ''0'') \<and>
    (\<forall>k f. f \<noteq> nName info \<longrightarrow> cell cw' k f = cell cw k f)"
proof -
  let ?n = "nName info"
  have n: "?n \<noteq> []" "line_ok ?n" "line_ok (nSet info)" "line_ok (nType info)" "\<forall>v\<in>set (nService info). line_ok (sName v)"
    using assms(3) by (auto simp: node_lines_def)
  obtain cw1 where 1: "client_Hset (server_net B R i) (colon NodeRegisterKey (nSet info)) ?n a cw = Ret cw1" "link_inv i cw1"
    "\<And>k f. cell cw1 k f = (if k = colon NodeRegisterKey (nSet info) \<and> f = ?n then a else cell cw k f)"
    using client_Hset_cell [OF assms(1,2), of "colon NodeRegisterKey (nSet info)" ?n a B] n assms(4) by auto
  obtain cw2 where 2: "client_Hset (server_net B R i) (colon NodeLoadKey (nType info)) ?n b cw1 = Ret cw2" "link_inv i cw2"
    "\<And>k f. cell cw2 k f = (if k = colon NodeLoadKey (nType info) \<and> f = ?n then b else cell cw1 k f)"
    using client_Hset_cell [OF 1(2) assms(2), of "colon NodeLoadKey (nType info)" ?n b B] n assms(5) by auto
  from reset_loads_cell [OF 2(2) assms(2) n(2,1,5), of B] obtain cw3 where
    3: "reset_loads (server_net B R i) ?n (nService info) cw2 = Ret cw3" "link_inv i cw3"
      "\<And>k f. cell cw3 k f = (if f = ?n \<and> k \<in> (\<lambda>v. colon ServiceLoadKey (sName v)) ` set (nService info) then ''0'' else cell cw2 k f)"
    by blast
  have "cell cw3 (colon NodeRegisterKey (nSet info)) ?n = a" "cell cw3 (colon NodeLoadKey (nType info)) ?n = b"
    "\<forall>v\<in>set (nService info). cell cw3 (colon ServiceLoadKey (sName v)) ?n = ''0''"
    "\<forall>k f. f \<noteq> ?n \<longrightarrow> cell cw3 k f = cell cw k f"
    unfolding 3(3) 2(3) 1(3) by auto
  with 1(1) 2(1) 3(1,2) show ?thesis by simp
qed

lemma GetRegisterNode_cell:
  assumes "link_inv i cw" and "line_ok n" and "line_ok g"
  shows "\<exists>cw'. GetRegisterNode J (server_net B R i) n g cw =
    Ret (let v = cell cw (colon NodeRegisterKey g) n in if v = [] then None else Some (fst (of_json J v)), cw')"
  using client_Hget_linked [of i "fst cw" "snd cw" "colon NodeRegisterKey g" n B R] assms
  by (auto simp: GetRegisterNode_def Let_def)


text \<open>
  \<^verbatim>\<open>DelRegisterNode\<close> unregisters a node only in part: the node can no longer be
  looked up and its entry among the nodes of its type is gone, but for every service the
  node stays in the table of loads, with load \<^verbatim>\<open>"0"\<close>, which is the most preferred one; the
  comment above that loop's twin says that entries are deleted.
\<close>

theorem deregister_keeps_service_load:
  assumes "link_inv i cw" and "orders_ok R" and "node_lines info"
  shows "\<exists>cw'. DelRegisterNode (server_net B R i) info cw = Ret cw' \<and>
    (\<exists>cw''. GetRegisterNode J (server_net B R i) (nName info) (nSet info) cw' = Ret (None, cw'')) \<and>
    cell cw' (colon NodeLoadKey (nType info)) (nName info) = [] \<and>
    (\<forall>v\<in>set (nService info). cell cw' (colon ServiceLoadKey (sName v)) (nName info) = ''0'')"
proof -
  obtain cw' where c: "DelRegisterNode (server_net B R i) info cw = Ret cw'" "link_inv i cw'"
    "cell cw' (colon NodeRegisterKey (nSet info)) (nName info) = []"
    "cell cw' (colon NodeLoadKey (nType info)) (nName info) = []"
    "\<forall>v\<in>set (nService info). cell cw' (colon ServiceLoadKey (sName v)) (nName info) = ''0''"
    using write_node_cells [OF assms lines_ok(1) lines_ok(1), of B] unfolding DelRegisterNode_def by blast
  with GetRegisterNode_cell [OF c(2), of "nName info" "nSet info" J B R] assms(3) show ?thesis
    by (auto simp: node_lines_def)
qed

text \<open>A node and an encoding that knows it.\<close>

definition demo_node :: node_info where
  "demo_node = \<lparr>nId = 1, nName = ''db1'', nType = ''db'', nAddress = ''127.0.0.1:9000'',
     nService = [\<lparr>sName = ''db'', sFunc = [\<lparr>fName = ''Get'', fCmd = 7\<rparr>]\<rparr>], nRegion = 0, nSet = ''s''\<rparr>"

definition demo_json :: "node_info json" where
  "demo_json =
     \<lparr>to_json = (\<lambda>x. if x = demo_node then ''{1}'' else ''{}''),
      of_json = (\<lambda>s. if s = ''{1}'' then (demo_node, None)
                    else (demo_node\<lparr>nName := [], nService := []\<rparr>, Some (GoErr ''unexpected end of JSON input'')))\<rparr>"

lemma demo_json_laws: "json_laws demo_json (\<lambda>x. x = demo_node)"
  by (auto simp: json_laws_def demo_json_def line_ok_def newline_def)

lemma demo_node_lines: "node_lines demo_node"
  by (simp add: node_lines_def demo_node_def line_ok_def newline_def)


theorem deregister_keeps_service_load_witness:
  "\<exists>cw'. DelRegisterNode (server_net alist_bolt id_orders 2) demo_node demo_link = Ret cw' \<and>
     cell cw' ''service_load:db'' ''db1'' = ''0''"
proof -
  have n: "nName demo_node = ''db1''" "nService demo_node \<noteq> []" "sName (hd (nService demo_node)) = ''db''"
    "colon ServiceLoadKey ''db'' = ''service_load:db''"
    by (simp_all add: demo_node_def colon_def ServiceLoadKey_def)
  then have "hd (nService demo_node) \<in> set (nService demo_node)" by simp
  with deregister_keeps_service_load [OF demo_link_inv id_orders_ok demo_node_lines, of alist_bolt demo_json] n
  show ?thesis by metis
qed


section \<open>Allocation against the server's table\<close>

lemma by_two_pairs: "by_two (concat (map (\<lambda>(f, v). [f, v]) ps)) = Ret ps"
  by (induction ps) auto

definition loads :: "(string \<times> string) list \<Rightarrow> u64 list" where
  "loads ps = map (\<lambda>(_, v). word_of_int (fst (Atoi v))) ps"

lemma RandLessWight_index:
  assumes "light_weights ws \<or> length ws = 1"
  shows "\<exists>j q ws'. RandLessWight ws d p = Some (Ret ((j, ws'), q)) \<and> j < length ws"
proof (cases "length ws = 1")
  case True
  then have "ws \<noteq> []" by auto
  with True show ?thesis by (simp add: RandLessWight_def ret_def)
next
  case False
  with assms have l: "light_weights ws" by simp
  have "0 < sum_list (inverted ws)"
    using inverted_sum [OF l] by (simp add: word_less_nat_alt unat_sum_list)
  from pick_total [OF l word_mod_less_divisor [OF this, of "d p"]] RandLessWight_eq [OF l, of d p]
  show ?thesis by auto
qed

lemma allocLoad_linked:
  assumes "link_inv i cw" and "orders_ok R" and "line_ok k" and "k \<noteq> []"
    and "2 * int (length (key_info (KvSet (snd cw)) k)) \<le> max_int64"
  shows "\<exists>ps cw'. map_of ps = map_of (key_info (KvSet (snd cw)) k) \<and> gmap_ok ps \<and>
    allocLoad (server_net B R i) k d p cw =
      (case RandLessWight (loads ps) d p of
         None \<Rightarrow> None
       | Some (Panic e) \<Rightarrow> Some (Panic e)
       | Some (Ret ((j, _), _)) \<Rightarrow> Some (out_bind (index_at (map fst ps) j) (\<lambda>n. Ret (n, cw'))))"
proof -
  have D: "hash_set_ok (KvSet (snd cw))" using link_invD [of i "fst cw" "snd cw"] assms(1) by simp
  have ord: "range_order (ordF R)" using assms(2) by (simp add: orders_ok_def)
  obtain ps where ps: "Hgetall (ordF R) k (KvSet (snd cw)) = concat (map (\<lambda>(f, v). [f, v]) ps)" "gmap_ok ps"
    "map_of ps = map_of (key_info (KvSet (snd cw)) k)"
    using Hgetall_pairs [OF ord D assms(4)] by blast
  have "set ps = set (key_info (KvSet (snd cw)) k)"
    using ps(2,3) key_info_ok [OF D] by (metis map_of_inject_set)
  then have "length ps = length (key_info (KvSet (snd cw)) k)"
    using ps(2) key_info_ok [OF D, of k] by (metis distinct_card distinct_map)
  moreover have "length (concat (map (\<lambda>(f, v). [f, v]) qs)) = 2 * length qs" for qs :: "(string \<times> string) list"
    by (induction qs) auto
  ultimately have "int (length (Hgetall (ordF R) k (KvSet (snd cw)))) \<le> max_int64"
    using assms(5) ps(1) by simp
  from client_Hgetall_linked [of i "fst cw" "snd cw" k R B] assms(1-3) this ps(1)
  obtain cw' where "client_Hgetall (server_net B R i) k cw = Ret (concat (map (\<lambda>(f, v). [f, v]) ps), cw')" by auto
  then have "allocLoad (server_net B R i) k d p cw =
      (case RandLessWight (loads ps) d p of
         None \<Rightarrow> None
       | Some (Panic e) \<Rightarrow> Some (Panic e)
       | Some (Ret ((j, _), _)) \<Rightarrow> Some (out_bind (index_at (map fst ps) j) (\<lambda>n. Ret (n, cw'))))"
    by (simp add: allocLoad_def by_two_pairs loads_def)
  with ps show ?thesis by blast
qed

text \<open>
  Allocation by load: \<^verbatim>\<open>AllocServiceNode\<close> returns, without a panic, the name of a
  node that is in the table of loads of the service, provided the loads are non-negative
  and small enough that their weights do not overflow; when no node offers the service it
  panics, although the code after the draw is written to return an empty name.
\<close>

theorem alloc_returns_registered:
  assumes "link_inv i cw" and "orders_ok R" and "line_ok svc"
    and "fs = key_info (KvSet (snd cw)) (colon ServiceLoadKey svc)"
    and "2 * int (length fs) \<le> max_int64"
    and "\<forall>(f, v)\<in>set fs. 0 \<le> fst (Atoi v) \<and> (2 * nat (fst (Atoi v)) + 10) * length fs < 2 ^ 64"
  shows "if fs = []
    then AllocServiceNode (server_net B R i) svc d p cw = Some (Panic ''invalid argument to RandLessWight'')
    else \<exists>n cw'. AllocServiceNode (server_net B R i) svc d p cw = Some (Ret (n, cw')) \<and> map_of fs n \<noteq> None"
proof -
  obtain ps cw' where ps: "map_of ps = map_of fs" "gmap_ok ps"
    "AllocServiceNode (server_net B R i) svc d p cw =
      (case RandLessWight (loads ps) d p of
         None \<Rightarrow> None
       | Some (Panic e) \<Rightarrow> Some (Panic e)
       | Some (Ret ((j, _), _)) \<Rightarrow> Some (out_bind (index_at (map fst ps) j) (\<lambda>n. Ret (n, cw'))))"
    using allocLoad_linked [OF assms(1,2), of "colon ServiceLoadKey svc" B d p] assms(3-5)
    by (auto simp: AllocServiceNode_def)
  have "hash_set_ok (KvSet (snd cw))" using link_invD [of i "fst cw" "snd cw"] assms(1) by simp
  from key_info_ok [OF this] have fs: "gmap_ok fs" unfolding assms(4) .
  have set: "set ps = set fs" using ps(1,2) fs by (metis map_of_inject_set)
  have len: "length ps = length fs" using set ps(2) fs by (metis distinct_card distinct_map)
  show ?thesis
  proof (cases "fs = []")
    case True
    with len have "ps = []" by simp
    with True ps(3) show ?thesis by (simp add: loads_def RandLessWight_def rpanic_def)
  next
    case False
    have "light_weights (loads ps) \<or> length (loads ps) = 1"
    proof (cases "length ps = 1")
      case False
      with len \<open>fs \<noteq> []\<close> have "2 \<le> length (loads ps)" by (cases fs; cases "tl fs") (auto simp: loads_def)
      moreover have "(2 * unat w + 10) * length (loads ps) < 2 ^ 64" if w: "w \<in> set (loads ps)" for w
      proof -
        from w set obtain f v where v: "(f, v) \<in> set fs" "w = word_of_int (fst (Atoi v))" by (auto simp: loads_def)
        with assms(6) have nn: "0 \<le> fst (Atoi v)" and b: "(2 * nat (fst (Atoi v)) + 10) * length fs < 2 ^ 64" by auto
        have "unat w \<le> nat (fst (Atoi v))"
          using nn by (simp add: v(2) unsigned_of_int nat_le_iff take_bit_int_less_eq_self_iff)
        then have "(2 * unat w + 10) * length fs \<le> (2 * nat (fst (Atoi v)) + 10) * length fs"
          by (intro mult_le_mono1) simp
        from le_less_trans [OF this b] len show ?thesis unfolding loads_def length_map by (simp only:)
      qed
      ultimately show ?thesis by (simp add: light_weights_def)
    qed (simp add: loads_def)
    from RandLessWight_index [OF this, of d p] obtain j q ws' where
      j: "RandLessWight (loads ps) d p = Some (Ret ((j, ws'), q))" "j < length ps" by (auto simp: loads_def)
    then have "fst (ps ! j) \<in> fst ` set fs" using set by (metis imageI nth_mem)
    then have "map_of fs (fst (ps ! j)) \<noteq> None" by (simp add: map_of_eq_None_iff)
    with j ps(3) False show ?thesis by (auto simp: index_at_def)
  qed
qed

theorem alloc_returns_registered_witness:
  "AllocServiceNode (server_net alist_bolt id_orders 2) ''db'' (\<lambda>_. 5) 0 demo_link =
     Some (Panic ''invalid argument to RandLessWight'')"
proof -
  have "key_info (KvSet (snd demo_link)) (colon ServiceLoadKey ''db'') = []"
    by (simp add: demo_link_def demo_server_def NewHashSet_def key_info_def)
  moreover have "line_ok ''db''" by (simp add: line_ok_def newline_def)
  ultimately show ?thesis
    using alloc_returns_registered [OF demo_link_inv id_orders_ok, of "''db''" "[]" alist_bolt "\<lambda>_. 5" 0]
    by (simp add: max_int64_def)
qed

end
