(* ===== verification/Id_Gen.thy ===== *)
theory Id_Gen
  imports Goms_Prelude
begin

text \<open>
  The id generator, \<^verbatim>\<open>util/id_gen.go\<close>: 41 bits of milliseconds, the instance of the
  generator, the module and a 12-bit counter per millisecond. The clock reading is an argument.
  The mutex makes \<^verbatim>\<open>NewID\<close> atomic.
\<close>

record id_gen =
  Time :: u64
  GenID :: u64
  Index :: u64

definition NewIDGen :: "u64 \<Rightarrow> id_gen" where
  "NewIDGen i = \<lparr>Time = 0, GenID = i, Index = 0\<rparr>"

definition pack_id :: "u64 \<Rightarrow> u64 \<Rightarrow> u64 \<Rightarrow> u64 \<Rightarrow> u64" where
  "pack_id t g m i =
     push_bit 20 (t AND 0x1FFFFFFFFFF) OR push_bit 16 (g AND 0xFF) OR push_bit 12 (m AND 0xFF) OR (i AND 0xFFF)"

definition NewID :: "u64 \<Rightarrow> u64 \<Rightarrow> id_gen \<Rightarrow> u64 outcome \<times> id_gen" where
  "NewID nowNano moduleID gen =
     (let now = nowNano div 1000000;
          gen1 = (if now \<noteq> Time gen then gen\<lparr>Time := now, Index := 0\<rparr> else gen);
          gen2 = gen1\<lparr>Index := Index gen1 + 1\<rparr>
      in if Index gen2 AND 0xFFF = 0 then (Panic ''id generate error'', gen2)
         else (Ret (pack_id (Time gen2) (GenID gen2) moduleID (Index gen2)), gen2))"

definition GetTimeFromId :: "u64 \<Rightarrow> u64" where
  "GetTimeFromId i = (drop_bit 20 i AND 0x1FFFFFFFFFF) div 1000"


section \<open>Fields of an id\<close>

lemma mask_lits:
  "(0x1FFFFFFFFFF :: u64) = mask 41" "(0xFFF :: u64) = mask 12" "(0xFF :: u64) = mask 8" "(0xF :: u64) = mask 4"
  by (simp_all add: mask_eq_exp_minus_1)

lemma small_bit: "(x :: u64) < 16 \<Longrightarrow> bit x n \<Longrightarrow> n < 4"
proof -
  assume x: "x < 16" and b: "bit x n"
  have "x AND mask 4 = x" using x by (intro less_mask_eq) simp
  with b have "bit (x AND mask 4) n" by simp
  then show "n < 4" by (simp add: bit_simps)
qed

lemma pack_id_time:
  assumes "g < 16" and "m < 16"
  shows "drop_bit 20 (pack_id t g m i) AND 0x1FFFFFFFFFF = t AND 0x1FFFFFFFFFF"
  by (rule bit_word_eqI)
     (use small_bit [OF assms(1)] small_bit [OF assms(2)] in
       \<open>auto simp: pack_id_def mask_lits bit_simps\<close>)

lemma pack_id_index: "pack_id t g m i AND 0xFFF = i AND 0xFFF"
  by (rule bit_word_eqI) (auto simp: pack_id_def mask_lits bit_simps)

lemma pack_id_inj:
  assumes "pack_id t g m i = pack_id t' g' m' i'" and "g < 16" "m < 16" "g' < 16" "m' < 16"
    and "t < 2 ^ 41" "t' < 2 ^ 41" "i < 2 ^ 12" "i' < 2 ^ 12"
  shows "t = t' \<and> i = i'"
proof -
  have "t AND 0x1FFFFFFFFFF = t' AND 0x1FFFFFFFFFF"
    unfolding pack_id_time [OF assms(2,3), of t i, symmetric] pack_id_time [OF assms(4,5), of t' i', symmetric] assms(1) ..
  then have t: "t AND mask 41 = t' AND mask 41" unfolding mask_lits .
  have "i AND 0xFFF = i' AND 0xFFF"
    unfolding pack_id_index [of t g m i, symmetric] pack_id_index [of t' g' m' i', symmetric] assms(1) ..
  then have i: "i AND mask 12 = i' AND mask 12" unfolding mask_lits .
  show ?thesis
    using t i unfolding less_mask_eq [OF assms(6)] less_mask_eq [OF assms(7)] less_mask_eq [OF assms(8)] less_mask_eq [OF assms(9)]
    by blast
qed


section \<open>Uniqueness\<close>

text \<open>A sequence of requests, each with its clock reading and module; \<open>None\<close> after a panic.\<close>

fun gen_ids :: "(u64 \<times> u64) list \<Rightarrow> id_gen \<Rightarrow> u64 list option" where
  "gen_ids [] gen = Some []"
| "gen_ids ((now, m) # rs) gen =
     (case NewID now m gen of
        (Panic _, _) \<Rightarrow> None
      | (Ret i, gen') \<Rightarrow> (case gen_ids rs gen' of None \<Rightarrow> None | Some is \<Rightarrow> Some (i # is)))"

text \<open>The clock does not go back and has not passed the year 2039, modules fit in four bits.\<close>

fun clock_ok :: "u64 \<Rightarrow> (u64 \<times> u64) list \<Rightarrow> bool" where
  "clock_ok t [] = True"
| "clock_ok t ((now, m) # rs) \<longleftrightarrow> t \<le> now div 1000000 \<and> now div 1000000 < 2 ^ 41 \<and> m < 16 \<and> clock_ok (now div 1000000) rs"

text \<open>An id later than the state \<open>(t, i)\<close> of the generator.\<close>

definition issued_after :: "u64 \<Rightarrow> u64 \<Rightarrow> u64 \<Rightarrow> u64 \<Rightarrow> bool" where
  "issued_after g t i x \<longleftrightarrow>
     (\<exists>t' m' i'. x = pack_id t' g m' i' \<and> m' < 16 \<and> t' < 2 ^ 41 \<and> i' < 2 ^ 12 \<and> (t < t' \<or> t = t' \<and> i < i'))"

lemma issued_after_trans:
  assumes "issued_after g t i x" and "t0 < t \<or> t0 = t \<and> i0 \<le> i"
  shows "issued_after g t0 i0 x"
proof -
  from assms(1) obtain t' m' i' where x: "x = pack_id t' g m' i'" "m' < 16" "t' < 2 ^ 41" "i' < 2 ^ 12" "t < t' \<or> t = t' \<and> i < i'"
    unfolding issued_after_def by blast
  from assms(2) x(5) have "t0 < t' \<or> t0 = t' \<and> i0 < i'" by auto
  with x show ?thesis unfolding issued_after_def by blast
qed

lemma index_step:
  assumes "(i :: u64) < 2 ^ 12" and "(i + 1) AND 0xFFF \<noteq> 0"
  shows "i < i + 1 \<and> i + 1 < 2 ^ 12"
proof -
  have l: "unat i < 2 ^ 12" using assms(1) by (simp add: word_less_nat_alt)
  then have u: "unat (i + 1) = unat i + 1" by (simp add: unat_word_ariths)
  have "unat (i + 1) \<noteq> 2 ^ 12"
  proof
    assume "unat (i + 1) = 2 ^ 12"
    then have "unat (i + 1) = unat (0x1000 :: u64)" by simp
    then have "i + 1 = 0x1000" by (simp only: word_unat_eq_iff)
    with assms(2) show False by simp
  qed
  with u l show ?thesis by (simp add: word_less_nat_alt)
qed

lemma NewID_Ret:
  assumes "NewID now m gen = (Ret x, gen')" and "Index gen < 2 ^ 12" and "Time gen \<le> now div 1000000"
    and "now div 1000000 < 2 ^ 41" and "m < 16"
  shows "x = pack_id (Time gen') (GenID gen) m (Index gen') \<and> GenID gen' = GenID gen \<and> Time gen' = now div 1000000 \<and>
    Index gen' < 2 ^ 12 \<and> (Time gen < Time gen' \<or> Time gen = Time gen' \<and> Index gen < Index gen')"
proof (cases "now div 1000000 = Time gen")
  case True
  with assms(1) have "gen' = gen\<lparr>Index := Index gen + 1\<rparr>" "(Index gen + 1) AND 0xFFF \<noteq> 0"
    "x = pack_id (Time gen) (GenID gen) m (Index gen + 1)"
    by (auto simp: NewID_def Let_def split: if_splits)
  with index_step [OF assms(2)] True show ?thesis by simp
next
  case False
  with assms(1) have "gen' = gen\<lparr>Time := now div 1000000, Index := 1\<rparr>" "x = pack_id (now div 1000000) (GenID gen) m 1"
    by (auto simp: NewID_def Let_def split: if_splits)
  with False assms(3) show ?thesis by auto
qed

lemma gen_ids_after:
  "gen_ids rs gen = Some ids \<Longrightarrow> clock_ok (Time gen) rs \<Longrightarrow> Index gen < 2 ^ 12 \<Longrightarrow> GenID gen < 16 \<Longrightarrow>
   (\<forall>x\<in>set ids. issued_after (GenID gen) (Time gen) (Index gen) x) \<and> distinct ids"
proof (induction rs gen arbitrary: ids rule: gen_ids.induct)
  case (2 now m rs gen)
  from 2(2) obtain x gen' xs where n: "NewID now m gen = (Ret x, gen')" and xs: "gen_ids rs gen' = Some xs" "ids = x # xs"
    by (auto split: prod.splits outcome.splits option.splits)
  from 2(3) have c: "Time gen \<le> now div 1000000" "now div 1000000 < 2 ^ 41" "m < 16" "clock_ok (now div 1000000) rs" by auto
  note N = NewID_Ret [OF n 2(4) c(1-3)]
  have IH: "\<forall>y\<in>set xs. issued_after (GenID gen) (Time gen') (Index gen') y" "distinct xs"
    using 2(1) [OF n [symmetric] refl xs(1)] N c(4) 2(5) by auto
  have x: "issued_after (GenID gen) (Time gen) (Index gen) x"
    unfolding issued_after_def using N c(2,3)
    by (rule_tac exI [of _ "Time gen'"], rule_tac exI [of _ m], rule_tac exI [of _ "Index gen'"]) simp
  have "x \<notin> set xs"
  proof
    assume "x \<in> set xs"
    with IH(1) obtain t' m' i' where y: "x = pack_id t' (GenID gen) m' i'" "m' < 16" "t' < 2 ^ 41" "i' < 2 ^ 12"
      "Time gen' < t' \<or> Time gen' = t' \<and> Index gen' < i'" unfolding issued_after_def by blast
    have "Time gen' = t' \<and> Index gen' = i'"
      by (rule pack_id_inj [of _ "GenID gen" m _ _ "GenID gen" m']) (use N y c 2(5) in simp_all)
    with y(5) show False by auto
  qed
  moreover have "issued_after (GenID gen) (Time gen) (Index gen) y" if "y \<in> set xs" for y
    by (rule issued_after_trans [of _ "Time gen'" "Index gen'"]) (use IH(1) that N in auto)
  ultimately show ?case using xs(2) x IH(2) by auto
qed simp

text \<open>
  C25. A generator whose instance number fits in four bits never issues an id twice: for any
  sequence of requests with a clock that does not run backwards, before the year 2039 and with
  module numbers below 16, in which no request panics, all ids are different.
\<close>

theorem NewID_distinct:
  assumes "gen_ids rs (NewIDGen g) = Some ids" and "clock_ok 0 rs" and "g < 16"
  shows "distinct ids"
  using gen_ids_after [OF assms(1)] assms(2,3) by (simp add: NewIDGen_def)

theorem NewID_distinct_witness:
  "\<exists>ids. gen_ids [(5000000, 1), (5000001, 1), (7000000, 2)] (NewIDGen 3) = Some ids \<and> distinct ids"
proof -
  obtain ids where i: "gen_ids [(5000000, 1), (5000001, 1), (7000000, 2)] (NewIDGen 3) = Some ids"
    by (simp add: NewIDGen_def NewID_def Let_def)
  have "clock_ok 0 [(5000000, 1), (5000001, 1), (7000000, 2)]" by simp
  from NewID_distinct [OF i this] i show ?thesis by simp
qed

text \<open>
  The mask of the instance number is too wide: the eight bits of \<^verbatim>\<open>GenID\<close> shifted by
  16 reach into the time field at bit 20, so the generators of two instances can issue the same
  id in the same millisecond, and the time read back from an id can be wrong.
\<close>

theorem GenID_overlaps_time:
  "fst (NewID 1000000 0 (NewIDGen 0x10)) = fst (NewID 1000000 0 (NewIDGen 0)) \<and>
   GetTimeFromId (pack_id 2992 0xF0 0 1) = 3 \<and> GetTimeFromId (pack_id 2992 0 0 1) = 2"
  by (simp add: NewID_def NewIDGen_def pack_id_def GetTimeFromId_def Let_def)

end
