(* ===== verification/Rpc_Node.thy ===== *)
theory Rpc_Node
  imports Rpc_Server Rpc_Client Watch_Config Id_Gen Util_Misc
begin

text \<open>
  The service node, \<^verbatim>\<open>rpc/rpc_node.go\<close>: the table of connections to the other nodes, which
  services they offer, and the routing of calls, messages and broadcasts. The global
  \<^verbatim>\<open>NodeIntance\<close> is the record \<open>node\<close>. A connection is an address in the heap
  \<open>conns\<close>, since the entry of a node and a caller share the client object; its content is the
  client of \<open>Rpc_Client\<close> together with the address it was dialled at. What a peer does with a
  call is the parameter \<open>peers\<close>: the calls of the client as its user sees them. Tasks given
  to \<^verbatim>\<open>util.Submit\<close> run on a pool at some later time; they are recorded in the order of
  submission.
\<close>

datatype 'm mock_val = MockMsg 'm | MockBytes bytes | MockNil

record 'm mock_rsp =
  mkRsp :: "'m mock_val"
  mkRet :: u16
  mkError :: "go_error option"

record node_conn =
  ncInfo :: node_info
  ncConn :: "nat option"
  ncClose :: bool

datatype ('m, 'd) node_task =
    TRun string
  | TExit string
  | TNodeConn string string
  | TNodeClose string string
  | TEvent string string "'d list"
  | TInternal "rpc_context option" string 'm
  | TRaw "rpc_context option" string bytes bool

record ('m, 'st, 'd) node =
  nodeId :: u64
  nodeName :: string
  nodeType :: string
  nodeServer :: "('m, 'st) rpc_server"
  Services :: "(string, ('m, 'st) receiver) gmap"
  RpcClient :: "(string, node_conn) gmap"
  conns :: "(nat, string \<times> (go_type, 'm) rpc_client) gmap"
  nextConn :: nat
  CmdService :: "(string, string) gmap"
  ServiceNode :: "(string, (string, bool) gmap) gmap"
  nodeRegion :: u32
  nodeSet :: string
  ExitTime :: int
  IDGen :: id_gen
  NodeData :: "('d, 'd) gmap"
  MockData :: "(string, 'm mock_rsp) gmap option"
  RpcCallBack :: bool
  NodeSelf :: node_info
  Tasks :: "('m, 'd) node_task list"

text \<open>
  The other end of the connections: dialling an address, and the five kinds of call on an open
  client.
\<close>

record ('m, 'w) peers =
  pDial :: "string \<Rightarrow> 'w \<Rightarrow> (go_error + bytes) \<times> 'w"
  pCall :: "string \<Rightarrow> rpc_context option \<Rightarrow> string \<Rightarrow> 'm \<Rightarrow> 'm \<Rightarrow> 'w \<Rightarrow> (u16 \<times> go_error option \<times> 'm) \<times> 'w"
  pRaw :: "string \<Rightarrow> rpc_context option \<Rightarrow> string \<Rightarrow> bytes \<Rightarrow> bool \<Rightarrow> 'w \<Rightarrow> (u16 \<times> (go_error + bytes)) outcome \<times> 'w"
  pSend :: "string \<Rightarrow> rpc_context option \<Rightarrow> string \<Rightarrow> 'm \<Rightarrow> 'w \<Rightarrow> 'w"
  pRawSend :: "string \<Rightarrow> rpc_context option \<Rightarrow> string \<Rightarrow> bytes \<Rightarrow> bool \<Rightarrow> 'w \<Rightarrow> 'w"

text \<open>The iteration orders of the maps that the operations range over.\<close>

record ('m, 'st) node_orders =
  oServices :: "(string, ('m, 'st) receiver) gorder"
  oClients :: "(string, node_conn) gorder"
  oNames :: "(string, bool) gorder"
  oFound :: "(string, nat) gorder"

definition node_orders_ok :: "('m, 'st) node_orders \<Rightarrow> bool" where
  "node_orders_ok Q \<longleftrightarrow>
     range_order (oServices Q) \<and> range_order (oClients Q) \<and> range_order (oNames Q) \<and> range_order (oFound Q)"

type_synonym ('m, 'st, 'd, 'w) nstate = "('m, 'st, 'd) node \<times> 'w"

definition submit :: "('m, 'd) node_task \<Rightarrow> ('m, 'st, 'd) node \<Rightarrow> ('m, 'st, 'd) node" where
  "submit t n = n\<lparr>Tasks := Tasks n @ [t]\<rparr>"

definition submit_all :: "('m, 'st) node_orders \<Rightarrow> (string \<Rightarrow> ('m, 'd) node_task) \<Rightarrow> ('m, 'st, 'd) node \<Rightarrow> ('m, 'st, 'd) node" where
  "submit_all Q t n = n\<lparr>Tasks := Tasks n @ map (\<lambda>(s, _). t s) (oServices Q (Services n))\<rparr>"


section \<open>Addresses and connections\<close>

definition getNodeAddress :: "u32 \<Rightarrow> string \<Rightarrow> u32 \<Rightarrow> string outcome" where
  "getNodeAddress own nodeAddr region =
     (let arr = Split CHR '':'' nodeAddr; arr1 = Split CHR ''/'' (arr ! 0) in
      if length arr1 = 1 then Ret nodeAddr
      else out_bind (index_at arr1 (if region \<noteq> own then 1 else 0)) (\<lambda>host.
           out_bind (index_at arr 1) (\<lambda>port. Ret (colon host port))))"

definition Sprint_cmd :: "string \<Rightarrow> u16 \<Rightarrow> string" where
  "Sprint_cmd t cmd = t @ ''.'' @ FormatUint (unat cmd)"

definition AddServiceMethod :: "string \<Rightarrow> u16 \<Rightarrow> string \<Rightarrow> ('m, 'st, 'd) node \<Rightarrow> ('m, 'st, 'd) node" where
  "AddServiceMethod ntype cmd serviceMethod n =
     n\<lparr>CmdService := gmap_set (Sprint_cmd [] cmd) serviceMethod
        (gmap_set (Sprint_cmd ntype cmd) serviceMethod (CmdService n))\<rparr>"

definition FindServiceMethod :: "string \<Rightarrow> u16 \<Rightarrow> ('m, 'st, 'd) node \<Rightarrow> string" where
  "FindServiceMethod ntype cmd n =
     (case map_of (CmdService n) (Sprint_cmd ntype cmd) of None \<Rightarrow> [] | Some s \<Rightarrow> s)"

text \<open>The loop over the services of a node, under the mutex.\<close>

definition add_service :: "node_info \<Rightarrow> service_info \<Rightarrow> ('m, 'st, 'd) node \<Rightarrow> ('m, 'st, 'd) node" where
  "add_service info server n =
     (let names = (case map_of (ServiceNode n) (sName server) of None \<Rightarrow> [] | Some s \<Rightarrow> s);
          n1 = n\<lparr>ServiceNode := gmap_set (sName server) (gmap_set (nName info) True names) (ServiceNode n)\<rparr>
      in fold (\<lambda>f. AddServiceMethod (nType info) (fCmd f) (sName server @ ''.'' @ fName f)) (sFunc server) n1)"

text \<open>Keeping a dialled client on the heap.\<close>

definition new_conn :: "string \<Rightarrow> (go_type, 'm) rpc_client \<Rightarrow> ('m, 'st, 'd) node \<Rightarrow> nat \<times> ('m, 'st, 'd) node" where
  "new_conn address c n =
     (nextConn n, n\<lparr>conns := gmap_set (nextConn n) (address, c) (conns n), nextConn := Suc (nextConn n)\<rparr>)"

definition connectNode :: "('m, 'w) peers \<Rightarrow> ('m, 'st) node_orders \<Rightarrow> node_info \<Rightarrow> ('m, 'st, 'd, 'w) nstate \<Rightarrow> unit outcome \<times> ('m, 'st, 'd, 'w) nstate" where
  "connectNode D Q info nw =
     (let (n, w) = nw in
      if nName info = nodeName n then (Ret (), nw)
      else case getNodeAddress (nodeRegion n) (nAddress info) (nRegion info) of
        Panic e \<Rightarrow> (Panic e, nw)
      | Ret address \<Rightarrow>
          (case pDial D address w of
             (dialled, w1) \<Rightarrow>
               let (context, n1) =
                     (case Dial dialled [WithName (nName info) True] of
                        Inl err \<Rightarrow> (None, n)
                      | Inr c \<Rightarrow> map_prod Some id (new_conn address (c\<lparr>Region := nRegion info\<rparr>) n));
                   isClose = (context = None);
                   n2 = fold (add_service info) (nService info) n1;
                   n3 = n2\<lparr>RpcClient := gmap_set (nName info) \<lparr>ncInfo = info, ncConn = context, ncClose = isClose\<rparr> (RpcClient n2)\<rparr>
               in (Ret (), (if isClose then n3 else submit_all Q (\<lambda>s. TNodeConn s (nName info)) n3, w1))))"

text \<open>
  \<^verbatim>\<open>getNode\<close> dials again when the client is missing or closed. The new client has no name, no
  callback and no region.
\<close>

definition client_of :: "('m, 'st, 'd) node \<Rightarrow> nat \<Rightarrow> (go_type, 'm) rpc_client option" where
  "client_of n c = map_option snd (map_of (conns n) c)"

definition usable :: "('m, 'st, 'd) node \<Rightarrow> nat option \<Rightarrow> bool" where
  "usable n c = (case c of None \<Rightarrow> False | Some a \<Rightarrow> (case client_of n a of None \<Rightarrow> False | Some cl \<Rightarrow> \<not> IsClose cl))"

definition getNode :: "('m, 'w) peers \<Rightarrow> string \<Rightarrow> ('m, 'st, 'd, 'w) nstate \<Rightarrow> nat option outcome \<times> ('m, 'st, 'd, 'w) nstate" where
  "getNode D name nw =
     (let (n, w) = nw in
      case map_of (RpcClient n) name of
        None \<Rightarrow> (Ret None, nw)
      | Some nc \<Rightarrow>
          if usable n (ncConn nc) then (Ret (ncConn nc), nw)
          else case getNodeAddress (nodeRegion n) (nAddress (ncInfo nc)) (nRegion (ncInfo nc)) of
            Panic e \<Rightarrow> (Panic e, nw)
          | Ret address \<Rightarrow>
              (case pDial D address w of
                 (dialled, w1) \<Rightarrow>
                   (case Dial dialled [] of
                      Inl err \<Rightarrow> (Ret None, (n, w1))
                    | Inr c \<Rightarrow>
                        (case new_conn address c n of
                           (a, n1) \<Rightarrow> (Ret (Some a), (n1\<lparr>RpcClient := gmap_set name (nc\<lparr>ncConn := Some a\<rparr>) (RpcClient n1)\<rparr>, w1))))))"

definition GetNode :: "('m, 'w) peers \<Rightarrow> string \<Rightarrow> ('m, 'st, 'd, 'w) nstate \<Rightarrow> nat option outcome \<times> ('m, 'st, 'd, 'w) nstate" where
  "GetNode D name nw = getNode D name nw"

fun find_conns :: "('m, 'w) peers \<Rightarrow> string list \<Rightarrow> (string, nat) gmap \<Rightarrow> ('m, 'st, 'd, 'w) nstate \<Rightarrow> (string, nat) gmap outcome \<times> ('m, 'st, 'd, 'w) nstate" where
  "find_conns D [] m nw = (Ret m, nw)"
| "find_conns D (k # ks) m nw =
     (case getNode D k nw of
        (Panic e, nw1) \<Rightarrow> (Panic e, nw1)
      | (Ret None, nw1) \<Rightarrow> find_conns D ks m nw1
      | (Ret (Some a), nw1) \<Rightarrow> find_conns D ks (gmap_set k a m) nw1)"

definition FindRpcConnByService :: "('m, 'w) peers \<Rightarrow> ('m, 'st) node_orders \<Rightarrow> string \<Rightarrow> ('m, 'st, 'd, 'w) nstate \<Rightarrow> (string, nat) gmap outcome \<times> ('m, 'st, 'd, 'w) nstate" where
  "FindRpcConnByService D Q serviceName nw =
     (case map_of (ServiceNode (fst nw)) serviceName of
        None \<Rightarrow> (Ret [], nw)
      | Some names \<Rightarrow> find_conns D (map fst (oNames Q names)) [] nw)"

text \<open>The loop of \<^verbatim>\<open>getClient\<close>: the first client, and the first of the own region.\<close>

definition region_of :: "('m, 'st, 'd) node \<Rightarrow> nat \<Rightarrow> u32" where
  "region_of n a = (case client_of n a of None \<Rightarrow> 0 | Some c \<Rightarrow> Region c)"

fun choose_client :: "('m, 'st, 'd) node \<Rightarrow> nat list \<Rightarrow> nat option \<Rightarrow> nat option \<Rightarrow> nat option" where
  "choose_client n [] client client2 = (case client of None \<Rightarrow> client2 | Some c \<Rightarrow> Some c)"
| "choose_client n (c # cs) client client2 =
     choose_client n cs
       (if client = None \<and> nodeRegion n = region_of n c then Some c else client)
       (if client2 = None then Some c else client2)"

definition getClient :: "('m, 'w) peers \<Rightarrow> ('m, 'st) node_orders \<Rightarrow> string \<Rightarrow> ('m, 'st, 'd, 'w) nstate \<Rightarrow> nat option outcome \<times> ('m, 'st, 'd, 'w) nstate" where
  "getClient D Q serviceName nw =
     (case FindRpcConnByService D Q serviceName nw of
        (Panic e, nw1) \<Rightarrow> (Panic e, nw1)
      | (Ret clients, nw1) \<Rightarrow>
          (Ret (if clients = [] then None else choose_client (fst nw1) (map snd (oFound Q clients)) None None), nw1))"


section \<open>Mock answers\<close>

definition InitMock :: "('m, 'st, 'd) node \<Rightarrow> ('m, 'st, 'd) node" where
  "InitMock n = n\<lparr>MockData := Some []\<rparr>"

text \<open>Storing into the nil map panics.\<close>

definition InsertMock :: "string \<Rightarrow> 'm mock_rsp \<Rightarrow> ('m, 'st, 'd) node \<Rightarrow> ('m, 'st, 'd) node outcome" where
  "InsertMock serviceMethon rsp n =
     (case MockData n of
        None \<Rightarrow> Panic ''assignment to entry in nil map''
      | Some m \<Rightarrow> Ret (n\<lparr>MockData := Some (gmap_set serviceMethon rsp m)\<rparr>))"

definition callMock :: "string \<Rightarrow> ('m, 'st, 'd) node \<Rightarrow> 'm mock_rsp option" where
  "callMock serviceMethon n = (case MockData n of None \<Rightarrow> None | Some m \<Rightarrow> map_of m serviceMethon)"

definition RemoveMock :: "('m, 'st, 'd) node \<Rightarrow> ('m, 'st, 'd) node" where
  "RemoveMock n = n\<lparr>MockData := None\<rparr>"

text \<open>
  The answer of a mock for a call with messages goes through the encoding into the caller's
  message, of type \<open>t\<close>; for the calls with bytes it is the stored slice. Another type panics.
\<close>

definition mock_msg :: "(go_type, 'm) pb_lib \<Rightarrow> 'm reflect_lib \<Rightarrow> go_type \<Rightarrow> 'm mock_rsp \<Rightarrow> (u16 \<times> go_error option \<times> 'm) outcome" where
  "mock_msg P L t mk =
     (case mkRsp mk of
        MockMsg m \<Rightarrow>
          let buff = (case Marshal P m of Inl _ \<Rightarrow> [] | Inr b \<Rightarrow> b) in
          Ret (mkRet mk, mkError mk, (case Unmarshal P t buff of Inl _ \<Rightarrow> partial L False t buff | Inr r \<Rightarrow> r))
      | _ \<Rightarrow> Panic ''interface conversion'')"

type_synonym raw_result = "u16 \<times> bytes \<times> go_error option"

definition mock_raw :: "'m mock_rsp \<Rightarrow> raw_result outcome" where
  "mock_raw mk = (case mkRsp mk of MockBytes b \<Rightarrow> Ret (mkRet mk, b, mkError mk) | _ \<Rightarrow> Panic ''interface conversion'')"

fun raw3 :: "(u16 \<times> (go_error + bytes)) outcome \<Rightarrow> raw_result outcome" where
  "raw3 (Panic e) = Panic e"
| "raw3 (Ret (rc, Inl e)) = Ret (rc, [], Some e)"
| "raw3 (Ret (rc, Inr b)) = Ret (rc, b, None)"


section \<open>Calls on a connection and on the own server\<close>

text \<open>A client that has been closed meanwhile fails every call with \<^verbatim>\<open>ErrShutdown\<close>.\<close>

definition on_conn :: "nat \<Rightarrow> ('m, 'st, 'd, 'w) nstate \<Rightarrow> 'a \<Rightarrow> (string \<Rightarrow> 'w \<Rightarrow> 'a \<times> 'w) \<Rightarrow> 'a \<times> ('m, 'st, 'd, 'w) nstate" where
  "on_conn c nw closed f =
     (case map_of (conns (fst nw)) c of
        None \<Rightarrow> (closed, nw)
      | Some (address, cl) \<Rightarrow>
          if IsClose cl then (closed, nw) else (case f address (snd nw) of (r, w1) \<Rightarrow> (r, (fst nw, w1))))"

definition conn_Call :: "('m, 'w) peers \<Rightarrow> nat \<Rightarrow> rpc_context option \<Rightarrow> string \<Rightarrow> 'm \<Rightarrow> 'm \<Rightarrow> ('m, 'st, 'd, 'w) nstate \<Rightarrow> (u16 \<times> go_error option \<times> 'm) outcome \<times> ('m, 'st, 'd, 'w) nstate" where
  "conn_Call D c ctx sm req rsp nw =
     on_conn c nw (Ret (0, Some ErrShutdown, rsp)) (\<lambda>a w. apfst Ret (pCall D a ctx sm req rsp w))"

definition conn_Raw :: "('m, 'w) peers \<Rightarrow> nat \<Rightarrow> rpc_context option \<Rightarrow> string \<Rightarrow> bytes \<Rightarrow> bool \<Rightarrow> ('m, 'st, 'd, 'w) nstate \<Rightarrow> raw_result outcome \<times> ('m, 'st, 'd, 'w) nstate" where
  "conn_Raw D c ctx sm b js nw =
     on_conn c nw (Ret (0, [], Some ErrShutdown)) (\<lambda>a w. apfst raw3 (pRaw D a ctx sm b js w))"

definition conn_Send :: "('m, 'w) peers \<Rightarrow> nat \<Rightarrow> rpc_context option \<Rightarrow> string \<Rightarrow> 'm \<Rightarrow> ('m, 'st, 'd, 'w) nstate \<Rightarrow> ('m, 'st, 'd, 'w) nstate" where
  "conn_Send D c ctx sm req nw = snd (on_conn c nw () (\<lambda>a w. ((), pSend D a ctx sm req w)))"

definition conn_RawSend :: "('m, 'w) peers \<Rightarrow> nat \<Rightarrow> rpc_context option \<Rightarrow> string \<Rightarrow> bytes \<Rightarrow> bool \<Rightarrow> ('m, 'st, 'd, 'w) nstate \<Rightarrow> ('m, 'st, 'd, 'w) nstate" where
  "conn_RawSend D c ctx sm b js nw = snd (on_conn c nw () (\<lambda>a w. ((), pRawSend D a ctx sm b js w)))"

definition own_call :: "(go_type, 'm) pb_lib \<Rightarrow> rpc_context option \<Rightarrow> string \<Rightarrow> 'm \<Rightarrow> 'm option \<Rightarrow> ('m, 'st, 'd, 'w) nstate \<Rightarrow> (u16 \<times> go_error option \<times> 'm) outcome \<times> ('m, 'st, 'd, 'w) nstate" where
  "own_call P ctx sm req rsp nw =
     (case InternalCall P ctx sm req rsp (nodeServer (fst nw)) of
        (r, server) \<Rightarrow> (r, ((fst nw)\<lparr>nodeServer := server\<rparr>, snd nw)))"

definition own_raw :: "(go_type, 'm) pb_lib \<Rightarrow> 'm reflect_lib \<Rightarrow> rpc_context option \<Rightarrow> string \<Rightarrow> bytes \<Rightarrow> bool \<Rightarrow> ('m, 'st, 'd, 'w) nstate \<Rightarrow> raw_result outcome \<times> ('m, 'st, 'd, 'w) nstate" where
  "own_raw P L ctx sm b js nw =
     (case server_RawCall P L ctx sm b js (nodeServer (fst nw)) of
        (r, server) \<Rightarrow> (raw3 r, ((fst nw)\<lparr>nodeServer := server\<rparr>, snd nw)))"

text \<open>A submitted call when the pool runs it; its result is dropped and a panic is caught by the pool.\<close>

definition run_task :: "(go_type, 'm) pb_lib \<Rightarrow> 'm reflect_lib \<Rightarrow> ('m, 'd) node_task \<Rightarrow> ('m, 'st, 'd, 'w) nstate \<Rightarrow> ('m, 'st, 'd, 'w) nstate" where
  "run_task P L t nw =
     (case t of
        TInternal ctx sm req \<Rightarrow> snd (own_call P ctx sm req None nw)
      | TRaw ctx sm b js \<Rightarrow> snd (own_raw P L ctx sm b js nw)
      | _ \<Rightarrow> nw)"

definition EmptyContext :: "rpc_context option" where
  "EmptyContext =
     Some \<lparr>GateName = [], Remote = ''empty'', ctxId = 0, Token = [], Uid = 0, Nodes = [], CallId = 0, Game = [],
           Kvs = Map.empty, Ps = Map.empty\<rparr>"


section \<open>Calls to a named node\<close>

text \<open>
  The common part of the six functions: a mock answers first, then the own server for the own
  name, then the connection to the node.
\<close>

datatype 'm node_route = NMock "'m mock_rsp" | NSelf | NConn nat | NNone

definition node_route :: "('m, 'w) peers \<Rightarrow> string \<Rightarrow> string \<Rightarrow> ('m, 'st, 'd, 'w) nstate \<Rightarrow> 'm node_route outcome \<times> ('m, 'st, 'd, 'w) nstate" where
  "node_route D name sm nw =
     (case callMock sm (fst nw) of
        Some mk \<Rightarrow> (Ret (NMock mk), nw)
      | None \<Rightarrow>
          if name = nodeName (fst nw) then (Ret NSelf, nw)
          else (case GetNode D name nw of
                  (Panic e, nw1) \<Rightarrow> (Panic e, nw1)
                | (Ret None, nw1) \<Rightarrow> (Ret NNone, nw1)
                | (Ret (Some c), nw1) \<Rightarrow> (Ret (NConn c), nw1)))"

definition not_exists :: "string \<Rightarrow> string \<Rightarrow> go_error" where
  "not_exists kind name = GoErr (kind @ name @ '' not exists'')"

text \<open>\<^verbatim>\<open>context.GateName\<close> panics for a nil context.\<close>

definition gate_gone :: "rpc_context option \<Rightarrow> go_error outcome" where
  "gate_gone ctx = (case ctx of None \<Rightarrow> Panic ''nil pointer dereference'' | Some c \<Rightarrow> Ret (not_exists ''gate node '' (GateName c)))"

definition NodeCall :: "(go_type, 'm) pb_lib \<Rightarrow> 'm reflect_lib \<Rightarrow> ('m, 'w) peers \<Rightarrow> string \<Rightarrow> string \<Rightarrow> 'm \<Rightarrow> go_type \<Rightarrow> 'm \<Rightarrow> ('m, 'st, 'd, 'w) nstate \<Rightarrow> (u16 \<times> go_error option \<times> 'm) outcome \<times> ('m, 'st, 'd, 'w) nstate" where
  "NodeCall P L D name sm req t rsp nw =
     (case node_route D name sm nw of
        (Panic e, nw1) \<Rightarrow> (Panic e, nw1)
      | (Ret (NMock mk), nw1) \<Rightarrow> (mock_msg P L t mk, nw1)
      | (Ret NSelf, nw1) \<Rightarrow> own_call P EmptyContext sm req (Some rsp) nw1
      | (Ret (NConn c), nw1) \<Rightarrow> conn_Call D c EmptyContext sm req rsp nw1
      | (Ret NNone, nw1) \<Rightarrow> (Ret (1, Some (not_exists ''node '' name), rsp), nw1))"

definition NodeJsonCallWithConn :: "(go_type, 'm) pb_lib \<Rightarrow> 'm reflect_lib \<Rightarrow> ('m, 'w) peers \<Rightarrow> rpc_context option \<Rightarrow> string \<Rightarrow> string \<Rightarrow> bytes \<Rightarrow> ('m, 'st, 'd, 'w) nstate \<Rightarrow> raw_result outcome \<times> ('m, 'st, 'd, 'w) nstate" where
  "NodeJsonCallWithConn P L D ctx name sm b nw =
     (case node_route D name sm nw of
        (Panic e, nw1) \<Rightarrow> (Panic e, nw1)
      | (Ret (NMock mk), nw1) \<Rightarrow> (mock_raw mk, nw1)
      | (Ret NSelf, nw1) \<Rightarrow> own_raw P L ctx sm b True nw1
      | (Ret (NConn c), nw1) \<Rightarrow> conn_Raw D c ctx sm b True nw1
      | (Ret NNone, nw1) \<Rightarrow> (Ret (1, [], Some (not_exists ''node '' name)), nw1))"

definition NodeRawCallWithConn :: "(go_type, 'm) pb_lib \<Rightarrow> 'm reflect_lib \<Rightarrow> ('m, 'w) peers \<Rightarrow> rpc_context option \<Rightarrow> string \<Rightarrow> string \<Rightarrow> bytes \<Rightarrow> ('m, 'st, 'd, 'w) nstate \<Rightarrow> raw_result outcome \<times> ('m, 'st, 'd, 'w) nstate" where
  "NodeRawCallWithConn P L D ctx name sm b nw =
     (case node_route D name sm nw of
        (Panic e, nw1) \<Rightarrow> (Panic e, nw1)
      | (Ret (NMock mk), nw1) \<Rightarrow> (mock_raw mk, nw1)
      | (Ret NSelf, nw1) \<Rightarrow> own_raw P L ctx sm b False nw1
      | (Ret (NConn c), nw1) \<Rightarrow> conn_Raw D c ctx sm b False nw1
      | (Ret NNone, nw1) \<Rightarrow> (Ret (1, [], Some (not_exists ''node '' name)), nw1))"

definition NodeSend :: "('m, 'w) peers \<Rightarrow> string \<Rightarrow> string \<Rightarrow> 'm \<Rightarrow> ('m, 'st, 'd, 'w) nstate \<Rightarrow> go_error option outcome \<times> ('m, 'st, 'd, 'w) nstate" where
  "NodeSend D name sm req nw =
     (case node_route D name sm nw of
        (Panic e, nw1) \<Rightarrow> (Panic e, nw1)
      | (Ret (NMock mk), nw1) \<Rightarrow> (Ret (mkError mk), nw1)
      | (Ret NSelf, nw1) \<Rightarrow> (Ret None, apfst (submit (TInternal EmptyContext sm req)) nw1)
      | (Ret (NConn c), nw1) \<Rightarrow> (Ret None, conn_Send D c EmptyContext sm req nw1)
      | (Ret NNone, nw1) \<Rightarrow> (Ret (Some (not_exists ''node '' name)), nw1))"

definition NodeCallWithConn :: "(go_type, 'm) pb_lib \<Rightarrow> 'm reflect_lib \<Rightarrow> ('m, 'w) peers \<Rightarrow> rpc_context option \<Rightarrow> string \<Rightarrow> string \<Rightarrow> 'm \<Rightarrow> go_type \<Rightarrow> 'm \<Rightarrow> ('m, 'st, 'd, 'w) nstate \<Rightarrow> (u16 \<times> go_error option \<times> 'm) outcome \<times> ('m, 'st, 'd, 'w) nstate" where
  "NodeCallWithConn P L D ctx name sm req t rsp nw =
     (case node_route D name sm nw of
        (Panic e, nw1) \<Rightarrow> (Panic e, nw1)
      | (Ret (NMock mk), nw1) \<Rightarrow> (mock_msg P L t mk, nw1)
      | (Ret NSelf, nw1) \<Rightarrow> own_call P ctx sm req (Some rsp) nw1
      | (Ret (NConn c), nw1) \<Rightarrow> conn_Call D c ctx sm req rsp nw1
      | (Ret NNone, nw1) \<Rightarrow> (out_bind (gate_gone ctx) (\<lambda>e. Ret (1, Some e, rsp)), nw1))"

definition NodeSendWithConn :: "('m, 'w) peers \<Rightarrow> rpc_context option \<Rightarrow> string \<Rightarrow> string \<Rightarrow> 'm \<Rightarrow> ('m, 'st, 'd, 'w) nstate \<Rightarrow> go_error option outcome \<times> ('m, 'st, 'd, 'w) nstate" where
  "NodeSendWithConn D ctx name sm req nw =
     (case node_route D name sm nw of
        (Panic e, nw1) \<Rightarrow> (Panic e, nw1)
      | (Ret (NMock mk), nw1) \<Rightarrow> (Ret (mkError mk), nw1)
      | (Ret NSelf, nw1) \<Rightarrow> (Ret None, apfst (submit (TInternal ctx sm req)) nw1)
      | (Ret (NConn c), nw1) \<Rightarrow> (Ret None, conn_Send D c ctx sm req nw1)
      | (Ret NNone, nw1) \<Rightarrow> (out_bind (gate_gone ctx) (\<lambda>e. Ret (Some e)), nw1))"


section \<open>Calls to a service\<close>

text \<open>
  The common part of the six functions: a mock, then the routes of the context, then the own
  services, then a node that offers the service.
\<close>

datatype 'm svc_route = RMock "'m mock_rsp" | RGone string | RConn nat | ROwn | RNone

definition svc_route :: "('m, 'w) peers \<Rightarrow> ('m, 'st) node_orders \<Rightarrow> rpc_context option \<Rightarrow> string \<Rightarrow> ('m, 'st, 'd, 'w) nstate \<Rightarrow> 'm svc_route outcome \<times> ('m, 'st, 'd, 'w) nstate" where
  "svc_route D Q ctx sm nw =
     (case callMock sm (fst nw) of
        Some mk \<Rightarrow> (Ret (RMock mk), nw)
      | None \<Rightarrow>
          let serviceName = fst (splitServiceMethod sm) in
          (case ctx of
             None \<Rightarrow> (Panic ''nil pointer dereference'', nw)
           | Some c \<Rightarrow>
               (case find (\<lambda>x. serviceName = ServiceName x) (Nodes c) of
                  Some x \<Rightarrow>
                    (case getNode D (NodeName x) nw of
                       (Panic e, nw1) \<Rightarrow> (Panic e, nw1)
                     | (Ret None, nw1) \<Rightarrow> (Ret (RGone (NodeName x)), nw1)
                     | (Ret (Some a), nw1) \<Rightarrow> (Ret (RConn a), nw1))
                | None \<Rightarrow>
                    if map_of (Services (fst nw)) serviceName \<noteq> None then (Ret ROwn, nw)
                    else
                      (case getClient D Q serviceName nw of
                         (Panic e, nw1) \<Rightarrow> (Panic e, nw1)
                       | (Ret None, nw1) \<Rightarrow> (Ret RNone, nw1)
                       | (Ret (Some a), nw1) \<Rightarrow> (Ret (RConn a), nw1)))))"

definition gone :: "string \<Rightarrow> go_error" where
  "gone name = GoErr (''node['' @ name @ ''] not exist'')"

definition unsupported :: go_error where
  "unsupported = GoErr ''not support node rpc''"

definition node_Call :: "(go_type, 'm) pb_lib \<Rightarrow> 'm reflect_lib \<Rightarrow> ('m, 'w) peers \<Rightarrow> ('m, 'st) node_orders \<Rightarrow> rpc_context option \<Rightarrow> string \<Rightarrow> 'm \<Rightarrow> go_type \<Rightarrow> 'm \<Rightarrow> ('m, 'st, 'd, 'w) nstate \<Rightarrow> (u16 \<times> go_error option \<times> 'm) outcome \<times> ('m, 'st, 'd, 'w) nstate" where
  "node_Call P L D Q ctx sm req t rsp nw =
     (case svc_route D Q ctx sm nw of
        (Panic e, nw1) \<Rightarrow> (Panic e, nw1)
      | (Ret (RMock mk), nw1) \<Rightarrow> (mock_msg P L t mk, nw1)
      | (Ret (RGone name), nw1) \<Rightarrow> (Ret (1, Some (gone name), rsp), nw1)
      | (Ret (RConn c), nw1) \<Rightarrow> conn_Call D c ctx sm req rsp nw1
      | (Ret ROwn, nw1) \<Rightarrow> own_call P ctx sm req (Some rsp) nw1
      | (Ret RNone, nw1) \<Rightarrow> (Ret (1, Some (GoErr ''Call not support node rpc''), rsp), nw1))"

definition node_Send :: "('m, 'w) peers \<Rightarrow> ('m, 'st) node_orders \<Rightarrow> rpc_context option \<Rightarrow> string \<Rightarrow> 'm \<Rightarrow> ('m, 'st, 'd, 'w) nstate \<Rightarrow> go_error option outcome \<times> ('m, 'st, 'd, 'w) nstate" where
  "node_Send D Q ctx sm req nw =
     (case svc_route D Q ctx sm nw of
        (Panic e, nw1) \<Rightarrow> (Panic e, nw1)
      | (Ret (RMock mk), nw1) \<Rightarrow> (Ret (mkError mk), nw1)
      | (Ret (RGone name), nw1) \<Rightarrow> (Ret (Some (gone name)), nw1)
      | (Ret (RConn c), nw1) \<Rightarrow> (Ret None, conn_Send D c ctx sm req nw1)
      | (Ret ROwn, nw1) \<Rightarrow> (Ret None, apfst (submit (TInternal ctx sm req)) nw1)
      | (Ret RNone, nw1) \<Rightarrow> (Ret (Some unsupported), nw1))"

definition raw_call :: "bool \<Rightarrow> (go_type, 'm) pb_lib \<Rightarrow> 'm reflect_lib \<Rightarrow> ('m, 'w) peers \<Rightarrow> ('m, 'st) node_orders \<Rightarrow> rpc_context option \<Rightarrow> string \<Rightarrow> bytes \<Rightarrow> ('m, 'st, 'd, 'w) nstate \<Rightarrow> raw_result outcome \<times> ('m, 'st, 'd, 'w) nstate" where
  "raw_call js P L D Q ctx sm b nw =
     (case svc_route D Q ctx sm nw of
        (Panic e, nw1) \<Rightarrow> (Panic e, nw1)
      | (Ret (RMock mk), nw1) \<Rightarrow> (mock_raw mk, nw1)
      | (Ret (RGone name), nw1) \<Rightarrow> (Ret (1, [], Some (gone name)), nw1)
      | (Ret (RConn c), nw1) \<Rightarrow> conn_Raw D c ctx sm b js nw1
      | (Ret ROwn, nw1) \<Rightarrow> own_raw P L ctx sm b js nw1
      | (Ret RNone, nw1) \<Rightarrow> (Ret (1, [], Some unsupported), nw1))"

definition node_JsonCall :: "(go_type, 'm) pb_lib \<Rightarrow> 'm reflect_lib \<Rightarrow> ('m, 'w) peers \<Rightarrow> ('m, 'st) node_orders \<Rightarrow> rpc_context option \<Rightarrow> string \<Rightarrow> bytes \<Rightarrow> ('m, 'st, 'd, 'w) nstate \<Rightarrow> raw_result outcome \<times> ('m, 'st, 'd, 'w) nstate" where
  "node_JsonCall = raw_call True"

definition node_RawCall :: "(go_type, 'm) pb_lib \<Rightarrow> 'm reflect_lib \<Rightarrow> ('m, 'w) peers \<Rightarrow> ('m, 'st) node_orders \<Rightarrow> rpc_context option \<Rightarrow> string \<Rightarrow> bytes \<Rightarrow> ('m, 'st, 'd, 'w) nstate \<Rightarrow> raw_result outcome \<times> ('m, 'st, 'd, 'w) nstate" where
  "node_RawCall = raw_call False"

definition raw_send :: "bool \<Rightarrow> ('m, 'w) peers \<Rightarrow> ('m, 'st) node_orders \<Rightarrow> rpc_context option \<Rightarrow> string \<Rightarrow> bytes \<Rightarrow> ('m, 'st, 'd, 'w) nstate \<Rightarrow> go_error option outcome \<times> ('m, 'st, 'd, 'w) nstate" where
  "raw_send js D Q ctx sm b nw =
     (case svc_route D Q ctx sm nw of
        (Panic e, nw1) \<Rightarrow> (Panic e, nw1)
      | (Ret (RMock mk), nw1) \<Rightarrow> (Ret (mkError mk), nw1)
      | (Ret (RGone name), nw1) \<Rightarrow> (Ret (Some (gone name)), nw1)
      | (Ret (RConn c), nw1) \<Rightarrow> (Ret None, conn_RawSend D c ctx sm b js nw1)
      | (Ret ROwn, nw1) \<Rightarrow> (Ret None, apfst (submit (TRaw ctx sm b js)) nw1)
      | (Ret RNone, nw1) \<Rightarrow> (Ret (Some unsupported), nw1))"

definition node_JsonSend :: "('m, 'w) peers \<Rightarrow> ('m, 'st) node_orders \<Rightarrow> rpc_context option \<Rightarrow> string \<Rightarrow> bytes \<Rightarrow> ('m, 'st, 'd, 'w) nstate \<Rightarrow> go_error option outcome \<times> ('m, 'st, 'd, 'w) nstate" where
  "node_JsonSend = raw_send True"

definition node_RawSend :: "('m, 'w) peers \<Rightarrow> ('m, 'st) node_orders \<Rightarrow> rpc_context option \<Rightarrow> string \<Rightarrow> bytes \<Rightarrow> ('m, 'st, 'd, 'w) nstate \<Rightarrow> go_error option outcome \<times> ('m, 'st, 'd, 'w) nstate" where
  "node_RawSend = raw_send False"


section \<open>Broadcasts\<close>

fun send_each :: "('m, 'w) peers \<Rightarrow> string \<Rightarrow> 'm \<Rightarrow> (string \<times> nat) list \<Rightarrow> ('m, 'st, 'd, 'w) nstate \<Rightarrow> ('m, 'st, 'd, 'w) nstate" where
  "send_each D sm req [] nw = nw"
| "send_each D sm req ((name, c) # cs) nw =
     send_each D sm req cs (if name = nodeName (fst nw) then nw else conn_Send D c EmptyContext sm req nw)"

definition Broadcast :: "('m, 'w) peers \<Rightarrow> ('m, 'st) node_orders \<Rightarrow> string \<Rightarrow> 'm \<Rightarrow> ('m, 'st, 'd, 'w) nstate \<Rightarrow> go_error option outcome \<times> ('m, 'st, 'd, 'w) nstate" where
  "Broadcast D Q sm req nw =
     (case callMock sm (fst nw) of
        Some mk \<Rightarrow> (Ret (mkError mk), nw)
      | None \<Rightarrow>
          let serviceName = fst (splitServiceMethod sm);
              nw1 = (if map_of (Services (fst nw)) serviceName \<noteq> None then apfst (submit (TInternal EmptyContext sm req)) nw else nw)
          in (case FindRpcConnByService D Q serviceName nw1 of
                (Panic e, nw2) \<Rightarrow> (Panic e, nw2)
              | (Ret clients, nw2) \<Rightarrow>
                  (Ret None, if length clients = 0 then nw2 else send_each D sm req (oFound Q clients) nw2)))"

fun call_each :: "('m, 'w) peers \<Rightarrow> string \<Rightarrow> 'm \<Rightarrow> (string \<Rightarrow> bool) \<Rightarrow> (string \<times> nat) list \<Rightarrow> 'm \<Rightarrow> ('m, 'st, 'd, 'w) nstate \<Rightarrow> 'm outcome \<times> ('m, 'st, 'd, 'w) nstate" where
  "call_each D sm req f [] rsp nw = (Ret rsp, nw)"
| "call_each D sm req f ((name, c) # cs) rsp nw =
     (if name = nodeName (fst nw) then call_each D sm req f cs rsp nw
      else case conn_Call D c EmptyContext sm req rsp nw of
             (Panic e, nw1) \<Rightarrow> (Panic e, nw1)
           | (Ret (_, _, rsp1), nw1) \<Rightarrow> if f name then call_each D sm req f cs rsp1 nw1 else (Ret rsp1, nw1))"

text \<open>The result is the return code, the error and the caller's message after the last call.\<close>

definition call_others :: "('m, 'w) peers \<Rightarrow> ('m, 'st) node_orders \<Rightarrow> string \<Rightarrow> 'm \<Rightarrow> (string \<Rightarrow> bool) \<Rightarrow> 'm \<Rightarrow> ('m, 'st, 'd, 'w) nstate \<Rightarrow> (u16 \<times> go_error option \<times> 'm) outcome \<times> ('m, 'st, 'd, 'w) nstate" where
  "call_others D Q sm req f rsp nw =
     (case FindRpcConnByService D Q (fst (splitServiceMethod sm)) nw of
        (Panic e, nw2) \<Rightarrow> (Panic e, nw2)
      | (Ret clients, nw2) \<Rightarrow>
          if length clients = 0 then (Ret (0, None, rsp), nw2)
          else (case call_each D sm req f (oFound Q clients) rsp nw2 of
                  (r, nw3) \<Rightarrow> (out_bind r (\<lambda>rsp'. Ret (0, None, rsp')), nw3)))"

definition BroadcastCall :: "(go_type, 'm) pb_lib \<Rightarrow> ('m, 'w) peers \<Rightarrow> ('m, 'st) node_orders \<Rightarrow> string \<Rightarrow> 'm \<Rightarrow> 'm \<Rightarrow> (string \<Rightarrow> bool) \<Rightarrow> ('m, 'st, 'd, 'w) nstate \<Rightarrow> (u16 \<times> go_error option \<times> 'm) outcome \<times> ('m, 'st, 'd, 'w) nstate" where
  "BroadcastCall P D Q sm req rsp f nw =
     (case callMock sm (fst nw) of
        Some mk \<Rightarrow> (Ret (mkRet mk, mkError mk, rsp), nw)
      | None \<Rightarrow>
          if map_of (Services (fst nw)) (fst (splitServiceMethod sm)) \<noteq> None then
            (case own_call P EmptyContext sm req (Some rsp) nw of
               (Panic e, nw1) \<Rightarrow> (Panic e, nw1)
             | (Ret (_, _, rsp1), nw1) \<Rightarrow>
                 if f (nodeName (fst nw1)) then call_others D Q sm req f rsp1 nw1 else (Ret (0, None, rsp1), nw1))
          else call_others D Q sm req f rsp nw)"


section \<open>Nodes that come and go\<close>

definition RegisterService :: "string \<Rightarrow> ('m, 'st) receiver \<Rightarrow> ('m, 'st, 'd) node \<Rightarrow> ('m, 'st, 'd) node" where
  "RegisterService serviceName service n = n\<lparr>Services := gmap_set serviceName service (Services n)\<rparr>"

definition close_conn :: "nat \<Rightarrow> ('m, 'st, 'd) node \<Rightarrow> ('m, 'st, 'd) node" where
  "close_conn a n =
     (case map_of (conns n) a of
        None \<Rightarrow> n
      | Some (address, c) \<Rightarrow> n\<lparr>conns := gmap_set a (address, fst (Close c)) (conns n)\<rparr>)"

definition WatchNodeRegister ::
  "('m, 'w) peers \<Rightarrow> ('m, 'st) node_orders \<Rightarrow> node_info json \<Rightarrow> 'v net \<Rightarrow> string \<Rightarrow> string \<Rightarrow>
   ('m, 'st, 'd, 'w) nstate \<times> 'cb watch_client \<times> 'v \<Rightarrow> unit outcome \<times> ('m, 'st, 'd, 'w) nstate \<times> 'cb watch_client \<times> 'v" where
  "WatchNodeRegister D Q J net k v s =
     (let (nw, cw) = s; n = fst nw in
      if v = [] then
        (case map_of (RpcClient n) k of
           None \<Rightarrow> (Ret (), nw, cw)
         | Some nc \<Rightarrow>
             let n1 = (case ncConn nc of None \<Rightarrow> n | Some a \<Rightarrow> close_conn a n)
             in (Ret (), (n1\<lparr>RpcClient := gmap_del k (RpcClient n1)\<rparr>, snd nw), cw))
      else
        (case GetRegisterNode J net k (nodeSet n) cw of
           Panic e \<Rightarrow> (Panic e, nw, cw)
         | Ret (None, cw1) \<Rightarrow> (Ret (), nw, cw1)
         | Ret (Some info, cw1) \<Rightarrow>
             if nSet info = [] \<or> nSet info = nodeSet n
             then (case connectNode D Q info nw of (r, nw1) \<Rightarrow> (r, nw1, cw1))
             else (Ret (), nw, cw1)))"

text \<open>Called by the reader of a client that was closed, with the name the client was given.\<close>

definition CloseCallback :: "('m, 'st) node_orders \<Rightarrow> string \<Rightarrow> ('m, 'st, 'd) node \<Rightarrow> ('m, 'st, 'd) node" where
  "CloseCallback Q name n =
     submit_all Q (\<lambda>s. TNodeClose s name) (n\<lparr>RpcClient := gmap_del name (RpcClient n)\<rparr>)"

text \<open>\<^verbatim>\<open>RangeNode\<close>: the function has a state of its own and says whether to go on.\<close>

fun range_until :: "('a \<Rightarrow> 's \<Rightarrow> bool \<times> 's) \<Rightarrow> 'a list \<Rightarrow> 's \<Rightarrow> 's" where
  "range_until f [] s = s"
| "range_until f (x # xs) s = (case f x s of (go, s') \<Rightarrow> if go then range_until f xs s' else s')"

definition RangeNode :: "('m, 'st) node_orders \<Rightarrow> (node_conn \<Rightarrow> 's \<Rightarrow> bool \<times> 's) \<Rightarrow> ('m, 'st, 'd) node \<Rightarrow> 's \<Rightarrow> 's" where
  "RangeNode Q f n s = range_until (\<lambda>kv. f (snd kv)) (oClients Q (RpcClient n)) s"

definition QueryNodeStatus :: "('m, 'st) node_orders \<Rightarrow> ('m, 'st, 'd) node \<Rightarrow> node_conn list" where
  "QueryNodeStatus Q n =
     RangeNode Q (\<lambda>nc cs. (True, cs @ [\<lparr>ncInfo =
         \<lparr>nId = nId (ncInfo nc), nName = nName (ncInfo nc), nType = [], nAddress = nAddress (ncInfo nc),
          nService = [], nRegion = 0, nSet = []\<rparr>, ncConn = None, ncClose = ncClose nc\<rparr>])) n []"

definition NewId :: "u64 \<Rightarrow> u64 \<Rightarrow> ('m, 'st, 'd) node \<Rightarrow> u64 outcome \<times> ('m, 'st, 'd) node" where
  "NewId now moduleId n = (case NewID now moduleId (IDGen n) of (r, g) \<Rightarrow> (r, n\<lparr>IDGen := g\<rparr>))"

definition GetData :: "'d \<Rightarrow> 'd \<Rightarrow> ('m, 'st, 'd) node \<Rightarrow> 'd \<times> ('m, 'st, 'd) node" where
  "GetData key def n =
     (case map_of (NodeData n) key of
        Some v \<Rightarrow> (v, n)
      | None \<Rightarrow> (def, n\<lparr>NodeData := gmap_set key def (NodeData n)\<rparr>))"

definition DelData :: "'d \<Rightarrow> ('m, 'st, 'd) node \<Rightarrow> ('m, 'st, 'd) node" where
  "DelData key n = n\<lparr>NodeData := gmap_del key (NodeData n)\<rparr>"

definition SubmitEvent :: "('m, 'st) node_orders \<Rightarrow> string \<Rightarrow> string \<Rightarrow> 'd list \<Rightarrow> ('m, 'st, 'd) node \<Rightarrow> ('m, 'st, 'd) node" where
  "SubmitEvent Q serviceName eventName args n =
     (if serviceName \<noteq> [] \<and> map_of (Services n) serviceName \<noteq> None then submit (TEvent serviceName eventName args) n
      else submit_all Q (\<lambda>s. TEvent s eventName args) n)"


section \<open>Start and exit\<close>

record node_config =
  cfgId :: u64
  cfgNodename :: string
  cfgNodetype :: string
  cfgSet :: string
  cfgHost :: string
  cfgPort :: int
  cfgRegion :: u32
  cfgCmds :: "(string, int) gmap"

definition SetExitTime :: "int \<Rightarrow> ('m, 'st, 'd) node \<Rightarrow> ('m, 'st, 'd) node" where
  "SetExitTime d n = n\<lparr>ExitTime := d\<rparr>"

definition RegisterRpcCallBack :: "bool \<Rightarrow> ('m, 'st, 'd) node \<Rightarrow> ('m, 'st, 'd) node" where
  "RegisterRpcCallBack cb n = n\<lparr>RpcCallBack := cb\<rparr>"

text \<open>The error of a registration is dropped; \<^verbatim>\<open>Run\<close> of each service is submitted.\<close>

definition init_service :: "(string \<Rightarrow> bool) \<Rightarrow> string \<times> ('m, 'st) receiver \<Rightarrow> ('m, 'st, 'd) node \<Rightarrow> ('m, 'st, 'd) node" where
  "init_service upper sv n =
     submit (TRun (fst sv)) (n\<lparr>nodeServer := fst (RegisterName upper (fst sv) (snd sv) (nodeServer n))\<rparr>)"

definition InitNode :: "(string \<Rightarrow> bool) \<Rightarrow> ('m, 'st) node_orders \<Rightarrow> node_config \<Rightarrow> ('m, 'st, 'd) node \<Rightarrow> ('m, 'st, 'd) node" where
  "InitNode upper Q config n =
     (let n1 = n\<lparr>nodeId := cfgId config, nodeName := cfgNodename config, nodeType := cfgNodetype config, ExitTime := 1,
                nodeRegion := cfgRegion config, nodeSet := cfgSet config, ServiceNode := [],
                nodeServer := (NewServer (appState (nodeServer n)))\<lparr>hasCallBack := RpcCallBack n\<rparr>\<rparr>;
          n2 = fold (init_service upper) (oServices Q (Services n1)) n1
      in n2\<lparr>IDGen := NewIDGen (cfgId config),
           NodeSelf := \<lparr>nId = cfgId config, nName = nodeName n2, nType = cfgNodetype config,
             nAddress = colon (cfgHost config) (Itoa (cfgPort config)), nService = [],
             nRegion = cfgRegion config, nSet = cfgSet config\<rparr>\<rparr>)"

text \<open>The first task of \<^verbatim>\<open>InitNode\<close>: collect the functions of the services and register the node.\<close>

definition cmd_functions :: "(u16, string) gorder \<Rightarrow> (string, int) gorder \<Rightarrow> (string, int) gmap \<Rightarrow> string \<Rightarrow> ('m, 'st) receiver \<Rightarrow> function_info list" where
  "cmd_functions ordU ordC cmds serviceName value =
     (if length cmds = 0 then
        map (\<lambda>(k1, v1). \<lparr>fName = v1, fCmd = k1\<rparr>) (ordU (ExportServiceFunction (map mName (MethodSet value)) []))
      else
        concat (map (\<lambda>(k1, v1).
          let arr = Split CHR ''_'' k1 in
          if length arr \<noteq> 2 then [] else if serviceName \<noteq> arr ! 0 then []
          else [\<lparr>fName = arr ! 1, fCmd = word_of_int v1\<rparr>]) (ordC cmds)))"

definition publish_service :: "(u16, string) gorder \<Rightarrow> (string, int) gorder \<Rightarrow> (string, int) gmap \<Rightarrow> string \<times> ('m, 'st) receiver \<Rightarrow> ('m, 'st, 'd) node \<Rightarrow> ('m, 'st, 'd) node" where
  "publish_service ordU ordC cmds sv n =
     (let fs = cmd_functions ordU ordC cmds (fst sv) (snd sv);
          n1 = fold (\<lambda>f. AddServiceMethod (nType (NodeSelf n)) (fCmd f) (fst sv @ ''.'' @ fName f)) fs n
      in n1\<lparr>NodeSelf := (NodeSelf n1)\<lparr>nService := nService (NodeSelf n1) @ [\<lparr>sName = fst sv, sFunc = fs\<rparr>]\<rparr>\<rparr>)"

definition init_register ::
  "('m, 'st) node_orders \<Rightarrow> (u16, string) gorder \<Rightarrow> (string, int) gorder \<Rightarrow> node_info json \<Rightarrow> 'v net \<Rightarrow> node_config \<Rightarrow>
   ('m, 'st, 'd) node \<times> 'cb watch_client \<times> 'v \<Rightarrow> (('m, 'st, 'd) node \<times> 'cb watch_client \<times> 'v) outcome" where
  "init_register Q ordU ordC J net config s =
     (let n = fold (publish_service ordU ordC (cfgCmds config)) (oServices Q (Services (fst s))) (fst s)
      in out_bind (RegisterNode J net (NodeSelf n) (snd s)) (\<lambda>cw. Ret (n, cw)))"

text \<open>The second task: connect to the nodes of the global set and of the own set.\<close>

fun connect_each :: "('m, 'w) peers \<Rightarrow> ('m, 'st) node_orders \<Rightarrow> string \<Rightarrow> (string \<times> node_info) list \<Rightarrow> ('m, 'st, 'd, 'w) nstate \<Rightarrow> unit outcome \<times> ('m, 'st, 'd, 'w) nstate" where
  "connect_each D Q st [] nw = (Ret (), nw)"
| "connect_each D Q st ((k, v) # vs) nw =
     (if nSet v \<noteq> [] \<and> nSet v \<noteq> st then connect_each D Q st vs nw
      else case connectNode D Q v nw of
             (Panic e, nw1) \<Rightarrow> (Panic e, nw1)
           | (Ret _, nw1) \<Rightarrow> connect_each D Q st vs nw1)"

definition pull_set ::
  "('m, 'w) peers \<Rightarrow> ('m, 'st) node_orders \<Rightarrow> (string, node_info) gorder \<Rightarrow> node_info json \<Rightarrow> 'v net \<Rightarrow> node_config \<Rightarrow> string \<Rightarrow>
   ('m, 'st, 'd, 'w) nstate \<times> 'cb watch_client \<times> 'v \<Rightarrow> unit outcome \<times> ('m, 'st, 'd, 'w) nstate \<times> 'cb watch_client \<times> 'v" where
  "pull_set D Q ordN J net config grp s =
     (case GetAllRegisterNode J net grp (snd s) of
        Panic e \<Rightarrow> (Panic e, s)
      | Ret (nodes, cw) \<Rightarrow> (case connect_each D Q (cfgSet config) (ordN nodes) (fst s) of (r, nw) \<Rightarrow> (r, nw, cw)))"

definition init_pull ::
  "('m, 'w) peers \<Rightarrow> ('m, 'st) node_orders \<Rightarrow> (string, node_info) gorder \<Rightarrow> node_info json \<Rightarrow> 'v net \<Rightarrow> node_config \<Rightarrow>
   ('m, 'st, 'd, 'w) nstate \<times> 'cb watch_client \<times> 'v \<Rightarrow> unit outcome \<times> ('m, 'st, 'd, 'w) nstate \<times> 'cb watch_client \<times> 'v" where
  "init_pull D Q ordN J net config s =
     (case pull_set D Q ordN J net config [] s of
        (Panic e, s1) \<Rightarrow> (Panic e, s1)
      | (Ret _, s1) \<Rightarrow> pull_set D Q ordN J net config (nodeSet (fst (fst s1))) s1)"

text \<open>The task that waits for the signal: leave the register, then stop the services.\<close>

definition handleExit :: "('m, 'st) node_orders \<Rightarrow> 'v net \<Rightarrow> ('m, 'st, 'd) node \<times> 'cb watch_client \<times> 'v \<Rightarrow> (('m, 'st, 'd) node \<times> 'cb watch_client \<times> 'v) outcome" where
  "handleExit Q net s =
     out_bind (DelRegisterNode net (NodeSelf (fst s)) (snd s)) (\<lambda>cw. Ret (submit_all Q TExit (fst s), cw))"

end
