(* ===== verification/Gnet_Gate.thy ===== *)
theory Gnet_Gate
  imports Gnet_Message Rpc_Node
begin

text \<open>
  The gate, \<^verbatim>\<open>gnet/connect.go\<close>: it numbers the client connections, reads their messages, lets
  the interceptors look at them, forwards them to the service registered for the command and sends
  the answers back. Connections live on a heap \<open>gConns\<close>, since the tables, the reader and the
  submitted tasks share them; \<open>ccIn\<close> is what the client will still send and \<open>ccOut\<close> what
  has been written to it. The interceptors are functions of the application: they may change the
  connection, the message and a state of their own.
\<close>

record client_conn =
  ccContext :: rpc_context
  ccUid :: string
  ccCommonNode :: string
  ccGameNode :: string
  ccTimer :: int
  ccApp :: string
  ccMask :: u8
  ccRpcClient :: "nat option"
  ccKey :: bytes
  ccIn :: bytes
  ccOut :: bytes
  ccClosed :: bool
  ccLive :: bool

type_synonym 's new_func = "client_conn \<Rightarrow> 's \<Rightarrow> go_error option \<times> client_conn \<times> 's"
type_synonym 's req_func = "client_conn \<Rightarrow> gate_request \<Rightarrow> 's \<Rightarrow> u16 \<times> client_conn \<times> gate_request \<times> 's"
type_synonym 's rsp_func =
  "client_conn \<Rightarrow> gate_request \<Rightarrow> bytes \<Rightarrow> u16 \<Rightarrow> go_error option \<Rightarrow> 's \<Rightarrow> client_conn \<times> gate_request \<times> 's"

text \<open>The tasks given to the pool: a message to write, and a forwarded call.\<close>

datatype gate_task = GSend nat gate_request | GCall nat gate_request string

record ('m, 'st, 'd, 'w, 's) gater =
  IDCounter :: u64
  Ids :: "(u64, nat) gmap"
  Uids :: "('d, nat) gmap"
  SyncCall :: bool
  Count :: u32
  NewFuncs :: "'s new_func list"
  ReqFuncs :: "'s req_func list"
  RspFuncs :: "'s rsp_func list"
  DelFuncs :: "'s new_func list"
  gConns :: "(nat, client_conn) gmap"
  gNext :: nat
  gTasks :: "gate_task list"
  gNode :: "('m, 'st, 'd, 'w) nstate"
  gUser :: 's

record ('m, 'st, 'w) gate_env =
  eP :: "(go_type, 'm) pb_lib"
  eL :: "'m reflect_lib"
  eD :: "('m, 'w) peers"
  eQ :: "('m, 'st) node_orders"
  eAes :: block_lib

definition NewGater :: "bool \<Rightarrow> (('m, 'st, 'd, 'w, 's) gater \<Rightarrow> ('m, 'st, 'd, 'w, 's) gater) list \<Rightarrow> ('m, 'st, 'd, 'w) nstate \<Rightarrow> 's \<Rightarrow> ('m, 'st, 'd, 'w, 's) gater" where
  "NewGater syncCall options nw s =
     fold (\<lambda>opt g. opt g) options
       \<lparr>IDCounter = 1, Ids = [], Uids = [], SyncCall = syncCall, Count = 0, NewFuncs = [], ReqFuncs = [], RspFuncs = [],
        DelFuncs = [], gConns = [], gNext = 0, gTasks = [], gNode = nw, gUser = s\<rparr>"

definition RegisterNewFuncs :: "'s new_func \<Rightarrow> ('m, 'st, 'd, 'w, 's) gater \<Rightarrow> ('m, 'st, 'd, 'w, 's) gater" where
  "RegisterNewFuncs f g = g\<lparr>NewFuncs := NewFuncs g @ [f]\<rparr>"

definition RegisterReqFuncs :: "'s req_func \<Rightarrow> ('m, 'st, 'd, 'w, 's) gater \<Rightarrow> ('m, 'st, 'd, 'w, 's) gater" where
  "RegisterReqFuncs f g = g\<lparr>ReqFuncs := ReqFuncs g @ [f]\<rparr>"

definition RegisterRspFuncs :: "'s rsp_func \<Rightarrow> ('m, 'st, 'd, 'w, 's) gater \<Rightarrow> ('m, 'st, 'd, 'w, 's) gater" where
  "RegisterRspFuncs f g = g\<lparr>RspFuncs := RspFuncs g @ [f]\<rparr>"

definition RegisterDelFuncs :: "'s new_func \<Rightarrow> ('m, 'st, 'd, 'w, 's) gater \<Rightarrow> ('m, 'st, 'd, 'w, 's) gater" where
  "RegisterDelFuncs f g = g\<lparr>DelFuncs := DelFuncs g @ [f]\<rparr>"


section \<open>Numbering the connections\<close>

text \<open>The loop ends with the first number that is not in use; it may not end.\<close>

definition conn_id :: "u64 \<Rightarrow> u64 \<Rightarrow> u64" where
  "conn_id nid c = (c AND 0xFFFFFFFF) OR push_bit 32 (nid AND 0xFFFF)"

partial_function (option) newID_loop :: "u64 \<Rightarrow> (u64 \<Rightarrow> bool) \<Rightarrow> u64 \<Rightarrow> (u64 \<times> u64) option" where
  "newID_loop nid taken c =
     (if taken (conn_id nid (c + 1)) then newID_loop nid taken (c + 1) else Some (conn_id nid (c + 1), c + 1))"

declare newID_loop.simps [code]

definition gater_newID :: "('m, 'st, 'd, 'w, 's) gater \<Rightarrow> (u64 \<times> ('m, 'st, 'd, 'w, 's) gater) option" where
  "gater_newID g =
     map_option (\<lambda>(i, c). (i, g\<lparr>IDCounter := c\<rparr>))
       (newID_loop (nodeId (fst (gNode g))) (\<lambda>i. map_of (Ids g) i \<noteq> None) (IDCounter g))"

definition conn_at :: "('m, 'st, 'd, 'w, 's) gater \<Rightarrow> nat \<Rightarrow> client_conn option" where
  "conn_at g a = map_of (gConns g) a"

definition GetConnByUid :: "'d \<Rightarrow> ('m, 'st, 'd, 'w, 's) gater \<Rightarrow> nat option" where
  "GetConnByUid uid g = map_of (Uids g) uid"

definition GetConnByID :: "u64 \<Rightarrow> ('m, 'st, 'd, 'w, 's) gater \<Rightarrow> nat option" where
  "GetConnByID i g = map_of (Ids g) i"

definition GetCount :: "('m, 'st, 'd, 'w, 's) gater \<Rightarrow> u32" where
  "GetCount g = Count g"

definition fresh_conn :: "string \<Rightarrow> u64 \<Rightarrow> string \<Rightarrow> bytes \<Rightarrow> client_conn" where
  "fresh_conn remote i gate inp =
     \<lparr>ccContext = \<lparr>GateName = gate, Remote = remote, ctxId = i, Token = [], Uid = 0, Nodes = [], CallId = 0, Game = [],
                   Kvs = Map.empty, Ps = Map.empty\<rparr>,
      ccUid = [], ccCommonNode = [], ccGameNode = [], ccTimer = 30, ccApp = [], ccMask = 0, ccRpcClient = None, ccKey = [],
      ccIn = inp, ccOut = [], ccClosed = False, ccLive = True\<rparr>"

definition NewClientConn :: "string \<Rightarrow> bytes \<Rightarrow> ('m, 'st, 'd, 'w, 's) gater \<Rightarrow> (nat \<times> ('m, 'st, 'd, 'w, 's) gater) option" where
  "NewClientConn remote rwc g =
     map_option (\<lambda>(i, g1).
       (gNext g1, g1\<lparr>Count := Count g1 + 1, Ids := gmap_set i (gNext g1) (Ids g1),
          gConns := gmap_set (gNext g1) (fresh_conn remote i (nodeName (fst (gNode g1))) rwc) (gConns g1),
          gNext := Suc (gNext g1)\<rparr>)) (gater_newID g)"

definition DelClientConn :: "client_conn \<Rightarrow> ('m, 'st, 'd, 'w, 's) gater \<Rightarrow> ('m, 'st, 'd, 'w, 's) gater" where
  "DelClientConn conn g = g\<lparr>Count := Count g - 1, Ids := gmap_del (ctxId (ccContext conn)) (Ids g)\<rparr>"

definition upd_conn :: "nat \<Rightarrow> (client_conn \<Rightarrow> client_conn) \<Rightarrow> ('m, 'st, 'd, 'w, 's) gater \<Rightarrow> ('m, 'st, 'd, 'w, 's) gater" where
  "upd_conn a f g = (case conn_at g a of None \<Rightarrow> g | Some c \<Rightarrow> g\<lparr>gConns := gmap_set a (f c) (gConns g)\<rparr>)"


section \<open>Sending\<close>

definition SendMessage :: "nat \<Rightarrow> gate_request \<Rightarrow> ('m, 'st, 'd, 'w, 's) gater \<Rightarrow> ('m, 'st, 'd, 'w, 's) gater" where
  "SendMessage a msg g =
     (case conn_at g a of
        None \<Rightarrow> g
      | Some conn \<Rightarrow> g\<lparr>gTasks := gTasks g @ [GSend a (msg\<lparr>gApp := ccApp conn, gMask := ccMask conn\<rparr>)]\<rparr>)"

text \<open>\<^verbatim>\<open>Write\<close> on the connection: it fails once it is closed, and \<open>broken\<close> is the network's answer otherwise.\<close>

definition rwc_Write :: "go_error option \<Rightarrow> bytes \<Rightarrow> client_conn \<Rightarrow> go_error option \<times> client_conn" where
  "rwc_Write broken b conn =
     (if ccClosed conn then (Some (GoErr ''use of closed network connection''), conn)
      else case broken of Some e \<Rightarrow> (Some e, conn) | None \<Rightarrow> (None, conn\<lparr>ccOut := ccOut conn @ b\<rparr>))"

text \<open>
  Closing: the reader may still have the next \<open>k\<close> bytes in its buffer.
\<close>

definition close_rwc :: "nat \<Rightarrow> client_conn \<Rightarrow> client_conn" where
  "close_rwc k conn = conn\<lparr>ccClosed := True, ccIn := take k (ccIn conn)\<rparr>"

definition run_send :: "block_lib \<Rightarrow> go_error option \<Rightarrow> nat \<Rightarrow> nat \<Rightarrow> gate_request \<Rightarrow> ('m, 'st, 'd, 'w, 's) gater \<Rightarrow> ('m, 'st, 'd, 'w, 's) gater" where
  "run_send aes broken k a msg g =
     upd_conn a (\<lambda>conn.
       case WriteMessageWithKey aes (rwc_Write broken) msg (ccKey conn) conn of
         (Panic e, conn1) \<Rightarrow> conn1
       | (Ret (Some err), conn1) \<Rightarrow> close_rwc k conn1
       | (Ret None, conn1) \<Rightarrow> if gDisconn msg then close_rwc k conn1 else conn1) g"


section \<open>Forwarding a message\<close>

definition reply_message :: "gate_request \<Rightarrow> u16 \<Rightarrow> bytes \<Rightarrow> gate_request" where
  "reply_message msg rc buff = empty_request\<lparr>gCmd := gCmd msg, gSeq := gSeq msg, gRet := rc, gBuff := buff\<rparr>"

fun run_rsp :: "'s rsp_func list \<Rightarrow> bytes \<Rightarrow> u16 \<Rightarrow> go_error option \<Rightarrow> client_conn \<times> gate_request \<times> 's \<Rightarrow> client_conn \<times> gate_request \<times> 's" where
  "run_rsp [] buff rc err x = x"
| "run_rsp (v # vs) buff rc err (conn, msg, s) = run_rsp vs buff rc err (v conn msg buff rc err s)"

definition rpc_of_message ::
  "('m, 'st, 'w) gate_env \<Rightarrow> rpc_context \<Rightarrow> gate_request \<Rightarrow> string \<Rightarrow> ('m, 'st, 'd, 'w) nstate \<Rightarrow> raw_result outcome \<times> ('m, 'st, 'd, 'w) nstate" where
  "rpc_of_message E rpcConn msg serverMethod nw =
     (if gNodeName msg \<noteq> [] then
        if isJson msg then NodeJsonCallWithConn (eP E) (eL E) (eD E) (Some rpcConn) (gNodeName msg) serverMethod (gBuff msg) nw
        else NodeRawCallWithConn (eP E) (eL E) (eD E) (Some rpcConn) (gNodeName msg) serverMethod (gBuff msg) nw
      else
        if isJson msg then node_JsonCall (eP E) (eL E) (eD E) (eQ E) (Some rpcConn) serverMethod (gBuff msg) nw
        else node_RawCall (eP E) (eL E) (eD E) (eQ E) (Some rpcConn) serverMethod (gBuff msg) nw)"

text \<open>The closure \<^verbatim>\<open>f\<close>: call, let the interceptors see the answer, send it. A panic ends it.\<close>

definition forward :: "('m, 'st, 'w) gate_env \<Rightarrow> u64 \<Rightarrow> nat \<Rightarrow> gate_request \<Rightarrow> string \<Rightarrow> ('m, 'st, 'd, 'w, 's) gater \<Rightarrow> unit outcome \<times> ('m, 'st, 'd, 'w, 's) gater" where
  "forward E now a msg serverMethod g =
     (case conn_at g a of
        None \<Rightarrow> (Ret (), g)
      | Some conn \<Rightarrow>
          (case NewId now 0 (fst (gNode g)) of
             (Panic e, n) \<Rightarrow> (Panic e, g\<lparr>gNode := (n, snd (gNode g))\<rparr>)
           | (Ret i, n) \<Rightarrow>
               (case rpc_of_message E ((ccContext conn)\<lparr>CallId := i, Game := gApp msg\<rparr>) msg serverMethod (n, snd (gNode g)) of
                  (Panic e, nw) \<Rightarrow> (Panic e, g\<lparr>gNode := nw\<rparr>)
                | (Ret (rc, rspBuff, retErr), nw) \<Rightarrow>
                    let rc' = (if retErr \<noteq> None \<and> rc = 0 then 1 else rc);
                        (conn1, msg1, s1) = run_rsp (RspFuncs g) rspBuff rc' retErr (conn, msg, gUser g);
                        g1 = upd_conn a (\<lambda>_. conn1) (g\<lparr>gNode := nw, gUser := s1\<rparr>)
                    in (Ret (), SendMessage a (reply_message msg1 rc' rspBuff) g1))))"

text \<open>The checks of the application name; the first message decides about the connection.\<close>

definition accept_app :: "client_conn \<Rightarrow> gate_request \<Rightarrow> client_conn option" where
  "accept_app conn msg =
     (if gApp msg = [] then None
      else if ccApp conn \<noteq> [] \<and> ccApp conn \<noteq> gApp msg then None
      else if ccApp conn = [] then
        Some (conn\<lparr>ccApp := gApp msg, ccMask := gMask msg,
               ccContext := (ccContext conn)\<lparr>Ps := [''isJson'' \<mapsto> (if isJson msg then 1 else 0)]\<rparr>\<rparr>)
      else Some conn)"

text \<open>The interceptors of requests: the first one that returns a code other than 0 stops the message.\<close>

fun run_req :: "'s req_func list \<Rightarrow> client_conn \<times> gate_request \<times> 's \<Rightarrow> u16 \<times> client_conn \<times> gate_request \<times> 's" where
  "run_req [] x = (0, x)"
| "run_req (v # vs) (conn, msg, s) =
     (case v conn msg s of (rc, x) \<Rightarrow> if rc \<noteq> 0 then (rc, x) else run_req vs x)"

definition handle_message :: "('m, 'st, 'w) gate_env \<Rightarrow> u64 \<Rightarrow> nat \<Rightarrow> gate_request \<Rightarrow> client_conn \<Rightarrow> ('m, 'st, 'd, 'w, 's) gater \<Rightarrow> unit outcome \<times> ('m, 'st, 'd, 'w, 's) gater" where
  "handle_message E now a msg conn g =
     (case accept_app conn msg of
        None \<Rightarrow> (Ret (), SendMessage a (reply_message msg 1 []) g)
      | Some conn1 \<Rightarrow>
          (case run_req (ReqFuncs g) (conn1, msg, gUser g) of
             (rc, conn2, msg2, s2) \<Rightarrow>
               if rc \<noteq> 0 then (Ret (), SendMessage a (reply_message msg2 rc []) (upd_conn a (\<lambda>_. conn2) (g\<lparr>gUser := s2\<rparr>)))
               else
                 let g3 = upd_conn a (\<lambda>_. conn2\<lparr>ccTimer := 120\<rparr>) (g\<lparr>gUser := s2\<rparr>);
                     serverMethod = FindServiceMethod (gNodeType msg2) (gCmd msg2) (fst (gNode g3))
                 in if serverMethod \<noteq> [] then
                      if SyncCall g3 then forward E now a msg2 serverMethod g3
                      else (Ret (), g3\<lparr>gTasks := gTasks g3 @ [GCall a msg2 serverMethod]\<rparr>)
                    else (Ret (), SendMessage a (reply_message msg2 2 []) g3)))"


section \<open>The life of a connection\<close>

fun run_new :: "'s new_func list \<Rightarrow> client_conn \<times> 's \<Rightarrow> go_error option \<times> client_conn \<times> 's" where
  "run_new [] x = (None, x)"
| "run_new (v # vs) (conn, s) = (case v conn s of (Some err, x) \<Rightarrow> (Some err, x) | (None, x) \<Rightarrow> run_new vs x)"

text \<open>The interceptors of a closed connection all run, whatever they return.\<close>

fun run_del :: "'s new_func list \<Rightarrow> client_conn \<times> 's \<Rightarrow> client_conn \<times> 's" where
  "run_del [] x = x"
| "run_del (v # vs) (conn, s) = run_del vs (snd (v conn s))"

definition exit_conn :: "nat \<Rightarrow> ('m, 'st, 'd, 'w, 's) gater \<Rightarrow> ('m, 'st, 'd, 'w, 's) gater" where
  "exit_conn a g =
     (case conn_at g a of
        None \<Rightarrow> g
      | Some conn \<Rightarrow>
          let g1 = DelClientConn conn g;
              (conn1, s1) = run_del (DelFuncs g1) (conn\<lparr>ccClosed := True\<rparr>, gUser g1)
          in upd_conn a (\<lambda>_. conn1\<lparr>ccLive := False\<rparr>) (g1\<lparr>gUser := s1\<rparr>))"

definition open_conn :: "string \<Rightarrow> bytes \<Rightarrow> ('m, 'st, 'd, 'w, 's) gater \<Rightarrow> (nat \<times> ('m, 'st, 'd, 'w, 's) gater) option" where
  "open_conn remote rwc g =
     map_option (\<lambda>(a, g1).
       case conn_at g1 a of
         None \<Rightarrow> (a, g1)
       | Some conn \<Rightarrow>
           (case run_new (NewFuncs g1) (conn, gUser g1) of
              (err, conn1, s1) \<Rightarrow>
                let g2 = upd_conn a (\<lambda>_. conn1) (g1\<lparr>gUser := s1\<rparr>)
                in (a, if err \<noteq> None then exit_conn a g2 else g2)))
       (NewClientConn (Split CHR '':'' remote ! 0) rwc g)"

text \<open>One round of the reading loop. A read error or a panic leaves the loop.\<close>

definition handle_iter :: "('m, 'st, 'w) gate_env \<Rightarrow> u64 \<Rightarrow> nat \<Rightarrow> ('m, 'st, 'd, 'w, 's) gater \<Rightarrow> ('m, 'st, 'd, 'w, 's) gater" where
  "handle_iter E now a g =
     (case conn_at g a of
        None \<Rightarrow> g
      | Some conn \<Rightarrow>
          (case ReadMessageWithKey (eAes E) (ccKey conn) (ccIn conn) of
             (Ret (Inr msg), r) \<Rightarrow>
               (case handle_message E now a msg (conn\<lparr>ccIn := r\<rparr>) (upd_conn a (\<lambda>_. conn\<lparr>ccIn := r\<rparr>) g) of
                  (Ret _, g1) \<Rightarrow> g1
                | (Panic e, g1) \<Rightarrow> exit_conn a g1)
           | (_, r) \<Rightarrow> exit_conn a (upd_conn a (\<lambda>_. conn\<lparr>ccIn := r\<rparr>) g)))"

text \<open>The task behind the heartbeat timer.\<close>

definition heartbeat_timeout :: "nat \<Rightarrow> nat \<Rightarrow> ('m, 'st, 'd, 'w, 's) gater \<Rightarrow> ('m, 'st, 'd, 'w, 's) gater" where
  "heartbeat_timeout k a g = upd_conn a (close_rwc k) g"

text \<open>\<^verbatim>\<open>ForConn\<close>: the numbers are collected first, and each is looked up again before the call.\<close>

fun for_ids :: "u64 list \<Rightarrow> (nat \<Rightarrow> ('m, 'st, 'd, 'w, 's) gater \<Rightarrow> ('m, 'st, 'd, 'w, 's) gater) \<Rightarrow> ('m, 'st, 'd, 'w, 's) gater \<Rightarrow> ('m, 'st, 'd, 'w, 's) gater" where
  "for_ids [] f g = g"
| "for_ids (i # is) f g = for_ids is f (case GetConnByID i g of None \<Rightarrow> g | Some a \<Rightarrow> f a g)"

definition ForConn :: "(u64, nat) gorder \<Rightarrow> (nat \<Rightarrow> ('m, 'st, 'd, 'w, 's) gater \<Rightarrow> ('m, 'st, 'd, 'w, 's) gater) \<Rightarrow> ('m, 'st, 'd, 'w, 's) gater \<Rightarrow> ('m, 'st, 'd, 'w, 's) gater" where
  "ForConn ord f g = for_ids (map fst (ord (Ids g))) f g"

end
