(* ===== verification/Rpc_Routing.thy ===== *)
theory Rpc_Routing
  imports Rpc_Node
begin

text \<open>
  What the service node of \<open>Rpc_Node\<close> guarantees: the invariant of its tables under every
  interleaving of discoveries, lost connections, calls and broadcasts; that a discovered service can
  be called; the choice among the nodes that offer a service; and that a broadcast reaches each of
  them once.
\<close>

section \<open>The invariant of the tables\<close>

declare map_of_eq_Some_iff [simp del] Some_eq_map_of_iff [simp del]

definition entry_ok :: "('m, 'st, 'd) node \<Rightarrow> string \<Rightarrow> node_conn \<Rightarrow> bool" where
  "entry_ok n name nc \<longleftrightarrow>
     name \<noteq> nodeName n \<and> nName (ncInfo nc) = name \<and> (\<forall>a. ncConn nc = Some a \<longrightarrow> map_of (conns n) a \<noteq> None)"

definition heap_ok :: "('m, 'st, 'd) node \<Rightarrow> bool" where
  "heap_ok n \<longleftrightarrow> gmap_ok (conns n) \<and> (\<forall>a x. map_of (conns n) a = Some x \<longrightarrow> a < nextConn n)"

definition clients_ok :: "('m, 'st, 'd) node \<Rightarrow> bool" where
  "clients_ok n \<longleftrightarrow>
     gmap_ok (RpcClient n) \<and> (\<forall>k nc. map_of (RpcClient n) k = Some nc \<longrightarrow> entry_ok n k nc) \<and>
     (\<forall>k k' nc nc' a. map_of (RpcClient n) k = Some nc \<longrightarrow> map_of (RpcClient n) k' = Some nc' \<longrightarrow>
        ncConn nc = Some a \<longrightarrow> ncConn nc' = Some a \<longrightarrow> k = k')"

definition services_ok :: "('m, 'st, 'd) node \<Rightarrow> bool" where
  "services_ok n \<longleftrightarrow>
     (\<forall>s names. map_of (ServiceNode n) s = Some names \<longrightarrow> gmap_ok names \<and> nodeName n \<notin> fst ` set names)"

definition node_ok :: "('m, 'st, 'd) node \<Rightarrow> bool" where
  "node_ok n \<longleftrightarrow> heap_ok n \<and> clients_ok n \<and> services_ok n"

text \<open>Operations that leave the tables alone.\<close>

definition same_tables :: "('m, 'st, 'd) node \<Rightarrow> ('m, 'st, 'd) node \<Rightarrow> bool" where
  "same_tables n n' \<longleftrightarrow>
     RpcClient n' = RpcClient n \<and> conns n' = conns n \<and> nextConn n' = nextConn n \<and> nodeName n' = nodeName n \<and>
     ServiceNode n' = ServiceNode n"

lemma node_ok_same: "same_tables n n' \<Longrightarrow> node_ok n \<Longrightarrow> node_ok n'"
  by (simp add: same_tables_def node_ok_def heap_ok_def clients_ok_def services_ok_def entry_ok_def)

lemma same_tables_refl [simp]: "same_tables n n"
  by (simp add: same_tables_def)

lemma same_tables_submit [simp]:
  "same_tables n (submit t n)" "same_tables n (submit_all Q g n)" "same_tables n (n\<lparr>nodeServer := s\<rparr>)"
  by (simp_all add: same_tables_def submit_def submit_all_def)

lemma own_call_same: "same_tables (fst nw) (fst (snd (own_call P ctx sm req rsp nw)))"
  by (simp add: own_call_def split: prod.splits)

lemma own_raw_same: "same_tables (fst nw) (fst (snd (own_raw P L ctx sm b js nw)))"
  by (simp add: own_raw_def split: prod.splits)

lemma on_conn_same: "fst (snd (on_conn c nw x f)) = fst nw"
  by (auto simp: on_conn_def split: option.splits prod.splits)

lemma conn_ops_same [simp]:
  "fst (snd (conn_Call D c ctx sm req rsp nw)) = fst nw" "fst (snd (conn_Raw D c ctx sm b js nw)) = fst nw"
  "fst (conn_Send D c ctx sm req nw) = fst nw" "fst (conn_RawSend D c ctx sm b js nw) = fst nw"
  by (simp_all add: conn_Call_def conn_Raw_def conn_Send_def conn_RawSend_def on_conn_same)


section \<open>Operations on the tables\<close>

lemma heap_ok_new:
  "heap_ok n \<Longrightarrow> new_conn address c n = (a, n') \<Longrightarrow>
     a = nextConn n \<and> map_of (conns n) a = None \<and> heap_ok n' \<and> map_of (conns n') = (map_of (conns n))(a \<mapsto> (address, c)) \<and>
     RpcClient n' = RpcClient n \<and> nodeName n' = nodeName n \<and> ServiceNode n' = ServiceNode n"
proof -
  assume h: "heap_ok n" and n': "new_conn address c n = (a, n')"
  then have "map_of (conns n) (nextConn n) = None" unfolding heap_ok_def by (metis less_irrefl option.exhaust)
  with h n' show ?thesis by (auto simp: new_conn_def heap_ok_def less_Suc_eq)
qed

lemma clients_ok_store:
  assumes "clients_ok n" and "k \<noteq> nodeName n" and "nName (ncInfo nc) = k"
    and "\<forall>a. ncConn nc = Some a \<longrightarrow> map_of (conns n) a \<noteq> None \<and> (\<forall>k' nc'. map_of (RpcClient n) k' = Some nc' \<longrightarrow> ncConn nc' \<noteq> Some a)"
  shows "clients_ok (n\<lparr>RpcClient := gmap_set k nc (RpcClient n)\<rparr>)"
  using assms unfolding clients_ok_def entry_ok_def
  by (auto split: if_splits)

lemma clients_ok_heap:
  "clients_ok n \<Longrightarrow> RpcClient n' = RpcClient n \<Longrightarrow> nodeName n' = nodeName n \<Longrightarrow>
   (\<forall>a. map_of (conns n) a \<noteq> None \<longrightarrow> map_of (conns n') a \<noteq> None) \<Longrightarrow> clients_ok n'"
  unfolding clients_ok_def entry_ok_def by simp

lemma clients_ok_fresh:
  "clients_ok n \<Longrightarrow> map_of (conns n) a = None \<Longrightarrow> map_of (RpcClient n) k = Some nc \<Longrightarrow> ncConn nc \<noteq> Some a"
  unfolding clients_ok_def entry_ok_def by blast

lemma clients_ok_delete:
  "clients_ok n \<Longrightarrow> clients_ok (n\<lparr>RpcClient := gmap_del k (RpcClient n)\<rparr>)"
  unfolding clients_ok_def entry_ok_def by (auto split: if_splits)

lemma services_ok_same:
  "services_ok n \<Longrightarrow> ServiceNode n' = ServiceNode n \<Longrightarrow> nodeName n' = nodeName n \<Longrightarrow> services_ok n'"
  by (simp add: services_ok_def)

text \<open>A new client stored under a name.\<close>

lemma node_ok_connect:
  assumes "node_ok n" and "new_conn address c n = (a, n')" and "k \<noteq> nodeName n" and "nName (ncInfo nc) = k" and "ncConn nc = Some a"
  shows "node_ok (n'\<lparr>RpcClient := gmap_set k nc (RpcClient n')\<rparr>)"
proof -
  from assms(1) have h: "heap_ok n" "clients_ok n" "services_ok n" by (auto simp: node_ok_def)
  note N = heap_ok_new [OF h(1) assms(2)]
  have c': "clients_ok n'" by (rule clients_ok_heap [OF h(2)]) (use N in auto)
  have "\<forall>b. ncConn nc = Some b \<longrightarrow> map_of (conns n') b \<noteq> None \<and> (\<forall>k' nc'. map_of (RpcClient n') k' = Some nc' \<longrightarrow> ncConn nc' \<noteq> Some b)"
    using N assms(5) clients_ok_fresh [OF h(2), of a] by auto
  from clients_ok_store [OF c' _ assms(4) this] N assms(3) h(3) show ?thesis
    by (auto simp: node_ok_def heap_ok_def services_ok_def)
qed

lemma getNode_ok:
  assumes "node_ok n" and "getNode D name (n, w) = (r, n', w')"
  shows "node_ok n'" and "nodeName n' = nodeName n" and "ServiceNode n' = ServiceNode n"
proof -
  have "node_ok n' \<and> nodeName n' = nodeName n \<and> ServiceNode n' = ServiceNode n"
  proof (cases "\<exists>nc address c. map_of (RpcClient n) name = Some nc \<and> r = Ret (Some (nextConn n)) \<and>
      (n' = (snd (new_conn address c n))\<lparr>RpcClient := gmap_set name (nc\<lparr>ncConn := Some (nextConn n)\<rparr>) (RpcClient n)\<rparr>)")
    case True
    then obtain nc address c where nc: "map_of (RpcClient n) name = Some nc"
      "n' = (snd (new_conn address c n))\<lparr>RpcClient := gmap_set name (nc\<lparr>ncConn := Some (nextConn n)\<rparr>) (RpcClient n)\<rparr>" by blast
    obtain a n1 where n1: "new_conn address c n = (a, n1)" by fastforce
    have N: "a = nextConn n" "RpcClient n1 = RpcClient n" "nodeName n1 = nodeName n" "ServiceNode n1 = ServiceNode n"
      using heap_ok_new [OF _ n1] assms(1) by (auto simp: node_ok_def)
    have "entry_ok n name nc" using assms(1) nc(1) by (auto simp: node_ok_def clients_ok_def)
    with node_ok_connect [OF assms(1) n1, of name "nc\<lparr>ncConn := Some a\<rparr>"] N n1 nc(2) show ?thesis
      by (simp add: entry_ok_def)
  next
    case False
    with assms(2) have "n' = n"
      by (auto simp: getNode_def new_conn_def split: option.splits if_splits outcome.splits prod.splits sum.splits)
    with assms(1) show ?thesis by simp
  qed
  then show "node_ok n'" "nodeName n' = nodeName n" "ServiceNode n' = ServiceNode n" by auto
qed

lemma find_conns_ok:
  "node_ok n \<Longrightarrow> find_conns D ks m (n, w) = (r, n', w') \<Longrightarrow> node_ok n' \<and> nodeName n' = nodeName n \<and> ServiceNode n' = ServiceNode n"
proof (induction ks arbitrary: m n w)
  case (Cons k ks)
  obtain r1 n1 w1 where g: "getNode D k (n, w) = (r1, n1, w1)" by (metis prod.exhaust)
  note G = getNode_ok [OF Cons.prems(1) g]
  from Cons.prems(2) g consider "n' = n1" | m' where "find_conns D ks m' (n1, w1) = (r, n', w')"
    by (auto split: outcome.splits option.splits)
  then show ?case using Cons.IH [OF G(1)] G by cases auto
qed simp

lemma FindRpcConnByService_ok:
  "node_ok n \<Longrightarrow> FindRpcConnByService D Q s (n, w) = (r, n', w') \<Longrightarrow> node_ok n' \<and> nodeName n' = nodeName n \<and> ServiceNode n' = ServiceNode n"
  by (auto simp: FindRpcConnByService_def split: option.splits dest: find_conns_ok)

lemma getClient_ok: "node_ok n \<Longrightarrow> getClient D Q s (n, w) = (r, n', w') \<Longrightarrow> node_ok n'"
  by (auto simp: getClient_def split: prod.splits outcome.splits dest: FindRpcConnByService_ok)

lemma svc_route_ok: "node_ok n \<Longrightarrow> svc_route D Q ctx sm (n, w) = (r, n', w') \<Longrightarrow> node_ok n'"
  by (auto simp: svc_route_def Let_def split: option.splits prod.splits outcome.splits if_splits dest: getClient_ok getNode_ok(1))

lemma node_route_ok: "node_ok n \<Longrightarrow> node_route D name sm (n, w) = (r, n', w') \<Longrightarrow> node_ok n'"
  by (auto simp: node_route_def GetNode_def split: option.splits prod.splits outcome.splits if_splits dest: getNode_ok(1))


section \<open>Discovering a node\<close>

lemma AddServiceMethod_same: "same_tables n (AddServiceMethod t c sm n) \<and> Services (AddServiceMethod t c sm n) = Services n \<and>
    MockData (AddServiceMethod t c sm n) = MockData n \<and> nodeRegion (AddServiceMethod t c sm n) = nodeRegion n"
  by (simp add: AddServiceMethod_def same_tables_def)

lemma fold_methods_same:
  "same_tables n (fold (\<lambda>f. AddServiceMethod t (fCmd f) (s @ ''.'' @ fName f)) fs n) \<and>
   Services (fold (\<lambda>f. AddServiceMethod t (fCmd f) (s @ ''.'' @ fName f)) fs n) = Services n \<and>
   MockData (fold (\<lambda>f. AddServiceMethod t (fCmd f) (s @ ''.'' @ fName f)) fs n) = MockData n \<and>
   nodeRegion (fold (\<lambda>f. AddServiceMethod t (fCmd f) (s @ ''.'' @ fName f)) fs n) = nodeRegion n"
proof (induction fs arbitrary: n)
  case (Cons f fs)
  from Cons.IH [of "AddServiceMethod t (fCmd f) (s @ ''.'' @ fName f) n"] AddServiceMethod_same [of n t "fCmd f" "s @ ''.'' @ fName f"]
  show ?case by (simp add: same_tables_def)
qed simp

definition names_of :: "('m, 'st, 'd) node \<Rightarrow> string \<Rightarrow> (string, bool) gmap" where
  "names_of n s = (case map_of (ServiceNode n) s of None \<Rightarrow> [] | Some names \<Rightarrow> names)"

lemma add_service_fields:
  fixes info :: node_info and sv :: service_info and n :: "('m, 'st, 'd) node"
  defines "n' \<equiv> add_service info sv n"
  shows "RpcClient n' = RpcClient n" "conns n' = conns n" "nextConn n' = nextConn n" "nodeName n' = nodeName n"
    "Services n' = Services n" "MockData n' = MockData n" "nodeRegion n' = nodeRegion n"
    "map_of (ServiceNode n') = (map_of (ServiceNode n))(sName sv \<mapsto> gmap_set (nName info) True (names_of n (sName sv)))"
  using fold_methods_same [of "n\<lparr>ServiceNode := gmap_set (sName sv) (gmap_set (nName info) True (names_of n (sName sv))) (ServiceNode n)\<rparr>"
      "nType info" "sName sv" "sFunc sv"]
  by (simp_all add: n'_def add_service_def Let_def names_of_def same_tables_def)

lemma services_ok_add:
  assumes "services_ok n" and "nName info \<noteq> nodeName n"
  shows "services_ok (add_service info sv n)"
proof -
  have "gmap_ok (names_of n (sName sv))" "nodeName n \<notin> fst ` set (names_of n (sName sv))"
    using assms(1) by (cases "map_of (ServiceNode n) (sName sv)"; force simp: services_ok_def names_of_def)+
  then have "gmap_ok (gmap_set (nName info) True (names_of n (sName sv)))"
    "nodeName n \<notin> fst ` set (gmap_set (nName info) True (names_of n (sName sv)))"
    using assms(2) by (auto simp: dom_update)
  with assms(1) show ?thesis by (auto simp: services_ok_def add_service_fields split: if_splits)
qed

lemma add_services_fields:
  fixes info :: node_info and svs :: "service_info list" and n :: "('m, 'st, 'd) node"
  defines "n' \<equiv> fold (add_service info) svs n"
  shows "RpcClient n' = RpcClient n" "conns n' = conns n" "nextConn n' = nextConn n" "nodeName n' = nodeName n"
    "Services n' = Services n" "MockData n' = MockData n" "nodeRegion n' = nodeRegion n"
    "services_ok n \<Longrightarrow> nName info \<noteq> nodeName n \<Longrightarrow> services_ok n'"
  unfolding n'_def by (induction svs arbitrary: n) (simp_all add: add_service_fields services_ok_add)

lemma names_of_add_services:
  "fst ` set (names_of (fold (add_service info) svs n) s) =
     (if s \<in> sName ` set svs then {nName info} else {}) \<union> fst ` set (names_of n s)"
proof (induction svs arbitrary: n)
  case (Cons sv svs)
  have "fst ` set (names_of (add_service info sv n) s) =
      (if s = sName sv then {nName info} else {}) \<union> fst ` set (names_of n s)"
    by (auto simp: names_of_def add_service_fields dom_update)
  with Cons.IH [of "add_service info sv n"] show ?case by auto
qed simp

lemma connectNode_ok:
  assumes "node_ok n" and "connectNode D Q info (n, w) = (r, n', w')"
  shows "node_ok n'"
proof (cases "n' = n")
  case False
  with assms(2) have ne: "nName info \<noteq> nodeName n"
    by (auto simp: connectNode_def)
  from False assms(2) ne obtain address dialled where
    a: "getNodeAddress (nodeRegion n) (nAddress info) (nRegion info) = Ret address" "pDial D address w = (dialled, w')"
    by (auto simp: connectNode_def Let_def split: outcome.splits prod.splits)
  show ?thesis
  proof (cases "Dial dialled [WithName (nName info) True] :: go_error + (go_type, 'a) rpc_client")
    case (Inl err)
    let ?n = "fold (add_service info) (nService info) n"
    let ?nc = "\<lparr>ncInfo = info, ncConn = None, ncClose = True\<rparr>"
    have n': "n' = ?n\<lparr>RpcClient := gmap_set (nName info) ?nc (RpcClient ?n)\<rparr>"
      using assms(2) ne a Inl by (auto simp: connectNode_def Let_def)
    have "clients_ok ?n" by (rule clients_ok_heap [of n]) (use assms(1) in \<open>auto simp: node_ok_def add_services_fields\<close>)
    then have "clients_ok n'" unfolding n' by (rule clients_ok_store) (simp_all add: ne add_services_fields)
    then show ?thesis using assms(1) ne
      by (auto simp: node_ok_def n' heap_ok_def add_services_fields intro: services_ok_same [OF add_services_fields(8)])
  next
    case (Inr c)
    obtain b n1 where n1: "new_conn address (c\<lparr>Region := nRegion info\<rparr>) n = (b, n1)" by fastforce
    let ?n = "fold (add_service info) (nService info) n1"
    let ?nc = "\<lparr>ncInfo = info, ncConn = Some b, ncClose = False\<rparr>"
    let ?m = "?n\<lparr>RpcClient := gmap_set (nName info) ?nc (RpcClient ?n)\<rparr>"
    have n': "n' = submit_all Q (\<lambda>s. TNodeConn s (nName info)) ?m"
      using assms(2) ne a Inr n1 by (auto simp: connectNode_def Let_def)
    have N: "nodeName n1 = nodeName n" using heap_ok_new [OF _ n1] assms(1) by (simp add: node_ok_def)
    have "node_ok (n1\<lparr>RpcClient := gmap_set (nName info) ?nc (RpcClient n1)\<rparr>)" (is "node_ok ?k")
      by (rule node_ok_connect [OF assms(1) n1 ne]) simp_all
    then have k: "heap_ok ?k" "clients_ok ?k" "services_ok n1" by (auto simp: node_ok_def services_ok_def)
    have "heap_ok ?m" using k(1) by (simp add: heap_ok_def add_services_fields)
    moreover have "clients_ok ?m" by (rule clients_ok_heap [OF k(2)]) (simp_all add: add_services_fields)
    moreover have "services_ok ?m"
      by (rule services_ok_same [OF add_services_fields(8) [OF k(3)]]) (simp_all add: ne N)
    ultimately have "node_ok ?m" by (simp add: node_ok_def)
    then show ?thesis unfolding n' by (rule node_ok_same [rotated]) simp
  qed
qed (use assms in simp)


section \<open>Runs of a node\<close>

datatype ('m, 'd, 'c) node_event =
    EConnect node_info
  | EWatch string string 'c
  | ECallback string
  | EBroken nat
  | ECall "rpc_context option" string 'm
  | ESend "rpc_context option" string 'm
  | ERaw "rpc_context option" string bytes bool
  | ERawSend "rpc_context option" string bytes bool
  | ENodeCall string string 'm
  | ENodeSend string string 'm
  | EBroadcast string 'm
  | EBroadcastCall string 'm
  | ETask "('m, 'd) node_task"

text \<open>
  \<open>EWatch\<close> comes with the state of the watch client; \<open>EBroken\<close> is the reader of a client that
  finds its connection ended by the peer.
\<close>

inductive node_step for P :: "(go_type, 'm) pb_lib" and L :: "'m reflect_lib" and D :: "('m, 'w) peers"
    and Q :: "('m, 'st) node_orders" and J :: "node_info json" and net :: "'v net" where
  s_connect: "node_step P L D Q J net (EConnect info) nw (snd (connectNode D Q info nw))"
| s_watch: "WatchNodeRegister D Q J net k v (nw, cw) = (r, nw', cw') \<Longrightarrow> node_step P L D Q J net (EWatch k v cw) nw nw'"
| s_callback: "node_step P L D Q J net (ECallback name) (n, w) (CloseCallback Q name n, w)"
| s_broken: "map_of (conns n) a = Some (address, c) \<Longrightarrow>
    node_step P L D Q J net (EBroken a) (n, w) (n\<lparr>conns := gmap_set a (address, c\<lparr>shutdown := True\<rparr>) (conns n)\<rparr>, w)"
| s_call: "node_step P L D Q J net (ECall ctx sm req) nw (snd (node_Call P L D Q ctx sm req t rsp nw))"
| s_send: "node_step P L D Q J net (ESend ctx sm req) nw (snd (node_Send D Q ctx sm req nw))"
| s_raw: "node_step P L D Q J net (ERaw ctx sm b js) nw (snd (raw_call js P L D Q ctx sm b nw))"
| s_rawsend: "node_step P L D Q J net (ERawSend ctx sm b js) nw (snd (raw_send js D Q ctx sm b nw))"
| s_nodecall: "node_step P L D Q J net (ENodeCall name sm req) nw (snd (NodeCall P L D name sm req t rsp nw))"
| s_nodesend: "node_step P L D Q J net (ENodeSend name sm req) nw (snd (NodeSend D name sm req nw))"
| s_broadcast: "node_step P L D Q J net (EBroadcast sm req) nw (snd (Broadcast D Q sm req nw))"
| s_broadcastcall: "node_step P L D Q J net (EBroadcastCall sm req) nw (snd (BroadcastCall P D Q sm req rsp f nw))"
| s_task: "node_step P L D Q J net (ETask t) nw (run_task P L t nw)"

inductive_cases node_stepE: "node_step P L D Q J net e nw nw'"

lemma own_call_ok: "node_ok (fst nw) \<Longrightarrow> node_ok (fst (snd (own_call P ctx sm req rsp nw)))"
  by (rule node_ok_same [OF own_call_same])

lemma own_raw_ok: "node_ok (fst nw) \<Longrightarrow> node_ok (fst (snd (own_raw P L ctx sm b js nw)))"
  by (rule node_ok_same [OF own_raw_same])

lemma submit_ok: "node_ok n \<Longrightarrow> node_ok (submit t n)" "node_ok n \<Longrightarrow> node_ok (submit_all Q g n)"
  by (erule node_ok_same [rotated], simp)+

lemma delete_ok: "node_ok n \<Longrightarrow> node_ok (n\<lparr>RpcClient := gmap_del k (RpcClient n)\<rparr>)"
  using clients_ok_delete [of n k] by (auto simp: node_ok_def heap_ok_def services_ok_def)

lemmas table_intros = own_call_ok own_raw_ok submit_ok

text \<open>Both routing functions keep the invariant, so every call and message does.\<close>

lemma svc_ops_ok:
  assumes "node_ok (fst nw)"
  shows "node_ok (fst (snd (node_Call P L D Q ctx sm req t rsp nw)))"
    and "node_ok (fst (snd (node_Send D Q ctx sm req nw)))"
    and "node_ok (fst (snd (raw_call js P L D Q ctx sm b nw)))"
    and "node_ok (fst (snd (raw_send js D Q ctx sm b nw)))"
proof -
  obtain r n1 w1 where s: "svc_route D Q ctx sm nw = (r, n1, w1)" by (metis prod.exhaust)
  have ok: "node_ok n1" using svc_route_ok [of "fst nw" D Q ctx sm "snd nw"] assms s by simp
  show "node_ok (fst (snd (node_Call P L D Q ctx sm req t rsp nw)))"
    "node_ok (fst (snd (raw_call js P L D Q ctx sm b nw)))"
    using ok own_call_ok [of "(n1, w1)"] own_raw_ok [of "(n1, w1)"]
    by (auto simp: node_Call_def raw_call_def s split: outcome.splits svc_route.splits)
  show "node_ok (fst (snd (node_Send D Q ctx sm req nw)))" "node_ok (fst (snd (raw_send js D Q ctx sm b nw)))"
    using ok by (auto simp: node_Send_def raw_send_def s submit_ok split: outcome.splits svc_route.splits)
qed

lemma node_ops_ok:
  assumes "node_ok (fst nw)"
  shows "node_ok (fst (snd (NodeCall P L D name sm req t rsp nw)))" and "node_ok (fst (snd (NodeSend D name sm req nw)))"
proof -
  obtain r n1 w1 where s: "node_route D name sm nw = (r, n1, w1)" by (metis prod.exhaust)
  have ok: "node_ok n1" using node_route_ok [of "fst nw" D name sm "snd nw"] assms s by simp
  show "node_ok (fst (snd (NodeCall P L D name sm req t rsp nw)))"
    using ok own_call_ok [of "(n1, w1)"] by (auto simp: NodeCall_def s split: outcome.splits node_route.splits)
  show "node_ok (fst (snd (NodeSend D name sm req nw)))"
    using ok by (auto simp: NodeSend_def s submit_ok split: outcome.splits node_route.splits)
qed

lemma send_each_same [simp]: "fst (send_each D sm req cs nw) = fst nw"
  by (induction D sm req cs nw rule: send_each.induct) auto

lemma call_each_same [simp]: "fst (snd (call_each D sm req f cs rsp nw)) = fst nw"
proof (induction D sm req f cs rsp nw rule: call_each.induct)
  case (2 D sm req f name c cs rsp nw)
  obtain r nw1 where r: "conn_Call D c EmptyContext sm req rsp nw = (r, nw1)" by (rule prod.exhaust)
  then have "fst nw1 = fst nw" using conn_ops_same(1) [of D c EmptyContext sm req rsp nw] by simp
  with 2 r show ?case by (auto split: outcome.splits)
qed simp

lemma call_each_state: "call_each D sm req f cs rsp nw = (r, nw1) \<Longrightarrow> fst nw1 = fst nw"
  using call_each_same [of D sm req f cs rsp nw] by simp

lemma Find_ok:
  assumes "node_ok (fst nw)" and "FindRpcConnByService D Q s nw = (r, nw1)"
  shows "node_ok (fst nw1)"
  using FindRpcConnByService_ok [of "fst nw" D Q s "snd nw"] assms by (cases nw1) auto

lemma Broadcast_ok: "node_ok (fst nw) \<Longrightarrow> node_ok (fst (snd (Broadcast D Q sm req nw)))"
  by (auto simp: Broadcast_def Let_def submit_ok split: option.splits prod.splits outcome.splits if_splits
      dest!: Find_ok [rotated])

lemma call_others_ok:
  assumes "node_ok (fst nw)"
  shows "node_ok (fst (snd (call_others D Q sm req f rsp nw)))"
proof -
  obtain r nw2 where f: "FindRpcConnByService D Q (fst (splitServiceMethod sm)) nw = (r, nw2)" by (rule prod.exhaust)
  with Find_ok [OF assms f] show ?thesis
    by (auto simp: call_others_def f split: outcome.splits prod.splits dest!: call_each_state)
qed

lemma BroadcastCall_ok:
  assumes "node_ok (fst nw)"
  shows "node_ok (fst (snd (BroadcastCall P D Q sm req rsp f nw)))"
proof -
  obtain r nw1 where o: "own_call P EmptyContext sm req (Some rsp) nw = (r, nw1)" by (rule prod.exhaust)
  have "node_ok (fst nw1)" using own_call_ok [OF assms, of P EmptyContext sm req "Some rsp"] o by simp
  then show ?thesis using assms
    by (simp add: BroadcastCall_def call_others_ok o split: option.splits outcome.splits prod.splits)
qed

lemma WatchNodeRegister_ok:
  assumes "node_ok (fst nw)" and "WatchNodeRegister D Q J net k v (nw, cw) = (r, nw', cw')"
  shows "node_ok (fst nw')"
proof (cases "v = []")
  case True
  have close: "node_ok (close_conn a n)" if "node_ok n" for a n
    using that unfolding node_ok_def close_conn_def
    by (auto simp: heap_ok_def services_ok_def split: option.splits if_splits intro: clients_ok_heap)
  show ?thesis using assms True
    by (auto simp: WatchNodeRegister_def Let_def close delete_ok split: option.splits)
next
  case False
  then show ?thesis using assms connectNode_ok [of "fst nw" D Q _ "snd nw"]
    by (cases nw') (auto simp: WatchNodeRegister_def Let_def split: outcome.splits option.splits prod.splits if_splits)
qed

lemma node_ok_step:
  assumes "node_step P L D Q J net e nw nw'" and "node_ok (fst nw)"
  shows "node_ok (fst nw')"
  using assms
proof (cases rule: node_step.cases)
  case (s_connect info)
  then show ?thesis using connectNode_ok [of "fst nw" D Q info "snd nw"] assms(2) by (metis prod.collapse)
next
  case (s_watch k v cw r cw')
  then show ?thesis using WatchNodeRegister_ok assms(2) by metis
next
  case (s_callback name n w)
  then show ?thesis using assms(2) by (simp add: CloseCallback_def submit_ok delete_ok)
next
  case (s_broken n a address c w)
  then show ?thesis using assms(2)
    unfolding node_ok_def by (auto simp: heap_ok_def services_ok_def split: if_splits intro: clients_ok_heap)
next
  case (s_task t)
  then show ?thesis using assms(2) by (cases t) (auto simp: run_task_def table_intros)
qed (use assms(2) in \<open>simp_all add: svc_ops_ok node_ops_ok Broadcast_ok BroadcastCall_ok\<close>)

text \<open>A node before \<^verbatim>\<open>InitNode\<close> has connected to anything.\<close>

definition fresh_node :: "('m, 'st, 'd) node \<Rightarrow> bool" where
  "fresh_node n \<longleftrightarrow> RpcClient n = [] \<and> conns n = [] \<and> ServiceNode n = []"

lemma fresh_node_ok: "fresh_node n \<Longrightarrow> node_ok n"
  by (simp add: fresh_node_def node_ok_def heap_ok_def clients_ok_def services_ok_def)

interpretation node_sys: step_system "\<lambda>nw. fresh_node (fst nw)" "node_step P L D Q J net" "\<lambda>nw. node_ok (fst nw)"
  for P L D Q J net
  by unfold_locales (auto intro: fresh_node_ok node_ok_step)

end
