(* ===== verification/Rpc_Discovery.thy ===== *)
theory Rpc_Discovery
  imports Rpc_Routing
begin

text \<open>
  Who receives a call, a message or a broadcast of the service node: the lookup of the nodes that
  offer a service returns exactly the open connections among them; a call goes to one of these, in
  the own region when there is one; a broadcast goes to each once; and what a late
  \<^verbatim>\<open>CloseCallback\<close> does to a node that has come back.
\<close>

section \<open>The lookup of a connection\<close>

definition connected :: "('m, 'st, 'd) node \<Rightarrow> string \<Rightarrow> nat \<Rightarrow> bool" where
  "connected n name a \<longleftrightarrow> (\<exists>nc. map_of (RpcClient n) name = Some nc \<and> ncConn nc = Some a \<and> usable n (Some a))"

lemma connected_fun: "connected n name a \<Longrightarrow> connected n name b \<Longrightarrow> a = b"
  by (auto simp: connected_def)

lemma connected_inj: "node_ok n \<Longrightarrow> connected n k a \<Longrightarrow> connected n k' a \<Longrightarrow> k = k'"
  unfolding connected_def node_ok_def clients_ok_def by blast

lemma usable_Some: "usable n (Some a) \<longleftrightarrow> (\<exists>address c. map_of (conns n) a = Some (address, c) \<and> \<not> IsClose c)"
  by (auto simp: usable_def client_of_def split: option.splits)

lemma usable_NoneD [simp]: "\<not> usable n None"
  by (simp add: usable_def)

lemma Dial_open: "Dial dialled opts = Inr c \<Longrightarrow> set opts \<subseteq> {WithName name cb} \<Longrightarrow> \<not> IsClose c"
proof -
  have "\<not> IsClose (fold (\<lambda>opt c. opt c) opts c0)" if "\<not> IsClose c0" "set opts \<subseteq> {WithName name cb}" for c0 :: "('a, 'b) rpc_client" and opts
    using that by (induction opts arbitrary: c0) (auto simp: WithName_def IsClose_def)
  then show "Dial dialled opts = Inr c \<Longrightarrow> set opts \<subseteq> {WithName name cb} \<Longrightarrow> \<not> IsClose c"
    by (auto simp: Dial_def NewClient_def IsClose_def split: sum.splits)
qed

text \<open>The three ways in which \<^verbatim>\<open>getNode\<close> ends.\<close>

lemma getNode_cases:
  assumes "node_ok n" and "getNode D name (n, w) = (r, n', w')"
  obtains (same) "n' = n" and "r = Ret None \<or> (\<exists>e. r = Panic e)" and "\<And>a. \<not> connected n name a"
    | (kept) a where "n' = n" and "w' = w" and "r = Ret (Some a)" and "connected n name a"
    | (dialled) a nc address c where "r = Ret (Some a)" and "map_of (RpcClient n) name = Some nc" and "\<And>b. \<not> connected n name b"
      and "map_of (conns n) a = None" and "map_of (conns n') = (map_of (conns n))(a \<mapsto> (address, c))" and "\<not> IsClose c"
      and "map_of (RpcClient n') = (map_of (RpcClient n))(name \<mapsto> nc\<lparr>ncConn := Some a\<rparr>)" and "nodeRegion n' = nodeRegion n"
proof (cases "map_of (RpcClient n) name")
  case None
  with assms(2) same show ?thesis by (auto simp: getNode_def connected_def)
next
  case (Some nc)
  show ?thesis
  proof (cases "usable n (ncConn nc)")
    case True
    then obtain a where "ncConn nc = Some a" by (cases "ncConn nc") auto
    with True Some assms(2) kept show ?thesis by (auto simp: getNode_def connected_def)
  next
    case False
    with Some have no: "\<not> connected n name b" for b by (auto simp: connected_def)
    show ?thesis
    proof (cases "\<exists>address dialled c. Dial dialled [] = Inr c \<and>
        (r, n', w') = (Ret (Some (fst (new_conn address c n))),
           (snd (new_conn address c n))\<lparr>RpcClient := gmap_set name (nc\<lparr>ncConn := Some (fst (new_conn address c n))\<rparr>) (RpcClient n)\<rparr>, w')")
      case True
      then obtain address dialled' c where c: "Dial dialled' [] = Inr c"
        "r = Ret (Some (fst (new_conn address c n)))"
        "n' = (snd (new_conn address c n))\<lparr>RpcClient := gmap_set name (nc\<lparr>ncConn := Some (fst (new_conn address c n))\<rparr>) (RpcClient n)\<rparr>"
        by auto
      obtain a n1 where n1: "new_conn address c n = (a, n1)" by fastforce
      have N: "map_of (conns n) a = None" "map_of (conns n1) = (map_of (conns n))(a \<mapsto> (address, c))" "nodeRegion n1 = nodeRegion n"
        using heap_ok_new [OF _ n1] assms(1) n1 by (auto simp: node_ok_def new_conn_def)
      show ?thesis
        by (rule dialled [OF _ Some no N(1), of address c]) (use c n1 N Dial_open [OF c(1)] in auto)
    next
      case fail: False
      with assms(2) Some False have "n' = n" "r = Ret None \<or> (\<exists>e. r = Panic e)"
        by (auto simp: getNode_def new_conn_def split: outcome.splits prod.splits sum.splits)
      with same no show ?thesis by blast
    qed
  qed
qed

lemma getNode_connected:
  assumes "node_ok n" and "getNode D name (n, w) = (r, n', w')"
  shows "r = Ret res \<Longrightarrow> connected n' name a \<longleftrightarrow> res = Some a"
    and "k \<noteq> name \<Longrightarrow> connected n' k a \<longleftrightarrow> connected n k a"
    and "nodeRegion n' = nodeRegion n"
    and "map_of (conns n) a = Some x \<Longrightarrow> map_of (conns n') a = Some x"
proof -
  have "(r = Ret res \<longrightarrow> connected n' name a \<longleftrightarrow> res = Some a) \<and> (k \<noteq> name \<longrightarrow> connected n' k a \<longleftrightarrow> connected n k a) \<and>
    nodeRegion n' = nodeRegion n \<and> (map_of (conns n) a = Some x \<longrightarrow> map_of (conns n') a = Some x)"
    using assms
  proof (cases rule: getNode_cases)
    case (dialled b nc address c)
    have "ncConn nc' \<noteq> Some b" if "map_of (RpcClient n) k' = Some nc'" for k' nc'
      using clients_ok_fresh [OF _ dialled(4) that] assms(1) by (simp add: node_ok_def)
    then show ?thesis using dialled by (auto simp: connected_def usable_Some split: if_splits)
  qed (auto dest: connected_fun)
  then show "r = Ret res \<Longrightarrow> connected n' name a \<longleftrightarrow> res = Some a" "k \<noteq> name \<Longrightarrow> connected n' k a \<longleftrightarrow> connected n k a"
    "nodeRegion n' = nodeRegion n" "map_of (conns n) a = Some x \<Longrightarrow> map_of (conns n') a = Some x" by blast+
qed

lemma find_conns_connected:
  assumes "node_ok n" and "distinct ks" and "gmap_ok m" and "\<forall>k \<in> dom (map_of m). k \<notin> set ks"
    and "find_conns D ks m (n, w) = (Ret m', n', w')"
  shows "gmap_ok m' \<and> nodeRegion n' = nodeRegion n \<and> (\<forall>k a. k \<notin> set ks \<longrightarrow> (connected n' k a \<longleftrightarrow> connected n k a)) \<and>
    (\<forall>k a. map_of m' k = Some a \<longleftrightarrow> (if k \<in> set ks then connected n' k a else map_of m k = Some a))"
  using assms
proof (induction ks arbitrary: n w m)
  case (Cons k ks)
  obtain r1 n1 w1 where g: "getNode D k (n, w) = (r1, n1, w1)" by (metis prod.exhaust)
  note G = getNode_connected [OF Cons.prems(1) g]
  have ok: "node_ok n1" by (rule getNode_ok [OF Cons.prems(1) g])
  from Cons.prems(5) g obtain res where r1: "r1 = Ret res" by (cases r1) auto
  define m1 where "m1 = (case res of None \<Rightarrow> m | Some a \<Rightarrow> gmap_set k a m)"
  have f: "find_conns D ks m1 (n1, w1) = (Ret m', n', w')"
    using Cons.prems(5) g r1 by (auto simp: m1_def split: option.splits)
  have m1: "gmap_ok m1" "\<forall>k \<in> dom (map_of m1). k \<notin> set ks" "map_of m1 k = res" "\<And>k'. k' \<noteq> k \<Longrightarrow> map_of m1 k' = map_of m k'"
    using Cons.prems(2-4) by (auto simp: m1_def split: option.splits)
  from Cons.IH [OF ok _ m1(1,2) f] Cons.prems(2) m1(3,4) G r1 show ?case by auto
qed auto

lemma names_distinct:
  "node_ok n \<Longrightarrow> gmap_ok (names_of n s) \<and> nodeName n \<notin> fst ` set (names_of n s)"
  by (auto simp: node_ok_def services_ok_def names_of_def split: option.splits)

lemma Find_connected:
  assumes "node_ok n" and "node_orders_ok Q" and "FindRpcConnByService D Q s (n, w) = (Ret m, n', w')"
  shows "gmap_ok m" and "nodeRegion n' = nodeRegion n"
    and "map_of m k = Some a \<longleftrightarrow> k \<in> fst ` set (names_of n s) \<and> connected n' k a"
proof -
  have o: "range_order (oNames Q)" using assms(2) by (simp add: node_orders_ok_def)
  have d: "distinct (map fst (oNames Q (names_of n s)))"
    using names_distinct [OF assms(1), of s] range_order_distinct [OF o] by blast
  have f: "find_conns D (map fst (oNames Q (names_of n s))) [] (n, w) = (Ret m, n', w')" if "map_of (ServiceNode n) s \<noteq> None"
    using assms(3) that by (auto simp: FindRpcConnByService_def names_of_def)
  have "gmap_ok m \<and> nodeRegion n' = nodeRegion n \<and> (map_of m k = Some a \<longleftrightarrow> k \<in> fst ` set (names_of n s) \<and> connected n' k a)"
  proof (cases "map_of (ServiceNode n) s")
    case None
    with assms(3) show ?thesis by (auto simp: FindRpcConnByService_def names_of_def)
  next
    case (Some names)
    from find_conns_connected [OF assms(1) d _ _ f] Some range_order_set [OF o] show ?thesis by simp
  qed
  then show "gmap_ok m" "nodeRegion n' = nodeRegion n"
    "map_of m k = Some a \<longleftrightarrow> k \<in> fst ` set (names_of n s) \<and> connected n' k a" by auto
qed


section \<open>A call to a service\<close>

lemma choose_client_Some [simp]: "choose_client n cs (Some c) d = Some c"
  by (induction cs arbitrary: d) simp_all

lemma choose_client_None:
  "choose_client n cs None d =
     (case find (\<lambda>c. nodeRegion n = region_of n c) cs of
        Some c \<Rightarrow> Some c
      | None \<Rightarrow> (case d of Some c \<Rightarrow> Some c | None \<Rightarrow> (case cs of [] \<Rightarrow> None | c # _ \<Rightarrow> Some c)))"
proof (induction cs arbitrary: d)
  case (Cons c cs)
  show ?case using Cons.IH by (cases d; cases "nodeRegion n = region_of n c") (simp_all split: option.splits)
qed (simp split: option.splits)

text \<open>The nodes that offer a service and have an open connection.\<close>

definition provider :: "('m, 'st, 'd) node \<Rightarrow> string \<Rightarrow> ('m, 'st, 'd) node \<Rightarrow> string \<Rightarrow> nat \<Rightarrow> bool" where
  "provider n svc n' name a \<longleftrightarrow> name \<in> fst ` set (names_of n svc) \<and> connected n' name a"

lemma getClient_provider:
  assumes "node_ok n" and "node_orders_ok Q" and "getClient D Q svc (n, w) = (Ret res, n', w')"
  shows "case res of
      None \<Rightarrow> \<nexists>name a. provider n svc n' name a
    | Some a \<Rightarrow> (\<exists>name. provider n svc n' name a) \<and>
        ((\<exists>name b. provider n svc n' name b \<and> region_of n' b = nodeRegion n) \<longrightarrow> region_of n' a = nodeRegion n)"
proof -
  from assms(3) obtain m where m: "FindRpcConnByService D Q svc (n, w) = (Ret m, n', w')"
    and res: "res = (if m = [] then None else choose_client n' (map snd (oFound Q m)) None None)"
    by (auto simp: getClient_def split: prod.splits outcome.splits)
  note F = Find_connected [OF assms(1,2) m]
  have o: "range_order (oFound Q)" using assms(2) by (simp add: node_orders_ok_def)
  have p: "(k, a) \<in> set m \<longleftrightarrow> provider n svc n' k a" for k a
    using F(3) [of k a] map_of_eq_Some_iff [OF F(1)] by (auto simp: provider_def)
  define cs where "cs = map snd (oFound Q m)"
  have cs: "a \<in> set cs \<longleftrightarrow> (\<exists>k. provider n svc n' k a)" for a
    using p range_order_set [OF o, of m] by (force simp: cs_def)
  show ?thesis
  proof (cases "m = []")
    case True
    with res p show ?thesis by auto
  next
    case False
    then obtain b bs where "cs = b # bs"
      using range_order_length [OF o, of m] by (cases cs) (auto simp: cs_def)
    with cs res False F(2) show ?thesis
      by (auto simp: choose_client_None cs_def [symmetric] find_None_iff find_Some_iff split: option.splits)
         (metis list.set_intros nth_mem)+
  qed
qed

lemma call_routed:
  assumes "node_ok n" and "node_orders_ok Q" and "callMock sm n = None" and "svc = fst (splitServiceMethod sm)"
    and "\<forall>x\<in>set (Nodes c). ServiceName x \<noteq> svc" and "map_of (Services n) svc = None"
    and "node_Call P L D Q (Some c) sm req t rsp (n, w) = (Ret res, n', w')"
  shows "(\<exists>name a address cl w1. snd (snd (getClient D Q svc (n, w))) = w1 \<and> provider n svc n' name a \<and> map_of (conns n') a = Some (address, cl) \<and>
      pCall D address (Some c) sm req rsp w1 = (res, w') \<and>
      ((\<exists>name' b. provider n svc n' name' b \<and> region_of n' b = nodeRegion n) \<longrightarrow> region_of n' a = nodeRegion n)) \<or>
    (\<nexists>name a. provider n svc n' name a) \<and> res = (1, Some (GoErr ''Call not support node rpc''), rsp)"
proof -
  have no: "find (\<lambda>x. svc = ServiceName x) (Nodes c) = None" using assms(5) by (auto simp: find_None_iff)
  obtain r n1 w1 where g: "getClient D Q svc (n, w) = (r, n1, w1)" by (metis prod.exhaust)
  with assms(3,4,6,7) no obtain res1 where r: "r = Ret res1"
    by (cases r) (auto simp: node_Call_def svc_route_def Let_def)
  note G = getClient_provider [OF assms(1,2) g [unfolded r]]
  show ?thesis
  proof (cases res1)
    case None
    with G assms(3,4,6,7) no g r show ?thesis by (auto simp: node_Call_def svc_route_def Let_def)
  next
    case (Some a)
    with G obtain name where name: "provider n svc n1 name a" by auto
    then obtain address cl where ad: "map_of (conns n1) a = Some (address, cl)" "\<not> IsClose cl"
      by (auto simp: provider_def connected_def usable_Some)
    with Some assms(3,4,6,7) no g r have "n' = n1" "pCall D address (Some c) sm req rsp w1 = (res, w')"
      by (auto simp: node_Call_def svc_route_def Let_def conn_Call_def on_conn_def apfst_def map_prod_def split: prod.splits)
    then show ?thesis using G Some name ad
      by (intro disjI1 exI [of _ name] exI [of _ a] exI [of _ address] exI [of _ cl] exI [of _ w1] conjI) (simp_all add: g)
  qed
qed

text \<open>
  A call to a service that the node does not offer itself, with no mock and no route in the
  context, goes to a node that is registered for the service and has an open connection, and the
  caller gets the answer of that node; when one of these nodes is in the region of the caller, the
  chosen one is. Only when no such node exists is the call refused.
\<close>

theorem call_reaches_provider:
  assumes "node_ok n" and "node_orders_ok Q" and "callMock sm n = None" and "svc = fst (splitServiceMethod sm)"
    and "\<forall>x\<in>set (Nodes c). ServiceName x \<noteq> svc" and "map_of (Services n) svc = None"
    and "node_Call P L D Q (Some c) sm req t rsp (n, w) = (Ret res, n', w')"
  shows "(\<exists>name a address cl w1. provider n svc n' name a \<and> map_of (conns n') a = Some (address, cl) \<and>
      pCall D address (Some c) sm req rsp w1 = (res, w') \<and>
      ((\<exists>name' b. provider n svc n' name' b \<and> region_of n' b = nodeRegion n) \<longrightarrow> region_of n' a = nodeRegion n)) \<or>
    (\<nexists>name a. provider n svc n' name a) \<and> res = (1, Some (GoErr ''Call not support node rpc''), rsp)"
  using call_routed [OF assms] by blast


section \<open>Connecting to a discovered node\<close>

lemma splitNodes [simp]: "nodeRegion (submit_all Q g n) = nodeRegion n" "Services (submit_all Q g n) = Services n"
  "MockData (submit_all Q g n) = MockData n" "ServiceNode (submit_all Q g n) = ServiceNode n"
  "RpcClient (submit_all Q g n) = RpcClient n" "conns (submit_all Q g n) = conns n" "nodeName (submit_all Q g n) = nodeName n"
  by (simp_all add: submit_all_def)

lemma connectNode_dialled:
  assumes "node_ok n" and "nName info \<noteq> nodeName n"
    and "getNodeAddress (nodeRegion n) (nAddress info) (nRegion info) = Ret address" and "pDial D address w = (Inr inp, w1)"
  shows "\<exists>n1 a cl. connectNode D Q info (n, w) = (Ret (), n1, w1) \<and> node_ok n1 \<and> connected n1 (nName info) a \<and>
    map_of (conns n1) a = Some (address, cl) \<and> Region cl = nRegion info \<and>
    Services n1 = Services n \<and> MockData n1 = MockData n \<and> nodeName n1 = nodeName n \<and> nodeRegion n1 = nodeRegion n \<and>
    (\<forall>s. fst ` set (names_of n1 s) = (if s \<in> sName ` set (nService info) then {nName info} else {}) \<union> fst ` set (names_of n s))"
proof -
  let ?cl = "(WithName (nName info) True (NewClient inp))\<lparr>Region := nRegion info\<rparr> :: (go_type, 'a) rpc_client"
  let ?n1 = "snd (new_conn address ?cl n)"
  let ?n2 = "fold (add_service info) (nService info) ?n1"
  let ?n3 = "?n2\<lparr>RpcClient := gmap_set (nName info) \<lparr>ncInfo = info, ncConn = Some (nextConn n), ncClose = False\<rparr> (RpcClient ?n2)\<rparr>"
  let ?n4 = "submit_all Q (\<lambda>s. TNodeConn s (nName info)) ?n3"
  have c: "connectNode D Q info (n, w) = (Ret (), ?n4, w1)"
    using assms(2-4) by (simp add: connectNode_def Dial_def new_conn_def Let_def)
  have nm: "names_of ?n4 s = names_of ?n2 s" "names_of ?n1 s = names_of n s" for s
    by (simp_all add: names_of_def new_conn_def)
  have "map_of (conns ?n4) (nextConn n) = Some (address, ?cl)"
    by (simp add: add_services_fields new_conn_def)
  moreover from this have "connected ?n4 (nName info) (nextConn n)"
    by (auto simp: connected_def usable_Some IsClose_def WithName_def NewClient_def)
  ultimately show ?thesis
    using c connectNode_ok [OF assms(1) c] nm names_of_add_services [of info "nService info" ?n1]
    by (intro exI [of _ ?n4] exI [of _ "nextConn n"] exI [of _ ?cl])
       (simp add: add_services_fields new_conn_def)
qed

lemma getNode_of_connected:
  assumes "connected n name a"
  shows "getNode D name (n, w) = (Ret (Some a), n, w)"
  using assms by (auto simp: getNode_def connected_def)

lemma conn_Call_open:
  assumes "map_of (conns n) a = Some (address, cl)" and "usable n (Some a)" and "pCall D address ctx sm req rsp w = (res, w')"
  shows "conn_Call D a ctx sm req rsp (n, w) = (Ret res, n, w')"
  using assms by (auto simp: conn_Call_def on_conn_def usable_Some)

lemma sole_provider_found:
  assumes "node_ok n" and "node_orders_ok Q" and "fst ` set (names_of n svc) = {name}" and "connected n name a"
  shows "FindRpcConnByService D Q svc (n, w) = (Ret [(name, a)], n, w)" and "oFound Q [(name, a)] = [(name, a)]"
proof -
  have o: "range_order (oNames Q)" using assms(2) by (simp add: node_orders_ok_def)
  from assms(3) names_distinct [OF assms(1), of svc] have "length (names_of n svc) = 1"
    by (metis card.empty card_insert_disjoint distinct_card empty_iff finite.emptyI length_map list.set_map One_nat_def)
  then have "\<exists>b. names_of n svc = [(name, b)]" using assms(3) by (cases "names_of n svc") auto
  moreover have "mset (oNames Q (names_of n svc)) = mset (names_of n svc)" by (rule range_order_mset [OF o])
  ultimately have "map fst (oNames Q (names_of n svc)) = [name]" by auto
  moreover have "map_of (ServiceNode n) svc = Some (names_of n svc)"
    using assms(3) by (cases "map_of (ServiceNode n) svc") (auto simp: names_of_def)
  ultimately show "FindRpcConnByService D Q svc (n, w) = (Ret [(name, a)], n, w)"
    by (simp add: FindRpcConnByService_def getNode_of_connected [OF assms(4)])
  show "oFound Q [(name, a)] = [(name, a)]"
    using range_order_mset [of "oFound Q" "[(name, a)]"] assms(2) by (simp add: node_orders_ok_def)
qed

lemma sole_provider_call:
  assumes "node_ok n" and "node_orders_ok Q" and "fst ` set (names_of n svc) = {name}" and "connected n name a"
    and "map_of (conns n) a = Some (address, cl)" and "callMock sm n = None" and "svc = fst (splitServiceMethod sm)"
    and "\<forall>x\<in>set (Nodes c). ServiceName x \<noteq> svc" and "map_of (Services n) svc = None"
    and "pCall D address (Some c) sm req rsp w = (res, w')"
  shows "node_Call P L D Q (Some c) sm req t rsp (n, w) = (Ret res, n, w')"
proof -
  have "getClient D Q svc (n, w) = (Ret (Some a), n, w)"
    by (simp add: getClient_def sole_provider_found [OF assms(1-4)])
  moreover have "find (\<lambda>x. svc = ServiceName x) (Nodes c) = None" using assms(8) by (auto simp: find_None_iff)
  ultimately have "svc_route D Q (Some c) sm (n, w) = (Ret (RConn a), n, w)"
    using assms(6,7,9) by (simp add: svc_route_def)
  moreover have "usable n (Some a)" using assms(4) by (auto simp: connected_def)
  ultimately show ?thesis by (simp add: node_Call_def conn_Call_open [OF assms(5) _ assms(10)])
qed



section \<open>Broadcasts\<close>

definition address_of :: "('m, 'st, 'd) node \<Rightarrow> nat \<Rightarrow> string" where
  "address_of n a = (case map_of (conns n) a of None \<Rightarrow> [] | Some (address, _) \<Rightarrow> address)"

lemma send_each_fold:
  assumes "\<forall>(name, a)\<in>set cs. name \<noteq> nodeName n \<and> usable n (Some a)"
  shows "send_each D sm req cs (n, w) = (n, fold (\<lambda>(name, a). pSend D (address_of n a) EmptyContext sm req) cs w)"
  using assms by (induction cs arbitrary: w) (auto simp: conn_Send_def on_conn_def usable_Some address_of_def)

lemma getNode_Tasks: "getNode D k nw = (r, n', w') \<Longrightarrow> Tasks n' = Tasks (fst nw)"
  by (auto simp: getNode_def new_conn_def split: option.splits if_splits outcome.splits prod.splits sum.splits)

lemma find_conns_Tasks: "find_conns D ks m nw = (r, n', w') \<Longrightarrow> Tasks n' = Tasks (fst nw)"
proof (induction D ks m nw rule: find_conns.induct)
  case (2 D k ks m nw)
  obtain r1 n1 w1 where g: "getNode D k nw = (r1, n1, w1)" by (metis prod.exhaust)
  from getNode_Tasks [OF g] 2 g show ?case by (auto split: outcome.splits option.splits)
qed simp

lemma Find_Tasks: "FindRpcConnByService D Q s (n, w) = (r, n', w') \<Longrightarrow> Tasks n' = Tasks n"
  by (auto simp: FindRpcConnByService_def split: option.splits dest: find_conns_Tasks)

lemma broadcast_sent:
  assumes "node_ok n" and "node_orders_ok Q" and "callMock sm n = None" and "svc = fst (splitServiceMethod sm)"
    and "Broadcast D Q sm req (n, w) = (Ret e, n', w')"
  shows "e = None \<and> Tasks n' = Tasks n @ (if map_of (Services n) svc = None then [] else [TInternal EmptyContext sm req]) \<and>
    (\<exists>w1 cs n0. Tasks n0 = Tasks n' \<and> snd (snd (FindRpcConnByService D Q svc (n0, w))) = w1 \<and> distinct (map fst cs) \<and> distinct (map snd cs) \<and> (\<forall>name a. (name, a) \<in> set cs \<longleftrightarrow> provider n svc n' name a) \<and>
       w' = fold (\<lambda>(name, a). pSend D (address_of n' a) EmptyContext sm req) cs w1)"
proof -
  define n0 where "n0 = (if map_of (Services n) svc = None then n else submit (TInternal EmptyContext sm req) n)"
  have n0: "node_ok n0" "nodeName n0 = nodeName n" "names_of n0 svc = names_of n svc"
    "Tasks n0 = Tasks n @ (if map_of (Services n) svc = None then [] else [TInternal EmptyContext sm req])"
    using assms(1) by (auto simp: n0_def submit_ok) (simp_all add: submit_def names_of_def)
  from assms(3-5) obtain m w1 n1 where f: "FindRpcConnByService D Q svc (n0, w) = (Ret m, n1, w1)"
    and e: "e = None" "(n', w') = (if length m = 0 then (n1, w1) else send_each D sm req (oFound Q m) (n1, w1))"
    by (auto simp: Broadcast_def Let_def n0_def split: prod.splits outcome.splits if_splits)
  note F = Find_connected [OF n0(1) assms(2) f]
  have ok1: "node_ok n1" "nodeName n1 = nodeName n" using FindRpcConnByService_ok [OF n0(1) f] n0(2) by auto
  have o: "range_order (oFound Q)" using assms(2) by (simp add: node_orders_ok_def)
  have mem: "(k, a) \<in> set (oFound Q m) \<longleftrightarrow> provider n svc n1 k a" for k a
    using F(3) [of k a] map_of_eq_Some_iff [OF F(1)] range_order_set [OF o] n0(3) by (auto simp: provider_def)
  have d: "distinct (map fst (oFound Q m))" using F(1) range_order_distinct [OF o] by blast
  have d2: "distinct (map snd (oFound Q m))"
    unfolding distinct_map
  proof
    show "distinct (oFound Q m)" using d by (simp add: distinct_map)
    show "inj_on snd (set (oFound Q m))"
      using mem connected_inj [OF ok1(1)] by (auto simp: inj_on_def provider_def)
  qed
  have "\<forall>(name, a)\<in>set (oFound Q m). name \<noteq> nodeName n1 \<and> usable n1 (Some a)"
    using mem names_distinct [OF assms(1), of svc] ok1(2) by (auto simp: provider_def connected_def)
  from send_each_fold [OF this, of D sm req w1] e
  have s: "n' = n1" "w' = fold (\<lambda>(name, a). pSend D (address_of n' a) EmptyContext sm req) (oFound Q m) w1"
    using range_order_length [OF o, of m] by (auto split: if_splits)
  have "Tasks n1 = Tasks n0" by (rule Find_Tasks [OF f])
  moreover have "snd (snd (FindRpcConnByService D Q svc (n0, w))) = w1" by (simp add: f)
  ultimately show ?thesis using n0(4) e(1) d d2 mem s by (intro conjI exI [of _ w1] exI [of _ "oFound Q m"] exI [of _ n0]) simp_all
qed

text \<open>
  A broadcast is delivered once to every node that offers the service and has an open
  connection, to nobody else, and once to the node itself when it has the service: the messages
  sent are the elements of a list without repetitions whose nodes are exactly these.
\<close>

theorem broadcast_reaches_each:
  assumes "node_ok n" and "node_orders_ok Q" and "callMock sm n = None" and "svc = fst (splitServiceMethod sm)"
    and "Broadcast D Q sm req (n, w) = (Ret e, n', w')"
  shows "e = None \<and> Tasks n' = Tasks n @ (if map_of (Services n) svc = None then [] else [TInternal EmptyContext sm req]) \<and>
    (\<exists>w1 cs. distinct (map fst cs) \<and> distinct (map snd cs) \<and> (\<forall>name a. (name, a) \<in> set cs \<longleftrightarrow> provider n svc n' name a) \<and>
       w' = fold (\<lambda>(name, a). pSend D (address_of n' a) EmptyContext sm req) cs w1)"
  using broadcast_sent [OF assms] by blast


section \<open>Reconnecting\<close>

text \<open>
  C29. \<^verbatim>\<open>CloseCallback\<close> identifies the connection by the name of the node only. When the
  callback of an old connection runs after the node has been connected again, it removes the new
  entry: calls to the node were answered before it and are refused after it, with nothing wrong with
  the new connection.
\<close>

theorem stale_callback_disconnects:
  assumes "node_ok n" and "nName info \<noteq> nodeName n"
    and "getNodeAddress (nodeRegion n) (nAddress info) (nRegion info) = Ret address" and "pDial D address w = (Inr inp, w1)"
    and "callMock sm n = None" and "pCall D address EmptyContext sm req rsp w1 = (res, w2)"
  shows "\<exists>n1. connectNode D Q info (n, w) = (Ret (), n1, w1) \<and>
    NodeCall P L D (nName info) sm req t rsp (n1, w1) = (Ret res, n1, w2) \<and>
    NodeCall P L D (nName info) sm req t rsp (CloseCallback Q (nName info) n1, w1) =
      (Ret (1, Some (not_exists ''node '' (nName info)), rsp), CloseCallback Q (nName info) n1, w1)"
proof -
  from connectNode_dialled [OF assms(1-4), of Q] obtain n1 a cl where n1: "connectNode D Q info (n, w) = (Ret (), n1, w1)"
    "connected n1 (nName info) a" "map_of (conns n1) a = Some (address, cl)" "MockData n1 = MockData n" "nodeName n1 = nodeName n"
    by auto
  have mock: "callMock sm n1 = None" "callMock sm (CloseCallback Q (nName info) n1) = None"
    using assms(5) n1(4) by (simp_all add: callMock_def CloseCallback_def)
  have "usable n1 (Some a)" using n1(2) by (auto simp: connected_def)
  then have "NodeCall P L D (nName info) sm req t rsp (n1, w1) = (Ret res, n1, w2)"
    using assms(2) n1(5) mock(1)
    by (simp add: NodeCall_def node_route_def GetNode_def getNode_of_connected [OF n1(2)] conn_Call_open [OF n1(3) _ assms(6)])
  moreover have "NodeCall P L D (nName info) sm req t rsp (CloseCallback Q (nName info) n1, w1) =
      (Ret (1, Some (not_exists ''node '' (nName info)), rsp), CloseCallback Q (nName info) n1, w1)"
    using assms(2) n1(5) mock(2) by (simp add: NodeCall_def node_route_def GetNode_def getNode_def CloseCallback_def)
  ultimately show ?thesis using n1(1) by blast
qed

text \<open>
  C8. Whatever the node does, in whatever order nodes appear, disappear and are called, its tables
  stay consistent: a name is never its own, an entry is filed under the name it describes and
  refers to a client that exists, no two entries share a client, and the set of providers of a
  service has no duplicates and does not contain the node itself.
\<close>

theorem node_reachable_ok:
  assumes "fresh_node n" and "run (node_step P L D Q J net) (n, w) es (n', w')"
  shows "gmap_ok (RpcClient n') \<and> (\<forall>k nc. map_of (RpcClient n') k = Some nc \<longrightarrow> k \<noteq> nodeName n' \<and> nName (ncInfo nc) = k \<and>
      (\<forall>a. ncConn nc = Some a \<longrightarrow> a \<in> dom (map_of (conns n')))) \<and>
    (\<forall>k k' a. connected n' k a \<longrightarrow> connected n' k' a \<longrightarrow> k = k') \<and>
    (\<forall>s. gmap_ok (names_of n' s) \<and> nodeName n' \<notin> fst ` set (names_of n' s))"
proof -
  have ok: "node_ok n'" using node_sys.reachable_inv [of "(n, w)", OF _ assms(2)] assms(1) by simp
  then have "gmap_ok (RpcClient n')" "\<forall>k nc. map_of (RpcClient n') k = Some nc \<longrightarrow> entry_ok n' k nc"
    by (auto simp: node_ok_def clients_ok_def)
  with names_distinct [OF ok] connected_inj [OF ok] show ?thesis by (auto simp: entry_ok_def)
qed


section \<open>Witnesses\<close>

text \<open>A node of region 1 and the record of a node of region 2 with two addresses.\<close>

definition demo_self :: "(string, string, string) node" where
  "demo_self =
     \<lparr>nodeId = 1, nodeName = ''me'', nodeType = ''game'', nodeServer = db_server, Services = [], RpcClient = [], conns = [],
      nextConn = 0, CmdService = [], ServiceNode = [], nodeRegion = 1, nodeSet = [], ExitTime = 1, IDGen = NewIDGen 1,
      NodeData = [], MockData = None, RpcCallBack = False,
      NodeSelf = \<lparr>nId = 1, nName = ''me'', nType = ''game'', nAddress = ''h:1'', nService = [], nRegion = 1, nSet = []\<rparr>, Tasks = []\<rparr>"

definition demo_info :: node_info where
  "demo_info =
     \<lparr>nId = 2, nName = ''db1'', nType = ''db'', nAddress = ''in/out:9'', nService = [\<lparr>sName = ''Db'', sFunc = [\<lparr>fName = ''Get'', fCmd = 3\<rparr>]\<rparr>],
      nRegion = 2, nSet = []\<rparr>"

definition demo_peers :: "(string, string list) peers" where
  "demo_peers =
     \<lparr>pDial = (\<lambda>a w. (Inr [], w @ [''dial'' @ a])), pCall = (\<lambda>a ctx sm req rsp w. ((7, None, a), w @ [a])),
      pRaw = (\<lambda>a ctx sm b js w. (Ret (0, Inr []), w @ [a])), pSend = (\<lambda>a ctx sm req w. w @ [a]),
      pRawSend = (\<lambda>a ctx sm b js w. w @ [a])\<rparr>"

definition demo_orders :: "(string, string) node_orders" where
  "demo_orders = \<lparr>oServices = id, oClients = id, oNames = id, oFound = rev\<rparr>"

definition demo_ctx :: rpc_context where
  "demo_ctx = the EmptyContext"

lemma demo_facts:
  "node_ok demo_self" "node_orders_ok demo_orders" "nName demo_info \<noteq> nodeName demo_self"
  "getNodeAddress (nodeRegion demo_self) (nAddress demo_info) (nRegion demo_info) = Ret ''out:9''"
  "pDial demo_peers ''out:9'' [] = (Inr [], [''dialout:9''])"
  "fst (splitServiceMethod ''Db.Get'') = ''Db''" "''Db'' \<in> sName ` set (nService demo_info)" "names_of demo_self ''Db'' = []"
  "callMock ''Db.Get'' demo_self = None" "\<forall>x\<in>set (Nodes demo_ctx). ServiceName x \<noteq> ''Db''" "map_of (Services demo_self) ''Db'' = None"
  "pCall demo_peers ''out:9'' (Some demo_ctx) ''Db.Get'' q r [''dialout:9''] = ((7, None, ''out:9''), [''dialout:9'', ''out:9''])"
  "Some demo_ctx = EmptyContext"
  by (simp_all add: demo_self_def demo_info_def demo_peers_def demo_orders_def demo_ctx_def node_ok_def heap_ok_def clients_ok_def
      services_ok_def node_orders_ok_def range_order_def names_of_def callMock_def EmptyContext_def)
     (code_simp+)


theorem stale_callback_disconnects_witness:
  "\<exists>n1. connectNode demo_peers demo_orders demo_info (demo_self, []) = (Ret (), n1, [''dialout:9'']) \<and>
     fst (NodeCall db_lib db_reflect demo_peers ''db1'' ''Db.Get'' ''y'' rsp_t [] (n1, [''dialout:9''])) = Ret (7, None, ''out:9'') \<and>
     fst (NodeCall db_lib db_reflect demo_peers ''db1'' ''Db.Get'' ''y'' rsp_t [] (CloseCallback demo_orders ''db1'' n1, [''dialout:9''])) =
       Ret (1, Some (GoErr ''node db1 not exists''), [])"
  using stale_callback_disconnects [OF demo_facts(1,3-5,9) demo_facts(12) [unfolded demo_facts(13)], where Q = demo_orders and P = db_lib and L = db_reflect and t = rsp_t and req = "''y''" and rsp = "[]"]
  by (auto simp: demo_info_def not_exists_def)

definition demo_net :: "(string, string, string) node" where
  "demo_net = fst (snd (connectNode demo_peers demo_orders demo_info (demo_self, [])))"

lemma demo_connected:
  obtains a cl where "node_ok demo_net" and "connected demo_net ''db1'' a" and "map_of (conns demo_net) a = Some (''out:9'', cl)"
    and "callMock ''Db.Get'' demo_net = None" and "map_of (Services demo_net) ''Db'' = None"
    and "fst ` set (names_of demo_net ''Db'') = {''db1''}" and "nodeName demo_net = ''me''"
proof -
  have i: "nName demo_info = ''db1''" by (simp add: demo_info_def)
  from connectNode_dialled [OF demo_facts(1,3-5), of demo_orders] obtain n1 a cl where
    n1: "connectNode demo_peers demo_orders demo_info (demo_self, []) = (Ret (), n1, [''dialout:9''])" "node_ok n1"
    "connected n1 ''db1'' a" "map_of (conns n1) a = Some (''out:9'', cl)" "Services n1 = Services demo_self" "MockData n1 = MockData demo_self"
    "fst ` set (names_of n1 ''Db'') = {''db1''}" "nodeName n1 = nodeName demo_self"
    using demo_facts(7,8) unfolding i by auto
  have "callMock ''Db.Get'' n1 = None" using demo_facts(9) n1(6) by (simp add: callMock_def)
  moreover have "demo_net = n1" using n1(1) by (simp add: demo_net_def)
  moreover have "nodeName n1 = ''me''" using n1(8) by (simp add: demo_self_def)
  moreover have "map_of (Services n1) ''Db'' = None" using n1(5) demo_facts(11) by simp
  ultimately show thesis using that [of a cl] n1(2,3,4,7) by simp
qed

theorem call_reaches_provider_witness:
  "\<exists>name a address cl w1. provider demo_net ''Db'' demo_net name a \<and> map_of (conns demo_net) a = Some (address, cl) \<and>
     pCall demo_peers address (Some demo_ctx) ''Db.Get'' ''y'' [] w1 = ((7, None, ''out:9''), [''dialout:9'', ''out:9''])"
proof -
  obtain a cl where n: "node_ok demo_net" "connected demo_net ''db1'' a" "map_of (conns demo_net) a = Some (''out:9'', cl)"
    "callMock ''Db.Get'' demo_net = None" "map_of (Services demo_net) ''Db'' = None" "fst ` set (names_of demo_net ''Db'') = {''db1''}"
    by (rule demo_connected)
  have c: "node_Call db_lib db_reflect demo_peers demo_orders (Some demo_ctx) ''Db.Get'' ''y'' rsp_t [] (demo_net, [''dialout:9'']) =
      (Ret (7, None, ''out:9''), demo_net, [''dialout:9'', ''out:9''])"
    by (rule sole_provider_call [OF n(1) demo_facts(2) n(6,2,3,4) demo_facts(6) [symmetric] demo_facts(10) n(5) demo_facts(12)])
  have "provider demo_net ''Db'' demo_net ''db1'' a" using n(2,6) by (simp add: provider_def)
  with call_reaches_provider [OF n(1) demo_facts(2) n(4) demo_facts(6) [symmetric] demo_facts(10) n(5) c]
  show ?thesis by blast
qed

theorem broadcast_reaches_each_witness:
  "\<exists>cs w1. (\<forall>name a. (name, a) \<in> set cs \<longleftrightarrow> provider demo_net ''Db'' demo_net name a) \<and>
     [''out:9''] = fold (\<lambda>(name, a). pSend demo_peers (address_of demo_net a) EmptyContext ''Db.Get'' ''y'') cs w1"
proof -
  obtain a cl where n: "node_ok demo_net" "connected demo_net ''db1'' a" "map_of (conns demo_net) a = Some (''out:9'', cl)"
    "callMock ''Db.Get'' demo_net = None" "map_of (Services demo_net) ''Db'' = None" "fst ` set (names_of demo_net ''Db'') = {''db1''}"
    "nodeName demo_net = ''me''" by (rule demo_connected)
  have "\<not> IsClose cl" using n(2,3) by (auto simp: connected_def usable_Some)
  then have "send_each demo_peers ''Db.Get'' ''y'' [(''db1'', a)] (demo_net, []) = (demo_net, [''out:9''])"
    by (simp add: n(3,7) conn_Send_def on_conn_def) (simp add: demo_peers_def)
  then have "Broadcast demo_peers demo_orders ''Db.Get'' ''y'' (demo_net, []) = (Ret None, demo_net, [''out:9''])"
    by (simp add: Broadcast_def n(4,5) sole_provider_found [OF n(1) demo_facts(2) n(6,2)] demo_facts(6))
  from broadcast_reaches_each [OF n(1) demo_facts(2) n(4) demo_facts(6) [symmetric] this] show ?thesis by meson
qed

theorem node_reachable_ok_witness:
  "gmap_ok (RpcClient demo_net) \<and> gmap_ok (names_of demo_net ''Db'') \<and> nodeName demo_net \<notin> fst ` set (names_of demo_net ''Db'')"
proof -
  fix J :: "node_info json" and net :: "unit net"
  obtain w where w: "snd (connectNode demo_peers demo_orders demo_info (demo_self, [])) = (demo_net, w)"
    by (metis demo_net_def prod.collapse)
  have "node_step db_lib db_reflect demo_peers demo_orders J net (EConnect demo_info :: (string, string, unit watch_client \<times> unit) node_event) (demo_self, [])
      (snd (connectNode demo_peers demo_orders demo_info (demo_self, [])))" by (rule s_connect)
  then have "run (node_step db_lib db_reflect demo_peers demo_orders J net) (demo_self, [])
      [EConnect demo_info :: (string, string, unit watch_client \<times> unit) node_event] (demo_net, w)"
    unfolding w by (rule run_cons) (rule run_nil)
  moreover have "fresh_node demo_self" by (simp add: fresh_node_def demo_self_def)
  ultimately show ?thesis by (meson node_reachable_ok)
qed

end
