(* ===== verification/Gate_Sessions.thy ===== *)
theory Gate_Sessions
  imports Gnet_Gate Rpc_Discovery
begin

text \<open>
  What the gate of \<open>Gnet_Gate\<close> guarantees: numbering a connection ends and gives a number that no
  open connection has; the table of connections and the counter agree with the open connections under
  every interleaving of connections, messages, tasks and timeouts; every message is answered exactly
  once; and a forwarded call returns the answer of the service to the client.
\<close>

section \<open>Numbers of connections\<close>

lemma conn_id_low: "conn_id nid c AND 0xFFFFFFFF = c AND 0xFFFFFFFF"
proof -
  have m: "(0xFFFFFFFF :: u64) = mask 32" "(0xFFFF :: u64) = mask 16" by (simp_all add: mask_eq_exp_minus_1)
  show ?thesis by (rule bit_word_eqI) (auto simp: conn_id_def m bit_simps)
qed

lemma conn_id_high: "drop_bit 32 (conn_id nid c) = nid AND 0xFFFF"
proof -
  have m: "(0xFFFFFFFF :: u64) = mask 32" "(0xFFFF :: u64) = mask 16" by (simp_all add: mask_eq_exp_minus_1)
  show ?thesis by (rule bit_word_eqI) (auto simp: conn_id_def m bit_simps)
qed

lemma conn_id_inj:
  assumes "conn_id nid (c + of_nat i) = conn_id nid (c + of_nat j)" and "i < 2 ^ 32" and "j < 2 ^ 32"
  shows "i = j"
proof -
  have m: "(0xFFFFFFFF :: u64) = mask 32" by (simp add: mask_eq_exp_minus_1)
  have low: "unat ((c + of_nat k) AND mask 32) = (unat c + k) mod 2 ^ 32" for k
  proof -
    have "unat ((c + of_nat k) AND mask 32) = unat (c + of_nat k) mod 2 ^ 32"
      by (simp only: take_bit_eq_mask [symmetric] unsigned_take_bit_eq) (simp only: take_bit_eq_mod)
    also have "unat (c + of_nat k) = (unat c + k) mod 2 ^ 64"
      by (simp add: unat_word_ariths unat_of_nat mod_simps)
    finally show ?thesis by (simp add: mod_mod_cancel)
  qed
  have "(c + of_nat i) AND mask 32 = (c + of_nat j) AND mask 32"
    using conn_id_low [of nid "c + of_nat i"] conn_id_low [of nid "c + of_nat j"] assms(1) by (simp add: m)
  then have "(unat c + i) mod 2 ^ 32 = (unat c + j) mod 2 ^ 32" using low by metis
  then obtain q q' where "unat c + i + 2 ^ 32 * q = unat c + j + 2 ^ 32 * q'" unfolding nat_mod_eq_iff by blast
  then have "(i + 2 ^ 32 * q) mod 2 ^ 32 = (j + 2 ^ 32 * q') mod 2 ^ 32" by (simp only: add.assoc add_left_cancel)
  with assms(2,3) show ?thesis by (simp only: mod_mult_self2 mod_less)
qed

lemma newID_loop_steps:
  assumes "\<forall>j<k. taken (conn_id nid (c + 1 + of_nat j))" and "\<not> taken (conn_id nid (c + 1 + of_nat k))"
  shows "newID_loop nid taken c = Some (conn_id nid (c + 1 + of_nat k), c + 1 + of_nat k)"
  using assms
proof (induction k arbitrary: c)
  case 0
  then show ?case by (simp add: newID_loop.simps)
next
  case (Suc k)
  have "\<forall>j<k. taken (conn_id nid (c + 1 + 1 + of_nat j))"
  proof (intro allI impI)
    fix j assume "j < k"
    with Suc.prems(1) have "taken (conn_id nid (c + 1 + of_nat (Suc j)))" by blast
    then show "taken (conn_id nid (c + 1 + 1 + of_nat j))" by (simp add: algebra_simps)
  qed
  moreover have "\<not> taken (conn_id nid (c + 1 + 1 + of_nat k))" using Suc.prems(2) by (simp add: algebra_simps)
  ultimately have "newID_loop nid taken (c + 1) = Some (conn_id nid (c + 1 + 1 + of_nat k), c + 1 + 1 + of_nat k)"
    by (rule Suc.IH)
  moreover have "taken (conn_id nid (c + 1))" using Suc.prems(1) [rule_format, of 0] by simp
  ultimately show ?case by (subst newID_loop.simps) (simp add: algebra_simps)
qed

lemma newID_loop_fresh:
  assumes "newID_loop nid taken c = Some (i, k)"
  shows "\<not> taken i"
proof -
  have "\<not> taken (fst (i, k))"
    by (rule newID_loop.raw_induct [of "\<lambda>nid taken c r. \<not> taken (fst r)", OF _ assms]) (auto split: if_splits, blast)
  then show ?thesis by simp
qed

lemma newID_loop_ends:
  assumes "finite {i. taken i}" and "card {i. taken i} < 2 ^ 32"
  shows "\<exists>i c'. newID_loop nid taken c = Some (i, c') \<and> \<not> taken i \<and> i = conn_id nid c'"
proof -
  have "\<exists>k. \<not> taken (conn_id nid (c + 1 + of_nat k))"
  proof (rule ccontr)
    assume "\<not> ?thesis"
    then have sub: "(\<lambda>k. conn_id nid (c + 1 + of_nat k)) ` {..<2 ^ 32} \<subseteq> {i. taken i}" by auto
    have "inj_on (\<lambda>k. conn_id nid (c + 1 + of_nat k)) {..<2 ^ 32}"
      by (rule inj_onI) (use conn_id_inj [of nid "c + 1"] in auto)
    then have "card ((\<lambda>k. conn_id nid (c + 1 + of_nat k)) ` {..<2 ^ 32}) = 2 ^ 32" by (simp add: card_image)
    with card_mono [OF assms(1) sub] assms(2) show False by linarith
  qed
  then obtain k where k: "\<not> taken (conn_id nid (c + 1 + of_nat k))" "\<forall>j<k. taken (conn_id nid (c + 1 + of_nat j))"
    using exists_least_iff [of "\<lambda>k. \<not> taken (conn_id nid (c + 1 + of_nat k))"] by auto
  from newID_loop_steps [OF k(2,1)] k(1) show ?thesis by blast
qed

text \<open>
  Numbering a connection ends as long as fewer than 2^32 connections are open, whatever numbers
  they have: the result carries the node in its upper half, so nodes with different numbers below
  2^16 never issue the same one, and no open connection has it.
\<close>

theorem newID_returns_fresh:
  assumes "card (dom (map_of (Ids g))) < 2 ^ 32"
  shows "\<exists>i g'. gater_newID g = Some (i, g') \<and> i \<notin> dom (map_of (Ids g)) \<and> Ids g' = Ids g \<and>
    drop_bit 32 i = nodeId (fst (gNode g)) AND 0xFFFF"
proof -
  have "{i. map_of (Ids g) i \<noteq> None} = dom (map_of (Ids g))" by auto
  with newID_loop_ends [of "\<lambda>i. map_of (Ids g) i \<noteq> None" "nodeId (fst (gNode g))" "IDCounter g"] assms
  show ?thesis by (auto simp: gater_newID_def conn_id_high finite_dom_map_of)
qed


section \<open>Operations within a session\<close>

text \<open>The interceptors may change a connection, but not its number.\<close>

definition conn_kept :: "client_conn \<Rightarrow> client_conn \<Rightarrow> bool" where
  "conn_kept c c' \<longleftrightarrow> ctxId (ccContext c') = ctxId (ccContext c) \<and> ccLive c' = ccLive c"

definition funcs_ok :: "('m, 'st, 'd, 'w, 's) gater \<Rightarrow> bool" where
  "funcs_ok g \<longleftrightarrow>
     (\<forall>v\<in>set (NewFuncs g) \<union> set (DelFuncs g). \<forall>c s. conn_kept c (fst (snd (v c s)))) \<and>
     (\<forall>v\<in>set (ReqFuncs g). \<forall>c m s. conn_kept c (fst (snd (v c m s)))) \<and>
     (\<forall>v\<in>set (RspFuncs g). \<forall>c m b r e s. conn_kept c (fst (v c m b r e s)))"

lemma conn_kept_refl [simp]: "conn_kept c c"
  by (simp add: conn_kept_def)

lemma conn_kept_trans: "conn_kept a b \<Longrightarrow> conn_kept b c \<Longrightarrow> conn_kept a c"
  by (simp add: conn_kept_def)

lemma conn_kept_upd [simp]:
  "conn_kept c (c'\<lparr>ccTimer := t\<rparr>) = conn_kept c c'" "conn_kept c (c'\<lparr>ccIn := r\<rparr>) = conn_kept c c'"
  "conn_kept c (c'\<lparr>ccOut := r\<rparr>) = conn_kept c c'" "conn_kept c (c'\<lparr>ccClosed := b\<rparr>) = conn_kept c c'"
  "conn_kept (c\<lparr>ccIn := r\<rparr>) c' = conn_kept c c'" "conn_kept (c\<lparr>ccClosed := b\<rparr>) c' = conn_kept c c'"
  "conn_kept c (close_rwc k c') = conn_kept c c'"
  by (simp_all add: conn_kept_def close_rwc_def)

lemma run_new_kept:
  "\<forall>v\<in>set vs. \<forall>c s. conn_kept c (fst (snd (v c s))) \<Longrightarrow> conn_kept (fst x) (fst (snd (run_new vs x)))"
proof (induction vs x rule: run_new.induct)
  case (2 v vs conn s)
  obtain e c1 s1 where v: "v conn s = (e, c1, s1)" by (metis prod.exhaust)
  with 2(2) have "conn_kept conn c1" by (metis fst_conv snd_conv list.set_intros(1))
  with 2 v show ?case by (cases e) (auto intro: conn_kept_trans)
qed simp

lemma run_del_kept:
  "\<forall>v\<in>set vs. \<forall>c s. conn_kept c (fst (snd (v c s))) \<Longrightarrow> conn_kept (fst x) (fst (run_del vs x))"
proof (induction vs x rule: run_del.induct)
  case (2 v vs conn s)
  then have "conn_kept conn (fst (snd (v conn s)))" "conn_kept (fst (snd (v conn s))) (fst (run_del vs (snd (v conn s))))" by auto
  then show ?case by (auto intro: conn_kept_trans)
qed simp

lemma run_req_kept:
  "\<forall>v\<in>set vs. \<forall>c m s. conn_kept c (fst (snd (v c m s))) \<Longrightarrow> conn_kept (fst x) (fst (snd (run_req vs x)))"
proof (induction vs x rule: run_req.induct)
  case (2 v vs conn msg s)
  obtain r c1 m1 s1 where v: "v conn msg s = (r, c1, m1, s1)" by (metis prod.exhaust)
  with 2(2) have "conn_kept conn c1" by (metis fst_conv snd_conv list.set_intros(1))
  with 2 v show ?case by (auto intro: conn_kept_trans)
qed simp

lemma run_rsp_kept:
  "\<forall>v\<in>set vs. \<forall>c m b r e s. conn_kept c (fst (v c m b r e s)) \<Longrightarrow> conn_kept (fst x) (fst (run_rsp vs b r e x))"
proof (induction vs b r e x rule: run_rsp.induct)
  case (2 v vs b r e conn msg s)
  then have "conn_kept conn (fst (v conn msg b r e s))"
    "conn_kept (fst (v conn msg b r e s)) (fst (run_rsp vs b r e (v conn msg b r e s)))" by auto
  then show ?case by (auto intro: conn_kept_trans)
qed simp

text \<open>Everything but opening and leaving a connection works within the sessions that are there.\<close>

definition same_session :: "('m, 'st, 'd, 'w, 's) gater \<Rightarrow> ('m, 'st, 'd, 'w, 's) gater \<Rightarrow> bool" where
  "same_session g g' \<longleftrightarrow>
     Ids g' = Ids g \<and> Count g' = Count g \<and> gNext g' = gNext g \<and> SyncCall g' = SyncCall g \<and> NewFuncs g' = NewFuncs g \<and>
     DelFuncs g' = DelFuncs g \<and> ReqFuncs g' = ReqFuncs g \<and> RspFuncs g' = RspFuncs g \<and>
     (\<forall>a. rel_option conn_kept (conn_at g a) (conn_at g' a))"

lemma same_session_refl [simp]: "same_session g g"
  by (auto simp: same_session_def intro: option.rel_refl)

lemma rel_kept_trans:
  "rel_option conn_kept x y \<Longrightarrow> rel_option conn_kept y z \<Longrightarrow> rel_option conn_kept x z"
  by (cases x; cases y; cases z) (auto intro: conn_kept_trans)

lemma same_session_trans: "same_session a b \<Longrightarrow> same_session b c \<Longrightarrow> same_session a c"
  by (simp add: same_session_def) (blast intro: rel_kept_trans)

lemma conn_at_upd [simp]:
  "conn_at (upd_conn a f g) b = (if b = a then map_option f (conn_at g a) else conn_at g b)"
  by (auto simp: upd_conn_def conn_at_def split: option.splits)

lemma conn_at_fields [simp]:
  "conn_at (g\<lparr>gTasks := ts\<rparr>) a = conn_at g a" "conn_at (g\<lparr>gNode := nw\<rparr>) a = conn_at g a" "conn_at (g\<lparr>gUser := s\<rparr>) a = conn_at g a"
  "conn_at (g\<lparr>Count := c, Ids := i\<rparr>) a = conn_at g a" "conn_at (g\<lparr>IDCounter := k\<rparr>) a = conn_at g a"
  by (simp_all add: conn_at_def)

lemma upd_conn_fields [simp]:
  "Ids (upd_conn a f g) = Ids g" "Count (upd_conn a f g) = Count g" "gNext (upd_conn a f g) = gNext g" "SyncCall (upd_conn a f g) = SyncCall g"
  "NewFuncs (upd_conn a f g) = NewFuncs g" "DelFuncs (upd_conn a f g) = DelFuncs g" "ReqFuncs (upd_conn a f g) = ReqFuncs g"
  "RspFuncs (upd_conn a f g) = RspFuncs g" "gTasks (upd_conn a f g) = gTasks g" "gNode (upd_conn a f g) = gNode g" "gUser (upd_conn a f g) = gUser g"
  by (simp_all add: upd_conn_def split: option.splits)

lemma same_session_upd:
  "(\<And>c. conn_at g a = Some c \<Longrightarrow> conn_kept c (f c)) \<Longrightarrow> same_session g (upd_conn a f g)"
  by (auto simp: same_session_def rel_option_iff split: option.splits)

lemma same_session_fields:
  "same_session g g' \<Longrightarrow> same_session g (g'\<lparr>gTasks := ts\<rparr>)" "same_session g g' \<Longrightarrow> same_session g (g'\<lparr>gNode := nw\<rparr>)"
  "same_session g g' \<Longrightarrow> same_session g (g'\<lparr>gUser := s\<rparr>)" "same_session g g' \<Longrightarrow> same_session g (g'\<lparr>gNode := nw, gUser := s\<rparr>)"
  by (simp_all add: same_session_def conn_at_def)

lemma same_session_send: "same_session g g' \<Longrightarrow> same_session g (SendMessage a m g')"
  by (auto simp: SendMessage_def same_session_fields split: option.splits)

lemma rwc_write_kept: "conn_kept c (snd (WriteMessageWithKey aes (rwc_Write broken) m key c))"
  by (auto simp: WriteMessageWithKey_def rwc_Write_def split: outcome.splits sum.splits option.splits)

lemma same_session_run_send: "same_session g (run_send aes broken k a m g)"
  unfolding run_send_def
proof (rule same_session_upd)
  fix c
  show "conn_kept c (case WriteMessageWithKey aes (rwc_Write broken) m (ccKey c) c of
      (Panic e, conn1) \<Rightarrow> conn1
    | (Ret (Some err), conn1) \<Rightarrow> close_rwc k conn1
    | (Ret None, conn1) \<Rightarrow> if gDisconn m then close_rwc k conn1 else conn1)"
    using rwc_write_kept [of c aes broken m "ccKey c"]
    by (auto split: prod.splits outcome.splits option.splits)
qed

lemma forward_session:
  assumes "funcs_ok g" and "forward E now a msg sm g = (r, g')"
  shows "same_session g g'"
proof (cases "conn_at g a")
  case (Some conn)
  have kept: "conn_kept conn (fst (run_rsp (RspFuncs g) b rc e (conn, msg, gUser g)))" for b rc e
    using run_rsp_kept [of "RspFuncs g" "(conn, msg, gUser g)"] assms(1) by (simp add: funcs_ok_def)
  have upd: "same_session g (upd_conn a (\<lambda>_. c1) (g\<lparr>gNode := nw, gUser := s1\<rparr>))"
    if "conn_kept conn c1" for c1 nw s1
    by (rule same_session_trans [OF _ same_session_upd]) (use that Some in \<open>auto simp: same_session_fields\<close>)
  obtain ir n where i: "NewId now 0 (fst (gNode g)) = (ir, n)" by fastforce
  show ?thesis
  proof (cases ir)
    case (Panic e)
    with assms(2) Some i show ?thesis by (auto simp: forward_def same_session_fields)
  next
    case (Ret i')
    obtain q nw where q: "rpc_of_message E ((ccContext conn)\<lparr>CallId := i', Game := gApp msg\<rparr>) msg sm (n, snd (gNode g)) = (q, nw)" by (rule prod.exhaust)
    show ?thesis
    proof (cases q)
      case Panic
      with assms(2) Some i Ret q show ?thesis by (auto simp: forward_def same_session_fields)
    next
      case (Ret x)
      obtain rc buff err where x: "x = (rc, buff, err)" by (metis prod.exhaust)
      define rc' where "rc' = (if err \<noteq> None \<and> rc = 0 then 1 else rc)"
      obtain c1 m1 s1 where rs: "run_rsp (RspFuncs g) buff rc' err (conn, msg, gUser g) = (c1, m1, s1)" by (metis prod.exhaust)
      have "g' = SendMessage a (reply_message m1 rc' buff) (upd_conn a (\<lambda>_. c1) (g\<lparr>gNode := nw, gUser := s1\<rparr>))"
        using assms(2) Some i \<open>ir = outcome.Ret i'\<close> q Ret x rs unfolding rc'_def by (simp add: forward_def Let_def)
      moreover have "conn_kept conn c1" using kept [of buff rc' err] rs by simp
      ultimately show ?thesis using upd by (simp add: same_session_send)
    qed
  qed
qed (use assms(2) in \<open>simp add: forward_def\<close>)

lemma accept_app_kept: "accept_app c m = Some c' \<Longrightarrow> conn_kept c c'"
  by (auto simp: accept_app_def conn_kept_def split: if_splits)

lemma handle_message_session:
  assumes "funcs_ok g" and "conn_at g a = Some conn" and "handle_message E now a msg conn g = (r, g')"
  shows "same_session g g'"
proof (cases "accept_app conn msg")
  case None
  with assms(3) show ?thesis by (auto simp: handle_message_def intro: same_session_send)
next
  case (Some c1)
  obtain rc c2 m2 s2 where rq: "run_req (ReqFuncs g) (c1, msg, gUser g) = (rc, c2, m2, s2)" by (metis prod.exhaust)
  have "conn_kept c1 c2" using run_req_kept [of "ReqFuncs g" "(c1, msg, gUser g)"] assms(1) rq by (simp add: funcs_ok_def)
  with accept_app_kept [OF Some] have k: "conn_kept conn c2" by (rule conn_kept_trans)
  let ?g2 = "upd_conn a (\<lambda>_. c2) (g\<lparr>gUser := s2\<rparr>)" and ?g3 = "upd_conn a (\<lambda>_. c2\<lparr>ccTimer := 120\<rparr>) (g\<lparr>gUser := s2\<rparr>)"
  have s: "same_session g ?g2" "same_session g ?g3"
    by (rule same_session_trans [OF _ same_session_upd]; use assms(2) k in \<open>auto simp: same_session_fields\<close>)+
  have f3: "funcs_ok ?g3" using assms(1) by (simp add: funcs_ok_def)
  show ?thesis using assms(3) Some rq s f3 forward_session [OF f3] same_session_trans [OF s(2)]
    by (auto simp: handle_message_def Let_def same_session_fields same_session_send split: if_splits)
qed

section \<open>Runs of the gate\<close>

text \<open>
  Connections are opened, read, timed out and written to in any order; the tasks of the pool run in
  any order, one at a time. \<open>GPush\<close> is a message that the application sends on its own.
\<close>

datatype gate_event = GOpen string bytes | GIter nat | GTimeout nat | GRun gate_task | GPush nat gate_request

definition run_gate_task :: "('m, 'st, 'w) gate_env \<Rightarrow> u64 \<Rightarrow> go_error option \<Rightarrow> nat \<Rightarrow> gate_task \<Rightarrow> ('m, 'st, 'd, 'w, 's) gater \<Rightarrow> ('m, 'st, 'd, 'w, 's) gater" where
  "run_gate_task E now broken k t g =
     (case t of
        GSend a msg \<Rightarrow> run_send (eAes E) broken k a msg g
      | GCall a msg sm \<Rightarrow> snd (forward E now a msg sm g))"

inductive gate_step for E :: "('m, 'st, 'w) gate_env" where
  g_open: "open_conn remote rwc g = Some (a, g') \<Longrightarrow> gate_step E (GOpen remote rwc) g g'"
| g_iter: "conn_at g a = Some c \<Longrightarrow> ccLive c \<Longrightarrow> gate_step E (GIter a) g (handle_iter E now a g)"
| g_timeout: "gate_step E (GTimeout a) g (heartbeat_timeout k a g)"
| g_run: "gTasks g = ts @ t # ts' \<Longrightarrow> gate_step E (GRun t) g (run_gate_task E now broken k t (g\<lparr>gTasks := ts @ ts'\<rparr>))"
| g_push: "gate_step E (GPush a msg) g (SendMessage a msg g)"

inductive_cases gate_stepE: "gate_step E e g g'"

definition gate_inv :: "('m, 'st, 'd, 'w, 's) gater \<Rightarrow> bool" where
  "gate_inv g \<longleftrightarrow>
     funcs_ok g \<and> (\<forall>a c. conn_at g a = Some c \<longrightarrow> a < gNext g) \<and>
     (\<forall>i a. map_of (Ids g) i = Some a \<longleftrightarrow> (\<exists>c. conn_at g a = Some c \<and> ccLive c \<and> ctxId (ccContext c) = i)) \<and>
     Count g = word_of_nat (card (dom (map_of (Ids g))))"

lemma gate_inv_session:
  assumes "gate_inv g" and "same_session g g'"
  shows "gate_inv g'"
proof -
  have s: "Ids g' = Ids g" "Count g' = Count g" "gNext g' = gNext g" "funcs_ok g' = funcs_ok g"
    and k: "rel_option conn_kept (conn_at g a) (conn_at g' a)" for a
    using assms(2) by (auto simp: same_session_def funcs_ok_def)
  have live: "(\<exists>c. conn_at g' a = Some c \<and> ccLive c \<and> ctxId (ccContext c) = i) \<longleftrightarrow>
      (\<exists>c. conn_at g a = Some c \<and> ccLive c \<and> ctxId (ccContext c) = i)" for a i
    using k [of a] by (cases "conn_at g a"; cases "conn_at g' a") (auto simp: conn_kept_def)
  have "conn_at g' a = Some c \<Longrightarrow> \<exists>c. conn_at g a = Some c" for a c
    using k [of a] by (cases "conn_at g a") auto
  with assms(1) show ?thesis unfolding gate_inv_def s live by blast
qed

text \<open>Leaving: the entry goes and the counter follows.\<close>

lemma gate_inv_exit:
  assumes "gate_inv g" and "conn_at g a = Some conn" and "ccLive conn"
  shows "gate_inv (exit_conn a g)"
proof -
  let ?i = "ctxId (ccContext conn)" and ?g1 = "DelClientConn conn g"
  obtain c1 s1 where d: "run_del (DelFuncs ?g1) (conn\<lparr>ccClosed := True\<rparr>, gUser ?g1) = (c1, s1)" by fastforce
  let ?g = "upd_conn a (\<lambda>_. c1\<lparr>ccLive := False\<rparr>) (?g1\<lparr>gUser := s1\<rparr>)"
  have e: "exit_conn a g = ?g" using assms(2) d by (simp add: exit_conn_def)
  have c: "conn_at ?g b = (if b = a then Some (c1\<lparr>ccLive := False\<rparr>) else conn_at g b)" for b
    using assms(2) by (simp add: DelClientConn_def)
  have f: "Ids ?g = gmap_del ?i (Ids g)" "Count ?g = Count g - 1" "gNext ?g = gNext g" "funcs_ok ?g = funcs_ok g"
    by (simp_all add: DelClientConn_def funcs_ok_def)
  have i: "map_of (Ids g) ?i = Some a" using assms by (auto simp: gate_inv_def)
  have "card (dom (map_of (Ids g))) = Suc (card (dom (map_of (Ids g)) - {?i}))"
    by (rule card.remove) (use i in \<open>auto simp: finite_dom_map_of\<close>)
  then have "Count ?g = word_of_nat (card (dom (map_of (Ids ?g))))" using assms(1) f(1,2) by (simp add: gate_inv_def)
  moreover have "map_of (Ids ?g) j = Some b \<longleftrightarrow> (\<exists>c. conn_at ?g b = Some c \<and> ccLive c \<and> ctxId (ccContext c) = j)" for j b
  proof (cases "b = a")
    case True
    have "map_of (Ids g) j = Some a \<Longrightarrow> j = ?i" using assms(1,2) by (auto simp: gate_inv_def)
    with True show ?thesis unfolding f(1) c by auto
  next
    case False
    have "map_of (Ids g) j = Some b \<longleftrightarrow> (\<exists>c. conn_at g b = Some c \<and> ccLive c \<and> ctxId (ccContext c) = j)"
      using assms(1) by (simp add: gate_inv_def)
    with False i show ?thesis unfolding f(1) c by auto
  qed
  moreover have "\<forall>b c. conn_at ?g b = Some c \<longrightarrow> b < gNext ?g" using assms(1,2) unfolding c f(3) gate_inv_def by auto
  ultimately show ?thesis using assms(1) unfolding e gate_inv_def f(4) by blast
qed

text \<open>Opening: a new number for a new connection.\<close>

lemma gate_inv_new:
  assumes "gate_inv g" and "NewClientConn remote rwc g = Some (a, g')"
  shows "gate_inv g' \<and> (\<exists>c. conn_at g' a = Some c \<and> ccLive c)"
proof -
  from assms(2) obtain i k where k: "newID_loop (nodeId (fst (gNode g))) (\<lambda>i. map_of (Ids g) i \<noteq> None) (IDCounter g) = Some (i, k)"
    and g': "a = gNext g" "g' = g\<lparr>IDCounter := k, Count := Count g + 1, Ids := gmap_set i a (Ids g),
      gConns := gmap_set a (fresh_conn remote i (nodeName (fst (gNode g))) rwc) (gConns g), gNext := Suc a\<rparr>"
    by (auto simp: NewClientConn_def gater_newID_def)
  have fresh: "i \<notin> dom (map_of (Ids g))" using newID_loop_fresh [OF k] by auto
  have none: "conn_at g a = None" using assms(1) g'(1) by (cases "conn_at g a") (auto simp: gate_inv_def)
  have c: "conn_at g' b = (if b = a then Some (fresh_conn remote i (nodeName (fst (gNode g))) rwc) else conn_at g b)" for b
    by (simp add: g'(2) conn_at_def)
  have f: "Ids g' = gmap_set i a (Ids g)" "Count g' = Count g + 1" "gNext g' = Suc a" "funcs_ok g' = funcs_ok g"
    by (simp_all add: g'(2) funcs_ok_def)
  have "card (dom (map_of (Ids g'))) = Suc (card (dom (map_of (Ids g))))"
    using fresh by (simp add: f(1) finite_dom_map_of)
  then have "Count g' = word_of_nat (card (dom (map_of (Ids g'))))" using assms(1) f(2) by (simp add: gate_inv_def)
  moreover have "map_of (Ids g') j = Some b \<longleftrightarrow> (\<exists>c. conn_at g' b = Some c \<and> ccLive c \<and> ctxId (ccContext c) = j)" for j b
  proof (cases "b = a")
    case True
    have "map_of (Ids g) j \<noteq> Some a" using assms(1) none by (auto simp: gate_inv_def)
    with True show ?thesis unfolding f(1) c by (auto simp: fresh_conn_def)
  next
    case False
    have "map_of (Ids g) j = Some b \<longleftrightarrow> (\<exists>c. conn_at g b = Some c \<and> ccLive c \<and> ctxId (ccContext c) = j)"
      using assms(1) by (simp add: gate_inv_def)
    with False fresh show ?thesis unfolding f(1) c by auto
  qed
  moreover have "\<forall>b c. conn_at g' b = Some c \<longrightarrow> b < gNext g'" using assms(1) g'(1) unfolding c f(3) gate_inv_def by (auto simp: less_Suc_eq)
  ultimately have "gate_inv g'" using assms(1) unfolding gate_inv_def f(4) by blast
  then show ?thesis by (simp add: c fresh_conn_def)
qed

lemma handle_iter_inv:
  assumes "gate_inv g" and "conn_at g a = Some conn" and "ccLive conn"
  shows "gate_inv (handle_iter E now a g)"
proof -
  obtain q r where q: "ReadMessageWithKey (eAes E) (ccKey conn) (ccIn conn) = (q, r)" by fastforce
  let ?g = "upd_conn a (\<lambda>_. conn\<lparr>ccIn := r\<rparr>) g" and ?c = "conn\<lparr>ccIn := r\<rparr>"
  have "same_session g ?g" by (rule same_session_upd) (use assms(2) in simp)
  with assms(1) have g1: "gate_inv ?g" by (rule gate_inv_session)
  have c1: "conn_at ?g a = Some ?c" "ccLive ?c" using assms(2,3) by simp_all
  show ?thesis
  proof (cases "\<exists>msg. q = Ret (Inr msg)")
    case True
    then obtain msg where msg: "q = Ret (Inr msg)" ..
    obtain r2 g2 where h: "handle_message E now a msg ?c ?g = (r2, g2)" by fastforce
    have s: "same_session ?g g2" using handle_message_session [OF _ c1(1) h] g1 by (simp add: gate_inv_def)
    have g2: "gate_inv g2" by (rule gate_inv_session [OF g1 s])
    have "rel_option conn_kept (Some ?c) (conn_at g2 a)" using s c1(1) by (metis same_session_def)
    then obtain c2 where "conn_at g2 a = Some c2" "ccLive c2" using c1(2) by (cases "conn_at g2 a") (auto simp: conn_kept_def)
    with g2 gate_inv_exit show ?thesis using assms(2) q msg h by (auto simp: handle_iter_def split: outcome.splits)
  next
    case False
    then have "handle_iter E now a g = exit_conn a ?g"
      using assms(2) q by (auto simp: handle_iter_def split: outcome.splits sum.splits)
    with gate_inv_exit [OF g1 c1] show ?thesis by simp
  qed
qed

lemma open_conn_inv:
  assumes "gate_inv g" and "open_conn remote rwc g = Some (a, g')"
  shows "gate_inv g'"
proof -
  from assms(2) obtain b g1 where n: "NewClientConn (Split CHR '':'' remote ! 0) rwc g = Some (b, g1)"
    by (auto simp: open_conn_def)
  from gate_inv_new [OF assms(1) n] obtain c where g1: "gate_inv g1" and c: "conn_at g1 b = Some c" "ccLive c" by blast
  obtain err c1 s1 where v: "run_new (NewFuncs g1) (c, gUser g1) = (err, c1, s1)" by (metis prod.exhaust)
  let ?g2 = "upd_conn b (\<lambda>_. c1) (g1\<lparr>gUser := s1\<rparr>)"
  have k: "conn_kept c c1" using run_new_kept [of "NewFuncs g1" "(c, gUser g1)"] v g1 by (simp add: gate_inv_def funcs_ok_def)
  have "same_session g1 ?g2"
    by (rule same_session_trans [OF _ same_session_upd]) (use c k in \<open>auto simp: same_session_fields\<close>)
  with g1 have g2: "gate_inv ?g2" by (rule gate_inv_session)
  have "conn_at ?g2 b = Some c1" "ccLive c1" using c k by (simp_all add: conn_kept_def)
  with g2 have "gate_inv (exit_conn b ?g2)" by (rule gate_inv_exit)
  with g2 assms(2) n c v show ?thesis by (auto simp: open_conn_def Let_def split: if_splits)
qed

lemma run_gate_task_session:
  assumes "funcs_ok g"
  shows "same_session g (run_gate_task E now broken k t g)"
proof (cases t)
  case (GCall a msg sm)
  obtain r g' where "forward E now a msg sm g = (r, g')" by fastforce
  with forward_session [OF assms this] GCall show ?thesis by (simp add: run_gate_task_def)
qed (simp add: run_gate_task_def same_session_run_send)

lemma gate_inv_step:
  assumes "gate_step E e g g'" and "gate_inv g"
  shows "gate_inv g'"
  using assms
proof (cases rule: gate_step.cases)
  case (g_timeout a k)
  then show ?thesis using gate_inv_session [OF assms(2)] same_session_upd [of g a "close_rwc k"]
    by (simp add: heartbeat_timeout_def)
next
  case (g_run ts t ts' now broken k)
  have "same_session g (g\<lparr>gTasks := ts @ ts'\<rparr>)" by (simp add: same_session_fields)
  with assms(2) have i: "gate_inv (g\<lparr>gTasks := ts @ ts'\<rparr>)" by (rule gate_inv_session)
  then have "same_session (g\<lparr>gTasks := ts @ ts'\<rparr>) g'"
    unfolding g_run(2) by (intro run_gate_task_session) (simp add: gate_inv_def)
  with i show ?thesis by (rule gate_inv_session)
next
  case (g_push a msg)
  then show ?thesis using gate_inv_session [OF assms(2)] by (simp add: same_session_send)
qed (use assms(2) in \<open>auto intro: open_conn_inv handle_iter_inv\<close>)

text \<open>A gate as \<^verbatim>\<open>NewGater\<close> leaves it, with well-behaved interceptors.\<close>

definition fresh_gate :: "('m, 'st, 'd, 'w, 's) gater \<Rightarrow> bool" where
  "fresh_gate g \<longleftrightarrow> Ids g = [] \<and> Count g = 0 \<and> gConns g = [] \<and> gTasks g = [] \<and> funcs_ok g"

lemma fresh_gate_inv: "fresh_gate g \<Longrightarrow> gate_inv g"
  by (simp add: fresh_gate_def gate_inv_def conn_at_def)

interpretation gate_sys: step_system fresh_gate "gate_step E" gate_inv for E
  by unfold_locales (auto intro: fresh_gate_inv gate_inv_step)

text \<open>
  C10. The table of the gate is exactly the set of open connections, however opening, reading,
  writing, tasks and timeouts interleave: \<^verbatim>\<open>GetConnByID\<close> finds a connection under its number
  if and only if it is open, so two open connections never share a number, and
  \<^verbatim>\<open>GetCount\<close> is the number of open connections.
\<close>

theorem gate_table_exact:
  assumes "fresh_gate g" and "run (gate_step E) g es g'"
  shows "(\<forall>i a. GetConnByID i g' = Some a \<longleftrightarrow> (\<exists>c. conn_at g' a = Some c \<and> ccLive c \<and> ctxId (ccContext c) = i)) \<and>
    GetCount g' = word_of_nat (card {a. \<exists>c. conn_at g' a = Some c \<and> ccLive c})"
proof -
  have inv: "gate_inv g'" using gate_sys.reachable_inv [OF assms] .
  have "bij_betw (\<lambda>i. the (map_of (Ids g') i)) (dom (map_of (Ids g'))) {a. \<exists>c. conn_at g' a = Some c \<and> ccLive c}"
    unfolding bij_betw_def
  proof
    have "map_of (Ids g') i = Some a \<Longrightarrow> map_of (Ids g') j = Some a \<Longrightarrow> i = j" for i j a
      using inv by (auto simp: gate_inv_def)
    then show "inj_on (\<lambda>i. the (map_of (Ids g') i)) (dom (map_of (Ids g')))" by (auto simp: inj_on_def)
    show "(\<lambda>i. the (map_of (Ids g') i)) ` dom (map_of (Ids g')) = {a. \<exists>c. conn_at g' a = Some c \<and> ccLive c}"
    proof (intro equalityI subsetI)
      fix a assume "a \<in> {a. \<exists>c. conn_at g' a = Some c \<and> ccLive c}"
      then obtain c where "conn_at g' a = Some c" "ccLive c" by blast
      then have "map_of (Ids g') (ctxId (ccContext c)) = Some a" using inv by (auto simp: gate_inv_def)
      then show "a \<in> (\<lambda>i. the (map_of (Ids g') i)) ` dom (map_of (Ids g'))" by (intro image_eqI) auto
    next
      fix a assume "a \<in> (\<lambda>i. the (map_of (Ids g') i)) ` dom (map_of (Ids g'))"
      then obtain i where "map_of (Ids g') i = Some a" by auto
      then show "a \<in> {a. \<exists>c. conn_at g' a = Some c \<and> ccLive c}" using inv by (auto simp: gate_inv_def)
    qed
  qed
  then have "card (dom (map_of (Ids g'))) = card {a. \<exists>c. conn_at g' a = Some c \<and> ccLive c}" by (rule bij_betw_same_card)
  with inv show ?thesis by (simp add: gate_inv_def GetConnByID_def GetCount_def)
qed

section \<open>Answers\<close>

text \<open>Interceptors that leave the command and the sequence number of a message alone.\<close>

definition same_call :: "gate_request \<Rightarrow> gate_request \<Rightarrow> bool" where
  "same_call m m' \<longleftrightarrow> gCmd m' = gCmd m \<and> gSeq m' = gSeq m"

definition calls_kept :: "('m, 'st, 'd, 'w, 's) gater \<Rightarrow> bool" where
  "calls_kept g \<longleftrightarrow>
     (\<forall>v\<in>set (ReqFuncs g). \<forall>c m s. same_call m (fst (snd (snd (v c m s))))) \<and>
     (\<forall>v\<in>set (RspFuncs g). \<forall>c m b r e s. same_call m (fst (snd (v c m b r e s))))"

lemma same_call_trans: "same_call a b \<Longrightarrow> same_call b c \<Longrightarrow> same_call a c"
  by (simp add: same_call_def)

lemma run_req_call:
  "\<forall>v\<in>set vs. \<forall>c m s. same_call m (fst (snd (snd (v c m s)))) \<Longrightarrow> same_call (fst (snd x)) (fst (snd (snd (run_req vs x))))"
proof (induction vs x rule: run_req.induct)
  case (2 v vs conn msg s)
  obtain r c1 m1 s1 where v: "v conn msg s = (r, c1, m1, s1)" by (metis prod.exhaust)
  with 2(2) have "same_call msg m1" by (metis fst_conv snd_conv list.set_intros(1))
  with 2 v show ?case by (auto intro: same_call_trans)
qed (simp add: same_call_def)

lemma run_rsp_call:
  "\<forall>v\<in>set vs. \<forall>c m b r e s. same_call m (fst (snd (v c m b r e s))) \<Longrightarrow> same_call (fst (snd x)) (fst (snd (run_rsp vs b r e x)))"
proof (induction vs b r e x rule: run_rsp.induct)
  case (2 v vs b r e conn msg s)
  then have "same_call msg (fst (snd (v conn msg b r e s)))"
    "same_call (fst (snd (v conn msg b r e s))) (fst (snd (run_rsp vs b r e (v conn msg b r e s))))" by auto
  then show ?case by (auto intro: same_call_trans)
qed (simp add: same_call_def)

text \<open>The answer to a message: it has its command and number and the name of the connection's application.\<close>

definition answers :: "nat \<Rightarrow> gate_request \<Rightarrow> gate_task \<Rightarrow> bool" where
  "answers a msg t \<longleftrightarrow> (\<exists>m. t = GSend a m \<and> same_call msg m)"

lemma SendMessage_answers:
  "conn_at g a = Some c \<Longrightarrow> same_call msg m \<Longrightarrow> \<exists>t. gTasks (SendMessage a (reply_message m rc b) g) = gTasks g @ [t] \<and> answers a msg t"
  by (simp add: SendMessage_def answers_def same_call_def reply_message_def)

lemma forward_answers:
  assumes "calls_kept g" and "conn_at g a = Some conn" and "same_call msg m" and "forward E now a m sm g = (Ret (), g')"
  shows "\<exists>t. gTasks g' = gTasks g @ [t] \<and> answers a msg t"
proof -
  from assms(2,4) obtain i n where i: "NewId now 0 (fst (gNode g)) = (Ret i, n)"
    by (cases "NewId now 0 (fst (gNode g))"; cases "fst (NewId now 0 (fst (gNode g)))") (auto simp: forward_def)
  obtain q nw where q: "rpc_of_message E ((ccContext conn)\<lparr>CallId := i, Game := gApp m\<rparr>) m sm (n, snd (gNode g)) = (q, nw)" by (rule prod.exhaust)
  with assms(2,4) i obtain rc b e where x: "q = Ret (rc, b, e)" by (cases q) (auto simp: forward_def)
  let ?rc = "if e \<noteq> None \<and> rc = 0 then 1 else rc"
  obtain c1 m1 s1 where rs: "run_rsp (RspFuncs g) b ?rc e (conn, m, gUser g) = (c1, m1, s1)" by (metis prod.exhaust)
  have "same_call m m1" using run_rsp_call [of "RspFuncs g" "(conn, m, gUser g)"] rs assms(1) by (simp add: calls_kept_def) (metis fst_conv snd_conv)
  with assms(3) have m1: "same_call msg m1" by (rule same_call_trans)
  let ?g = "upd_conn a (\<lambda>_. c1) (g\<lparr>gNode := nw, gUser := s1\<rparr>)"
  have "g' = SendMessage a (reply_message m1 ?rc b) ?g" using assms(2,4) i q x rs by (simp add: forward_def Let_def)
  moreover have "conn_at ?g a = Some c1" "gTasks ?g = gTasks g" using assms(2) by simp_all
  ultimately show ?thesis using SendMessage_answers [of ?g a c1 msg m1 ?rc b] m1 by auto
qed


section \<open>A call through the gate\<close>

definition gate_reply :: "client_conn \<Rightarrow> gate_request \<Rightarrow> raw_result \<Rightarrow> gate_request" where
  "gate_reply conn msg res =
     (case res of (rc, b, err) \<Rightarrow>
        (reply_message msg (if err \<noteq> None \<and> rc = 0 then 1 else rc) b)\<lparr>gApp := ccApp conn, gMask := ccMask conn\<rparr>)"

lemma read_message_raw:
  assumes "gate_message_ok aes key m"
  shows "ReadMessageWithKey aes key (message_bytes aes key m @ r) = (Ret (Inr m), r)"
proof -
  obtain q r' where q: "ReadMessageWithKey aes key (message_bytes aes key m @ r) = (q, r')" by fastforce
  with read_message_bytes [OF assms, of r] have "q = Ret (Inr m) \<and> r' = r \<or> (\<exists>e. q = Panic e)"
    by (cases q) (auto simp: read_message_def)
  with q read_message_bytes [OF assms, of r] show ?thesis by (auto simp: read_message_def)
qed

lemma forward_result:
  assumes "conn_at g a = Some conn" and "RspFuncs g = []" and "NewId now 0 (fst (gNode g)) = (Ret i, n)"
    and "rpc_of_message E ((ccContext conn)\<lparr>CallId := i, Game := gApp msg\<rparr>) msg sm (n, snd (gNode g)) = (Ret (rc, b, err), nw)"
  shows "forward E now a msg sm g =
    (Ret (), SendMessage a (reply_message msg (if err \<noteq> None \<and> rc = 0 then 1 else rc) b)
      (upd_conn a (\<lambda>_. conn) (g\<lparr>gNode := nw, gUser := gUser g\<rparr>)))"
  using assms by (simp add: forward_def)

lemma gate_round:
  fixes g :: "('m, 'st, 'd, 'w, 's) gater"
  assumes "conn_at g a = Some conn" and "\<not> ccClosed conn" and "ccApp conn = gApp msg"
    and "gate_message_ok (eAes E) (ccKey conn) msg" and "ccIn conn = message_bytes (eAes E) (ccKey conn) msg @ rest"
    and "SyncCall g" and "ReqFuncs g = []" and "RspFuncs g = []"
    and "FindServiceMethod [] (gCmd msg) (fst (gNode g)) = sm" and "sm \<noteq> []"
    and "NewId now 0 (fst (gNode g)) = (Ret i, n)"
    and "rpc_of_message E ((ccContext conn)\<lparr>CallId := i, Game := gApp msg\<rparr>) msg sm (n, snd (gNode g)) = (Ret res, nw)"
    and "length (encoded (eAes E) (ccKey conn) (gate_reply conn msg res)) < 2 ^ 16"
  shows "gTasks (handle_iter E now a g) = gTasks g @ [GSend a (gate_reply conn msg res)] \<and>
    (\<exists>c out rsp. conn_at (run_send (eAes E) None k a (gate_reply conn msg res) (handle_iter E now a g)) a = Some c \<and>
       gNode (run_send (eAes E) None k a (gate_reply conn msg res) (handle_iter E now a g)) = nw \<and>
       ccIn c = rest \<and> ccOut c = ccOut conn @ out \<and> read_message (eAes E) (ccKey conn) out = (Inr rsp, []) \<and>
       gCmd rsp = gCmd msg \<and> gSeq rsp = gSeq msg \<and> gBuff rsp = fst (snd res) \<and>
       gRet rsp = (if snd (snd res) \<noteq> None \<and> fst res = 0 then 1 else fst res))"
proof -
  let ?aes = "eAes E" and ?key = "ccKey conn" and ?c = "conn\<lparr>ccIn := rest\<rparr>"
  let ?g1 = "upd_conn a (\<lambda>_. ?c) g" and ?g2 = "upd_conn a (\<lambda>_. ?c\<lparr>ccTimer := 120\<rparr>) (upd_conn a (\<lambda>_. ?c) g\<lparr>gUser := gUser g\<rparr>)"
  let ?m = "gate_reply conn msg res"
  obtain rc b err where res: "res = (rc, b, err)" by (metis prod.exhaust)
  have app: "length (gApp msg) = 4" "gNodeType msg = []" "gApp msg \<noteq> []" using assms(4) by (auto simp: gate_message_ok_def)
  have acc: "accept_app ?c msg = Some ?c" using app assms(3) by (simp add: accept_app_def)
  have g2: "conn_at ?g2 a = Some (?c\<lparr>ccTimer := 120\<rparr>)" "gNode ?g2 = gNode g" "RspFuncs ?g2 = []" "gUser ?g2 = gUser g" "gTasks ?g2 = gTasks g"
    using assms(1,8) by simp_all
  have f: "forward E now a msg sm ?g2 = (Ret (), SendMessage a (reply_message msg (if err \<noteq> None \<and> rc = 0 then 1 else rc) b)
      (upd_conn a (\<lambda>_. ?c\<lparr>ccTimer := 120\<rparr>) (?g2\<lparr>gNode := nw, gUser := gUser g\<rparr>)))"
    using forward_result [OF g2(1,3), of now i n E msg sm rc b err nw] assms(11,12) unfolding g2 res by simp
  let ?g3 = "upd_conn a (\<lambda>_. ?c\<lparr>ccTimer := 120\<rparr>) (?g2\<lparr>gNode := nw, gUser := gUser g\<rparr>)"
  have h: "handle_iter E now a g = ?g3\<lparr>gTasks := gTasks g @ [GSend a ?m]\<rparr>"
    using assms(1) app acc f assms(5-10) read_message_raw [OF assms(4), of rest]
    by (simp add: handle_iter_def handle_message_def Let_def SendMessage_def gate_reply_def res)
  have c3: "conn_at (handle_iter E now a g) a = Some (?c\<lparr>ccTimer := 120\<rparr>)" unfolding h using assms(1) by simp
  let ?out = "message_bytes ?aes ?key ?m" and ?rsp = "?m\<lparr>gLength := word_of_nat (length (encoded ?aes ?key ?m))\<rparr>"
  have cok: "cipher_ok ?aes ?key" using assms(4) by (simp add: gate_message_ok_def)
  have w: "WriteMessageWithKey ?aes (rwc_Write None) ?m ?key (?c\<lparr>ccTimer := 120\<rparr>) = (Ret None, ?c\<lparr>ccTimer := 120, ccOut := ccOut conn @ ?out\<rparr>)"
    using assms(2) by (simp add: write_message_bytes [OF cok] rwc_Write_def)
  have nd: "\<not> gDisconn ?m" "gNodeName ?m = []" "gNodeType ?m = []" "gApp ?m = gApp msg"
    using assms(3) by (simp_all add: gate_reply_def res reply_message_def empty_request_def)
  have "conn_at (run_send ?aes None k a ?m (handle_iter E now a g)) a = Some (?c\<lparr>ccTimer := 120, ccOut := ccOut conn @ ?out\<rparr>)"
    using c3 w nd(1) by (simp add: run_send_def)
  moreover have "gNode (run_send ?aes None k a ?m (handle_iter E now a g)) = nw"
    using c3 w nd(1) by (simp add: run_send_def h)
  moreover have "read_message ?aes ?key ?out = (Inr ?rsp, [])"
  proof -
    have e: "encoded ?aes ?key ?rsp = encoded ?aes ?key ?m" by (simp add: encoded_def body_bytes_def isCrypto_def)
    have "gate_message_ok ?aes ?key ?rsp" using cok app nd assms(13) by (simp add: gate_message_ok_def e)
    from read_message_bytes [OF this, of "[]"] show ?thesis by (simp add: message_bytes_def e frame_message_def)
  qed
  moreover have "gCmd ?rsp = gCmd msg" "gSeq ?rsp = gSeq msg" "gBuff ?rsp = b" "gRet ?rsp = (if err \<noteq> None \<and> rc = 0 then 1 else rc)"
    by (simp_all add: gate_reply_def res reply_message_def)
  ultimately show ?thesis using h by (auto simp: res)
qed

text \<open>
  A call through the gate is a remote call: a message that a client has written to its
  connection, encrypted or not, for a command that some service has registered, is read, handed to
  that service with the client's context, and answered with what the service returned: the client
  reads from the connection one message with its own command and sequence number, the return code
  (1 in place of 0 when the call failed) and the body, and the gate goes on with the bytes that
  follow the request.
\<close>

theorem gate_call_returns:
  fixes g :: "('m, 'st, 'd, 'w, 's) gater"
  assumes "conn_at g a = Some conn" and "\<not> ccClosed conn" and "ccApp conn = gApp msg"
    and "gate_message_ok (eAes E) (ccKey conn) msg" and "ccIn conn = message_bytes (eAes E) (ccKey conn) msg @ rest"
    and "SyncCall g" and "ReqFuncs g = []" and "RspFuncs g = []"
    and "FindServiceMethod [] (gCmd msg) (fst (gNode g)) = sm" and "sm \<noteq> []"
    and "NewId now 0 (fst (gNode g)) = (Ret i, n)"
    and "rpc_of_message E ((ccContext conn)\<lparr>CallId := i, Game := gApp msg\<rparr>) msg sm (n, snd (gNode g)) = (Ret res, nw)"
    and "length (encoded (eAes E) (ccKey conn) (gate_reply conn msg res)) < 2 ^ 16"
  shows "gTasks (handle_iter E now a g) = gTasks g @ [GSend a (gate_reply conn msg res)] \<and>
    (\<exists>c out rsp. conn_at (run_send (eAes E) None k a (gate_reply conn msg res) (handle_iter E now a g)) a = Some c \<and>
       ccIn c = rest \<and> ccOut c = ccOut conn @ out \<and> read_message (eAes E) (ccKey conn) out = (Inr rsp, []) \<and>
       gCmd rsp = gCmd msg \<and> gSeq rsp = gSeq msg \<and> gBuff rsp = fst (snd res) \<and>
       gRet rsp = (if snd (snd res) \<noteq> None \<and> fst res = 0 then 1 else fst res))"
  using gate_round [OF assms] by blast


section \<open>Witnesses\<close>

text \<open>A gate whose node answers the command 3 with a recorded reply, and one open connection.\<close>

definition gate_node :: "(string, string, string) node" where
  "gate_node = demo_self\<lparr>CmdService := [(''.3'', ''Db.Get'')],
     MockData := Some [(''Db.Get'', \<lparr>mkRsp = MockBytes [7, 8], mkRet = 5, mkError = None\<rparr>)]\<rparr>"

definition gate_env0 :: "(string, string, string list) gate_env" where
  "gate_env0 = \<lparr>eP = db_lib, eL = db_reflect, eD = demo_peers, eQ = demo_orders, eAes = demo_aes\<rparr>"

definition empty_gate :: "(string, string, string, string list, unit) gater" where
  "empty_gate = NewGater True [] (gate_node, []) ()"

definition gate_msg :: gate_request where
  "gate_msg = empty_request\<lparr>gApp := ''game'', gCmd := 3, gSeq := 9, gBuff := [1], gLength := 1\<rparr>"

definition gate_conn :: client_conn where
  "gate_conn = (fresh_conn ''host'' 2 ''me'' (message_bytes demo_aes [] gate_msg @ [66]))\<lparr>ccApp := ''game''\<rparr>"

definition gate_one :: "(string, string, string, string list, unit) gater" where
  "gate_one = empty_gate\<lparr>Ids := [(2, 0)], Count := 1, gConns := [(0, gate_conn)], gNext := 1\<rparr>"

lemma gate_one_facts:
  "conn_at gate_one 0 = Some gate_conn" "\<not> ccClosed gate_conn" "ccApp gate_conn = gApp gate_msg" "ccKey gate_conn = []"
  "ccIn gate_conn = message_bytes (eAes gate_env0) (ccKey gate_conn) gate_msg @ [66]"
  "SyncCall gate_one" "ReqFuncs gate_one = []" "RspFuncs gate_one = []" "gNode gate_one = (gate_node, [])" "gTasks gate_one = []"
  by (simp_all add: gate_one_def empty_gate_def NewGater_def gate_conn_def fresh_conn_def conn_at_def gate_env0_def gate_msg_def)

lemma gate_msg_ok: "gate_message_ok (eAes gate_env0) (ccKey gate_conn) gate_msg"
  using demo_message_ok(1) unfolding gate_one_facts(4)
  by (simp add: gate_message_ok_def gate_msg_def empty_request_def encoded_def body_bytes_def cipher_ok_def gate_env0_def)

lemma digits34: "FormatUint 3 = ''3''" "FormatUint 4 = ''4''"
  by code_simp+

lemma gate_service: "FindServiceMethod [] (gCmd gate_msg) (fst (gNode gate_one)) = ''Db.Get''"
  by (simp add: gate_one_facts FindServiceMethod_def Sprint_cmd_def gate_node_def gate_msg_def digits34)

lemma gate_mock: "callMock ''Db.Get'' (gate_node\<lparr>IDGen := x\<rparr>) = Some \<lparr>mkRsp = MockBytes [7, 8], mkRet = 5, mkError = None\<rparr>"
  by (simp add: gate_node_def callMock_def)

lemma gate_rpc:
  "rpc_of_message gate_env0 c gate_msg ''Db.Get'' (gate_node\<lparr>IDGen := x\<rparr>, w) = (Ret (5, [7, 8], None), gate_node\<lparr>IDGen := x\<rparr>, w)"
  by (simp add: rpc_of_message_def gate_msg_def empty_request_def isJson_def GetBit_def node_RawCall_def raw_call_def svc_route_def gate_mock mock_raw_def)

lemma gate_newid: "\<exists>i x. NewId 1000000 0 (fst (gNode gate_one)) = (Ret i, gate_node\<lparr>IDGen := x\<rparr>)"
  by (simp add: gate_one_facts NewId_def NewID_def gate_node_def demo_self_def NewIDGen_def Let_def)

theorem gate_call_returns_witness:
  "\<exists>c out rsp. conn_at (run_send (eAes gate_env0) None 0 0 (gate_reply gate_conn gate_msg (5, [7, 8], None)) (handle_iter gate_env0 1000000 0 gate_one)) 0 = Some c \<and>
     ccIn c = [66] \<and> read_message (eAes gate_env0) (ccKey gate_conn) out = (Inr rsp, []) \<and> gCmd rsp = 3 \<and> gSeq rsp = 9 \<and> gRet rsp = 5 \<and> gBuff rsp = [7, 8]"
proof -
  obtain i x where i: "NewId 1000000 0 (fst (gNode gate_one)) = (Ret i, gate_node\<lparr>IDGen := x\<rparr>)" using gate_newid by blast
  have r: "rpc_of_message gate_env0 ((ccContext gate_conn)\<lparr>CallId := i, Game := gApp gate_msg\<rparr>) gate_msg ''Db.Get''
      (gate_node\<lparr>IDGen := x\<rparr>, snd (gNode gate_one)) = (Ret (5, [7, 8], None), gate_node\<lparr>IDGen := x\<rparr>, [])"
    by (simp add: gate_rpc gate_one_facts)
  have l: "length (encoded (eAes gate_env0) (ccKey gate_conn) (gate_reply gate_conn gate_msg (5, [7, 8], None))) < 2 ^ 16"
    by (simp add: gate_one_facts(4) encoded_def body_bytes_def gate_reply_def reply_message_def)
  have m: "gCmd gate_msg = 3" "gSeq gate_msg = 9" by (simp_all add: gate_msg_def)
  have ne: "''Db.Get'' \<noteq> []" by simp
  from gate_call_returns [OF gate_one_facts(1-3) gate_msg_ok gate_one_facts(5-8) gate_service ne i r l, of 0] m
  show ?thesis by auto
qed


theorem newID_returns_fresh_witness:
  "\<exists>i g'. gater_newID gate_one = Some (i, g') \<and> i \<noteq> 2 \<and> drop_bit 32 i = 1"
  using newID_returns_fresh [of gate_one]
  by (auto simp: gate_one_def empty_gate_def NewGater_def gate_node_def demo_self_def)

theorem gate_table_exact_witness:
  "\<exists>g'. open_conn ''h:1'' [] empty_gate = Some (0, g') \<and>
     GetCount g' = word_of_nat (card {a. \<exists>c. conn_at g' a = Some c \<and> ccLive c})"
proof -
  have f: "fresh_gate empty_gate" by (simp add: fresh_gate_def empty_gate_def NewGater_def funcs_ok_def)
  obtain i k where "newID_loop (nodeId (fst (gNode empty_gate))) (\<lambda>i. map_of (Ids empty_gate) i \<noteq> None) (IDCounter empty_gate) = Some (i, k)"
    using newID_loop_ends [of "\<lambda>i. map_of (Ids empty_gate) i \<noteq> None" "nodeId (fst (gNode empty_gate))" "IDCounter empty_gate"]
    by (auto simp: empty_gate_def NewGater_def)
  then obtain g' where o: "open_conn ''h:1'' [] empty_gate = Some (0, g')"
    by (auto simp: open_conn_def NewClientConn_def gater_newID_def empty_gate_def NewGater_def conn_at_def)
  then have "gate_step gate_env0 (GOpen ''h:1'' []) empty_gate g'" by (rule g_open)
  then have "run (gate_step gate_env0) empty_gate [GOpen ''h:1'' []] g'" by (rule run_cons) (rule run_nil)
  from gate_table_exact [OF f this] o show ?thesis by blast
qed

end
