(* ===== verification/Rpc_Cluster.thy ===== *)
theory Rpc_Cluster
  imports Rpc_Discovery
begin

text \<open>
  The client of \<^verbatim>\<open>rpc/go_client.go\<close>, the server of \<^verbatim>\<open>rpc/go_server.go\<close> and the node of \<^verbatim>\<open>rpc/rpc_node.go\<close> put
  together. The first part follows one call through the client, the bytes of the connection and
  the server and back. In the second the peers of a node are such servers, so a call of the node is executed
  by the handler of the node it is sent to.
\<close>

section \<open>A call through client and server\<close>

text \<open>
  The state of a client after its first \<^verbatim>\<open>Go\<close> has registered call \<open>c\<close> and
  written the request; \<open>inp\<close> is what the server is going to send.
\<close>

definition first_call ::
  "(go_type, 'm) pb_lib \<Rightarrow> nat \<Rightarrow> rpc_context option \<Rightarrow> string \<Rightarrow> 'm \<Rightarrow> go_type \<Rightarrow> bytes \<Rightarrow> (go_type, 'm) rpc_client" where
  "first_call P c conn sm m tr inp =
     send_write P c 0 (Go c conn sm (Pb m) (Some tr) (Some 1) False (NewClient inp))"

definition call_request :: "rpc_context option \<Rightarrow> string \<Rightarrow> rpc_request" where
  "call_request conn sm = \<lparr>ServiceMethod = sm, rSeq = 0, NoResp = False, Conn = conn, Raw = 0\<rparr>"

lemma first_call_state:
  assumes "WriteRequest P (call_request conn sm) (Pb m) \<lparr>flushed = [], bwerr = None\<rparr> = (w, None)"
  shows "cliOut (first_call P c conn sm m tr inp) = w" "cliIn (first_call P c conn sm m tr inp) = inp"
    "map_of (pending (first_call P c conn sm m tr inp)) 0 = Some c"
    "map_of (calls (first_call P c conn sm m tr inp)) c = Some (new_call conn sm (MsgArgs (Pb m)) (Some tr) (Some 1) False 0)"
proof -
  have "first_call P c conn sm m tr inp =
    (NewClient inp)\<lparr>calls := [(c, new_call conn sm (MsgArgs (Pb m)) (Some tr) (Some 1) False 0)], seq := 1,
      pending := [(0, c)], nSent := 1, cliOut := w\<rparr>"
    using assms
    by (simp add: first_call_def Go_def start_call_def send_register_def send_write_def write_request_def
        NewClient_def new_call_def call_request_def)
  then show "cliOut (first_call P c conn sm m tr inp) = w" "cliIn (first_call P c conn sm m tr inp) = inp"
    "map_of (pending (first_call P c conn sm m tr inp)) 0 = Some c"
    "map_of (calls (first_call P c conn sm m tr inp)) c = Some (new_call conn sm (MsgArgs (Pb m)) (Some tr) (Some 1) False 0)"
    by (simp_all add: NewClient_def)
qed

text \<open>A server that reads one request and, when it can be dispatched, runs it.\<close>

definition serve_once :: "(go_type, 'm) pb_lib \<Rightarrow> 'm reflect_lib \<Rightarrow> ('m, 'st) conn_state \<Rightarrow> ('m, 'st) conn_state" where
  "serve_once P L c = (let c1 = serve_read P L c in if cJobs c1 = [] then c1 else serve_run P L 0 c1)"

lemma serve_two:
  assumes "run (serve_step P L) c [EvRead, EvRun 0] d"
  shows "d = serve_once P L c"
  using assms by (auto simp: serve_once_def Let_def elim!: run_ConsE run_NilE serve_stepE)

text \<open>The call that a client makes first on a connection, the answer of the server, and what the client makes of it.\<close>

lemma call_round:
  assumes "pb_laws P typ_of" and "addressed P typ_of L server (call_request conn sm) m mt inp"
    and "ReplyType mt = PtrTo tr"
    and "mFunc mt (map_option copy_context conn) m (zero_of L tr) (appState server) = (res, st)"
    and "WriteResponse P (response_to (call_request conn sm) res)
      (Pb (if snd (reported res) \<noteq> [] then NullMessage P else reply_of (zero_of L tr) res)) \<lparr>flushed = [], bwerr = None\<rparr> = (w', None)"
    and "snd (reported res) = [] \<longrightarrow> typ_of (reply_of (zero_of L tr) res) tr"
  shows "\<exists>cs ci. run (serve_step P L) (ServeConn server (flushed (cliOut (first_call P c conn sm m tr inp')))) [EvRead, EvRun 0] cs \<and>
    appState (cServer cs) = st \<and> flushed (cOut cs) = flushed w' \<and>
    map_of (calls (input_iter P ord (first_call P c conn sm m tr (flushed w')))) c = Some ci \<and> cDone ci = 1 \<and>
    (if snd (reported res) = [] then Call_result ci = (fst (reported res), None) \<and> cReply ci = MsgReply (reply_of (zero_of L tr) res)
     else Call_result ci = (0, Some (GoErr (snd (reported res)))))"
proof -
  let ?r = "response_to (call_request conn sm) res"
  let ?m = "if snd (reported res) \<noteq> [] then NullMessage P else reply_of (zero_of L tr) res"
  let ?s = "first_call P c conn sm m tr (flushed w')"
  from assms(2) obtain w where w: "WriteRequest P (call_request conn sm) (Pb m) \<lparr>flushed = [], bwerr = None\<rparr> = (w, None)" "inp = flushed w"
    by (auto simp: addressed_def)
  note S = first_call_state [OF w(1), of c tr "flushed w'"]
  have conn: "mFunc mt (map_option copy_context (Conn (call_request conn sm))) m (zero_of L tr) (appState server) = (res, st)"
    using assms(4) by (simp add: call_request_def)
  from serve_one [OF assms(1,2,3) conn assms(5)] obtain cs where
    cs: "run (serve_step P L) (ServeConn server inp) [EvRead, EvRun 0] cs" "appState (cServer cs) = st" "cOut cs = w'" by blast
  have r: "sSeq ?r = 0" "sRaw ?r = 0" "sError ?r = snd (reported res)" "sRet ?r = fst (reported res)"
    by (simp_all add: response_to_def call_request_def)
  have "input_iter P ord ?s =
    (upd_call c (\<lambda>call. if sError ?r \<noteq> [] then call_done (call\<lparr>cError := Some (GoErr (sError ?r))\<rparr>)
        else call_done (call\<lparr>cRet := sRet ?r, cReply := MsgReply ?m\<rparr>))
      (?s\<lparr>pending := gmap_del (sSeq ?r) (pending ?s)\<rparr>))\<lparr>cliIn := []\<rparr>"
    by (rule routed_step [OF assms(1,5), where out = "flushed w'" and t = tr
          and call = "new_call conn sm (MsgArgs (Pb m)) (Some tr) (Some 1) False 0"])
       (use S assms(6) in \<open>simp_all add: r new_call_def\<close>)
  then have "\<exists>ci. map_of (calls (input_iter P ord ?s)) c = Some ci \<and> cDone ci = 1 \<and>
    (if snd (reported res) = [] then Call_result ci = (fst (reported res), None) \<and> cReply ci = MsgReply (reply_of (zero_of L tr) res)
     else Call_result ci = (0, Some (GoErr (snd (reported res)))))"
    using S by (simp add: r Call_result_def new_call_def call_done_def)
  with cs w(2) first_call_state(1) [OF w(1), of c tr inp'] show ?thesis by auto
qed


section \<open>A raw call through client and server\<close>

text \<open>
  A call whose argument and reply are bytes, as the gate makes it for a client: \<open>raw\<close> is 1 for the binary form and 2 for
  JSON. The server decodes the argument and encodes the reply.
\<close>

definition first_raw ::
  "(go_type, 'm) pb_lib \<Rightarrow> nat \<Rightarrow> rpc_context option \<Rightarrow> string \<Rightarrow> bytes \<Rightarrow> int \<Rightarrow> bytes \<Rightarrow> (go_type, 'm) rpc_client" where
  "first_raw P c conn sm b raw inp = send_write P c 0 (RawGo c conn sm b (Some 1) False raw (NewClient inp))"

definition raw_request :: "rpc_context option \<Rightarrow> string \<Rightarrow> int \<Rightarrow> rpc_request" where
  "raw_request conn sm raw = \<lparr>ServiceMethod = sm, rSeq = 0, NoResp = False, Conn = conn, Raw = raw\<rparr>"

lemma first_raw_state:
  assumes "WriteByteRequest P (raw_request conn sm raw) b \<lparr>flushed = [], bwerr = None\<rparr> = (w, None)" "raw \<in> {1, 2}"
  shows "cliOut (first_raw P c conn sm b raw inp) = w" "cliIn (first_raw P c conn sm b raw inp) = inp"
    "map_of (pending (first_raw P c conn sm b raw inp)) 0 = Some c"
    "map_of (calls (first_raw P c conn sm b raw inp)) c = Some (new_call conn sm (ByteArgs b) None (Some 1) False raw)"
proof -
  have "first_raw P c conn sm b raw inp =
    (NewClient inp)\<lparr>calls := [(c, new_call conn sm (ByteArgs b) None (Some 1) False raw)], seq := 1,
      pending := [(0, c)], nSent := 1, cliOut := w\<rparr>"
    using assms
    by (auto simp: first_raw_def RawGo_def start_call_def send_register_def send_write_def write_request_def
        NewClient_def new_call_def raw_request_def)
  then show "cliOut (first_raw P c conn sm b raw inp) = w" "cliIn (first_raw P c conn sm b raw inp) = inp"
    "map_of (pending (first_raw P c conn sm b raw inp)) 0 = Some c"
    "map_of (calls (first_raw P c conn sm b raw inp)) c = Some (new_call conn sm (ByteArgs b) None (Some 1) False raw)"
    by (simp_all add: NewClient_def)
qed

text \<open>The bytes \<open>b\<close> for a method of the server decode to the argument \<open>m\<close>.\<close>

definition raw_addressed ::
  "(go_type, 'm) pb_lib \<Rightarrow> 'm reflect_lib \<Rightarrow> ('m, 'st) rpc_server \<Rightarrow> rpc_request \<Rightarrow> bytes \<Rightarrow> 'm \<Rightarrow> ('m, 'st) method_type \<Rightarrow> go_type \<Rightarrow> bytes \<Rightarrow> bool" where
  "raw_addressed P L server r b m mt tr inp \<longleftrightarrow>
     (\<exists>w. WriteByteRequest P r b \<lparr>flushed = [], bwerr = None\<rparr> = (w, None) \<and> inp = flushed w) \<and>
     Raw r \<in> {1, 2} \<and> \<not> NoResp r \<and>
     (\<exists>svc meth. ServiceMethod r = svc @ dot # meth \<and> dot \<notin> set meth \<and> find_method svc meth server = Some mt) \<and>
     isPb L (elem_or_self (ArgType mt)) \<and>
     (if Raw r = 2 then jsonUnmarshal P (elem_or_self (ArgType mt)) b else Unmarshal P (elem_or_self (ArgType mt)) b) = Inr m \<and>
     ReplyType mt = PtrTo tr \<and> isPb L tr"

lemma raw_addressed_read:
  assumes "pb_laws P typ_of" and "raw_addressed P L server r b m mt tr inp"
  shows "\<exists>svc meth. find_method svc meth server = Some mt \<and>
    readRequest P L server inp = (ReadOk \<lparr>jService = svc, jMethod = meth, jReq = as_received r, jArg = m, jReplyType = Some tr\<rparr>, [])"
proof -
  let ?t = "elem_or_self (ArgType mt)"
  from assms(2) obtain w svc meth where w: "WriteByteRequest P r b \<lparr>flushed = [], bwerr = None\<rparr> = (w, None)" "inp = flushed w"
    and raw: "Raw r \<in> {1, 2}" "\<not> NoResp r" and sm: "ServiceMethod r = svc @ dot # meth" "dot \<notin> set meth" "find_method svc meth server = Some mt"
    and t: "isPb L ?t" "(if Raw r = 2 then jsonUnmarshal P ?t b else Unmarshal P ?t b) = Inr m" "ReplyType mt = PtrTo tr"
    by (auto simp: raw_addressed_def)
  from WriteByteRequest_roundtrip [OF assms(1) w(1) raw(1)] obtain mid where
    mid: "ReadRequestHeader P inp = (Inr ((as_received r)\<lparr>NoResp := False\<rparr>), mid)" "readFrame mid = (Inr b, [])"
    using w(2) by (metis append_Nil append_Nil2 byte_writer.select_convs(1))
  moreover have "(as_received r)\<lparr>NoResp := False\<rparr> = as_received r" using raw(2) by (simp add: as_received_def)
  moreover have r: "ServiceMethod (as_received r) = svc @ dot # meth" "Raw (as_received r) = Raw r" using sm(1) by (simp_all add: as_received_def)
  moreover from sm(3) obtain ms where "map_of (serviceMap server) svc = Some ms" "map_of ms meth = Some mt"
    by (auto simp: find_method_def split: option.splits)
  ultimately have "readRequestHeader P server inp = (Inr (as_received r, Inr (svc, meth, mt)), mid)"
    using sm(2) by (simp add: readRequestHeader_def LastIndex_method)
  moreover have "ReadRequestBody P (word_of_int (Raw r)) (Some ?t) mid = (Inr (Some m), [])"
    using mid(2) t(2) raw(1) by (auto simp: ReadRequestBody_def decode_def)
  ultimately have "readRequest P L server inp =
      (ReadOk \<lparr>jService = svc, jMethod = meth, jReq = as_received r, jArg = m, jReplyType = Some tr\<rparr>, [])"
    using t(1,3) r(2) by (simp add: readRequest_def Let_def)
  with sm(3) show ?thesis by blast
qed

lemma routed_raw_step:
  assumes "pb_laws P typ_of" and "WriteResponse P r (Pb m) w = (w', None)" and "flushed w' = flushed w @ out"
    and "cliIn s = out @ rest" and "map_of (pending s) (sSeq r) = Some c" and "map_of (calls s) c = Some call"
    and "cRaw call \<noteq> 0" and "(if (word_of_int (sRaw r) :: u32) = 2 then jsonMarshal P m else Marshal P m) = Inr b"
  shows "input_iter P ord s =
    (upd_call c (\<lambda>call. if sError r \<noteq> [] then call_done (call\<lparr>cError := Some (GoErr (sError r))\<rparr>)
        else call_done (call\<lparr>cRet := sRet r, cReply := BytesReply b\<rparr>))
      (s\<lparr>pending := gmap_del (sSeq r) (pending s)\<rparr>))\<lparr>cliIn := rest\<rparr>"
proof -
  from WriteResponse_skip [OF assms(1,2), of 0] assms(3,8) obtain mid where
    "ReadResponseHeader P (out @ rest) = (Inr (r\<lparr>sRaw := 0\<rparr>), mid)"
    "ReadResponseBody P 0 None mid = (Inr None, rest)" "ReadByteResponseBody mid = (Inr b, rest)" by fastforce
  with assms(4-7) show ?thesis by (simp add: input_iter_def give_result_def upd_call_def)
qed

text \<open>What the handler's outcome becomes for a caller that wants bytes.\<close>

definition told_raw :: "(u16 \<times> go_error option \<times> 'm) outcome \<Rightarrow> bytes \<Rightarrow> u16 \<times> (go_error + bytes)" where
  "told_raw res b = (if snd (reported res) = [] then (fst (reported res), Inr b) else (0, Inl (GoErr (snd (reported res)))))"

lemma raw_round:
  assumes "pb_laws P typ_of" and "raw_addressed P L server (raw_request conn sm raw) b m mt tr inp"
    and "mFunc mt (map_option copy_context conn) m (zero_of L tr) (appState server) = (res, st)"
    and "WriteResponse P (response_to (raw_request conn sm raw) res)
      (Pb (if snd (reported res) \<noteq> [] then NullMessage P else reply_of (zero_of L tr) res)) \<lparr>flushed = [], bwerr = None\<rparr> = (w', None)"
    and "snd (reported res) = [] \<longrightarrow> (if raw = 2 then jsonMarshal P (reply_of (zero_of L tr) res) else Marshal P (reply_of (zero_of L tr) res)) = Inr reply"
  shows "\<exists>cs ci. run (serve_step P L) (ServeConn server (flushed (cliOut (first_raw P c conn sm b raw inp')))) [EvRead, EvRun 0] cs \<and>
    appState (cServer cs) = st \<and> flushed (cOut cs) = flushed w' \<and>
    map_of (calls (input_iter P ord (first_raw P c conn sm b raw (flushed w')))) c = Some ci \<and> RawCall_result ci = Ret (told_raw res reply)"
proof -
  let ?q = "raw_request conn sm raw"
  let ?r = "response_to ?q res"
  let ?m = "if snd (reported res) \<noteq> [] then NullMessage P else reply_of (zero_of L tr) res"
  let ?s = "first_raw P c conn sm b raw (flushed w')"
  have q: "Raw ?q = raw" "Conn ?q = conn" "\<not> NoResp ?q" by (simp_all add: raw_request_def)
  from assms(2) obtain w where w: "WriteByteRequest P ?q b \<lparr>flushed = [], bwerr = None\<rparr> = (w, None)" "inp = flushed w"
    and raw: "raw \<in> {1, 2}" and tr: "isPb L tr" by (auto simp: raw_addressed_def q)
  note S = first_raw_state [OF w(1) raw, of c "flushed w'"]
  from raw_addressed_read [OF assms(1,2)] obtain svc meth where f: "find_method svc meth server = Some mt"
    and rd: "readRequest P L server inp = (ReadOk \<lparr>jService = svc, jMethod = meth, jReq = as_received ?q, jArg = m, jReplyType = Some tr\<rparr>, [])" by blast
  from serve_job [OF rd, of mt tr res st w' None] f tr assms(3,4) q obtain cs where
    cs: "run (serve_step P L) (ServeConn server inp) [EvRead, EvRun 0] cs" "appState (cServer cs) = st" "cOut cs = w'"
    by (auto simp: received_fields)
  have r: "sSeq ?r = 0" "sRaw ?r = raw" "sError ?r = snd (reported res)" "sRet ?r = fst (reported res)"
    by (simp_all add: response_to_def raw_request_def)
  from WriteResponse_skip [OF assms(1,4)] obtain y where
    y: "(if (word_of_int (sRaw ?r) :: u32) = 2 then jsonMarshal P ?m else Marshal P ?m) = Inr y" by blast
  have raw2: "((word_of_int raw :: u32) = 2) = (raw = 2)" "raw \<noteq> 0" using raw by auto
  have "input_iter P ord ?s =
    (upd_call c (\<lambda>call. if sError ?r \<noteq> [] then call_done (call\<lparr>cError := Some (GoErr (sError ?r))\<rparr>)
        else call_done (call\<lparr>cRet := sRet ?r, cReply := BytesReply y\<rparr>))
      (?s\<lparr>pending := gmap_del (sSeq ?r) (pending ?s)\<rparr>))\<lparr>cliIn := []\<rparr>"
    by (rule routed_raw_step [OF assms(1,4), where out = "flushed w'" and call = "new_call conn sm (ByteArgs b) None (Some 1) False raw"])
       (use S y raw2 in \<open>simp_all add: r new_call_def\<close>)
  moreover have "snd (reported res) = [] \<Longrightarrow> y = reply" using y [unfolded r raw2] assms(5) by (auto split: if_splits)
  ultimately have "\<exists>ci. map_of (calls (input_iter P ord ?s)) c = Some ci \<and> RawCall_result ci = Ret (told_raw res reply)"
    using S by (auto simp: r RawCall_result_def new_call_def call_done_def told_raw_def)
  with cs w(2) first_raw_state(1) [OF w(1) raw, of c inp'] show ?thesis by auto
qed


section \<open>A message that wants no answer\<close>

definition first_send ::
  "(go_type, 'm) pb_lib \<Rightarrow> nat \<Rightarrow> rpc_context option \<Rightarrow> string \<Rightarrow> 'm \<Rightarrow> bytes \<Rightarrow> (go_type, 'm) rpc_client" where
  "first_send P c conn sm m inp = send_write P c 0 (Send c conn sm (Pb m) (NewClient inp))"

definition send_request :: "rpc_context option \<Rightarrow> string \<Rightarrow> rpc_request" where
  "send_request conn sm = \<lparr>ServiceMethod = sm, rSeq = 0, NoResp = True, Conn = conn, Raw = 0\<rparr>"

lemma first_send_state:
  assumes "WriteRequest P (send_request conn sm) (Pb m) \<lparr>flushed = [], bwerr = None\<rparr> = (w, None)"
  shows "cliOut (first_send P c conn sm m inp) = w"
  using assms
  by (simp add: first_send_def Send_def Go_def start_call_def send_register_def send_write_def write_request_def
      NewClient_def new_call_def send_request_def)

text \<open>The handler runs once; nothing is sent back.\<close>

lemma send_round:
  assumes "pb_laws P typ_of" and "deliverable P typ_of L server (send_request conn sm) m mt inp" and "ReplyType mt = PtrTo tr"
    and "mFunc mt (map_option copy_context conn) m (zero_of L tr) (appState server) = (res, st)"
  shows "appState (cServer (serve_once P L (ServeConn server (flushed (cliOut (first_send P c conn sm m inp')))))) = st"
proof -
  let ?q = "send_request conn sm"
  from assms(2) obtain w where w: "WriteRequest P ?q (Pb m) \<lparr>flushed = [], bwerr = None\<rparr> = (w, None)" "inp = flushed w"
    by (auto simp: deliverable_def)
  from deliverable_read [OF assms(1,2)] assms(3) obtain svc meth where f: "find_method svc meth server = Some mt"
    and rd: "readRequest P L server inp = (ReadOk \<lparr>jService = svc, jMethod = meth, jReq = as_received ?q, jArg = m, jReplyType = Some tr\<rparr>, [])" by auto
  let ?j = "\<lparr>jService = svc, jMethod = meth, jReq = as_received ?q, jArg = m, jReplyType = Some tr\<rparr>"
  have q: "NoResp (as_received ?q)" "Conn (as_received ?q) = map_option copy_context conn" by (simp_all add: received_fields send_request_def)
  have "\<exists>server'. service_call P L ?j server \<lparr>flushed = [], bwerr = None\<rparr> = (None, server', \<lparr>flushed = [], bwerr = None\<rparr>) \<and> appState server' = st"
    by (rule service_call_silent [where mt = mt and tr = tr and res = res]) (use f q assms(4) in simp_all)
  then show ?thesis
    using rd w(2) by (auto simp: serve_once_def first_send_state [OF w(1)] serve_read_def ServeConn_def serve_run_def Let_def)
qed


section \<open>Nodes that call each other\<close>

text \<open>
  The servers of a cluster by the address at which they listen. A call dials nothing: the client
  is open; the request is written, the server at the address reads it and runs the handler, and
  the reader of the client takes the response. \<open>ty\<close> is the type of a message, to which the
  answer is decoded. When nothing listens at the address any more, the reader has failed the call.
\<close>

type_synonym ('m, 'st) cluster = "(string, ('m, 'st) rpc_server) gmap"

definition answer_of :: "'m \<Rightarrow> (go_type, 'm) call_info \<Rightarrow> u16 \<times> go_error option \<times> 'm" where
  "answer_of rsp ci =
     (fst (Call_result ci), snd (Call_result ci),
      (case (cError ci, cReply ci) of (None, MsgReply m) \<Rightarrow> m | _ \<Rightarrow> rsp))"

definition cluster_Call ::
  "(go_type, 'm) pb_lib \<Rightarrow> 'm reflect_lib \<Rightarrow> ('m \<Rightarrow> go_type) \<Rightarrow> (u64, nat) gorder \<Rightarrow> string \<Rightarrow> rpc_context option \<Rightarrow> string \<Rightarrow> 'm \<Rightarrow> 'm \<Rightarrow>
   ('m, 'st) cluster \<Rightarrow> (u16 \<times> go_error option \<times> 'm) \<times> ('m, 'st) cluster" where
  "cluster_Call P L ty ord address ctx sm req rsp w =
     (case map_of w address of
        None \<Rightarrow> ((0, Some ErrShutdown, rsp), w)
      | Some server \<Rightarrow>
          let sent = flushed (cliOut (first_call P 0 ctx sm req (ty rsp) []));
              cs = serve_once P L (ServeConn server sent);
              s = input_iter P ord (first_call P 0 ctx sm req (ty rsp) (flushed (cOut cs)))
          in ((case map_of (calls s) 0 of None \<Rightarrow> (0, Some ErrShutdown, rsp) | Some ci \<Rightarrow> answer_of rsp ci),
              gmap_set address (cServer cs) w))"

definition raw_form :: "bool \<Rightarrow> int" where
  "raw_form js = (if js then 2 else 1)"

definition cluster_Raw ::
  "(go_type, 'm) pb_lib \<Rightarrow> 'm reflect_lib \<Rightarrow> (u64, nat) gorder \<Rightarrow> string \<Rightarrow> rpc_context option \<Rightarrow> string \<Rightarrow> bytes \<Rightarrow> bool \<Rightarrow>
   ('m, 'st) cluster \<Rightarrow> (u16 \<times> (go_error + bytes)) outcome \<times> ('m, 'st) cluster" where
  "cluster_Raw P L ord address ctx sm b js w =
     (case map_of w address of
        None \<Rightarrow> (Ret (0, Inl ErrShutdown), w)
      | Some server \<Rightarrow>
          let sent = flushed (cliOut (first_raw P 0 ctx sm b (raw_form js) []));
              cs = serve_once P L (ServeConn server sent);
              s = input_iter P ord (first_raw P 0 ctx sm b (raw_form js) (flushed (cOut cs)))
          in ((case map_of (calls s) 0 of None \<Rightarrow> Ret (0, Inl ErrShutdown) | Some ci \<Rightarrow> RawCall_result ci),
              gmap_set address (cServer cs) w))"

definition cluster_Send ::
  "(go_type, 'm) pb_lib \<Rightarrow> 'm reflect_lib \<Rightarrow> string \<Rightarrow> rpc_context option \<Rightarrow> string \<Rightarrow> 'm \<Rightarrow> ('m, 'st) cluster \<Rightarrow> ('m, 'st) cluster" where
  "cluster_Send P L address ctx sm req w =
     (case map_of w address of
        None \<Rightarrow> w
      | Some server \<Rightarrow>
          gmap_set address (cServer (serve_once P L (ServeConn server (flushed (cliOut (first_send P 0 ctx sm req [])))))) w)"

definition cluster_peers ::
  "(go_type, 'm) pb_lib \<Rightarrow> 'm reflect_lib \<Rightarrow> ('m \<Rightarrow> go_type) \<Rightarrow> (u64, nat) gorder \<Rightarrow> ('m, ('m, 'st) cluster) peers \<Rightarrow>
   ('m, ('m, 'st) cluster) peers" where
  "cluster_peers P L ty ord D =
     D\<lparr>pDial := (\<lambda>address w. (if map_of w address = None then Inl (GoErr ''connection refused'') else Inr [], w)),
       pCall := cluster_Call P L ty ord, pRaw := cluster_Raw P L ord, pSend := cluster_Send P L\<rparr>"

text \<open>The method \<open>sm\<close> of a server, on an argument: its handler returns \<open>res\<close>, and the response can be written.\<close>

definition serves ::
  "(go_type, 'm) pb_lib \<Rightarrow> ('m \<Rightarrow> go_type \<Rightarrow> bool) \<Rightarrow> 'm reflect_lib \<Rightarrow> rpc_context option \<Rightarrow> string \<Rightarrow> 'm \<Rightarrow> go_type \<Rightarrow>
   ('m, 'st) rpc_server \<Rightarrow> (u16 \<times> go_error option \<times> 'm) outcome \<Rightarrow> 'st \<Rightarrow> bool" where
  "serves P typ_of L ctx sm req tr server res st \<longleftrightarrow>
     (\<exists>mt inp w'. addressed P typ_of L server (call_request ctx sm) req mt inp \<and> ReplyType mt = PtrTo tr \<and>
        mFunc mt (map_option copy_context ctx) req (zero_of L tr) (appState server) = (res, st) \<and>
        WriteResponse P (response_to (call_request ctx sm) res)
          (Pb (if snd (reported res) \<noteq> [] then NullMessage P else reply_of (zero_of L tr) res)) \<lparr>flushed = [], bwerr = None\<rparr> = (w', None)) \<and>
     (snd (reported res) = [] \<longrightarrow> typ_of (reply_of (zero_of L tr) res) tr)"

definition told :: "'m reflect_lib \<Rightarrow> go_type \<Rightarrow> 'm \<Rightarrow> (u16 \<times> go_error option \<times> 'm) outcome \<Rightarrow> u16 \<times> go_error option \<times> 'm" where
  "told L tr rsp res =
     (if snd (reported res) = [] then (fst (reported res), None, reply_of (zero_of L tr) res)
      else (0, Some (GoErr (snd (reported res))), rsp))"

lemma cluster_Call_serves:
  assumes "pb_laws P typ_of" "map_of w address = Some server" "serves P typ_of L ctx sm req (ty rsp) server res st"
  shows "\<exists>server'. cluster_Call P L ty ord address ctx sm req rsp w = (told L (ty rsp) rsp res, gmap_set address server' w) \<and> appState server' = st"
proof -
  from assms(3) obtain mt inp w' where s: "addressed P typ_of L server (call_request ctx sm) req mt inp" "ReplyType mt = PtrTo (ty rsp)"
    "mFunc mt (map_option copy_context ctx) req (zero_of L (ty rsp)) (appState server) = (res, st)"
    "WriteResponse P (response_to (call_request ctx sm) res)
       (Pb (if snd (reported res) \<noteq> [] then NullMessage P else reply_of (zero_of L (ty rsp)) res)) \<lparr>flushed = [], bwerr = None\<rparr> = (w', None)"
    "snd (reported res) = [] \<longrightarrow> typ_of (reply_of (zero_of L (ty rsp)) res) (ty rsp)" by (auto simp: serves_def)
  let ?cs = "serve_once P L (ServeConn server (flushed (cliOut (first_call P 0 ctx sm req (ty rsp) []))))"
  from call_round [OF assms(1) s, of 0 "[]" ord] obtain ci where
    ci: "appState (cServer ?cs) = st" "flushed (cOut ?cs) = flushed w'"
    "map_of (calls (input_iter P ord (first_call P 0 ctx sm req (ty rsp) (flushed w')))) 0 = Some ci"
    "if snd (reported res) = [] then Call_result ci = (fst (reported res), None) \<and> cReply ci = MsgReply (reply_of (zero_of L (ty rsp)) res)
     else Call_result ci = (0, Some (GoErr (snd (reported res))))"
    using serve_two by blast
  then have "answer_of rsp ci = told L (ty rsp) rsp res"
    by (auto simp: answer_of_def told_def Call_result_def split: if_splits)
  with ci(1-3) assms(2) show ?thesis by (intro exI [of _ "cServer ?cs"]) (simp add: cluster_Call_def Let_def)
qed

definition serves_raw ::
  "(go_type, 'm) pb_lib \<Rightarrow> 'm reflect_lib \<Rightarrow> rpc_context option \<Rightarrow> string \<Rightarrow> bytes \<Rightarrow> bool \<Rightarrow>
   ('m, 'st) rpc_server \<Rightarrow> 'm \<Rightarrow> (u16 \<times> go_error option \<times> 'm) outcome \<Rightarrow> bytes \<Rightarrow> 'st \<Rightarrow> bool" where
  "serves_raw P L ctx sm b js server m res reply st \<longleftrightarrow>
     (\<exists>mt tr inp w'. raw_addressed P L server (raw_request ctx sm (raw_form js)) b m mt tr inp \<and>
        mFunc mt (map_option copy_context ctx) m (zero_of L tr) (appState server) = (res, st) \<and>
        WriteResponse P (response_to (raw_request ctx sm (raw_form js)) res)
          (Pb (if snd (reported res) \<noteq> [] then NullMessage P else reply_of (zero_of L tr) res)) \<lparr>flushed = [], bwerr = None\<rparr> = (w', None) \<and>
        (snd (reported res) = [] \<longrightarrow>
          (if js then jsonMarshal P (reply_of (zero_of L tr) res) else Marshal P (reply_of (zero_of L tr) res)) = Inr reply))"

lemma cluster_Raw_serves:
  assumes "pb_laws P typ_of" "map_of w address = Some server" "serves_raw P L ctx sm b js server m res reply st"
  shows "\<exists>server'. cluster_Raw P L ord address ctx sm b js w = (Ret (told_raw res reply), gmap_set address server' w) \<and> appState server' = st"
proof -
  let ?raw = "raw_form js"
  have js: "(?raw = 2) = js" by (simp add: raw_form_def)
  from assms(3) obtain mt tr inp w' where s: "raw_addressed P L server (raw_request ctx sm ?raw) b m mt tr inp"
    "mFunc mt (map_option copy_context ctx) m (zero_of L tr) (appState server) = (res, st)"
    "WriteResponse P (response_to (raw_request ctx sm ?raw) res)
       (Pb (if snd (reported res) \<noteq> [] then NullMessage P else reply_of (zero_of L tr) res)) \<lparr>flushed = [], bwerr = None\<rparr> = (w', None)"
    "snd (reported res) = [] \<longrightarrow>
       (if ?raw = 2 then jsonMarshal P (reply_of (zero_of L tr) res) else Marshal P (reply_of (zero_of L tr) res)) = Inr reply"
    unfolding serves_raw_def js by blast
  let ?cs = "serve_once P L (ServeConn server (flushed (cliOut (first_raw P 0 ctx sm b ?raw []))))"
  from raw_round [OF assms(1) s, of 0 "[]" ord] obtain ci where
    "appState (cServer ?cs) = st" "flushed (cOut ?cs) = flushed w'"
    "map_of (calls (input_iter P ord (first_raw P 0 ctx sm b ?raw (flushed w')))) 0 = Some ci" "RawCall_result ci = Ret (told_raw res reply)"
    using serve_two by blast
  with assms(2) show ?thesis by (intro exI [of _ "cServer ?cs"]) (simp add: cluster_Raw_def Let_def)
qed

text \<open>Looking for a node does not change what happens elsewhere when dialling does not.\<close>

lemma getNode_world:
  assumes "\<And>a w. snd (pDial D a w) = w"
  shows "snd (snd (getNode D name nw)) = snd nw"
proof -
  obtain n w where nw: "nw = (n, w)" by (cases nw)
  show ?thesis
    using assms [of _ w] by (auto simp: nw getNode_def new_conn_def split: option.splits outcome.splits sum.splits prod.splits)
      (metis snd_conv)+
qed

lemma find_conns_world:
  assumes "\<And>a w. snd (pDial D a w) = w"
  shows "snd (snd (find_conns D ks m nw)) = snd nw"
proof (induction ks arbitrary: m nw)
  case (Cons k ks)
  obtain r nw1 where "getNode D k nw = (r, nw1)" by (metis prod.exhaust)
  moreover from this getNode_world [OF assms, of k nw] have "snd nw1 = snd nw" by simp
  ultimately show ?case using Cons.IH by (auto split: outcome.splits option.splits)
qed simp

lemma getClient_world:
  assumes "\<And>a w. snd (pDial D a w) = w"
  shows "snd (snd (getClient D Q svc nw)) = snd nw"
proof -
  have "snd (snd (FindRpcConnByService D Q svc nw)) = snd nw"
    by (simp add: FindRpcConnByService_def find_conns_world [OF assms] split: option.splits)
  moreover obtain r nw1 where "FindRpcConnByService D Q svc nw = (r, nw1)" by (metis prod.exhaust)
  ultimately show ?thesis by (auto simp: getClient_def split: outcome.splits)
qed

lemma sole_provider_raw:
  assumes "node_ok n" and "node_orders_ok Q" and "fst ` set (names_of n svc) = {name}" and "connected n name a"
    and "map_of (conns n) a = Some (address, cl)" and "callMock sm n = None" and "svc = fst (splitServiceMethod sm)"
    and "\<forall>x\<in>set (Nodes c). ServiceName x \<noteq> svc" and "map_of (Services n) svc = None"
    and "pRaw D address (Some c) sm b js w = (r, w')"
  shows "raw_call js P L D Q (Some c) sm b (n, w) = (raw3 r, n, w')"
proof -
  have "getClient D Q svc (n, w) = (Ret (Some a), n, w)"
    by (simp add: getClient_def sole_provider_found [OF assms(1-4)])
  moreover have "find (\<lambda>x. svc = ServiceName x) (Nodes c) = None" using assms(8) by (auto simp: find_None_iff)
  ultimately have "svc_route D Q (Some c) sm (n, w) = (Ret (RConn a), n, w)"
    using assms(6,7,9) by (simp add: svc_route_def)
  moreover have "usable n (Some a)" using assms(4) by (auto simp: connected_def)
  ultimately show ?thesis using assms(5,10) by (auto simp: raw_call_def conn_Raw_def on_conn_def usable_Some)
qed

lemma raw_call_routed:
  assumes "node_ok n" and "node_orders_ok Q" and "callMock sm n = None" and "svc = fst (splitServiceMethod sm)"
    and "\<forall>x\<in>set (Nodes c). ServiceName x \<noteq> svc" and "map_of (Services n) svc = None"
    and "raw_call js P L D Q (Some c) sm b (n, w) = (Ret res, n', w')"
  shows "(\<exists>name a address cl w1. snd (snd (getClient D Q svc (n, w))) = w1 \<and> provider n svc n' name a \<and> map_of (conns n') a = Some (address, cl) \<and>
      apfst raw3 (pRaw D address (Some c) sm b js w1) = (Ret res, w') \<and>
      ((\<exists>name' b. provider n svc n' name' b \<and> region_of n' b = nodeRegion n) \<longrightarrow> region_of n' a = nodeRegion n)) \<or>
    (\<nexists>name a. provider n svc n' name a) \<and> res = (1, [], Some unsupported)"
proof -
  have no: "find (\<lambda>x. svc = ServiceName x) (Nodes c) = None" using assms(5) by (auto simp: find_None_iff)
  obtain r n1 w1 where g: "getClient D Q svc (n, w) = (r, n1, w1)" by (metis prod.exhaust)
  with assms(3,4,6,7) no obtain res1 where r: "r = Ret res1"
    by (cases r) (auto simp: raw_call_def svc_route_def Let_def)
  note G = getClient_provider [OF assms(1,2) g [unfolded r]]
  show ?thesis
  proof (cases res1)
    case None
    with G assms(3,4,6,7) no g r show ?thesis by (auto simp: raw_call_def svc_route_def Let_def)
  next
    case (Some a)
    with G obtain name where name: "provider n svc n1 name a" by auto
    then obtain address cl where ad: "map_of (conns n1) a = Some (address, cl)" "\<not> IsClose cl"
      by (auto simp: provider_def connected_def usable_Some)
    with Some assms(3,4,6,7) no g r have "n' = n1" "apfst raw3 (pRaw D address (Some c) sm b js w1) = (Ret res, w')"
      by (auto simp: raw_call_def svc_route_def Let_def conn_Raw_def on_conn_def apfst_def map_prod_def split: prod.splits)
    then show ?thesis using G Some name ad
      by (intro disjI1 exI [of _ name] exI [of _ a] exI [of _ address] exI [of _ cl] exI [of _ w1] conjI) (simp_all add: g)
  qed
qed


definition sent_to ::
  "(go_type, 'm) pb_lib \<Rightarrow> 'm reflect_lib \<Rightarrow> rpc_context option \<Rightarrow> string \<Rightarrow> 'm \<Rightarrow> ('m, 'st) rpc_server \<Rightarrow> ('m, 'st) rpc_server" where
  "sent_to P L ctx sm req server = cServer (serve_once P L (ServeConn server (flushed (cliOut (first_send P 0 ctx sm req [])))))"

lemma cluster_Send_map:
  "map_of (cluster_Send P L address ctx sm req w) x = (if x = address then map_option (sent_to P L ctx sm req) (map_of w x) else map_of w x)"
  by (simp add: cluster_Send_def sent_to_def split: option.splits)

lemma cluster_Sends_map:
  assumes "distinct (map (\<lambda>(name, a). ad a) cs)"
  shows "map_of (fold (\<lambda>(name, a). cluster_Send P L (ad a) ctx sm req) cs w) x =
    (if x \<in> (\<lambda>(name, a). ad a) ` set cs then map_option (sent_to P L ctx sm req) (map_of w x) else map_of w x)"
  using assms
proof (induction cs arbitrary: w)
  case (Cons c cs)
  then show ?case by (cases c) (auto simp: cluster_Send_map)
qed simp

text \<open>A server has the method, and its handler on the message leaves the state \<open>st\<close>.\<close>

definition receives ::
  "(go_type, 'm) pb_lib \<Rightarrow> ('m \<Rightarrow> go_type \<Rightarrow> bool) \<Rightarrow> 'm reflect_lib \<Rightarrow> rpc_context option \<Rightarrow> string \<Rightarrow> 'm \<Rightarrow> ('m, 'st) rpc_server \<Rightarrow> 'st \<Rightarrow> bool" where
  "receives P typ_of L ctx sm req server st \<longleftrightarrow>
     (\<exists>mt inp tr res. deliverable P typ_of L server (send_request ctx sm) req mt inp \<and> ReplyType mt = PtrTo tr \<and>
        mFunc mt (map_option copy_context ctx) req (zero_of L tr) (appState server) = (res, st))"

lemma sent_to_receives: "pb_laws P typ_of \<Longrightarrow> receives P typ_of L ctx sm req server st \<Longrightarrow> appState (sent_to P L ctx sm req server) = st"
  by (auto simp: receives_def sent_to_def intro: send_round)

lemma Find_world:
  assumes "\<And>a w. snd (pDial D a w) = w"
  shows "snd (snd (FindRpcConnByService D Q svc nw)) = snd nw"
  by (simp add: FindRpcConnByService_def find_conns_world [OF assms] split: option.splits)

text \<open>
  C6. A broadcast runs the handler once on every node that offers the service. When the providers listen at
  different addresses, each server that a provider's connection leads to has run its handler once, on the message and an empty
  context, and is in the state that the handler left; every other server is as it was. The node itself
  runs the message as a task of its own when it has the service.
\<close>

theorem broadcast_executes:
  assumes "pb_laws P typ_of" and "node_ok n" and "node_orders_ok Q" and "callMock sm n = None" and "svc = fst (splitServiceMethod sm)"
    and "Broadcast (cluster_peers P L ty ord D) Q sm req (n, w) = (Ret e, n', w')"
    and "\<forall>name a name' b. provider n svc n' name a \<and> provider n svc n' name' b \<and> address_of n' a = address_of n' b \<longrightarrow> a = b"
  shows "e = None \<and> Tasks n' = Tasks n @ (if map_of (Services n) svc = None then [] else [TInternal EmptyContext sm req]) \<and>
    (\<forall>name a server. provider n svc n' name a \<and> map_of w (address_of n' a) = Some server \<longrightarrow>
      (\<exists>server'. map_of w' (address_of n' a) = Some server' \<and> (\<forall>st. receives P typ_of L EmptyContext sm req server st \<longrightarrow> appState server' = st))) \<and>
    (\<forall>x. (\<nexists>name a. provider n svc n' name a \<and> address_of n' a = x) \<longrightarrow> map_of w' x = map_of w x)"
proof -
  let ?D = "cluster_peers P L ty ord D"
  have dial: "snd (pDial ?D a v) = v" for a v by (simp add: cluster_peers_def)
  from broadcast_sent [OF assms(2-6)] obtain w1 cs n0 where b: "e = None"
    "Tasks n' = Tasks n @ (if map_of (Services n) svc = None then [] else [TInternal EmptyContext sm req])"
    "snd (snd (FindRpcConnByService ?D Q svc (n0, w))) = w1" "distinct (map snd cs)"
    "\<forall>name a. (name, a) \<in> set cs \<longleftrightarrow> provider n svc n' name a"
    "w' = fold (\<lambda>(name, a). pSend ?D (address_of n' a) EmptyContext sm req) cs w1" "Tasks n0 = Tasks n'" by blast
  from Find_world [OF dial, of Q svc "(n0, w)"] b(3) have w1: "w1 = w" by simp
  have "inj_on (address_of n') (snd ` set cs)"
  proof (rule inj_onI)
    fix x y assume "x \<in> snd ` set cs" "y \<in> snd ` set cs" and eq: "address_of n' x = address_of n' y"
    then obtain k l where "(k, x) \<in> set cs" "(l, y) \<in> set cs" by auto
    with b(5) have "provider n svc n' k x" "provider n svc n' l y" by blast+
    with assms(7) eq show "x = y" by blast
  qed
  have d: "distinct (map (\<lambda>(name, a). address_of n' a) cs)"
  proof -
    have "map (\<lambda>(name, a). address_of n' a) cs = map (address_of n') (map snd cs)" by (simp add: case_prod_unfold)
    then show ?thesis using b(4) \<open>inj_on (address_of n') (snd ` set cs)\<close> by (simp only: distinct_map set_map simp_thms)
  qed
  have w': "w' = fold (\<lambda>(name, a). cluster_Send P L (address_of n' a) EmptyContext sm req) cs w"
    unfolding b(6) w1 by (simp add: cluster_peers_def)
  have m: "map_of w' x = (if \<exists>name a. provider n svc n' name a \<and> address_of n' a = x then map_option (sent_to P L EmptyContext sm req) (map_of w x) else map_of w x)" for x
  proof -
    have "x \<in> (\<lambda>(name, a). address_of n' a) ` set cs \<longleftrightarrow> (\<exists>name a. provider n svc n' name a \<and> address_of n' a = x)"
      using b(5) by (force simp: image_iff)
    with cluster_Sends_map [OF d, of P L EmptyContext sm req w x] show ?thesis unfolding w' by simp
  qed
  have "map_of w' (address_of n' a) = Some (sent_to P L EmptyContext sm req server)"
    if "provider n svc n' name a" "map_of w (address_of n' a) = Some server" for name a server
    using m [of "address_of n' a"] that by auto
  with b(1,2) m sent_to_receives [OF assms(1)] show ?thesis by auto
qed

text \<open>A cluster of one server, at the address of the node that \<^term>\<open>demo_net\<close> is connected to.\<close>

definition cluster_lib :: "(go_type, string) pb_lib" where
  "cluster_lib =
     pos_lib [\<lparr>qMethod = ''Db.Get'', qSeq = 0, qContext = Some (copy_context demo_ctx), qNoResp = False, qRaw = 0\<rparr>]
       [\<lparr>pMethod = ''Db.Get'', pSeq = 0, pError = [], pRet = 7, pRaw = 0\<rparr>] [''x'', ''y'']"

definition demo_cluster :: "(string, (string, string) cluster) peers" where
  "demo_cluster =
     cluster_peers cluster_lib db_reflect (\<lambda>_. rsp_t) (\<lambda>m. m)
       \<lparr>pDial = (\<lambda>a w. (Inr [], w)), pCall = (\<lambda>a ctx sm req rsp w. ((0, None, []), w)),
        pRaw = (\<lambda>a ctx sm b js w. (Ret (0, Inr []), w)), pSend = (\<lambda>a ctx sm req w. w), pRawSend = (\<lambda>a ctx sm b js w. w)\<rparr>"

lemma cluster_lib_laws: "pb_laws cluster_lib (\<lambda>_ _. True)"
  by (simp add: cluster_lib_def pos_lib_laws)

lemma db_serves: "serves cluster_lib (\<lambda>_ _. True) db_reflect (Some demo_ctx) ''Db.Get'' ''y'' rsp_t db_server (Ret (7, None, ''x'')) ''y''"
proof -
  let ?r = "call_request (Some demo_ctx) ''Db.Get''"
  have w: "snd (WriteRequest cluster_lib ?r (Pb ''y'') \<lparr>flushed = [], bwerr = None\<rparr>) = None"
    by (simp add: WriteRequest_def call_request_def cluster_lib_def pos_lib_def pos_enc_def encode_req_def encode_def
        writeFrame_bytes bufio_Write_def tooBig_def)
  have "ServiceMethod ?r = ''Db'' @ dot # ''Get''" "dot \<notin> set ''Get''" by (simp_all add: call_request_def dot_def)
  with db_method have "\<exists>svc meth. ServiceMethod ?r = svc @ dot # meth \<and> dot \<notin> set meth \<and>
      find_method svc meth db_server = Some (entry_of get_sig)" by blast
  with w have a: "addressed cluster_lib (\<lambda>_ _. True) db_reflect db_server ?r ''y'' (entry_of get_sig)
      (flushed (fst (WriteRequest cluster_lib ?r (Pb ''y'') \<lparr>flushed = [], bwerr = None\<rparr>)))"
    unfolding addressed_def by (intro conjI) (auto simp: call_request_def db_reflect_def entry_of_def get_sig_def prod_eq_iff)
  have f: "mFunc (entry_of get_sig) (map_option copy_context (Some demo_ctx)) ''y'' (zero_of db_reflect rsp_t) (appState db_server) =
    (Ret (7, None, ''x''), ''y'')" by (simp add: entry_of_def get_sig_def db_appState)
  have "\<exists>w'. WriteResponse cluster_lib (response_to ?r (Ret (7, None, ''x'')))
     (Pb (if snd (reported (Ret (7, None, ''x''))) \<noteq> [] then NullMessage cluster_lib else reply_of (zero_of db_reflect rsp_t) (Ret (7, None, ''x''))))
     \<lparr>flushed = [], bwerr = None\<rparr> = (w', None)"
    by (simp add: WriteResponse_def response_to_def call_request_def cluster_lib_def pos_lib_def pos_enc_def encode_rsp_def encode_def
        writeFrame_bytes bufio_Write_def tooBig_def)
  with a f db_ReplyType show ?thesis unfolding serves_def by blast
qed


text \<open>Two servers, of which the node is connected to one.\<close>

definition cast_lib :: "(go_type, string) pb_lib" where
  "cast_lib =
     pos_lib [\<lparr>qMethod = ''Db.Get'', qSeq = 0, qContext = map_option copy_context EmptyContext, qNoResp = True, qRaw = 0\<rparr>] [] [''x'', ''y'']"

definition cast_peers :: "(string, (string, string) cluster) peers" where
  "cast_peers =
     cluster_peers cast_lib db_reflect (\<lambda>_. rsp_t) (\<lambda>m. m)
       \<lparr>pDial = (\<lambda>a w. (Inr [], w)), pCall = (\<lambda>a ctx sm req rsp w. ((0, None, []), w)),
        pRaw = (\<lambda>a ctx sm b js w. (Ret (0, Inr []), w)), pSend = (\<lambda>a ctx sm req w. w), pRawSend = (\<lambda>a ctx sm b js w. w)\<rparr>"

lemma db_receives: "receives cast_lib (\<lambda>_ _. True) db_reflect EmptyContext ''Db.Get'' ''y'' db_server ''y''"
proof -
  let ?r = "send_request EmptyContext ''Db.Get''"
  have w: "snd (WriteRequest cast_lib ?r (Pb ''y'') \<lparr>flushed = [], bwerr = None\<rparr>) = None"
    by (simp add: WriteRequest_def send_request_def cast_lib_def pos_lib_def pos_enc_def encode_req_def encode_def
        writeFrame_bytes bufio_Write_def tooBig_def)
  have "ServiceMethod ?r = ''Db'' @ dot # ''Get''" "dot \<notin> set ''Get''" by (simp_all add: send_request_def dot_def)
  with db_method have "\<exists>svc meth. ServiceMethod ?r = svc @ dot # meth \<and> dot \<notin> set meth \<and>
      find_method svc meth db_server = Some (entry_of get_sig)" by blast
  with w have a: "deliverable cast_lib (\<lambda>_ _. True) db_reflect db_server ?r ''y'' (entry_of get_sig)
      (flushed (fst (WriteRequest cast_lib ?r (Pb ''y'') \<lparr>flushed = [], bwerr = None\<rparr>)))"
    unfolding deliverable_def by (intro conjI) (auto simp: send_request_def db_reflect_def entry_of_def get_sig_def prod_eq_iff)
  have "mFunc (entry_of get_sig) (map_option copy_context EmptyContext) ''y'' (zero_of db_reflect rsp_t) (appState db_server) =
    (Ret (7, None, ''x''), ''y'')" by (simp add: entry_of_def get_sig_def db_appState)
  with a db_ReplyType show ?thesis unfolding receives_def by blast
qed

theorem broadcast_executes_witness:
  "\<exists>w' server'. Broadcast cast_peers demo_orders ''Db.Get'' ''y'' (demo_net, [(''out:9'', db_server), (''far:1'', db_server)]) = (Ret None, demo_net, w') \<and>
     map_of w' ''out:9'' = Some server' \<and> appState server' = ''y'' \<and> map_of w' ''far:1'' = Some db_server"
proof -
  obtain a cl where n: "node_ok demo_net" "connected demo_net ''db1'' a" "map_of (conns demo_net) a = Some (''out:9'', cl)"
    "callMock ''Db.Get'' demo_net = None" "map_of (Services demo_net) ''Db'' = None" "fst ` set (names_of demo_net ''Db'') = {''db1''}"
    "nodeName demo_net = ''me''" by (rule demo_connected)
  let ?w = "[(''out:9'', db_server), (''far:1'', db_server)]"
  let ?w' = "cluster_Send cast_lib db_reflect ''out:9'' EmptyContext ''Db.Get'' ''y'' ?w"
  have "\<not> IsClose cl" using n(2,3) by (auto simp: connected_def usable_Some)
  then have "send_each cast_peers ''Db.Get'' ''y'' [(''db1'', a)] (demo_net, ?w) = (demo_net, ?w')"
    by (simp add: n(3,7) conn_Send_def on_conn_def) (simp add: cast_peers_def cluster_peers_def)
  then have c: "Broadcast cast_peers demo_orders ''Db.Get'' ''y'' (demo_net, ?w) = (Ret None, demo_net, ?w')"
    by (simp add: Broadcast_def n(4,5) sole_provider_found [OF n(1) demo_facts(2) n(6,2)] demo_facts(6))
  have p: "provider demo_net ''Db'' demo_net name b \<longleftrightarrow> name = ''db1'' \<and> b = a" for name b
    unfolding provider_def n(6) singleton_iff using n(2) connected_fun [OF n(2), of b] by fast
  have ad: "address_of demo_net a = ''out:9''" by (simp add: address_of_def n(3))
  have laws: "pb_laws cast_lib (\<lambda>_ _. True)" by (simp add: cast_lib_def pos_lib_laws)
  have one: "\<forall>name b name' b'. provider demo_net ''Db'' demo_net name b \<and> provider demo_net ''Db'' demo_net name' b' \<and>
      address_of demo_net b = address_of demo_net b' \<longrightarrow> b = b'" by (simp add: p)
  note X = broadcast_executes [OF laws n(1) demo_facts(2) n(4) demo_facts(6) [symmetric] c [unfolded cast_peers_def] one, unfolded p]
  from X have "\<exists>server'. map_of ?w' ''out:9'' = Some server' \<and> appState server' = ''y''"
    using db_receives ad by (metis (no_types, lifting) map_of_Cons_code(2))
  moreover from X have "map_of ?w' ''far:1'' = Some db_server" using ad by simp
  ultimately show ?thesis using c by blast
qed

end
