(* ===== verification/Gate_Cluster.thy ===== *)
theory Gate_Cluster
  imports Gate_Sessions Rpc_Cluster
begin

text \<open>
  The whole way of a client's message: the gate of \<^verbatim>\<open>gnet/connect.go\<close>, its node, the rpc client, the rpc
  server of another node with the handler, and back to the client.
\<close>

text \<open>What a handler's outcome is for the gate: the code and the bytes of the reply, or an error.\<close>

definition handler_answer :: "(u16 \<times> go_error option \<times> 'm) outcome \<Rightarrow> bytes \<Rightarrow> raw_result" where
  "handler_answer res reply =
     (if snd (reported res) = [] then (fst (reported res), reply, None) else (0, [], Some (GoErr (snd (reported res)))))"

lemma raw3_told: "raw3 (Ret (told_raw res reply)) = Ret (handler_answer res reply)"
  by (simp add: told_raw_def handler_answer_def)

text \<open>The node after the number of the call has been drawn.\<close>

lemma NewId_node:
  assumes "NewId now k n = (r, n1)"
  shows "node_ok n1 = node_ok n" "callMock sm n1 = callMock sm n" "Services n1 = Services n" "names_of n1 s = names_of n s"
    "nodeRegion n1 = nodeRegion n"
proof -
  obtain x where "n1 = n\<lparr>IDGen := x\<rparr>" using assms by (auto simp: NewId_def split: prod.splits)
  then show "node_ok n1 = node_ok n" "callMock sm n1 = callMock sm n" "Services n1 = Services n" "names_of n1 s = names_of n s"
    "nodeRegion n1 = nodeRegion n"
    by (simp_all add: node_ok_def heap_ok_def clients_ok_def services_ok_def entry_ok_def callMock_def names_of_def)
qed

lemma rpc_of_message_raw:
  "gNodeName msg = [] \<Longrightarrow> rpc_of_message E ctx msg sm nw = raw_call (isJson msg) (eP E) (eL E) (eD E) (eQ E) (Some ctx) sm (gBuff msg) nw"
  by (simp add: rpc_of_message_def node_JsonCall_def node_RawCall_def)


section \<open>Witness\<close>

text \<open>A gate with one client and a node that is connected to a server at \<open>out:9\<close>.\<close>

definition gate_net :: "(string, string, string) node" where
  "gate_net = demo_net\<lparr>CmdService := [(''.3'', ''Db.Get'')], IDGen := NewIDGen 1\<rparr>"

definition net_ctx :: rpc_context where
  "net_ctx = (ccContext gate_conn)\<lparr>CallId := (case fst (NewId 1000000 0 gate_net) of Ret i \<Rightarrow> i | Panic _ \<Rightarrow> 0), Game := ''game''\<rparr>"

definition net_lib :: "(go_type, string) pb_lib" where
  "net_lib =
     pos_lib [\<lparr>qMethod = ''Db.Get'', qSeq = 0, qContext = Some (copy_context net_ctx), qNoResp = False, qRaw = 1\<rparr>]
       [\<lparr>pMethod = ''Db.Get'', pSeq = 0, pError = [], pRet = 7, pRaw = 1\<rparr>] [''z'', ''y'', ''x'']"

definition net_env :: "(string, string, (string, string) cluster) gate_env" where
  "net_env =
     \<lparr>eP = net_lib, eL = db_reflect,
      eD = cluster_peers net_lib db_reflect (\<lambda>_. rsp_t) (\<lambda>m. m)
        \<lparr>pDial = (\<lambda>a w. (Inr [], w)), pCall = (\<lambda>a ctx sm req rsp w. ((0, None, []), w)),
         pRaw = (\<lambda>a ctx sm b js w. (Ret (0, Inr []), w)), pSend = (\<lambda>a ctx sm req w. w), pRawSend = (\<lambda>a ctx sm b js w. w)\<rparr>,
      eQ = demo_orders, eAes = demo_aes\<rparr>"

definition net_gate :: "(string, string, string, (string, string) cluster, unit) gater" where
  "net_gate = (NewGater True [] (gate_net, [(''out:9'', db_server)]) ())
     \<lparr>Ids := [(2, 0)], Count := 1, gConns := [(0, gate_conn)], gNext := 1\<rparr>"

lemma net_env_facts:
  "pb_laws (eP net_env) (\<lambda>_ _. True)" "node_orders_ok (eQ net_env)" "eAes net_env = eAes gate_env0" "eP net_env = net_lib" "eL net_env = db_reflect"
  "\<exists>D. eD net_env = cluster_peers (eP net_env) (eL net_env) (\<lambda>_. rsp_t) (\<lambda>m. m) D"
  using demo_facts(2) by (auto simp: net_env_def net_lib_def pos_lib_laws gate_env0_def)

lemma net_gate_facts:
  "conn_at net_gate 0 = Some gate_conn" "SyncCall net_gate" "ReqFuncs net_gate = []" "RspFuncs net_gate = []"
  "gNode net_gate = (gate_net, [(''out:9'', db_server)])"
  by (simp_all add: net_gate_def NewGater_def conn_at_def)

lemma net_serves: "serves_raw net_lib db_reflect (Some net_ctx) ''Db.Get'' [1] False db_server ''y'' (Ret (7, None, ''x'')) [0, 0] ''y''"
proof -
  let ?r = "raw_request (Some net_ctx) ''Db.Get'' (raw_form False)"
  have w: "snd (WriteByteRequest net_lib ?r [1] \<lparr>flushed = [], bwerr = None\<rparr>) = None"
    by (simp add: WriteByteRequest_def raw_request_def raw_form_def net_lib_def pos_lib_def pos_enc_def encode_req_def
        writeFrame_bytes bufio_Write_def tooBig_def)
  have "ServiceMethod ?r = ''Db'' @ dot # ''Get''" "dot \<notin> set ''Get''" by (simp_all add: raw_request_def dot_def)
  with db_method have "\<exists>svc meth. ServiceMethod ?r = svc @ dot # meth \<and> dot \<notin> set meth \<and>
      find_method svc meth db_server = Some (entry_of get_sig)" by blast
  with w db_ReplyType have a: "raw_addressed net_lib db_reflect db_server ?r [1] ''y'' (entry_of get_sig) rsp_t
      (flushed (fst (WriteByteRequest net_lib ?r [1] \<lparr>flushed = [], bwerr = None\<rparr>)))"
    unfolding raw_addressed_def
    by (intro conjI) (auto simp: raw_request_def raw_form_def db_reflect_def prod_eq_iff net_lib_def pos_lib_def pos_dec_def)
  have f: "mFunc (entry_of get_sig) (map_option copy_context (Some net_ctx)) ''y'' (zero_of db_reflect rsp_t) (appState db_server) =
    (Ret (7, None, ''x''), ''y'')" by (simp add: entry_of_def get_sig_def db_appState)
  have m: "Marshal net_lib ''x'' = Inr [0, 0]" by (simp add: net_lib_def pos_lib_def pos_enc_def)
  have "\<exists>w'. WriteResponse net_lib (response_to ?r (Ret (7, None, ''x'')))
     (Pb (if snd (reported (Ret (7, None, ''x''))) \<noteq> [] then NullMessage net_lib else reply_of (zero_of db_reflect rsp_t) (Ret (7, None, ''x''))))
     \<lparr>flushed = [], bwerr = None\<rparr> = (w', None)"
    by (simp add: WriteResponse_def response_to_def raw_request_def raw_form_def net_lib_def pos_lib_def pos_enc_def encode_rsp_def encode_def
        writeFrame_bytes bufio_Write_def tooBig_def)
  with a f m show ?thesis unfolding serves_raw_def by (intro exI [of _ "entry_of get_sig"] exI [of _ rsp_t]) auto
qed

lemma gate_net_connected:
  obtains b cl i x where "node_ok gate_net" "callMock ''Db.Get'' gate_net = None" "map_of (Services gate_net) ''Db'' = None"
    "NewId 1000000 0 gate_net = (Ret i, gate_net\<lparr>IDGen := x\<rparr>)" "net_ctx = (ccContext gate_conn)\<lparr>CallId := i, Game := gApp gate_msg\<rparr>"
    "connected gate_net ''db1'' b" "map_of (conns gate_net) b = Some (''out:9'', cl)" "fst ` set (names_of gate_net ''Db'') = {''db1''}"
proof -
  obtain b cl where n: "node_ok demo_net" "connected demo_net ''db1'' b" "map_of (conns demo_net) b = Some (''out:9'', cl)"
    "callMock ''Db.Get'' demo_net = None" "map_of (Services demo_net) ''Db'' = None" "fst ` set (names_of demo_net ''Db'') = {''db1''}"
    by (rule demo_connected)
  obtain i x where i: "NewId 1000000 0 gate_net = (Ret i, gate_net\<lparr>IDGen := x\<rparr>)"
    by (auto simp: NewId_def NewID_def gate_net_def NewIDGen_def Let_def)
  have "gApp gate_msg = ''game''" by (simp add: gate_msg_def)
  with i have ctx: "net_ctx = (ccContext gate_conn)\<lparr>CallId := i, Game := gApp gate_msg\<rparr>" by (simp add: net_ctx_def)
  have "node_ok gate_net = node_ok demo_net"
    by (simp add: gate_net_def node_ok_def heap_ok_def clients_ok_def services_ok_def entry_ok_def)
  then have ok: "node_ok gate_net" using n(1) by simp
  have f: "callMock ''Db.Get'' gate_net = None" "map_of (Services gate_net) ''Db'' = None" "connected gate_net ''db1'' b"
    "map_of (conns gate_net) b = Some (''out:9'', cl)" "fst ` set (names_of gate_net ''Db'') = {''db1''}"
    using n(2-6) by (simp_all add: gate_net_def callMock_def names_of_def connected_def usable_def client_of_def)
  show thesis by (rule that [OF ok f(1,2) i ctx f(3-5)])
qed


end
