(* ===== verification/Ws_Stream.thy ===== *)
theory Ws_Stream
  imports Gnet_Message
begin

text \<open>
  A websocket connection as a byte stream: the type \<^verbatim>\<open>WsConn\<close>, which exists three times with
  the same methods (\<^verbatim>\<open>gnet/wss.go\<close>, \<^verbatim>\<open>gnet/fast_ws.go\<close>, \<^verbatim>\<open>util/websocket.go\<close>),
  and the twelve-byte-header protocol of \<^verbatim>\<open>util/websocket.go\<close>. The websocket library delivers
  whole messages and then an error for ever; this is the state \<open>wsIn\<close>, \<open>wsEnd\<close>.
\<close>

section \<open>The stream\<close>

record ws_conn =
  wsIn :: "bytes list"
  wsEnd :: go_error
  wsBuff :: bytes
  wsOut :: "bytes list"
  wsWriteErr :: "go_error option"

text \<open>\<^verbatim>\<open>bytes.Buffer.Read\<close>: an empty buffer is the end of file, unless nothing was asked for.\<close>

definition buffer_Read :: "nat \<Rightarrow> ws_conn \<Rightarrow> (go_error + bytes) \<times> ws_conn" where
  "buffer_Read n c =
     (if wsBuff c = [] then ((if n = 0 then Inr [] else Inl EOF), c)
      else (Inr (take n (wsBuff c)), c\<lparr>wsBuff := drop n (wsBuff c)\<rparr>))"

definition ws_Read :: "nat \<Rightarrow> ws_conn \<Rightarrow> (go_error + bytes) \<times> ws_conn" where
  "ws_Read n c =
     (if wsBuff c \<noteq> [] then buffer_Read n c
      else case wsIn c of
             [] \<Rightarrow> (Inl (wsEnd c), c)
           | m # ms \<Rightarrow> buffer_Read n (c\<lparr>wsIn := ms, wsBuff := m\<rparr>))"

definition ws_Write :: "bytes \<Rightarrow> ws_conn \<Rightarrow> (nat \<times> go_error option) \<times> ws_conn" where
  "ws_Write b c =
     (case wsWriteErr c of
        Some err \<Rightarrow> ((0, Some err), c)
      | None \<Rightarrow> ((length b, None), c\<lparr>wsOut := wsOut c @ [b]\<rparr>))"

lemma ws_Read_progress: "ws_Read n c = (Inr b, c') \<Longrightarrow> 0 < n \<Longrightarrow> b \<noteq> []"
  by (auto simp: ws_Read_def buffer_Read_def split: list.splits if_splits)

text \<open>\<^verbatim>\<open>io.ReadFull\<close> on it: read until the buffer is full or an error occurs.\<close>

function ws_fill :: "nat \<Rightarrow> bytes \<Rightarrow> ws_conn \<Rightarrow> (go_error + bytes) \<times> ws_conn" where
  "ws_fill want got c =
     (if want \<le> length got then (Inr got, c)
      else case ws_Read (want - length got) c of
             (Inl e, c') \<Rightarrow> (Inl (if got \<noteq> [] \<and> e = EOF then ErrUnexpectedEOF else e), c')
           | (Inr b, c') \<Rightarrow> ws_fill want (got @ b) c')"
  by pat_completeness auto
termination
  by (relation "measure (\<lambda>(want, got, _). want - length got)") (auto dest!: ws_Read_progress [OF sym] simp: neq_Nil_conv)

declare ws_fill.simps [simp del]

definition ws_stream :: "ws_conn \<Rightarrow> bytes" where
  "ws_stream c = wsBuff c @ concat (wsIn c)"

definition ws_ok :: "ws_conn \<Rightarrow> bool" where
  "ws_ok c \<longleftrightarrow> [] \<notin> set (wsIn c)"

lemma ws_Read_stream:
  assumes "ws_ok c" and "0 < n"
  shows "if ws_stream c = [] then ws_Read n c = (Inl (wsEnd c), c)
    else \<exists>b c'. ws_Read n c = (Inr b, c') \<and> ws_ok c' \<and> wsEnd c' = wsEnd c \<and> length b \<le> n \<and> ws_stream c = b @ ws_stream c'"
proof (cases "wsBuff c")
  case Nil
  show ?thesis
  proof (cases "wsIn c")
    case (Cons m ms)
    with assms(1) have "m \<noteq> []" by (auto simp: ws_ok_def)
    with Nil Cons assms show ?thesis
      by (auto simp: ws_Read_def buffer_Read_def ws_stream_def ws_ok_def)
  qed (use Nil in \<open>auto simp: ws_Read_def ws_stream_def\<close>)
next
  case (Cons x xs)
  with assms show ?thesis
    by (auto simp: ws_Read_def buffer_Read_def ws_stream_def ws_ok_def)
qed

lemma ws_fill_stream:
  assumes "ws_ok c" and "length got \<le> want"
  shows "if want \<le> length got + length (ws_stream c)
    then \<exists>c'. ws_fill want got c = (Inr (got @ take (want - length got) (ws_stream c)), c') \<and> ws_ok c' \<and>
      wsEnd c' = wsEnd c \<and> ws_stream c' = drop (want - length got) (ws_stream c)
    else \<exists>c'. ws_fill want got c =
      (Inl (if got @ ws_stream c \<noteq> [] \<and> wsEnd c = EOF then ErrUnexpectedEOF else wsEnd c), c') \<and> ws_ok c' \<and> ws_stream c' = []"
  using assms
proof (induction want got c rule: ws_fill.induct)
  case (1 want got c)
  show ?case
  proof (cases "want \<le> length got")
    case True
    with 1(2,3) show ?thesis by (auto simp: ws_fill.simps [of want got c])
  next
    case False
    note R = ws_Read_stream [OF 1(2), of "want - length got"]
    show ?thesis
    proof (cases "ws_stream c = []")
      case True
      with R False 1(2) show ?thesis by (simp add: ws_fill.simps [of want got c])
    next
      case ne: False
      with R False obtain b c' where b: "ws_Read (want - length got) c = (Inr b, c')" "ws_ok c'" "wsEnd c' = wsEnd c"
        "length b \<le> want - length got" "ws_stream c = b @ ws_stream c'" by auto
      have f: "ws_fill want got c = ws_fill want (got @ b) c'"
        using False b(1) by (simp add: ws_fill.simps [of want got c])
      have len: "length (got @ b) \<le> want" using b(4) False by simp
      from 1(1) [OF False b(1) [symmetric] refl b(2) len] show ?thesis
        using b(3,4,5) False unfolding f by (auto split: if_splits)
    qed
  qed
qed



text \<open>An empty message is taken for the end of the connection, whatever follows it.\<close>

lemma ws_empty_message:
  "wsBuff c = [] \<Longrightarrow> wsIn c = [] # ms \<Longrightarrow> 0 < n \<Longrightarrow> fst (ws_Read n c) = Inl EOF"
  by (simp add: ws_Read_def buffer_Read_def)


section \<open>The protocol of \<^verbatim>\<open>util/websocket.go\<close>\<close>

record 'm request_message =
  wqCrype :: u8
  wqLength :: u16
  wqCmd :: u16
  wqSeq :: u16
  wqRetOrClubId :: u32
  wqBuff :: bytes
  wqPointer :: "'m option"
  wqDisconn :: bool

definition util_AesKey :: bytes where
  "util_AesKey = string_bytes ''12345678901234567890123456789012''"

definition ws_header :: "bytes \<Rightarrow> 'm request_message" where
  "ws_header header =
     \<lparr>wqCrype = header ! 0, wqLength = Uint16 (drop 1 header), wqCmd = Uint16 (drop 3 header), wqSeq = Uint16 (drop 5 header),
      wqRetOrClubId = Uint32 (drop 7 header), wqBuff = [], wqPointer = None, wqDisconn = False\<rparr>"

definition util_ReadMessage :: "block_lib \<Rightarrow> bytes \<Rightarrow> (go_error + 'm request_message) outcome \<times> bytes" where
  "util_ReadMessage aes r =
     (case ReadFull 12 r of
        (Inl err, r1) \<Rightarrow> (Ret (Inl err), r1)
      | (Inr header, r1) \<Rightarrow>
          let req = ws_header header in
          if wqLength req = 0 then (Ret (Inr req), r1)
          else
            (case ReadFull (unat (wqLength req)) r1 of
               (Inl err, r2) \<Rightarrow> (Ret (Inl err), r2)
             | (Inr buff, r2) \<Rightarrow>
                 if wqCrype req = 1 then
                   (out_bind (AesDecrypt aes buff util_AesKey)
                      (\<lambda>x. Ret (case x of Inl err \<Rightarrow> Inl err | Inr b \<Rightarrow> Inr (req\<lparr>wqBuff := b\<rparr>))), r2)
                 else (Ret (Inr (req\<lparr>wqBuff := buff\<rparr>)), r2)))"

text \<open>The body is marshalled from the message when there is none yet, and kept in the request.\<close>

definition fill_body :: "('m \<Rightarrow> go_error + bytes) \<Rightarrow> 'm request_message \<Rightarrow> go_error option \<times> 'm request_message" where
  "fill_body marshal req =
     (if wqBuff req = [] then
        (case wqPointer req of
           None \<Rightarrow> (None, req)
         | Some m \<Rightarrow> (case marshal m of Inl err \<Rightarrow> (Some err, req\<lparr>wqBuff := []\<rparr>) | Inr b \<Rightarrow> (None, req\<lparr>wqBuff := b\<rparr>)))
      else (None, req))"

definition ws_frame :: "'m request_message \<Rightarrow> bytes \<Rightarrow> bytes" where
  "ws_frame req buff =
     [wqCrype req] @ be16 (word_of_nat (length buff)) @ be16 (wqCmd req) @ be16 (wqSeq req) @ be32 (wqRetOrClubId req) @ [0] @ buff"

definition util_WriteMessage ::
  "block_lib \<Rightarrow> ('m \<Rightarrow> go_error + bytes) \<Rightarrow> (bytes \<Rightarrow> 'c \<Rightarrow> go_error option \<times> 'c) \<Rightarrow> 'm request_message \<Rightarrow> 'c \<Rightarrow>
   go_error option outcome \<times> 'm request_message \<times> 'c" where
  "util_WriteMessage aes marshal conn_Write req conn =
     (case fill_body marshal req of
        (Some err, req1) \<Rightarrow> (Ret (Some err), req1, conn)
      | (None, req1) \<Rightarrow>
          (case (if wqCrype req1 = 1 then AesEncrypt aes (wqBuff req1) util_AesKey else Ret (Inr (wqBuff req1))) of
             Panic e \<Rightarrow> (Panic e, req1, conn)
           | Ret (Inl err) \<Rightarrow> (Ret (Some err), req1, conn)
           | Ret (Inr buff) \<Rightarrow> (case conn_Write (ws_frame req1 buff) conn of (err, conn') \<Rightarrow> (Ret err, req1, conn'))))"

text \<open>What is written is read, again as an instance of the contract of a wire format.\<close>

definition ws_encoded :: "block_lib \<Rightarrow> 'm request_message \<Rightarrow> bytes" where
  "ws_encoded aes m =
     (case (if wqCrype m = 1 then AesEncrypt aes (wqBuff m) util_AesKey else Ret (Inr (wqBuff m))) of Ret (Inr b) \<Rightarrow> b | _ \<Rightarrow> [])"

definition ws_message_ok :: "block_lib \<Rightarrow> 'm request_message \<Rightarrow> bool" where
  "ws_message_ok aes m \<longleftrightarrow>
     cipher_ok aes util_AesKey \<and> length (ws_encoded aes m) < 2 ^ 16 \<and> wqLength m = word_of_nat (length (ws_encoded aes m)) \<and>
     wqPointer m = None \<and> \<not> wqDisconn m"

definition ws_read_message :: "block_lib \<Rightarrow> (u8, 'm request_message) reader" where
  "ws_read_message aes r = (case util_ReadMessage aes r of (Ret x, r') \<Rightarrow> (x, r') | (Panic e, r') \<Rightarrow> (Inl (GoErr e), r'))"

lemma length_util_AesKey [simp]: "length util_AesKey = 32"
  by (simp add: util_AesKey_def)

lemma ws_body_roundtrip:
  assumes "cipher_ok aes util_AesKey"
  shows "(if wqCrype m = 1 then AesEncrypt aes (wqBuff m) util_AesKey else Ret (Inr (wqBuff m))) = Ret (Inr (ws_encoded aes m))"
    and "wqCrype m = 1 \<Longrightarrow> AesDecrypt aes (ws_encoded aes m) util_AesKey = Ret (Inr (wqBuff m))"
    and "ws_encoded aes m = [] \<Longrightarrow> wqBuff m = []"
proof -
  obtain c where c: "AesEncrypt aes (wqBuff m) util_AesKey = Ret (Inr c)" "length (wqBuff m) < length c"
    "AesDecrypt aes c util_AesKey = Ret (Inr (wqBuff m))"
    using assms cbc_mode_roundtrip [of aes 16 util_AesKey aes_iv "wqBuff m"]
    by (auto simp: cipher_ok_def AesEncrypt_def AesDecrypt_def aes_iv_def)
  then show "(if wqCrype m = 1 then AesEncrypt aes (wqBuff m) util_AesKey else Ret (Inr (wqBuff m))) = Ret (Inr (ws_encoded aes m))"
    "wqCrype m = 1 \<Longrightarrow> AesDecrypt aes (ws_encoded aes m) util_AesKey = Ret (Inr (wqBuff m))"
    "ws_encoded aes m = [] \<Longrightarrow> wqBuff m = []"
    by (auto simp: ws_encoded_def split: if_splits)
qed

lemma ws_frame_read:
  fixes m :: "'m request_message"
  assumes "length b < 2 ^ 16"
  defines "h \<equiv> \<lparr>wqCrype = wqCrype m, wqLength = word_of_nat (length b), wqCmd = wqCmd m, wqSeq = wqSeq m, wqRetOrClubId = wqRetOrClubId m,
      wqBuff = [], wqPointer = None, wqDisconn = False\<rparr> :: 'm request_message"
  shows "util_ReadMessage aes (ws_frame m b @ r) =
    (if b = [] then (Ret (Inr h), r)
     else if wqCrype m = 1 then
       (out_bind (AesDecrypt aes b util_AesKey) (\<lambda>x. Ret (case x of Inl err \<Rightarrow> Inl err | Inr d \<Rightarrow> Inr (h\<lparr>wqBuff := d\<rparr>))), r)
     else (Ret (Inr (h\<lparr>wqBuff := b\<rparr>)), r))"
proof -
  let ?h = "[wqCrype m] @ be16 (word_of_nat (length b)) @ be16 (wqCmd m) @ be16 (wqSeq m) @ be32 (wqRetOrClubId m) @ [0]"
  have l: "unat (word_of_nat (length b) :: u16) = length b" using assms(1) by (simp add: unat_of_nat)
  then have z: "(word_of_nat (length b) :: u16) = 0 \<longleftrightarrow> b = []" by (metis length_0_conv of_nat_0 unat_eq_zero)
  have d: "drop 1 ?h = be16 (word_of_nat (length b)) @ be16 (wqCmd m) @ be16 (wqSeq m) @ be32 (wqRetOrClubId m) @ [0]"
    "drop 3 ?h = be16 (wqCmd m) @ be16 (wqSeq m) @ be32 (wqRetOrClubId m) @ [0]"
    "drop 5 ?h = be16 (wqSeq m) @ be32 (wqRetOrClubId m) @ [0]" "drop 7 ?h = be32 (wqRetOrClubId m) @ [0]"
    by (simp_all add: be16_def)
  have "ws_frame m b = ?h @ b" "length ?h = 12" by (simp_all add: ws_frame_def)
  then have "ReadFull 12 (ws_frame m b @ r) = (Inr ?h, b @ r)" using ReadFull_exact [of ?h 12 "b @ r"] by simp
  moreover have "ws_header ?h = h" unfolding ws_header_def d by (simp add: h_def)
  moreover have "wqLength h = word_of_nat (length b)" "wqCrype h = wqCrype m" by (simp_all add: h_def)
  ultimately show ?thesis using l z by (simp add: util_ReadMessage_def Let_def)
qed

lemma ws_read_written:
  assumes "ws_message_ok aes m"
  shows "ws_read_message aes (ws_frame m (ws_encoded aes m) @ r) = (Inr m, r)"
proof -
  let ?b = "ws_encoded aes m"
  let ?h = "\<lparr>wqCrype = wqCrype m, wqLength = word_of_nat (length ?b), wqCmd = wqCmd m, wqSeq = wqSeq m, wqRetOrClubId = wqRetOrClubId m,
      wqBuff = [], wqPointer = None, wqDisconn = False\<rparr>"
  have ok: "cipher_ok aes util_AesKey" "length ?b < 2 ^ 16" "?h\<lparr>wqBuff := wqBuff m\<rparr> = m"
    using assms by (auto simp: ws_message_ok_def)
  note R = ws_body_roundtrip [OF ok(1), of m]
  from ok(3) have h: "?b = [] \<Longrightarrow> ?h = m" using R(3) by (metis (no_types, lifting) request_message.update_convs(6))
  have e: "wqCrype m \<noteq> 1 \<Longrightarrow> ?b = wqBuff m" using R(1) by simp
  show ?thesis
    using ws_frame_read [OF ok(2), where m = m and aes = aes and r = r] R(2) h ok(3) e
    by (cases "?b = []"; cases "wqCrype m = 1") (simp_all add: ws_read_message_def)
qed

interpretation ws_wire: wire_codec "\<lambda>m. ws_frame m (ws_encoded aes m)" "ws_read_message aes" "ws_message_ok aes" for aes
  by unfold_locales (rule ws_read_written)

lemma ws_write_message:
  "cipher_ok aes util_AesKey \<Longrightarrow> wqPointer m = None \<Longrightarrow>
     util_WriteMessage aes marshal conn_Write m conn =
       (case conn_Write (ws_frame m (ws_encoded aes m)) conn of (err, conn') \<Rightarrow> (Ret err, m, conn'))"
  unfolding util_WriteMessage_def fill_body_def by (simp add: ws_body_roundtrip(1))

end
