(* ===== verification/Http_Gateway.thy ===== *)
theory Http_Gateway
  imports Rpc_Discovery
begin

text \<open>
  The HTTP gateways: \<^verbatim>\<open>rpc/http.go\<close> (service calls for operators), \<^verbatim>\<open>gnet/http.go\<close> and
  \<^verbatim>\<open>gnet/fast_http.go\<close> (the API of the applications on two HTTP libraries). A request is a record of
  what the handlers read of it; a response is what they hand to the library. For \<^verbatim>\<open>net/http\<close> the
  header is sent by the first \<^verbatim>\<open>WriteHeader\<close> or \<^verbatim>\<open>Write\<close>, so later changes of it are
  lost; \<^verbatim>\<open>fasthttp\<close> sends it after the handler has returned. The encoding of an error reply by
  \<^verbatim>\<open>encoding/json\<close> is the parameter \<open>J\<close>.
\<close>

record http_request =
  hMethod :: string
  hPath :: string
  hForwarded :: string
  hRemoteAddr :: string
  hBody :: "go_error + bytes"
  hQuery :: "(string, string list) gmap"

record http_response =
  hHeader :: "(string, string) gmap"
  hSent :: "(nat \<times> (string, string) gmap) option"
  hData :: bytes

definition new_response :: http_response where
  "new_response = \<lparr>hHeader = [], hSent = None, hData = []\<rparr>"

text \<open>The code and the message of an error reply, to the bytes of its JSON object.\<close>

type_synonym json_reply = "int \<Rightarrow> string \<Rightarrow> bytes"

definition forwarded_ip :: "string \<Rightarrow> string \<Rightarrow> string" where
  "forwarded_ip forwarded addr =
     (let ip = (if forwarded \<noteq> [] \<and> forwarded \<noteq> ''unknown'' then Split CHR '','' forwarded ! 0 else forwarded)
      in if ip = [] then Split CHR '':'' addr ! 0 else ip)"

definition getRemote :: "http_request \<Rightarrow> string" where
  "getRemote r = forwarded_ip (hForwarded r) (hRemoteAddr r)"

definition getRemote2 :: "http_request \<Rightarrow> string" where
  "getRemote2 ctx = forwarded_ip (hForwarded ctx) (hRemoteAddr ctx)"

definition http_context :: "string \<Rightarrow> (string \<rightharpoonup> string) \<Rightarrow> rpc_context" where
  "http_context remote kvs =
     \<lparr>GateName = [], Remote = remote, ctxId = 0, Token = [], Uid = 0, Nodes = [], CallId = 0, Game = [], Kvs = kvs, Ps = Map.empty\<rparr>"

definition method_name :: "string \<Rightarrow> string \<Rightarrow> string" where
  "method_name svc meth = Upper svc 1 @ ''.'' @ Upper meth 1"

definition default_body :: "bytes \<Rightarrow> bytes" where
  "default_body b = (if b = [] then string_bytes ''{}'' else b)"

text \<open>The texts of the error replies, in UTF-8.\<close>

definition only_post :: string where
  "only_post = bytes_string [0xE5, 0x8F, 0xAA, 0xE6, 0x94, 0xAF, 0xE6, 0x8C, 0x81, 0x50, 0x4F, 0x53, 0x54, 0xE6, 0x96, 0xB9, 0xE6, 0xB3, 0x95]"

definition bad_url :: string where
  "bad_url = bytes_string [0xE8, 0xAF, 0xB7, 0xE6, 0xB1, 0x82, 0xE5, 0x9C, 0xB0, 0xE5, 0x9D, 0x80, 0xE6, 0xA0, 0xBC, 0xE5, 0xBC, 0x8F, 0xE9, 0x94, 0x99, 0xE8, 0xAF, 0xAF]"

definition read_failed :: string where
  "read_failed = bytes_string [0xE8, 0xAF, 0xBB, 0xE5, 0x8F, 0x96, 0xE6, 0x95, 0xB0, 0xE6, 0x8D, 0xAE, 0xE5, 0xA4, 0xB1, 0xE8, 0xB4, 0xA5]"

text \<open>The protected call: the variables it assigns and the state of the node.\<close>

type_synonym ('m, 'st, 'd, 'w) call_state = "(bytes \<times> go_error option) \<times> ('m, 'st, 'd, 'w) nstate"

definition assign_result :: "raw_result outcome \<times> ('m, 'st, 'd, 'w) nstate \<Rightarrow> ('m, 'st, 'd, 'w) call_state \<Rightarrow> unit outcome \<times> ('m, 'st, 'd, 'w) call_state" where
  "assign_result r s =
     (case r of
        (Panic e, nw) \<Rightarrow> (Panic e, (fst s, nw))
      | (Ret (_, rspBuff, err), nw) \<Rightarrow> (Ret (), ((rspBuff, err), nw)))"

definition internal_error :: "('m, 'st, 'd, 'w) call_state \<Rightarrow> ('m, 'st, 'd, 'w) call_state" where
  "internal_error s = ((fst (fst s), Some (GoErr ''server internal error'')), snd s)"

definition protected_call :: "(('m, 'st, 'd, 'w) nstate \<Rightarrow> raw_result outcome \<times> ('m, 'st, 'd, 'w) nstate) \<Rightarrow> ('m, 'st, 'd, 'w) nstate \<Rightarrow> ('m, 'st, 'd, 'w) call_state" where
  "protected_call f nw = ProtectCall (\<lambda>s. assign_result (f (snd s)) s) (Some internal_error) (([], None), nw)"


section \<open>The gateway on net/http\<close>

definition WriteHeader :: "nat \<Rightarrow> http_response \<Rightarrow> http_response" where
  "WriteHeader status w = (case hSent w of None \<Rightarrow> w\<lparr>hSent := Some (status, hHeader w)\<rparr> | Some _ \<Rightarrow> w)"

definition Header_Set :: "string \<Rightarrow> string \<Rightarrow> http_response \<Rightarrow> http_response" where
  "Header_Set k v w = w\<lparr>hHeader := gmap_set k v (hHeader w)\<rparr>"

definition http_Write :: "bytes \<Rightarrow> http_response \<Rightarrow> http_response" where
  "http_Write b w = (WriteHeader 200 w)\<lparr>hData := hData w @ b\<rparr>"

definition cors :: "http_response \<Rightarrow> http_response" where
  "cors w =
     Header_Set ''Access-Control-Allow-Headers'' ''Content-Type, Content-Length, Authorization, Accept, X-Requested-With''
       (Header_Set ''Access-Control-Allow-Methods'' ''POST, GET, OPTIONS, PUT, DELETE''
         (Header_Set ''Access-Control-Allow-Origin'' ''*'' w))"

definition send_json :: "bytes \<Rightarrow> http_response \<Rightarrow> http_response" where
  "send_json b w = http_Write b (Header_Set ''Content-Type'' ''application/json'' (WriteHeader 200 w))"

definition JsonResponse :: "json_reply \<Rightarrow> string \<Rightarrow> http_response \<Rightarrow> http_response" where
  "JsonResponse J codeMsg w = send_json (J 1 codeMsg) w"

definition ProtectedHandler ::
  "(go_type, 'm) pb_lib \<Rightarrow> 'm reflect_lib \<Rightarrow> ('m, 'w) peers \<Rightarrow> ('m, 'st) node_orders \<Rightarrow> json_reply \<Rightarrow> http_request \<Rightarrow>
   http_response \<Rightarrow> ('m, 'st, 'd, 'w) nstate \<Rightarrow> http_response outcome \<times> ('m, 'st, 'd, 'w) nstate" where
  "ProtectedHandler P L D Q J r w nw =
     (let w1 = cors w in
      if hMethod r \<noteq> ''POST'' then (Ret (JsonResponse J only_post w1), nw)
      else
        let remote = getRemote r; arr = Split CHR ''/'' (hPath r) in
        if length arr \<noteq> 4 \<or> arr ! 1 \<noteq> ''api'' then (Ret (JsonResponse J bad_url w1), nw)
        else case hBody r of
          Inl err \<Rightarrow> (Ret (JsonResponse J read_failed w1), nw)
        | Inr body \<Rightarrow>
            if \<exists>kv\<in>set (hQuery r). snd kv = [] then (Panic ''index out of range'', nw)
            else
              let context = http_context remote (map_of (map (\<lambda>(k, v). (k, hd v)) (hQuery r)));
                  ((rspBuff, err), nw1) =
                    protected_call (node_JsonCall P L D Q (Some context) (method_name (arr ! 2) (arr ! 3)) (default_body body)) nw
              in (Ret (case err of Some e \<Rightarrow> JsonResponse J (err_msg e) w1 | None \<Rightarrow> send_json rspBuff w1), nw1))"


section \<open>The gateways on fasthttp\<close>

text \<open>The header is sent when the handler has returned.\<close>

definition fast_json :: "bytes \<Rightarrow> http_response \<Rightarrow> http_response" where
  "fast_json b w = (Header_Set ''Content-Type'' ''application/json'' w)\<lparr>hData := hData w @ b\<rparr>"

definition fast_send :: "http_response \<Rightarrow> http_response" where
  "fast_send w = WriteHeader 200 w"

definition JsonResponse2 :: "json_reply \<Rightarrow> string \<Rightarrow> http_response \<Rightarrow> http_response" where
  "JsonResponse2 J codeMsg w = fast_json (J 1 codeMsg) w"

definition post_body :: "http_request \<Rightarrow> bytes" where
  "post_body r = (case hBody r of Inl _ \<Rightarrow> [] | Inr b \<Rightarrow> b)"

definition ProtectedHandler2 ::
  "(go_type, 'm) pb_lib \<Rightarrow> 'm reflect_lib \<Rightarrow> ('m, 'w) peers \<Rightarrow> ('m, 'st) node_orders \<Rightarrow> json_reply \<Rightarrow> http_request \<Rightarrow>
   http_response \<Rightarrow> ('m, 'st, 'd, 'w) nstate \<Rightarrow> http_response \<times> ('m, 'st, 'd, 'w) nstate" where
  "ProtectedHandler2 P L D Q J r w nw =
     (let w1 = cors w; remote = getRemote2 r; arr = Split CHR ''/'' (hPath r) in
      if length arr \<noteq> 4 \<or> arr ! 1 \<noteq> ''api'' then (JsonResponse2 J bad_url w1, nw)
      else
        let ((rspBuff, err), nw1) =
              protected_call (node_JsonCall P L D Q (Some (http_context remote Map.empty)) (method_name (arr ! 2) (arr ! 3))
                (default_body (post_body r))) nw
        in ((case err of Some e \<Rightarrow> JsonResponse2 J (err_msg e) w1 | None \<Rightarrow> fast_json rspBuff w1), nw1))"

text \<open>The gateway of the node itself; a path with five parts names the node to call.\<close>

definition rpcHandler ::
  "(go_type, 'm) pb_lib \<Rightarrow> 'm reflect_lib \<Rightarrow> ('m, 'w) peers \<Rightarrow> ('m, 'st) node_orders \<Rightarrow> json_reply \<Rightarrow> http_request \<Rightarrow>
   http_response \<Rightarrow> ('m, 'st, 'd, 'w) nstate \<Rightarrow> http_response \<times> ('m, 'st, 'd, 'w) nstate" where
  "rpcHandler P L D Q J r w nw =
     (let remote = getRemote2 r; arr = Split CHR ''/'' (hPath r) in
      if (length arr \<noteq> 4 \<and> length arr \<noteq> 5) \<or> arr ! 1 \<noteq> ''rpcapi'' then (JsonResponse2 J bad_url w, nw)
      else
        let (nodeName, serviceName, methonName) =
              (if length arr = 4 then ([], arr ! 2, arr ! 3) else (arr ! 2, arr ! 3, arr ! 4));
            sm = method_name serviceName methonName; reqBuff = default_body (post_body r);
            context = http_context remote Map.empty;
            ((rspBuff, err), nw1) =
              protected_call (if nodeName \<noteq> [] then NodeJsonCallWithConn P L D (Some context) nodeName sm reqBuff
                              else node_JsonCall P L D Q (Some context) sm reqBuff) nw
        in ((case err of Some e \<Rightarrow> JsonResponse2 J (err_msg e) w | None \<Rightarrow> fast_json rspBuff w), nw1))"

text \<open>The routes: which requests reach the handlers.\<close>

datatype http_route = ToHandler | Accepted | Refused

definition api_route :: "bool \<Rightarrow> string \<Rightarrow> http_route" where
  "api_route dev meth =
     (if meth = ''OPTIONS'' then Accepted
      else if meth = ''POST'' \<or> (dev \<and> meth = ''GET'') then ToHandler else Refused)"

definition rpc_route :: "string \<Rightarrow> string \<Rightarrow> http_route" where
  "rpc_route meth path =
     (if meth = ''OPTIONS'' then Accepted
      else if meth = ''POST'' \<and> take 8 path = ''/rpcapi/'' then ToHandler else Refused)"

section \<open>The three gateways\<close>

text \<open>What a caller is told about the outcome of a call.\<close>

definition http_answer :: "json_reply \<Rightarrow> raw_result outcome \<Rightarrow> bytes" where
  "http_answer J res =
     (case res of
        Panic _ \<Rightarrow> J 1 ''server internal error''
      | Ret (_, b, None) \<Rightarrow> b
      | Ret (_, _, Some e) \<Rightarrow> J 1 (err_msg e))"

lemma protected_call_answer:
  assumes "f nw = (res, nw1)" and "protected_call f nw = ((b, err), nw2)"
  shows "nw2 = nw1" and "(case err of Some e \<Rightarrow> J 1 (err_msg e) | None \<Rightarrow> b) = http_answer J res"
  using assms
  by (auto simp: protected_call_def ProtectCall_def assign_result_def internal_error_def http_answer_def split: outcome.splits prod.splits option.splits)

lemma response_fields [simp]:
  "hHeader (WriteHeader n w) = hHeader w" "hData (WriteHeader n w) = hData w" "hData (Header_Set k v w) = hData w"
  "hHeader (Header_Set k v w) = gmap_set k v (hHeader w)" "hSent (Header_Set k v w) = hSent w"
  "hData (cors w) = hData w" "hSent (cors w) = hSent w"
  by (simp_all add: WriteHeader_def Header_Set_def cors_def split: option.splits)

lemma WriteHeader_sent:
  "hSent (WriteHeader n w) = (case hSent w of None \<Rightarrow> Some (n, hHeader w) | Some x \<Rightarrow> Some x)"
  by (simp add: WriteHeader_def split: option.splits)

lemma send_json_fields:
  "hSent w = None \<Longrightarrow> hData (send_json b w) = hData w @ b \<and> hSent (send_json b w) = Some (200, hHeader w)"
  by (simp add: send_json_def http_Write_def WriteHeader_sent)

lemma fast_json_fields: "hData (fast_json b w) = hData w @ b" "map_of (hHeader (fast_json b w)) ''Content-Type'' = Some ''application/json''"
  by (simp_all add: fast_json_def Header_Set_def)

lemma cors_content_type: "map_of (hHeader (cors new_response)) ''Content-Type'' = None"
  by (simp add: cors_def new_response_def)

lemma Split_api: "Split CHR ''/'' (''/api/'' @ rest) = [] # ''api'' # Split CHR ''/'' rest"
  and Split_rpcapi: "Split CHR ''/'' (''/rpcapi/'' @ rest) = [] # ''rpcapi'' # Split CHR ''/'' rest"
  by (cases "Split CHR ''/'' rest"; simp)+

text \<open>
  C32. The three HTTP gateways are the same service. A POST without query parameters to
  \<^verbatim>\<open>/api/S/M\<close> on either API server, or to \<^verbatim>\<open>/rpcapi/S/M\<close> on the node, calls the method with
  the capitalised names once, with the address of the client as context and \<^verbatim>\<open>{}\<close> for an empty
  body, and is answered with status 200 and the body the method returned, or with the error text; a
  panic of the method becomes an error text too. They differ in the content type: the handler on
  \<^verbatim>\<open>net/http\<close> sets it after the header has been sent, so it is lost.
\<close>

theorem http_gateways_agree:
  assumes "hMethod r = ''POST''" and "hPath r = ''/api/'' @ rest" and "Split CHR ''/'' rest = [svc, meth]"
    and "hBody r = Inr body" and "hQuery r = []"
    and "node_JsonCall P L D Q (Some (http_context (getRemote r) Map.empty)) (method_name svc meth) (default_body body) nw = (res, nw1)"
  shows "\<exists>w w2 w3.
    ProtectedHandler P L D Q J r new_response nw = (Ret w, nw1) \<and> hData w = http_answer J res \<and>
    ProtectedHandler2 P L D Q J r new_response nw = (w2, nw1) \<and> hData w2 = http_answer J res \<and>
    rpcHandler P L D Q J (r\<lparr>hPath := ''/rpcapi/'' @ rest\<rparr>) new_response nw = (w3, nw1) \<and> hData w3 = http_answer J res \<and>
    (\<exists>h. hSent w = Some (200, h) \<and> map_of h ''Content-Type'' = None) \<and>
    (\<forall>w'\<in>{w2, w3}. \<exists>h. hSent (fast_send w') = Some (200, h) \<and> map_of h ''Content-Type'' = Some ''application/json'')"
proof -
  let ?f = "node_JsonCall P L D Q (Some (http_context (getRemote r) Map.empty)) (method_name svc meth) (default_body body)"
  obtain b err nw2 where p: "protected_call ?f nw = ((b, err), nw2)" by (metis prod.exhaust)
  note A = protected_call_answer(1) [OF assms(6) p] protected_call_answer(2) [OF assms(6) p, of J]
  let ?w = "case err of Some e \<Rightarrow> JsonResponse J (err_msg e) (cors new_response) | None \<Rightarrow> send_json b (cors new_response)"
  let ?w2 = "case err of Some e \<Rightarrow> JsonResponse2 J (err_msg e) (cors new_response) | None \<Rightarrow> fast_json b (cors new_response)"
  let ?w3 = "case err of Some e \<Rightarrow> JsonResponse2 J (err_msg e) new_response | None \<Rightarrow> fast_json b new_response"
  have remote: "getRemote2 r = getRemote r" "getRemote2 (r\<lparr>hPath := x\<rparr>) = getRemote r" for x
    by (simp_all add: getRemote_def getRemote2_def)
  have body: "post_body r = body" "post_body (r\<lparr>hPath := x\<rparr>) = body" for x using assms(4) by (simp_all add: post_body_def)
  have "ProtectedHandler P L D Q J r new_response nw = (Ret ?w, nw1)"
    using assms(1-5) p A(1) by (simp add: ProtectedHandler_def Split_api Let_def)
  moreover have "ProtectedHandler2 P L D Q J r new_response nw = (?w2, nw1)"
    using assms(2,3) p A(1) by (simp add: ProtectedHandler2_def Split_api remote body Let_def)
  moreover have "rpcHandler P L D Q J (r\<lparr>hPath := ''/rpcapi/'' @ rest\<rparr>) new_response nw = (?w3, nw1)"
    using assms(3) p A(1) by (simp add: rpcHandler_def Split_rpcapi remote body)
  moreover have n: "hData new_response = []" "hSent new_response = None" by (simp_all add: new_response_def)
  have "hData ?w = http_answer J res" "\<exists>h. hSent ?w = Some (200, h) \<and> map_of h ''Content-Type'' = None"
    using A(2) n cors_content_type
    by (auto simp: JsonResponse_def send_json_fields split: option.splits)
  moreover have "hData ?w2 = http_answer J res" "hData ?w3 = http_answer J res"
    using A(2) n by (auto simp: JsonResponse2_def fast_json_fields split: option.splits)
  moreover have "hSent ?w2 = None" "hSent ?w3 = None"
    using n by (auto simp: JsonResponse2_def fast_json_def split: option.splits)
  moreover have "map_of (hHeader ?w2) ''Content-Type'' = Some ''application/json''" "map_of (hHeader ?w3) ''Content-Type'' = Some ''application/json''"
    by (auto simp: JsonResponse2_def fast_json_fields split: option.splits)
  ultimately show ?thesis
    by (intro exI [of _ ?w] exI [of _ ?w2] exI [of _ ?w3] conjI) (simp_all add: fast_send_def WriteHeader_sent)
qed

text \<open>A path that has no service and method is refused without a call.\<close>

lemma rpcHandler_bad_url:
  "length (Split CHR ''/'' (hPath r)) \<notin> {4, 5} \<Longrightarrow> rpcHandler P L D Q J r w nw = (JsonResponse2 J bad_url w, nw)"
  by (simp add: rpcHandler_def)

definition http_node :: "(string, string, string) node" where
  "http_node = demo_self\<lparr>MockData := Some [(''Db.Get'', \<lparr>mkRsp = MockBytes [7, 8], mkRet = 0, mkError = None\<rparr>)]\<rparr>"

definition http_req :: http_request where
  "http_req = \<lparr>hMethod = ''POST'', hPath = ''/api/'' @ ''db/get'', hForwarded = [], hRemoteAddr = ''10.0.0.1:80'', hBody = Inr [], hQuery = []\<rparr>"

theorem http_gateways_agree_witness:
  "\<exists>w w3. ProtectedHandler db_lib db_reflect demo_peers demo_orders (\<lambda>c m. string_bytes m) http_req new_response (http_node, []) = (Ret w, http_node, []) \<and>
     hData w = [7, 8] \<and>
     rpcHandler db_lib db_reflect demo_peers demo_orders (\<lambda>c m. string_bytes m) (http_req\<lparr>hPath := ''/rpcapi/'' @ ''db/get''\<rparr>) new_response (http_node, []) =
       (w3, http_node, []) \<and> hData w3 = [7, 8]"
proof -
  have s: "Split CHR ''/'' ''db/get'' = [''db'', ''get'']" by simp
  have m: "method_name ''db'' ''get'' = ''Db.Get''" by code_simp
  have c: "node_JsonCall db_lib db_reflect demo_peers demo_orders (Some (http_context (getRemote http_req) Map.empty)) (method_name ''db'' ''get'')
      (default_body []) (http_node, []) = (Ret (0, [7, 8], None), http_node, [])"
    by (simp add: m node_JsonCall_def raw_call_def svc_route_def http_node_def callMock_def mock_raw_def)
  have r: "hMethod http_req = ''POST''" "hPath http_req = ''/api/'' @ ''db/get''" "hBody http_req = Inr []" "hQuery http_req = []"
    by (simp_all add: http_req_def)
  from http_gateways_agree [OF r(1,2) s r(3,4) c, of "\<lambda>c m. string_bytes m"] show ?thesis
    by (auto simp: http_answer_def)
qed

end
