(* ===== verification/Gate_Listeners.thy ===== *)
theory Gate_Listeners
  imports Gate_Sessions Ws_Stream Http_Gateway
begin

text \<open>
  How connections come to the gate: the accept loops of \<^verbatim>\<open>gnet/tcp.go\<close>, \<^verbatim>\<open>gnet/kcp.go\<close> and of the rpc server, and the
  websocket servers of \<^verbatim>\<open>gnet/wss.go\<close> and \<^verbatim>\<open>gnet/fast_ws.go\<close> with their connection type. A listener is the list of
  what its \<^verbatim>\<open>Accept\<close> returns; a task that is submitted to the pool is kept in order.
\<close>

section \<open>Websocket connections\<close>

text \<open>The methods of the two types of the gate; the library delivers whole messages, as in \<^verbatim>\<open>util/websocket.go\<close>.\<close>

definition WsConn_Write :: "bytes \<Rightarrow> ws_conn \<Rightarrow> (nat \<times> go_error option) \<times> ws_conn" where
  "WsConn_Write b c =
     (case wsWriteErr c of
        Some err \<Rightarrow> ((0, Some err), c)
      | None \<Rightarrow> ((length b, None), c\<lparr>wsOut := wsOut c @ [b]\<rparr>))"

definition WsConn_Read :: "nat \<Rightarrow> ws_conn \<Rightarrow> (go_error + bytes) \<times> ws_conn" where
  "WsConn_Read n c =
     (if wsBuff c \<noteq> [] then buffer_Read n c
      else case wsIn c of
             [] \<Rightarrow> (Inl (wsEnd c), c)
           | m # ms \<Rightarrow> buffer_Read n (c\<lparr>wsIn := ms, wsBuff := m\<rparr>))"

definition WsConn2_Write :: "bytes \<Rightarrow> ws_conn \<Rightarrow> (nat \<times> go_error option) \<times> ws_conn" where
  "WsConn2_Write b c =
     (case wsWriteErr c of
        Some err \<Rightarrow> ((0, Some err), c)
      | None \<Rightarrow> ((length b, None), c\<lparr>wsOut := wsOut c @ [b]\<rparr>))"

definition WsConn2_Read :: "nat \<Rightarrow> ws_conn \<Rightarrow> (go_error + bytes) \<times> ws_conn" where
  "WsConn2_Read n c =
     (if wsBuff c \<noteq> [] then buffer_Read n c
      else case wsIn c of
             [] \<Rightarrow> (Inl (wsEnd c), c)
           | m # ms \<Rightarrow> buffer_Read n (c\<lparr>wsIn := ms, wsBuff := m\<rparr>))"

text \<open>The three copies are the same stream, so \<open>ws_refines_stream\<close> holds of each.\<close>

lemma WsConn_same: "WsConn_Read = ws_Read" "WsConn2_Read = ws_Read" "WsConn_Write = ws_Write" "WsConn2_Write = ws_Write"
  by (auto simp: fun_eq_iff WsConn_Read_def WsConn2_Read_def ws_Read_def WsConn_Write_def WsConn2_Write_def ws_Write_def)


section \<open>Accepting\<close>

datatype transport = Socket bytes | Session bytes | Ws ws_conn | Ws2 ws_conn

text \<open>A submitted \<^verbatim>\<open>handleConn\<close>: the connection, the address of the client and the name of the protocol.\<close>

type_synonym accepted = "transport \<times> string \<times> string"

datatype serve_end = Failed go_error | Exited | Returned | Waiting

fun RunTCPServer_loop :: "(go_error + bytes \<times> string) list \<Rightarrow> accepted list \<Rightarrow> serve_end \<times> accepted list" where
  "RunTCPServer_loop [] pool = (Waiting, pool)"
| "RunTCPServer_loop (Inl err # _) pool = (Exited, pool)"
| "RunTCPServer_loop (Inr (conn, remote) # as) pool = RunTCPServer_loop as (pool @ [(Socket conn, remote, ''tcp'')])"

definition RunTCPServer :: "(int \<Rightarrow> go_error option) \<Rightarrow> int \<Rightarrow> (go_error + bytes \<times> string) list \<Rightarrow> accepted list \<Rightarrow> serve_end \<times> accepted list" where
  "RunTCPServer listen port as pool = (case listen port of Some err \<Rightarrow> (Failed err, pool) | None \<Rightarrow> RunTCPServer_loop as pool)"

text \<open>The options of a KCP session do not change what it carries.\<close>

fun RunKCPServer_loop :: "(go_error + bytes \<times> string) list \<Rightarrow> accepted list \<Rightarrow> serve_end \<times> accepted list" where
  "RunKCPServer_loop [] pool = (Waiting, pool)"
| "RunKCPServer_loop (Inl err # _) pool = (Exited, pool)"
| "RunKCPServer_loop (Inr (s, remote) # as) pool = RunKCPServer_loop as (pool @ [(Session s, remote, ''kcp'')])"

definition RunKCPServer :: "(int \<Rightarrow> go_error option) \<Rightarrow> int \<Rightarrow> (go_error + bytes \<times> string) list \<Rightarrow> accepted list \<Rightarrow> serve_end \<times> accepted list" where
  "RunKCPServer listen port as pool = (case listen port of None \<Rightarrow> RunKCPServer_loop as pool | Some err \<Rightarrow> (Failed err, pool))"

text \<open>\<^verbatim>\<open>Server.Accept\<close> of the rpc server: each connection is served from its bytes on, by \<open>ServeConn\<close>.\<close>

fun server_Accept :: "('m, 'st) rpc_server \<Rightarrow> (go_error + bytes) list \<Rightarrow> ('m, 'st) conn_state list \<Rightarrow> serve_end \<times> ('m, 'st) conn_state list" where
  "server_Accept server [] pool = (Waiting, pool)"
| "server_Accept server (Inl err # _) pool = (Returned, pool)"
| "server_Accept server (Inr conn # as) pool = server_Accept server as (pool @ [ServeConn server conn])"

text \<open>Websocket requests: the upgrade of the library may fail.\<close>

definition HandleWebsocket :: "go_error + ws_conn \<Rightarrow> string \<Rightarrow> accepted list \<Rightarrow> accepted list" where
  "HandleWebsocket upgraded remoteAddr pool =
     (case upgraded of Inl _ \<Rightarrow> pool | Inr conn \<Rightarrow> pool @ [(Ws conn, remoteAddr, ''ws'')])"

definition HandleWebsocket2 :: "go_error + ws_conn \<Rightarrow> http_request \<Rightarrow> accepted list \<Rightarrow> accepted list" where
  "HandleWebsocket2 upgraded r pool =
     (case upgraded of Inl _ \<Rightarrow> pool | Inr conn \<Rightarrow> pool @ [(Ws2 conn, getRemote r, ''ws'')])"

text \<open>\<^verbatim>\<open>http.HandleFunc\<close> on the default mux, which all four servers share; a pattern can be registered once.\<close>

definition http_HandleFunc :: "string \<Rightarrow> string list \<Rightarrow> string list outcome" where
  "http_HandleFunc pattern mux = (if pattern \<in> set mux then Panic (''http: multiple registrations for '' @ pattern) else Ret (mux @ [pattern]))"

definition RunWSServer :: "(int \<Rightarrow> go_error option) \<Rightarrow> int \<Rightarrow> string list \<Rightarrow> (go_error option \<times> string list) outcome" where
  "RunWSServer listen port mux = out_bind (http_HandleFunc ''/ws'' mux) (\<lambda>mux'. Ret (listen port, mux'))"

definition RunWSSServer :: "(int \<Rightarrow> go_error option) \<Rightarrow> int \<Rightarrow> string list \<Rightarrow> (go_error option \<times> string list) outcome" where
  "RunWSSServer listen port mux = out_bind (http_HandleFunc ''/wss'' mux) (\<lambda>mux'. Ret (listen port, mux'))"

definition RunWSServer2 :: "(int \<Rightarrow> go_error option) \<Rightarrow> int \<Rightarrow> string list \<Rightarrow> (go_error option \<times> string list) outcome" where
  "RunWSServer2 listen port mux = out_bind (http_HandleFunc ''/ws'' mux) (\<lambda>mux'. Ret (listen port, mux'))"

definition RunWSSServer2 :: "(int \<Rightarrow> go_error option) \<Rightarrow> int \<Rightarrow> string list \<Rightarrow> (go_error option \<times> string list) outcome" where
  "RunWSSServer2 listen port mux = out_bind (http_HandleFunc ''/wss'' mux) (\<lambda>mux'. Ret (listen port, mux'))"


section \<open>What reaches the gate\<close>

text \<open>The loops submit each accepted connection once and in order, up to the first error.\<close>

lemma RunTCPServer_loop_eq:
  "snd (RunTCPServer_loop as pool) = pool @ map (\<lambda>a. case a of Inr (c, r) \<Rightarrow> (Socket c, r, ''tcp'')) (takeWhile (\<lambda>a. \<not> isl a) as)"
  "fst (RunTCPServer_loop as pool) = (if \<exists>a\<in>set as. isl a then Exited else Waiting)"
  by (induction as pool rule: RunTCPServer_loop.induct) auto

lemma RunKCPServer_loop_eq:
  "snd (RunKCPServer_loop as pool) = pool @ map (\<lambda>a. case a of Inr (c, r) \<Rightarrow> (Session c, r, ''kcp'')) (takeWhile (\<lambda>a. \<not> isl a) as)"
  "fst (RunKCPServer_loop as pool) = (if \<exists>a\<in>set as. isl a then Exited else Waiting)"
  by (induction as pool rule: RunKCPServer_loop.induct) auto

lemma server_Accept_eq:
  "snd (server_Accept server as pool) = pool @ map (\<lambda>a. ServeConn server (projr a)) (takeWhile (\<lambda>a. \<not> isl a) as)"
  by (induction server as pool rule: server_Accept.induct) auto

text \<open>Two websocket servers of a process cannot both be started: the second registration panics.\<close>

lemma second_ws_server_panics:
  assumes "RunWSServer listen port mux = Ret (err, mux')"
  shows "\<exists>e. RunWSServer2 listen' port' mux' = Panic e" "\<exists>e. RunWSServer listen' port' mux' = Panic e"
  using assms by (auto simp: RunWSServer_def RunWSServer2_def http_HandleFunc_def split: if_splits)

text \<open>The bytes that a connection carries to the gate.\<close>

fun carried :: "transport \<Rightarrow> bytes" where
  "carried (Socket b) = b"
| "carried (Session b) = b"
| "carried (Ws c) = ws_stream c"
| "carried (Ws2 c) = ws_stream c"

text \<open>The pool starts \<^verbatim>\<open>handleConn\<close> for every submitted connection.\<close>

fun open_all :: "accepted list \<Rightarrow> ('m, 'st, 'd, 'w, 's) gater \<Rightarrow> (nat list \<times> ('m, 'st, 'd, 'w, 's) gater) option" where
  "open_all [] g = Some ([], g)"
| "open_all ((tr, remote, ct) # ts) g =
     (case open_conn remote (carried tr) g of
        None \<Rightarrow> None
      | Some (a, g1) \<Rightarrow> map_option (\<lambda>(as, g2). (a # as, g2)) (open_all ts g1))"

lemma open_all_run:
  "open_all ts g = Some (as, g') \<Longrightarrow>
   run (gate_step E) g (map (\<lambda>(tr, remote, ct). GOpen remote (carried tr)) ts) g'"
proof (induction ts arbitrary: g as)
  case (Cons t ts)
  obtain tr remote ct where t: "t = (tr, remote, ct)" by (cases t)
  with Cons.prems obtain a g1 as' where o: "open_conn remote (carried tr) g = Some (a, g1)" "open_all ts g1 = Some (as', g')"
    by (auto split: option.splits)
  from Cons.IH [OF o(2)] g_open [OF o(1)] show ?case by (auto simp: t intro: run_cons)
qed (simp add: run_nil)

text \<open>Without interceptors a connection is opened under a number that is free.\<close>

lemma open_conn_new:
  assumes "NewFuncs g = []" "card (dom (map_of (Ids g))) < 2 ^ 32"
  shows "\<exists>i g1. open_conn remote rwc g = Some (gNext g, g1) \<and> i \<notin> dom (map_of (Ids g)) \<and> NewFuncs g1 = [] \<and> gNext g1 = Suc (gNext g) \<and>
    Ids g1 = gmap_set i (gNext g) (Ids g) \<and> Count g1 = Count g + 1 \<and>
    (\<forall>a. conn_at g1 a = (if a = gNext g then Some (fresh_conn (Split CHR '':'' remote ! 0) i (nodeName (fst (gNode g))) rwc) else conn_at g a))"
proof -
  have "{i. map_of (Ids g) i \<noteq> None} = dom (map_of (Ids g))" by auto
  with newID_loop_ends [of "\<lambda>i. map_of (Ids g) i \<noteq> None" "nodeId (fst (gNode g))" "IDCounter g"] assms(2)
  obtain i k where "newID_loop (nodeId (fst (gNode g))) (\<lambda>i. map_of (Ids g) i \<noteq> None) (IDCounter g) = Some (i, k)" "i \<notin> dom (map_of (Ids g))"
    by (auto simp: finite_dom_map_of)
  with assms(1) show ?thesis
    by (intro exI [of _ i]) (simp add: open_conn_def NewClientConn_def gater_newID_def conn_at_def upd_conn_def)
qed

lemma open_all_open:
  assumes "NewFuncs g = []" "card (dom (map_of (Ids g))) + length ts \<le> 2 ^ 32" "\<forall>i a. map_of (Ids g) i = Some a \<longrightarrow> a < gNext g"
  shows "\<exists>g'. open_all ts g = Some ([gNext g..<gNext g + length ts], g') \<and> Count g' = Count g + word_of_nat (length ts) \<and>
    (\<forall>a < gNext g. conn_at g' a = conn_at g a) \<and> (\<forall>i a. map_of (Ids g) i = Some a \<longrightarrow> map_of (Ids g') i = Some a) \<and>
    (\<forall>k < length ts. \<exists>c. conn_at g' (gNext g + k) = Some c \<and> ccLive c \<and> ccIn c = carried (fst (ts ! k)) \<and>
       Remote (ccContext c) = Split CHR '':'' (fst (snd (ts ! k))) ! 0 \<and> GetConnByID (ctxId (ccContext c)) g' = Some (gNext g + k))"
  using assms
proof (induction ts arbitrary: g)
  case (Cons t ts)
  obtain tr remote ct where t: "t = (tr, remote, ct)" by (cases t)
  from open_conn_new [of g remote "carried tr"] Cons.prems obtain i g1 where g1: "open_conn remote (carried tr) g = Some (gNext g, g1)"
    "i \<notin> dom (map_of (Ids g))" "NewFuncs g1 = []" "gNext g1 = Suc (gNext g)" "Ids g1 = gmap_set i (gNext g) (Ids g)" "Count g1 = Count g + 1"
    "\<And>a. conn_at g1 a = (if a = gNext g then Some (fresh_conn (Split CHR '':'' remote ! 0) i (nodeName (fst (gNode g))) (carried tr)) else conn_at g a)"
    by auto
  have ids: "map_of (Ids g1) = (map_of (Ids g))(i \<mapsto> gNext g)" by (simp add: g1(5) fun_eq_iff)
  have "card (dom (map_of (Ids g1))) = Suc (card (dom (map_of (Ids g))))" using g1(2) by (simp add: ids finite_dom_map_of)
  then have "card (dom (map_of (Ids g1))) + length ts \<le> 2 ^ 32" "\<forall>j a. map_of (Ids g1) j = Some a \<longrightarrow> a < gNext g1"
    using Cons.prems(2,3) by (auto simp: ids g1(4) less_Suc_eq)
  from Cons.IH [OF g1(3) this] obtain g' where g': "open_all ts g1 = Some ([gNext g1..<gNext g1 + length ts], g')"
    "Count g' = Count g1 + word_of_nat (length ts)" "\<forall>a < gNext g1. conn_at g' a = conn_at g1 a"
    "\<forall>j a. map_of (Ids g1) j = Some a \<longrightarrow> map_of (Ids g') j = Some a"
    "\<forall>k < length ts. \<exists>c. conn_at g' (gNext g1 + k) = Some c \<and> ccLive c \<and> ccIn c = carried (fst (ts ! k)) \<and>
       Remote (ccContext c) = Split CHR '':'' (fst (snd (ts ! k))) ! 0 \<and> GetConnByID (ctxId (ccContext c)) g' = Some (gNext g1 + k)" by blast
  have up: "[gNext g..<gNext g + length (t # ts)] = gNext g # [gNext g1..<gNext g1 + length ts]" using upt_conv_Cons [of "gNext g" "gNext g + length (t # ts)"] by (simp add: g1(4) del: upt_Suc)
  have "\<exists>c. conn_at g' (gNext g + k) = Some c \<and> ccLive c \<and> ccIn c = carried (fst ((t # ts) ! k)) \<and>
      Remote (ccContext c) = Split CHR '':'' (fst (snd ((t # ts) ! k))) ! 0 \<and> GetConnByID (ctxId (ccContext c)) g' = Some (gNext g + k)"
    if "k < length (t # ts)" for k
  proof (cases k)
    case 0
    then show ?thesis using g'(3,4) g1(4,7) by (simp add: t ids fresh_conn_def GetConnByID_def)
  next
    case (Suc j)
    then show ?thesis using g'(5) that g1(4) by simp
  qed
  moreover have "\<forall>j a. map_of (Ids g) j = Some a \<longrightarrow> map_of (Ids g') j = Some a" using g'(4) g1(2) unfolding ids by (metis domI fun_upd_other)
  moreover have "\<forall>a < gNext g. conn_at g' a = conn_at g a" using g'(3) g1(4,7) by simp
  moreover have "open_all (t # ts) g = Some ([gNext g..<gNext g + length (t # ts)], g')" using g1(1) g'(1) up by (simp add: t)
  moreover have "Count g' = Count g + word_of_nat (length (t # ts))" using g'(2) g1(6) by simp
  ultimately show ?case by blast
qed simp


text \<open>A TCP client and a websocket client that sends two messages.\<close>

definition two_clients :: "accepted list" where
  "two_clients =
     HandleWebsocket (Inr \<lparr>wsIn = [[1], [2, 3]], wsEnd = EOF, wsBuff = [], wsOut = [], wsWriteErr = None\<rparr>) ''b:8''
       (snd (RunTCPServer (\<lambda>_. None) 80 [Inr ([9], ''a:7''), Inl EOF] []))"


end
