(* ===== verification/Gnet_Handshake.thy ===== *)
theory Gnet_Handshake
  imports Go_Strings
begin

text \<open>
  The key exchange of a gate connection, \<^verbatim>\<open>gnet/handshake.go\<close>: Diffie-Hellman with numbers of 1024
  bits that are sent without a length and read as 128 bytes each. The results of
  \<^verbatim>\<open>rand.Prime\<close> are arguments, SHA-256 is the parameter \<open>sha\<close>. A connection is what will
  still arrive on it, what has been written to it, and the error its writes meet, if any.
\<close>

section \<open>Big integers\<close>

text \<open>\<^verbatim>\<open>Exp\<close>, \<^verbatim>\<open>Bytes\<close> and \<^verbatim>\<open>SetBytes\<close> of \<^verbatim>\<open>math/big\<close> on non-negative numbers.\<close>

definition big_Exp :: "nat \<Rightarrow> nat \<Rightarrow> nat \<Rightarrow> nat" where
  "big_Exp x y m = (if m = 0 then x ^ y else x ^ y mod m)"

fun big_Bytes :: "nat \<Rightarrow> bytes" where
  "big_Bytes n = (if n = 0 then [] else big_Bytes (n div 256) @ [word_of_nat (n mod 256)])"

declare big_Bytes.simps [simp del]

definition SetBytes :: "bytes \<Rightarrow> nat" where
  "SetBytes buff = foldl (\<lambda>v b. v * 256 + unat b) 0 buff"

lemma SetBytes_snoc: "SetBytes (bs @ [b]) = SetBytes bs * 256 + unat b"
  by (simp add: SetBytes_def)

lemma SetBytes_Bytes [simp]: "SetBytes (big_Bytes n) = n"
proof (induction n rule: big_Bytes.induct)
  case (1 n)
  show ?case
  proof (cases "n = 0")
    case False
    with 1 show ?thesis by (subst big_Bytes.simps) (simp add: SetBytes_snoc unat_of_nat)
  qed (simp add: big_Bytes.simps SetBytes_def)
qed

lemma length_Bytes: "n < 256 ^ k \<Longrightarrow> length (big_Bytes n) \<le> k"
proof (induction k arbitrary: n)
  case (Suc k)
  then have "n div 256 < 256 ^ k" by (simp add: less_mult_imp_div_less mult.commute)
  with Suc.IH show ?case by (subst big_Bytes.simps) simp
qed (simp add: big_Bytes.simps)

lemma length_Bytes_ge: "256 ^ k \<le> n \<Longrightarrow> k < length (big_Bytes n)"
proof (induction k arbitrary: n)
  case 0
  then show ?case by (subst big_Bytes.simps) simp
next
  case (Suc k)
  then have "256 ^ k \<le> n div 256" by (simp add: less_eq_div_iff_mult_less_eq mult.commute)
  moreover have "n \<noteq> 0" using Suc.prems by (metis le_zero_eq power_not_zero zero_neq_numeral)
  ultimately show ?case using Suc.IH [of "n div 256"] by (subst big_Bytes.simps) simp
qed

text \<open>The numbers that take 128 bytes.\<close>

definition full :: "nat \<Rightarrow> bool" where
  "full n \<longleftrightarrow> 256 ^ 127 \<le> n \<and> n < 256 ^ 128"

lemma length_full: "full n \<Longrightarrow> length (big_Bytes n) = 128"
  using length_Bytes [of n 128] length_Bytes_ge [of 127 n] by (simp add: full_def)

lemma length_not_full: "n < 256 ^ 128 \<Longrightarrow> \<not> full n \<Longrightarrow> length (big_Bytes n) < 128"
  using length_Bytes [of n 127] by (simp add: full_def)


section \<open>The two sides\<close>

record hs_conn =
  hsIn :: bytes
  hsOut :: bytes
  hsFail :: "go_error option"

definition writeBytes :: "bytes \<Rightarrow> hs_conn \<Rightarrow> go_error option \<times> hs_conn" where
  "writeBytes buff c = (case hsFail c of Some e \<Rightarrow> (Some e, c) | None \<Rightarrow> (None, c\<lparr>hsOut := hsOut c @ buff\<rparr>))"

definition writeBigInt :: "nat \<Rightarrow> hs_conn \<Rightarrow> go_error option \<times> hs_conn" where
  "writeBigInt i c = writeBytes (big_Bytes i) c"

fun writeBigInts :: "nat list \<Rightarrow> hs_conn \<Rightarrow> go_error option \<times> hs_conn" where
  "writeBigInts [] c = (None, c)"
| "writeBigInts (i # is) c =
     (case writeBytes (big_Bytes i) c of (Some e, c') \<Rightarrow> (Some e, c') | (None, c') \<Rightarrow> writeBigInts is c')"

definition readBigInt :: "hs_conn \<Rightarrow> (go_error + nat) \<times> hs_conn" where
  "readBigInt c =
     (case ReadFull 128 (hsIn c) of
        (Inl e, r) \<Rightarrow> (Inl e, c\<lparr>hsIn := r\<rparr>)
      | (Inr buff, r) \<Rightarrow> (Inr (SetBytes buff), c\<lparr>hsIn := r\<rparr>))"

text \<open>The three primes of the client are drawn before anything is sent.\<close>

definition ClientHandshake ::
  "(bytes \<Rightarrow> bytes) \<Rightarrow> go_error + nat \<Rightarrow> go_error + nat \<Rightarrow> go_error + nat \<Rightarrow> hs_conn \<Rightarrow> (go_error + bytes) \<times> hs_conn" where
  "ClientHandshake sha rp rg ra c =
     (case rp of Inl e \<Rightarrow> (Inl e, c) | Inr p \<Rightarrow>
     (case rg of Inl e \<Rightarrow> (Inl e, c) | Inr g \<Rightarrow>
     (case ra of Inl e \<Rightarrow> (Inl e, c) | Inr a \<Rightarrow>
     (case writeBigInts [p, g, big_Exp g a p] c of
        (Some e, c1) \<Rightarrow> (Inl e, c1)
      | (None, c1) \<Rightarrow>
          (case readBigInt c1 of
             (Inl e, c2) \<Rightarrow> (Inl e, c2)
           | (Inr b, c2) \<Rightarrow> (Inr (sha (big_Bytes (big_Exp b a p))), c2))))))"

definition Handshake :: "(bytes \<Rightarrow> bytes) \<Rightarrow> go_error + nat \<Rightarrow> hs_conn \<Rightarrow> (go_error + bytes) \<times> hs_conn" where
  "Handshake sha rb c =
     (case readBigInt c of (Inl e, c1) \<Rightarrow> (Inl e, c1) | (Inr p, c1) \<Rightarrow>
     (case readBigInt c1 of (Inl e, c2) \<Rightarrow> (Inl e, c2) | (Inr g, c2) \<Rightarrow>
     (case readBigInt c2 of (Inl e, c3) \<Rightarrow> (Inl e, c3) | (Inr a, c3) \<Rightarrow>
     (case rb of Inl e \<Rightarrow> (Inl e, c3) | Inr b \<Rightarrow>
     (case writeBigInt (big_Exp g b p) c3 of
        (Some e, c4) \<Rightarrow> (Inl e, c4)
      | (None, c4) \<Rightarrow> (Inr (sha (big_Bytes (big_Exp a b p))), c4))))))"


section \<open>Agreement\<close>

lemma Exp_commute: "0 < p \<Longrightarrow> big_Exp (big_Exp g b p) a p = big_Exp (big_Exp g a p) b p"
  by (simp add: big_Exp_def power_mod mult.commute flip: power_mult)

lemma readBigInt_full: "full n \<Longrightarrow> hsIn c = big_Bytes n @ r \<Longrightarrow> readBigInt c = (Inr n, c\<lparr>hsIn := r\<rparr>)"
  by (simp add: readBigInt_def ReadFull_exact [OF length_full])

lemma readBigInt_short:
  "length (hsIn c) < 128 \<Longrightarrow> readBigInt c = (Inl (if hsIn c = [] then EOF else ErrUnexpectedEOF), c\<lparr>hsIn := []\<rparr>)"
  by (simp add: readBigInt_def ReadFull_def)

text \<open>One side of an exchange over a connection on which \<open>inp\<close> arrives.\<close>

definition hs_open :: "bytes \<Rightarrow> hs_conn" where
  "hs_open inp = \<lparr>hsIn = inp, hsOut = [], hsFail = None\<rparr>"

definition hs_client :: "(bytes \<Rightarrow> bytes) \<Rightarrow> nat \<Rightarrow> nat \<Rightarrow> nat \<Rightarrow> bytes \<Rightarrow> (go_error + bytes) \<times> hs_conn" where
  "hs_client sha p g a inp = ClientHandshake sha (Inr p) (Inr g) (Inr a) (hs_open inp)"

definition hs_server :: "(bytes \<Rightarrow> bytes) \<Rightarrow> nat \<Rightarrow> bytes \<Rightarrow> (go_error + bytes) \<times> hs_conn" where
  "hs_server sha b inp = Handshake sha (Inr b) (hs_open inp)"

text \<open>What the client sends.\<close>

definition hello :: "nat \<Rightarrow> nat \<Rightarrow> nat \<Rightarrow> bytes" where
  "hello p g a = big_Bytes p @ big_Bytes g @ big_Bytes (big_Exp g a p)"

lemma client_reads:
  "hs_client sha p g a inp =
     (case readBigInt \<lparr>hsIn = inp, hsOut = hello p g a, hsFail = None\<rparr> of
        (Inl e, c2) \<Rightarrow> (Inl e, c2) | (Inr b, c2) \<Rightarrow> (Inr (sha (big_Bytes (big_Exp b a p))), c2))"
  by (simp add: hs_client_def hs_open_def ClientHandshake_def writeBytes_def hello_def)

lemma client_sends: "hsOut (snd (hs_client sha p g a inp)) = hello p g a"
  by (auto simp: client_reads readBigInt_def split: prod.splits sum.splits)

lemma server_reads:
  assumes "full p" "full g"
  shows "hs_server sha b (hello p g a @ inp) =
    (case readBigInt (hs_open (big_Bytes (big_Exp g a p) @ inp)) of (Inl e, c3) \<Rightarrow> (Inl e, c3) | (Inr a', c3) \<Rightarrow>
       (case writeBigInt (big_Exp g b p) c3 of
          (Some e, c4) \<Rightarrow> (Inl e, c4)
        | (None, c4) \<Rightarrow> (Inr (sha (big_Bytes (big_Exp a' b p))), c4)))"
  by (simp add: hs_server_def hello_def hs_open_def Handshake_def readBigInt_full [OF assms(1)] readBigInt_full [OF assms(2)]
      cong: sum.case_cong split: prod.split sum.split)

text \<open>
  C33. The two sides of the key exchange compute the same key from the numbers they exchange, and
  consume exactly these, whenever both public values take 128 bytes. A public value of the client
  with a leading zero byte is sent in fewer bytes than the server reads: the server then waits for
  bytes that do not come, and the exchange fails; so it does at the client when the public value of
  the server is short.
\<close>

theorem handshake_agrees:
  assumes "full p" and "full g"
  shows "hsOut (snd (hs_client sha p g a inp)) = hello p g a \<and>
    (full (big_Exp g a p) \<and> full (big_Exp g b p) \<longrightarrow>
       (\<exists>key. hs_server sha b (hello p g a @ r) = (Inr key, \<lparr>hsIn = r, hsOut = big_Bytes (big_Exp g b p), hsFail = None\<rparr>) \<and>
              hs_client sha p g a (big_Bytes (big_Exp g b p) @ r') = (Inr key, \<lparr>hsIn = r', hsOut = hello p g a, hsFail = None\<rparr>))) \<and>
    (\<not> full (big_Exp g a p) \<longrightarrow> (\<exists>e. fst (hs_server sha b (hello p g a)) = Inl e)) \<and>
    (\<not> full (big_Exp g b p) \<longrightarrow> (\<exists>e. fst (hs_client sha p g a (big_Bytes (big_Exp g b p))) = Inl e))"
proof (intro conjI impI)
  have p0: "0 < p" using assms(1) by (auto simp: full_def)
  have "big_Exp g x p < p" for x using p0 by (simp add: big_Exp_def)
  with assms(1) have lt: "big_Exp g x p < 256 ^ 128" for x unfolding full_def by (blast intro: less_trans)
  show "hsOut (snd (hs_client sha p g a inp)) = hello p g a" by (rule client_sends)
  show "\<exists>key. hs_server sha b (hello p g a @ r) = (Inr key, \<lparr>hsIn = r, hsOut = big_Bytes (big_Exp g b p), hsFail = None\<rparr>) \<and>
      hs_client sha p g a (big_Bytes (big_Exp g b p) @ r') = (Inr key, \<lparr>hsIn = r', hsOut = hello p g a, hsFail = None\<rparr>)"
    if f: "full (big_Exp g a p) \<and> full (big_Exp g b p)"
    using Exp_commute [OF p0, of g b a] f readBigInt_full [OF conjunct1 [OF f]] readBigInt_full [OF conjunct2 [OF f]]
    by (simp add: server_reads [OF assms] client_reads hs_open_def writeBigInt_def writeBytes_def)
  show "\<exists>e. fst (hs_server sha b (hello p g a)) = Inl e" if "\<not> full (big_Exp g a p)"
    using server_reads [OF assms, of sha b a "[]"] length_not_full [OF lt that]
    by (simp add: readBigInt_short hs_open_def)
  show "\<exists>e. fst (hs_client sha p g a (big_Bytes (big_Exp g b p))) = Inl e" if "\<not> full (big_Exp g b p)"
    using length_not_full [OF lt that] by (simp add: client_reads readBigInt_short)
qed

theorem handshake_agrees_witness:
  "(\<exists>key. fst (hs_server id 1 (hello (2 * 256 ^ 127) (256 ^ 127) 1)) = Inr key \<and>
      fst (hs_client id (2 * 256 ^ 127) (256 ^ 127) 1 (big_Bytes (256 ^ 127))) = Inr key) \<and>
   (\<exists>e. fst (hs_server id 1 (hello (256 ^ 127) (256 ^ 127) 1)) = Inl e)"
proof -
  have f: "full (2 * 256 ^ 127)" "full (256 ^ 127)" and n: "\<not> full (big_Exp (256 ^ 127) 1 (256 ^ 127))"
    by (simp_all add: full_def big_Exp_def)
  have e: "big_Exp (256 ^ 127) 1 (2 * 256 ^ 127) = 256 ^ 127" by (simp add: big_Exp_def)
  have "fst (x :: (go_error + bytes) \<times> hs_conn) = Inr key" if "x = (Inr key, c)" for x key c using that by simp
  with handshake_agrees [OF f, of id 1 "[]" 1 "[]" "[]", unfolded e append_Nil2] f
  have "\<exists>key. fst (hs_server id 1 (hello (2 * 256 ^ 127) (256 ^ 127) 1)) = Inr key \<and>
      fst (hs_client id (2 * 256 ^ 127) (256 ^ 127) 1 (big_Bytes (256 ^ 127))) = Inr key" by (metis (no_types))
  with handshake_agrees [OF f(2) f(2), of id 1 "[]" 1 "[]" "[]"] n show ?thesis by blast
qed

end
