(* ===== verification/Timer_Stamp.thy ===== *)
theory Timer_Stamp
  imports Go_Strings
begin

text \<open>
  When a timer runs next: the time stamps of \<^verbatim>\<open>util/timer/timer.go\<close> (\<^verbatim>\<open>checkTime\<close>) and the time
  zone of \<^verbatim>\<open>util/timer/time_zone.go\<close>. A reading of the clock is the nanoseconds since 1970 and
  the offset of the local zone in seconds. \<^verbatim>\<open>checkTime\<close> prints the local time, replaces its last
  two, five or eight characters by the stamp and parses the result as a time in UTC; the
  date is printed and parsed unchanged, so what it obtains is the start of the minute, hour or
  day on the local clock plus the stamp, and only the stamp can make the parser fail.
\<close>

section \<open>The time zone\<close>

abbreviation SecondTimeUnit :: int where "SecondTimeUnit \<equiv> 1000000000"
abbreviation MinuteTimeUnit :: int where "MinuteTimeUnit \<equiv> 60000000000"
abbreviation HourTimeUnit :: int where "HourTimeUnit \<equiv> 3600000000000"
abbreviation DayTimeUnit :: int where "DayTimeUnit \<equiv> 86400000000000"

record time_zone =
  timeZoneStatus :: bool
  timeZoneJetLag :: int

text \<open>An error with a fixed text, one of \<^verbatim>\<open>strconv\<close> with the text before it, or one of \<^verbatim>\<open>time.Parse\<close>.\<close>

datatype timer_error = TimerErr string | NumErr string num_err | TimeParseErr

definition zone_field :: "nat \<Rightarrow> string \<Rightarrow> string \<Rightarrow> string \<Rightarrow> timer_error + nat" where
  "zone_field lim bad big s =
     (case ParseUint s of
        (_, Some err) \<Rightarrow> Inl (NumErr bad err)
      | (h, None) \<Rightarrow> if h > lim then Inl (TimerErr big) else Inr h)"

definition zone_hours :: "string list \<Rightarrow> timer_error + nat" where
  "zone_hours t =
     (if length t \<noteq> 2 then Inl (TimerErr ''Time Zone string format wrong'')
      else case zone_field 23 ''Parse Time Zone hour error: '' ''Time Zone hour more than 23'' (t ! 0) of
        Inl err \<Rightarrow> Inl err
      | Inr h \<Rightarrow>
          (case zone_field 59 ''Parse Time Zone minter error: '' ''Time Zone minter more than 59'' (t ! 1) of
             Inl err \<Rightarrow> Inl err
           | Inr m \<Rightarrow> Inr (h * 3600 + m * 60)))"

definition SetTimeZone :: "string \<Rightarrow> time_zone \<Rightarrow> timer_error option \<times> time_zone" where
  "SetTimeZone v z =
     (if v = [] then (Some (TimerErr ''Time Zone string is null''), z)
      else if hd v \<noteq> CHR ''+'' \<and> hd v \<noteq> CHR ''-'' then (Some (TimerErr ''Time Zone string first byte not ['-' or '+']''), z)
      else
        let z = (if v = ''+00:00'' then z\<lparr>timeZoneStatus := True\<rparr> else z) in
        case zone_hours (Split CHR '':'' (tl v)) of
          Inl err \<Rightarrow> (Some err, z)
        | Inr n \<Rightarrow> (None, z\<lparr>timeZoneJetLag := (if hd v = CHR ''+'' then int n else - int n), timeZoneStatus := True\<rparr>))"

definition GetJetLag :: "int \<Rightarrow> time_zone \<Rightarrow> int" where
  "GetJetLag diff z = (if \<not> timeZoneStatus z then diff else timeZoneJetLag z)"

definition GetTimeNowZone :: "int \<Rightarrow> int \<Rightarrow> time_zone \<Rightarrow> int" where
  "GetTimeNowZone now diff z = wrap_int64 (now + wrap_int64 (GetJetLag diff z * SecondTimeUnit))"

text \<open>A zone that has been set is a number of whole minutes within a day.\<close>

definition zone_ok :: "time_zone \<Rightarrow> bool" where
  "zone_ok z \<longleftrightarrow> 60 dvd timeZoneJetLag z \<and> \<bar>timeZoneJetLag z\<bar> < 86400"

lemma zone_field_le: "zone_field lim bad big s = Inr h \<Longrightarrow> h \<le> lim"
  by (auto simp: zone_field_def split: prod.splits option.splits if_splits)

lemma zone_hours_ok: "zone_hours t = Inr n \<Longrightarrow> 60 dvd n \<and> n < 86400"
proof -
  assume "zone_hours t = Inr n"
  then obtain h m where n: "n = h * 3600 + m * 60" and "h \<le> 23" "m \<le> 59"
    by (auto simp: zone_hours_def dest!: zone_field_le split: if_splits sum.splits)
  moreover have "60 dvd h * 3600 + m * 60" by presburger
  ultimately show ?thesis by simp
qed

lemma SetTimeZone_ok:
  assumes "zone_ok z"
  shows "zone_ok (snd (SetTimeZone v z))"
proof (cases "zone_hours (Split CHR '':'' (tl v))")
  case (Inr n)
  with zone_hours_ok [OF Inr] have "60 dvd int n" "60 dvd - int n" "int n < 86400" by auto
  with Inr assms show ?thesis by (simp add: SetTimeZone_def zone_ok_def Let_def)
qed (use assms in \<open>simp add: SetTimeZone_def zone_ok_def Let_def\<close>)

lemma SetTimeZone_set:
  assumes "h \<le> 23" "m \<le> 59"
  shows "SetTimeZone (CHR ''+'' # FormatUint h @ '':'' @ FormatUint m) z =
      (None, z\<lparr>timeZoneJetLag := int (h * 3600 + m * 60), timeZoneStatus := True\<rparr>)"
    and "SetTimeZone (CHR ''-'' # FormatUint h @ '':'' @ FormatUint m) z =
      (None, z\<lparr>timeZoneJetLag := - int (h * 3600 + m * 60), timeZoneStatus := True\<rparr>)"
proof -
  have "char_digit CHR '':'' = None" by code_simp
  then have "CHR '':'' \<notin> set (FormatUint n)" for n by (auto dest: FormatUint_digits)
  then have "Split CHR '':'' (FormatUint h @ '':'' @ FormatUint m) = [FormatUint h, FormatUint m]"
    by (simp add: Split_append)
  with assms have "zone_hours (Split CHR '':'' (FormatUint h @ '':'' @ FormatUint m)) = Inr (h * 3600 + m * 60)"
    by (simp add: zone_hours_def zone_field_def max_uint64_def)
  then show "SetTimeZone (CHR ''+'' # FormatUint h @ '':'' @ FormatUint m) z =
      (None, z\<lparr>timeZoneJetLag := int (h * 3600 + m * 60), timeZoneStatus := True\<rparr>)"
    "SetTimeZone (CHR ''-'' # FormatUint h @ '':'' @ FormatUint m) z =
      (None, z\<lparr>timeZoneJetLag := - int (h * 3600 + m * 60), timeZoneStatus := True\<rparr>)"
    by (simp_all add: SetTimeZone_def Let_def)
qed


section \<open>Stamps\<close>

text \<open>
  The part of a stamp that is a time of day: two digits each for the hour, the minute and the
  second. A single digit for the hour is accepted by the parser, but then a character is left over.
\<close>

definition two_digits :: "nat \<Rightarrow> string \<Rightarrow> nat option" where
  "two_digits lim s =
     (case s of
        [a, b] \<Rightarrow>
          (case (char_digit a, char_digit b) of
             (Some x, Some y) \<Rightarrow> (if 10 * x + y < lim then Some (10 * x + y) else None)
           | _ \<Rightarrow> None)
      | _ \<Rightarrow> None)"

fun clock_fields :: "nat list \<Rightarrow> string list \<Rightarrow> nat option" where
  "clock_fields [] [] = Some 0"
| "clock_fields (lim # lims) (f # fs) =
     (case (two_digits lim f, clock_fields lims fs) of
        (Some n, Some rest) \<Rightarrow> Some (n * 60 ^ length lims + rest)
      | _ \<Rightarrow> None)"
| "clock_fields _ _ = None"

definition parse_clock :: "string \<Rightarrow> nat option" where
  "parse_clock stamp =
     clock_fields (drop (3 - (length stamp + 1) div 3) [24, 60, 60]) (Split CHR '':'' stamp)"

text \<open>The loop that moves the next run into the future; it may not end, which is \<open>None\<close>.\<close>

partial_function (option) advance :: "int \<Rightarrow> int \<Rightarrow> int \<Rightarrow> int option" where
  "advance st now next = (if next \<le> now then advance st now (wrap_int64 (next + st)) else Some next)"

declare advance.simps [code]

text \<open>The cases of \<^verbatim>\<open>checkTime\<close> before the loop: the first candidate and the interval, or an error.\<close>

definition dur_unit :: "char \<Rightarrow> int option" where
  "dur_unit c =
     (if c = CHR ''s'' \<or> c = CHR ''S'' then Some SecondTimeUnit
      else if c = CHR ''m'' \<or> c = CHR ''M'' then Some MinuteTimeUnit
      else if c = CHR ''h'' \<or> c = CHR ''H'' then Some HourTimeUnit
      else if c = CHR ''d'' \<or> c = CHR ''D'' then Some DayTimeUnit
      else None)"

text \<open>Go's remainder takes the sign of the dividend.\<close>

definition go_rem :: "int \<Rightarrow> int \<Rightarrow> int" where
  "go_rem a b = sgn a * (\<bar>a\<bar> mod b)"

definition clock_case :: "time_zone \<Rightarrow> int \<Rightarrow> int \<Rightarrow> string \<Rightarrow> timer_error + int \<times> int" where
  "clock_case z unix diff stamp =
     (let wall = unix + diff in
      if length stamp \<notin> {2, 5, 8} then Inl (TimerErr ''Can't parst time, please check it'')
      else case parse_clock stamp of
        None \<Rightarrow> Inl TimeParseErr
      | Some s \<Rightarrow>
          if length stamp = 2 then Inr (wall div 60 * 60 + int s - 60, MinuteTimeUnit)
          else if length stamp = 5 then
            Inr (wall div 3600 * 3600 + int s - go_rem (GetJetLag diff z) 3600 - 3600, HourTimeUnit)
          else Inr (wall div 86400 * 86400 + int s - GetJetLag diff z - 3600 * 24, DayTimeUnit))"

definition stamp_case :: "time_zone \<Rightarrow> int \<Rightarrow> int \<Rightarrow> string \<Rightarrow> timer_error + int \<times> int" where
  "stamp_case z unix diff stamp =
     (case dur_unit (last stamp) of
        Some unit \<Rightarrow>
          (case Atoi (butlast stamp) of
             (_, Some err) \<Rightarrow> Inl (NumErr [] err)
           | (temp, None) \<Rightarrow> Inr (unix, wrap_int64 (temp * unit)))
      | None \<Rightarrow>
          if char_digit (last stamp) \<noteq> None then clock_case z unix diff stamp
          else Inl (TimerErr ''Can't parst stamp value, please check it''))"

definition checkTime :: "time_zone \<Rightarrow> int \<Rightarrow> int \<Rightarrow> string \<Rightarrow> (timer_error + int \<times> int) outcome option" where
  "checkTime z now diff stamp =
     (let unix = now div SecondTimeUnit in
      if stamp = [] then Some (Panic ''slice bounds out of range [-1:]'')
      else case stamp_case z unix diff stamp of
        Inl err \<Rightarrow> Some (Ret (Inl err))
      | Inr (next, interval) \<Rightarrow>
          if interval > 0
          then map_option (\<lambda>next. Ret (Inr (wrap_int64 (next * SecondTimeUnit), interval)))
                 (advance (interval div SecondTimeUnit) unix next)
          else Some (Ret (Inr (wrap_int64 (next * SecondTimeUnit), interval))))"


section \<open>The loop\<close>

lemma advance_future: "now < next \<Longrightarrow> advance st now next = Some next"
  by (subst advance.simps) simp

lemma advance_reaches:
  assumes "0 < st" "now + st \<le> max_int64" "min_int64 \<le> n0" "n0 \<le> now"
  shows "\<exists>r. advance st now n0 = Some r \<and> now < r \<and> r \<le> now + st \<and> r mod st = n0 mod st"
  using assms(3,4)
proof (induction "nat (now - n0)" arbitrary: n0 rule: less_induct)
  case less
  with assms(1,2) have "int64_range (n0 + st)" by auto
  then have e: "advance st now n0 = advance st now (n0 + st)" using less.prems(2) by (subst advance.simps) simp
  show ?case
  proof (cases "n0 + st \<le> now")
    case True
    with less assms(1) show ?thesis using less.hyps [of "n0 + st"] by (auto simp: e)
  next
    case False
    then show ?thesis using less.prems by (simp add: e advance_future)
  qed
qed

text \<open>A step of zero never gets there.\<close>

lemma advance_stuck:
  assumes "int64_range n0" "n0 \<le> now"
  shows "advance 0 now n0 = None"
proof -
  have "st = 0 \<and> int64_range n0 \<longrightarrow> now < n0" if "advance st now n0 = Some r" for st now n0 r
    by (rule advance.raw_induct [where P = "\<lambda>st now n0 r. st = 0 \<and> int64_range n0 \<longrightarrow> now < n0", OF _ that])
       (fastforce split: if_splits)
  with assms show ?thesis by fastforce
qed


section \<open>The next run\<close>

lemma two_digits_less: "two_digits lim f = Some n \<Longrightarrow> n < lim"
  by (auto simp: two_digits_def split: list.splits option.splits if_splits)

lemma parse_clock_less:
  "parse_clock stamp = Some s \<Longrightarrow> length stamp = 2 \<Longrightarrow> s < 60"
  "parse_clock stamp = Some s \<Longrightarrow> length stamp = 5 \<Longrightarrow> s < 3600"
  "parse_clock stamp = Some s \<Longrightarrow> length stamp = 8 \<Longrightarrow> s < 86400"
  by (auto simp: parse_clock_def split: option.splits prod.splits elim!: clock_fields.elims dest!: two_digits_less)

lemma go_rem_mod: "0 < b \<Longrightarrow> go_rem a b mod b = a mod b \<and> \<bar>go_rem a b\<bar> < b"
  by (cases "0 \<le> a") (auto simp: go_rem_def sgn_if mod_minus_eq abs_mult)

text \<open>The length of a stamp that is a time of day decides how often it occurs, in seconds.\<close>

definition stamp_period :: "string \<Rightarrow> int" where
  "stamp_period stamp = (if length stamp = 2 then 60 else if length stamp = 5 then 3600 else 86400)"

text \<open>The offset that \<^verbatim>\<open>checkTime\<close> forgets to take off again.\<close>

definition zone_rest :: "time_zone \<Rightarrow> int \<Rightarrow> string \<Rightarrow> int" where
  "zone_rest z diff stamp =
     (if length stamp = 2 then diff
      else if length stamp = 5 then diff - go_rem (GetJetLag diff z) 3600
      else diff - GetJetLag diff z)"

lemma clock_case_next:
  assumes "parse_clock stamp = Some s" "length stamp \<in> {2, 5, 8}" "60 dvd GetJetLag diff z"
  shows "\<exists>n0. clock_case z u diff stamp = Inr (n0, stamp_period stamp * SecondTimeUnit) \<and>
    (n0 + GetJetLag diff z) mod stamp_period stamp = int s \<and>
    u + zone_rest z diff stamp - 2 * stamp_period stamp < n0 \<and> n0 < u + zone_rest z diff stamp"
proof -
  define q where "q = (if length stamp = 2 then 0 else if length stamp = 5 then go_rem (GetJetLag diff z) 3600 else GetJetLag diff z)"
  let ?P = "stamp_period stamp" and ?w = "u + diff"
  let ?n = "?w div ?P * ?P + int s - q - ?P"
  have P: "0 < ?P" by (simp add: stamp_period_def)
  have s: "0 \<le> int s" "int s < ?P"
    using assms(2) parse_clock_less [OF assms(1)] by (auto simp: stamp_period_def)
  have c: "clock_case z u diff stamp = Inr (?n, ?P * SecondTimeUnit)"
    using assms(1,2) by (auto simp: clock_case_def stamp_period_def q_def)
  have "?P dvd GetJetLag diff z - q"
    using assms(2,3) go_rem_mod [of 3600 "GetJetLag diff z"] by (auto simp: stamp_period_def mod_eq_dvd_iff dvd_diff_commute q_def)
  then obtain k where k: "GetJetLag diff z - q = ?P * k" by (elim dvdE)
  have "?n + GetJetLag diff z = int s + ?P * (?w div ?P + k - 1)"
    using k by (simp add: algebra_simps)
  then have m: "(?n + GetJetLag diff z) mod ?P = int s"
    by (simp only: mod_mult_self2 mod_pos_pos_trivial [OF s])
  have "?w div ?P * ?P + ?w mod ?P = ?w" "0 \<le> ?w mod ?P" "?w mod ?P < ?P" using P by simp_all
  then have "?w - q - 2 * ?P < ?n" "?n < ?w - q" using s by linarith+
  with c m show ?thesis by (auto simp: zone_rest_def q_def)
qed

lemma two_digits_last: "two_digits lim f = Some n \<Longrightarrow> f \<noteq> [] \<and> char_digit (last f) \<noteq> None"
  by (auto simp: two_digits_def split: list.splits option.splits)

lemma clock_fields_last: "clock_fields lims fs = Some n \<Longrightarrow> fs \<noteq> [] \<Longrightarrow> last fs \<noteq> [] \<and> char_digit (last (last fs)) \<noteq> None"
  by (induction lims fs arbitrary: n rule: clock_fields.induct) (auto dest: two_digits_last split: option.splits)

lemma Join_last: "fs \<noteq> [] \<Longrightarrow> last fs \<noteq> [] \<Longrightarrow> Join sep fs \<noteq> [] \<and> last (Join sep fs) = last (last fs)"
  by (induction sep fs rule: Join.induct) auto

lemma parse_clock_last: "parse_clock stamp = Some s \<Longrightarrow> char_digit (last stamp) \<noteq> None"
  using clock_fields_last Join_last [of "Split CHR '':'' stamp" "'':''"] by (fastforce simp: parse_clock_def Join_Split)

lemma dur_unit_digit:
  assumes "char_digit c \<noteq> None"
  shows "dur_unit c = None"
proof -
  have "list_all (\<lambda>c. char_digit c = None) ''sSmMhHdD''" by code_simp
  with assms have "c \<notin> set ''sSmMhHdD''" by (auto simp: list_all_iff)
  then show ?thesis by (simp add: dur_unit_def)
qed



text \<open>A number of seconds, minutes, hours or days counts from the current second.\<close>

lemma duration_stamp_next:
  assumes "dur_unit c = Some unit" "0 < k" "k * unit \<le> 10 ^ 17" "0 \<le> now" "now \<le> 9 * 10 ^ 18"
  shows "checkTime z now diff (Itoa k @ [c]) =
    Some (Ret (Inr ((now div SecondTimeUnit) * SecondTimeUnit + k * unit, k * unit)))"
proof -
  let ?u = "now div SecondTimeUnit"
  obtain q where q: "unit = q * SecondTimeUnit" "0 < q" using assms(1)
    by (force simp: dur_unit_def split: if_splits)
  have "k * 1 \<le> k * unit" using assms(2) q by (intro mult_left_mono) auto
  moreover have "0 < k * q" using assms(2) q by simp
  ultimately have k: "k \<le> 10 ^ 17" "0 < k * q" "k * q \<le> 100000000" using q assms(3) by auto
  have u: "0 \<le> ?u" "?u \<le> 9000000000" using assms(4,5) by simp_all
  have "wrap_int64 (k * unit) = k * unit"
    using assms(3) k(2) q(1) by (intro wrap_int64_id) (simp add: max_int64_def min_int64_def)
  moreover have "k * unit div SecondTimeUnit = k * q" "Atoi (Itoa k) = (k, None)"
    using assms(2) k(1) q(1) by (simp_all add: max_int64_def min_int64_def)
  ultimately have w: "wrap_int64 (k * unit) = k * unit" "k * unit div SecondTimeUnit = k * q" "Atoi (Itoa k) = (k, None)" .
  have "advance (k * q) ?u ?u = Some (?u + k * q)"
    using u k w by (subst advance.simps) (simp add: max_int64_def min_int64_def advance_future)
  moreover have "wrap_int64 ((?u + k * q) * SecondTimeUnit) = ?u * SecondTimeUnit + k * unit"
    using u k q by (subst wrap_int64_id) (simp_all add: max_int64_def min_int64_def algebra_simps)
  ultimately show ?thesis using assms(1) w k q by (simp add: checkTime_def stamp_case_def Let_def)
qed

text \<open>A number of seconds that overflows to a fraction of a second is accepted, and the loop never ends.\<close>

lemma checkTime_may_hang: "checkTime z 1700000000000000000 diff (Itoa 20211507185753197 @ ''s'') = None"
proof -
  have "wrap_int64 (20211507185753197 * SecondTimeUnit) = 512" by (simp add: wrap_int64_def)
  then have "stamp_case z 1700000000 diff (Itoa 20211507185753197 @ ''s'') = Inr (1700000000, 512)"
    by (simp add: stamp_case_def dur_unit_def max_int64_def min_int64_def)
  then show ?thesis by (simp add: checkTime_def advance_stuck max_int64_def min_int64_def)
qed

end
