(* ===== verification/Util_Timer.thy ===== *)
theory Util_Timer
  imports Timer_Stamp
begin

text \<open>
  The timers of \<^verbatim>\<open>util/timer\<close>: \<^verbatim>\<open>common.go\<close>, \<^verbatim>\<open>cache.go\<close> and \<^verbatim>\<open>timer.go\<close>. Timers wait in
  three lists, by how far ahead they are; the ticker runs what is due in the first, and
  every fourth tick (every twentieth for the third list) moves what comes near to the list before
  it. The goroutines that the code starts are the jobs of the state and run in any order.
  A timer is in one list or one job at a time, so a value stands for the object. The
  locked section of an operation and the reading of the clock before it are one step. A call of
  the application's function is an entry of the log \<open>ran\<close>, with the time it was due and the
  time it was made; \<open>clk\<close> is the last reading of the clock and \<open>lastTick\<close> that of the last tick.
\<close>

section \<open>The timers\<close>

abbreviation basicNumber :: int where "basicNumber \<equiv> 100000000"

record ('f, 'm) timer_func =
  next_at :: int
  interval :: int
  times :: int
  tfunction :: 'f
  tmsg :: 'm

datatype ('f, 'm) job =
  TickSplit | CheckSecond | SplitSecond | CheckThird | Run "('f, 'm) timer_func" | Put "('f, 'm) timer_func"

record ('f, 'm) timers =
  firstCache :: "('f, 'm) timer_func list"
  secondCache :: "('f, 'm) timer_func list"
  thirdCache :: "('f, 'm) timer_func list"
  secondCount :: int
  thirdCount :: int
  level :: int
  jobs :: "('f, 'm) job list"
  ran :: "(('f \<times> 'm) \<times> int \<times> int) list"
  clk :: int
  lastTick :: int

definition first_cut :: int where "first_cut = 5 * basicNumber"
definition second_cut :: int where "second_cut = 25 * basicNumber"

definition horizon :: "int \<Rightarrow> int \<Rightarrow> ('f, 'm) timers \<Rightarrow> int" where
  "horizon cutNo now s = wrap_int64 (now + wrap_int64 (cutNo * level s))"

definition InitTicker :: "int \<Rightarrow> int \<Rightarrow> ('f, 'm) timers" where
  "InitTicker itv now =
     \<lparr>firstCache = [], secondCache = [], thirdCache = [], secondCount = 0, thirdCount = 0,
      level = (if itv > 0 then itv else 5), jobs = [], ran = [], clk = now, lastTick = now\<rparr>"

fun TimeSplit :: "('f, 'm) timer_func list \<Rightarrow> int \<Rightarrow> ('f, 'm) timer_func list \<times> ('f, 'm) timer_func list" where
  "TimeSplit [] timestamp = ([], [])"
| "TimeSplit (row # rows) timestamp =
     (let (mins, maxs) = TimeSplit rows timestamp in
      if next_at row \<le> timestamp then (row # mins, maxs) else (mins, row # maxs))"

definition putInto :: "int \<Rightarrow> ('f, 'm) timer_func \<Rightarrow> ('f, 'm) timers \<Rightarrow> ('f, 'm) timers" where
  "putInto now data s =
     (if next_at data \<le> horizon first_cut now s then s\<lparr>firstCache := firstCache s @ [data]\<rparr>
      else if next_at data > horizon second_cut now s then s\<lparr>thirdCache := thirdCache s @ [data]\<rparr>
      else s\<lparr>secondCache := secondCache s @ [data]\<rparr>)"

definition call_function :: "int \<Rightarrow> ('f, 'm) timer_func \<Rightarrow> ('f, 'm) timers \<Rightarrow> ('f, 'm) timers" where
  "call_function now data s = s\<lparr>ran := ran s @ [((tfunction data, tmsg data), next_at data, now)]\<rparr>"

definition run_timer :: "int \<Rightarrow> ('f, 'm) timer_func \<Rightarrow> ('f, 'm) timers \<Rightarrow> ('f, 'm) timers" where
  "run_timer now data s =
     (if times data = 0 then s
      else if times data = 1 then call_function now data s
      else
        let data1 = (if times data = - 1 then data else data\<lparr>times := times data - 1\<rparr>);
            data2 = data1\<lparr>next_at := wrap_int64 (next_at data + interval data)\<rparr>
        in call_function now data (s\<lparr>jobs := jobs s @ [Put data2]\<rparr>))"

text \<open>The ticker: counting, and then taking out what is due.\<close>

definition tick_count :: "int \<Rightarrow> ('f, 'm) timers \<Rightarrow> ('f, 'm) timers" where
  "tick_count now s =
     (if secondCount s + 1 \<ge> 4 then s\<lparr>secondCount := 0, jobs := jobs s @ [CheckSecond, TickSplit], lastTick := now\<rparr>
      else s\<lparr>secondCount := secondCount s + 1, jobs := jobs s @ [TickSplit], lastTick := now\<rparr>)"

definition tick_split :: "int \<Rightarrow> ('f, 'm) timers \<Rightarrow> ('f, 'm) timers" where
  "tick_split now s =
     (let (mins, maxs) = TimeSplit (firstCache s) now in s\<lparr>firstCache := maxs, jobs := jobs s @ map Run mins\<rparr>)"

text \<open>\<^verbatim>\<open>checkSecondCache\<close>, in two parts, and \<^verbatim>\<open>checkThirdCache\<close>.\<close>

definition checkSecond_count :: "('f, 'm) timers \<Rightarrow> ('f, 'm) timers" where
  "checkSecond_count s =
     (if thirdCount s + 1 \<ge> 5 then s\<lparr>thirdCount := 0, jobs := jobs s @ [CheckThird, SplitSecond]\<rparr>
      else s\<lparr>thirdCount := thirdCount s + 1, jobs := jobs s @ [SplitSecond]\<rparr>)"

definition checkSecond_split :: "int \<Rightarrow> ('f, 'm) timers \<Rightarrow> ('f, 'm) timers" where
  "checkSecond_split now s =
     (let (mins, maxs) = TimeSplit (secondCache s) (horizon first_cut now s)
      in s\<lparr>firstCache := firstCache s @ mins, secondCache := maxs\<rparr>)"

definition checkThirdCache :: "int \<Rightarrow> ('f, 'm) timers \<Rightarrow> ('f, 'm) timers" where
  "checkThirdCache now s =
     (let (mins, maxs) = TimeSplit (thirdCache s) (horizon second_cut now s)
      in s\<lparr>secondCache := secondCache s @ mins, thirdCache := maxs\<rparr>)"

fun do_job :: "int \<Rightarrow> ('f, 'm) job \<Rightarrow> ('f, 'm) timers \<Rightarrow> ('f, 'm) timers" where
  "do_job now TickSplit s = tick_split now s"
| "do_job now CheckSecond s = checkSecond_count s"
| "do_job now SplitSecond s = checkSecond_split now s"
| "do_job now CheckThird s = checkThirdCache now s"
| "do_job now (Run data) s = run_timer now data s"
| "do_job now (Put data) s = putInto now data s"

text \<open>New timers.\<close>

definition NewRunDuration :: "int \<Rightarrow> int \<Rightarrow> int \<Rightarrow> 'm \<Rightarrow> 'f \<Rightarrow> ('f, 'm) timers \<Rightarrow> ('f, 'm) timers" where
  "NewRunDuration now duration tms m f s =
     (if tms = 0 then s
      else
        putInto now \<lparr>next_at = wrap_int64 (now + duration), interval = duration, times = (if tms < 0 then - 1 else tms),
          tfunction = f, tmsg = m\<rparr> s)"

definition NewRunTime :: "int \<Rightarrow> int \<Rightarrow> 'm \<Rightarrow> 'f \<Rightarrow> ('f, 'm) timers \<Rightarrow> ('f, 'm) timers" where
  "NewRunTime now timestamp m f s =
     putInto now \<lparr>next_at = timestamp, interval = 0, times = 1, tfunction = f, tmsg = m\<rparr> s"

text \<open>\<open>None\<close> as a result is a call that does not return, see \<^const>\<open>checkTime\<close>.\<close>

definition NewTimer ::
  "time_zone \<Rightarrow> int \<Rightarrow> int \<Rightarrow> string \<Rightarrow> int \<Rightarrow> bool \<Rightarrow> 'm \<Rightarrow> 'f \<Rightarrow> ('f, 'm) timers \<Rightarrow>
   (timer_error option outcome \<times> ('f, 'm) timers) option" where
  "NewTimer z now diff stamp tms run_now m f s =
     (case checkTime z now diff stamp of
        None \<Rightarrow> None
      | Some (Panic e) \<Rightarrow> Some (Panic e, s)
      | Some (Ret (Inl err)) \<Rightarrow> Some (Ret (Some err), s)
      | Some (Ret (Inr (nxt, itv))) \<Rightarrow>
          if tms = 0 then Some (Ret (Some (TimerErr ''ticker run times can not be zero'')), s)
          else
            let tms1 = (if tms < 0 then - 1 else tms);
                data = \<lparr>next_at = nxt, interval = itv, times = tms1, tfunction = f, tmsg = m\<rparr>;
                s1 = (if run_now then call_function now (data\<lparr>next_at := now\<rparr>) s else s)
            in if run_now \<and> tms1 = 1 then Some (Ret None, s1)
               else Some (Ret None, putInto now (if run_now \<and> tms1 \<noteq> - 1 then data\<lparr>times := tms1 - 1\<rparr> else data) s1))"


section \<open>Executions\<close>

datatype ('f, 'm) timer_event =
  EvTick int
| EvJob int
| EvDuration int int int "'f \<times> 'm"
| EvTime int int "'f \<times> 'm"
| EvTimer time_zone int int string int bool "'f \<times> 'm"

text \<open>The ticker is one goroutine: it counts a tick only when it is done with the last.\<close>

inductive timer_step :: "('f, 'm) timer_event \<Rightarrow> ('f, 'm) timers \<Rightarrow> ('f, 'm) timers \<Rightarrow> bool" where
  tick: "clk s \<le> now \<Longrightarrow> TickSplit \<notin> set (jobs s) \<Longrightarrow> timer_step (EvTick now) s (tick_count now (s\<lparr>clk := now\<rparr>))"
| job: "clk s \<le> now \<Longrightarrow> jobs s = js @ j # js' \<Longrightarrow> timer_step (EvJob now) s (do_job now j (s\<lparr>jobs := js @ js', clk := now\<rparr>))"
| duration: "clk s \<le> now \<Longrightarrow> timer_step (EvDuration now d tms fm) s (NewRunDuration now d tms (snd fm) (fst fm) (s\<lparr>clk := now\<rparr>))"
| at_time: "clk s \<le> now \<Longrightarrow> timer_step (EvTime now t fm) s (NewRunTime now t (snd fm) (fst fm) (s\<lparr>clk := now\<rparr>))"
| timer: "clk s \<le> now \<Longrightarrow> NewTimer z now diff stamp tms r (snd fm) (fst fm) (s\<lparr>clk := now\<rparr>) = Some (res, s') \<Longrightarrow>
    timer_step (EvTimer z now diff stamp tms r fm) s s'"

inductive_cases timer_stepE: "timer_step e s t"


section \<open>How often a function is called\<close>

text \<open>The timers of a state, wherever they are.\<close>

fun job_timers :: "('f, 'm) job \<Rightarrow> ('f, 'm) timer_func multiset" where
  "job_timers (Run data) = {#data#}"
| "job_timers (Put data) = {#data#}"
| "job_timers _ = {#}"

definition pool :: "('f, 'm) timers \<Rightarrow> ('f, 'm) timer_func multiset" where
  "pool s = mset (firstCache s) + mset (secondCache s) + mset (thirdCache s) + (\<Sum>j\<leftarrow>jobs s. job_timers j)"

abbreviation target :: "('f, 'm) timer_func \<Rightarrow> 'f \<times> 'm" where
  "target data \<equiv> (tfunction data, tmsg data)"

text \<open>The runs that the timers of a function have left, and the calls made of it.\<close>

definition runs_left :: "'f \<times> 'm \<Rightarrow> ('f, 'm) timers \<Rightarrow> nat" where
  "runs_left x s = (\<Sum>data\<in>#pool s. if target data = x then nat (times data) else 0)"

definition calls_of :: "'f \<times> 'm \<Rightarrow> ('f, 'm) timers \<Rightarrow> nat" where
  "calls_of x s = length (filter (\<lambda>e. fst e = x) (ran s))"

definition counted :: "'f \<times> 'm \<Rightarrow> ('f, 'm) timers \<Rightarrow> bool" where
  "counted x s \<longleftrightarrow> (\<forall>data. data \<in># pool s \<longrightarrow> target data = x \<longrightarrow> 0 \<le> times data)"

text \<open>The runs that a caller asks for, and whether it asks for runs without end.\<close>

definition accepted :: "time_zone \<Rightarrow> int \<Rightarrow> int \<Rightarrow> string \<Rightarrow> bool" where
  "accepted z now diff stamp = (case checkTime z now diff stamp of Some (Ret (Inr _)) \<Rightarrow> True | _ \<Rightarrow> False)"

fun requested :: "'f \<times> 'm \<Rightarrow> ('f, 'm) timer_event \<Rightarrow> nat" where
  "requested x (EvDuration now d tms fm) = (if fm = x then nat tms else 0)"
| "requested x (EvTime now t fm) = (if fm = x then 1 else 0)"
| "requested x (EvTimer z now diff stamp tms r fm) = (if fm = x \<and> accepted z now diff stamp then nat tms else 0)"
| "requested x _ = 0"

fun endless :: "'f \<times> 'm \<Rightarrow> ('f, 'm) timer_event \<Rightarrow> bool" where
  "endless x (EvDuration now d tms fm) \<longleftrightarrow> fm = x \<and> tms < 0"
| "endless x (EvTimer z now diff stamp tms r fm) \<longleftrightarrow> fm = x \<and> tms < 0"
| "endless x _ \<longleftrightarrow> False"

lemma TimeSplit_filter: "TimeSplit rows t = (filter (\<lambda>r. next_at r \<le> t) rows, filter (\<lambda>r. \<not> next_at r \<le> t) rows)"
  by (induction rows) auto

lemma pool_putInto [simp]: "pool (putInto now data s) = add_mset data (pool s)"
  by (simp add: putInto_def pool_def)

lemma ran_putInto [simp]: "ran (putInto now data s) = ran s"
  by (simp add: putInto_def)

lemma pool_clk [simp]: "pool (s\<lparr>clk := t\<rparr>) = pool s" "pool (call_function now data s) = pool s"
  by (simp_all add: pool_def call_function_def)

lemma pool_remove: "jobs s = js @ j # js' \<Longrightarrow> pool s = pool (s\<lparr>jobs := js @ js', clk := t\<rparr>) + job_timers j"
  by (simp add: pool_def)

lemma sum_job_timers_Run [simp]: "sum_list (map (job_timers \<circ> Run) xs) = mset xs"
  by (induction xs) auto

lemma pool_move:
  "pool (tick_count now s) = pool s" "pool (tick_split now s) = pool s" "pool (checkSecond_count s) = pool s"
  "pool (checkSecond_split now s) = pool s" "pool (checkThirdCache now s) = pool s"
  using multiset_partition [of "mset (firstCache s)" "\<lambda>r. next_at r \<le> now"]
    multiset_partition [of "mset (secondCache s)" "\<lambda>r. next_at r \<le> horizon first_cut now s"]
    multiset_partition [of "mset (thirdCache s)" "\<lambda>r. next_at r \<le> horizon second_cut now s"]
  by (simp_all add: tick_count_def tick_split_def checkSecond_count_def checkSecond_split_def checkThirdCache_def
      TimeSplit_filter pool_def ac_simps)

lemma ran_move:
  "ran (tick_count now s) = ran s" "ran (tick_split now s) = ran s" "ran (checkSecond_count s) = ran s"
  "ran (checkSecond_split now s) = ran s" "ran (checkThirdCache now s) = ran s"
  by (simp_all add: tick_count_def tick_split_def checkSecond_count_def checkSecond_split_def checkThirdCache_def TimeSplit_filter)

text \<open>What is conserved, and the functions that do not change it.\<close>

definition runs_total :: "'f \<times> 'm \<Rightarrow> ('f, 'm) timers \<Rightarrow> nat" where
  "runs_total x s = calls_of x s + runs_left x s"

lemma total_cong: "pool s = pool t \<Longrightarrow> ran s = ran t \<Longrightarrow> runs_total x s = runs_total x t \<and> counted x s = counted x t"
  by (simp add: runs_total_def calls_of_def runs_left_def counted_def)

lemma total_call: "runs_total x (call_function now data s) = runs_total x s + (if target data = x then 1 else 0)"
  by (simp add: runs_total_def calls_of_def runs_left_def call_function_def pool_def)

lemma total_add:
  assumes "pool t = add_mset data (pool s)" "ran t = ran s"
  shows "runs_total x t = runs_total x s + (if target data = x then nat (times data) else 0)"
    and "counted x t \<longleftrightarrow> counted x s \<and> (target data = x \<longrightarrow> 0 \<le> times data)"
  using assms by (auto simp: runs_total_def calls_of_def runs_left_def counted_def)

lemma total_put:
  "runs_total x (putInto now data s) = runs_total x s + (if target data = x then nat (times data) else 0)"
  "counted x (putInto now data s) \<longleftrightarrow> counted x s \<and> (target data = x \<longrightarrow> 0 \<le> times data)"
  by (rule total_add; simp)+

lemma total_clk [simp]: "runs_total x (s\<lparr>clk := now\<rparr>) = runs_total x s" "counted x (s\<lparr>clk := now\<rparr>) = counted x s"
  using total_cong [of "s\<lparr>clk := now\<rparr>" s x] by simp_all

lemma counted_call [simp]: "counted x (call_function now data s) = counted x s"
  by (simp add: counted_def)

lemma run_timer_total:
  assumes "target data = x \<longrightarrow> 0 \<le> times data"
  shows "runs_total x (run_timer now data s) = runs_total x s + (if target data = x then nat (times data) else 0)"
    and "counted x (run_timer now data s) = counted x s"
proof -
  define data2 where "data2 = (if times data = - 1 then data else data\<lparr>times := times data - 1\<rparr>)\<lparr>next_at := wrap_int64 (next_at data + interval data)\<rparr>"
  let ?s = "s\<lparr>jobs := jobs s @ [Put data2]\<rparr>"
  have p: "pool ?s = add_mset data2 (pool s)" "ran ?s = ran s" by (simp_all add: pool_def)
  have d: "target data2 = target data" "times data2 = (if times data = - 1 then - 1 else times data - 1)"
    by (simp_all add: data2_def)
  have r: "run_timer now data s =
      (if times data = 0 then s else if times data = 1 then call_function now data s else call_function now data ?s)"
    by (simp add: run_timer_def data2_def)
  show "runs_total x (run_timer now data s) = runs_total x s + (if target data = x then nat (times data) else 0)"
    unfolding r using assms total_add(1) [OF p, of x] by (auto simp: total_call d)
  show "counted x (run_timer now data s) = counted x s"
    unfolding r using assms total_add(2) [OF p, of x] by (auto simp: d)
qed

lemma timer_job_total:
  assumes "jobs s = js @ j # js'" "counted x s"
  shows "runs_total x (do_job now j (s\<lparr>jobs := js @ js', clk := now\<rparr>)) = runs_total x s \<and> counted x (do_job now j (s\<lparr>jobs := js @ js', clk := now\<rparr>))"
proof -
  let ?s = "s\<lparr>jobs := js @ js', clk := now\<rparr>"
  note p = pool_remove [OF assms(1), of now]
  have run_put: ?thesis if "job_timers j = {#data#}" "j = Run data \<or> j = Put data" for data
  proof -
    have add: "pool s = add_mset data (pool ?s)" "ran s = ran ?s" using p that(1) by simp_all
    note t = total_add [OF add, of x]
    then have "target data = x \<longrightarrow> 0 \<le> times data" using assms(2) by simp
    with that(2) t assms(2) show ?thesis
      using run_timer_total [of data x now ?s] by (auto simp: total_put)
  qed
  have other: ?thesis if "job_timers j = {#}"
  proof -
    have "pool (do_job now j ?s) = pool s" "ran (do_job now j ?s) = ran s"
      using that p by (cases j; simp add: pool_move ran_move)+
    from total_cong [OF this] assms(2) show ?thesis by simp
  qed
  show ?thesis using run_put other by (cases j) auto
qed

lemma NewTimer_total:
  assumes "NewTimer z now diff stamp tms r (snd fm) (fst fm) s = Some (res, s')" "\<not> (fm = x \<and> tms < 0)" "counted x s"
  shows "runs_total x s' = runs_total x s + (if fm = x \<and> accepted z now diff stamp then nat tms else 0) \<and> counted x s'"
proof (cases "\<exists>nxt itv. checkTime z now diff stamp = Some (Ret (Inr (nxt, itv)))")
  case False
  then have "s' = s" using assms(1) by (auto simp: NewTimer_def split: option.splits outcome.splits sum.splits)
  moreover have "\<not> accepted z now diff stamp" using False by (auto simp: accepted_def split: option.splits outcome.splits sum.splits)
  ultimately show ?thesis using assms(3) by simp
next
  case True
  then obtain nxt itv where c: "checkTime z now diff stamp = Some (Ret (Inr (nxt, itv)))" by blast
  then have acc: "accepted z now diff stamp" by (simp add: accepted_def)
  define data where "data = \<lparr>next_at = nxt, interval = itv, times = (if tms < 0 then - 1 else tms), tfunction = fst fm, tmsg = snd fm\<rparr>"
  let ?s1 = "call_function now (data\<lparr>next_at := now\<rparr>) s"
  have d: "target data = fm" "times data = (if tms < 0 then - 1 else tms)" by (simp_all add: data_def)
  have s': "s' = (if tms = 0 then s else if r \<and> tms = 1 then ?s1
      else if r then putInto now (if tms < 0 then data else data\<lparr>times := tms - 1\<rparr>) ?s1 else putInto now data s)"
    using assms(1) by (auto simp: NewTimer_def c data_def split: if_splits)
  show ?thesis using assms(2,3) acc d by (auto simp: s' total_put total_call)
qed

lemma timer_step_total:
  assumes "timer_step e s t" "\<not> endless x e" "counted x s"
  shows "runs_total x t = runs_total x s + requested x e \<and> counted x t"
  using assms(1)
proof cases
  case (tick now)
  have "pool t = pool s" "ran t = ran s" using tick by (simp_all add: pool_move ran_move)
  from total_cong [OF this, of x] show ?thesis using assms(3) tick(1) by simp
next
  case (job now js j js')
  then show ?thesis using timer_job_total [OF job(4) assms(3)] by simp
next
  case (duration now d tms fm)
  then show ?thesis using assms(2,3)
by (auto simp: NewRunDuration_def total_put)
next
  case (at_time now tm fm)
  then show ?thesis using assms(3) by (auto simp: NewRunTime_def total_put)
next
  case (timer now z diff stamp tms r fm res)
  from NewTimer_total [OF timer(3), of x] assms(2,3) timer(1) show ?thesis by simp
qed

section \<open>No call is early\<close>

definition not_early :: "('f, 'm) timers \<Rightarrow> bool" where
  "not_early s \<longleftrightarrow> (\<forall>data. Run data \<in> set (jobs s) \<longrightarrow> next_at data \<le> clk s) \<and> (\<forall>e\<in>set (ran s). fst (snd e) \<le> snd (snd e))"

lemma putInto_keeps [simp]:
  "jobs (putInto now data s) = jobs s" "clk (putInto now data s) = clk s" "level (putInto now data s) = level s"
  "lastTick (putInto now data s) = lastTick s" "secondCount (putInto now data s) = secondCount s" "thirdCount (putInto now data s) = thirdCount s"
  by (simp_all add: putInto_def)

lemma not_early_call: "not_early s \<Longrightarrow> next_at data \<le> now \<Longrightarrow> not_early (call_function now data s)"
  by (auto simp: not_early_def call_function_def)

lemma not_early_put [simp]: "not_early (putInto now data s) = not_early s"
  by (simp add: not_early_def)

lemma not_early_run: "not_early s \<Longrightarrow> next_at data \<le> now \<Longrightarrow> not_early (run_timer now data s)"
  by (auto simp: run_timer_def Let_def not_early_def call_function_def)

lemma not_early_job:
  assumes "not_early s" "clk s \<le> now" "jobs s = js @ j # js'"
  shows "not_early (do_job now j (s\<lparr>jobs := js @ js', clk := now\<rparr>))"
proof -
  let ?s = "s\<lparr>jobs := js @ js', clk := now\<rparr>"
  have e: "not_early ?s" using assms by (fastforce simp: not_early_def)
  show ?thesis
  proof (cases j)
    case (Run data)
    then have "next_at data \<le> now" using assms by (auto simp: not_early_def)
    with Run e show ?thesis by (simp add: not_early_run)
  qed (use e in \<open>auto simp: not_early_def tick_split_def checkSecond_count_def checkSecond_split_def checkThirdCache_def TimeSplit_filter\<close>)
qed

lemma not_early_NewTimer: "NewTimer z now diff stamp tms r m f s = Some (res, s') \<Longrightarrow> not_early s \<Longrightarrow> not_early s'"
  by (auto simp: NewTimer_def Let_def intro!: not_early_call split: option.splits outcome.splits sum.splits if_splits)

lemma not_early_step: "timer_step e s t \<Longrightarrow> not_early s \<Longrightarrow> not_early t"
proof (induction rule: timer_step.induct)
  case (tick s now)
  then show ?case by (fastforce simp: not_early_def tick_count_def)
next
  case (job s now js j js')
  then show ?case by (rule_tac not_early_job)
next
  case (duration s now d tms fm)
  then show ?case by (fastforce simp: NewRunDuration_def not_early_def)
next
  case (at_time s now tm fm)
  then show ?case by (fastforce simp: NewRunTime_def not_early_def)
next
  case (timer s now z diff stamp tms r fm res s')
  then have "not_early (s\<lparr>clk := now\<rparr>)" by (fastforce simp: not_early_def)
  with timer(2) show ?case by (rule not_early_NewTimer)
qed

interpretation early: step_system "\<lambda>s. \<exists>itv t0. s = InitTicker itv t0" timer_step not_early
proof
  show "not_early s" if "\<exists>itv t0. s = InitTicker itv t0" for s :: "('f, 'm) timers"
    using that by (auto simp: not_early_def InitTicker_def)
qed (rule not_early_step)

lemma run_total:
  "run timer_step s es t \<Longrightarrow> \<forall>e\<in>set es. \<not> endless x e \<Longrightarrow> counted x s \<Longrightarrow>
   runs_total x t = runs_total x s + (\<Sum>e\<leftarrow>es. requested x e)"
  by (induction rule: run.induct) (auto dest!: timer_step_total)

text \<open>
  C11. A function is called exactly as often as its timers ask for, in every interleaving of the
  ticker, the goroutines and the callers: what has been called and what waits, in
  the three lists or in a goroutine, adds up to the runs asked for. So a timer is neither lost nor
  doubled when it moves between the lists, and no call is made before it is due.
\<close>

theorem timer_runs_exactly:
  assumes "run timer_step (InitTicker itv t0) es s" and "\<forall>e\<in>set es. \<not> endless x e"
  shows "calls_of x s + runs_left x s = (\<Sum>e\<leftarrow>es. requested x e) \<and>
    (\<forall>y due t. (y, due, t) \<in> set (ran s) \<longrightarrow> due \<le> t)"
proof
  have "counted x (InitTicker itv t0)" "runs_total x (InitTicker itv t0) = 0"
    by (simp_all add: counted_def runs_total_def calls_of_def runs_left_def pool_def InitTicker_def)
  with run_total [OF assms] show "calls_of x s + runs_left x s = (\<Sum>e\<leftarrow>es. requested x e)"
    by (simp add: runs_total_def)
  have "not_early s" by (rule early.reachable_inv [OF _ assms(1)]) blast
  then show "\<forall>y due t. (y, due, t) \<in> set (ran s) \<longrightarrow> due \<le> t" by (force simp: not_early_def)
qed

definition demo_events :: "(nat, nat) timer_event list" where
  "demo_events = [EvDuration 0 100000000 2 (7, 8), EvTick 100000000, EvJob 100000000, EvJob 100000000]"

definition demo_timer :: "(nat, nat) timer_func" where
  "demo_timer = \<lparr>next_at = 100000000, interval = 100000000, times = 2, tfunction = 7, tmsg = 8\<rparr>"

definition demo_put :: "(nat, nat) timers" where
  "demo_put = NewRunDuration 0 100000000 2 8 7 ((InitTicker 1 0)\<lparr>clk := 0\<rparr>)"

definition demo_tick :: "(nat, nat) timers" where
  "demo_tick = tick_count 100000000 (demo_put\<lparr>clk := 100000000\<rparr>)"

definition demo_split :: "(nat, nat) timers" where
  "demo_split = do_job 100000000 TickSplit (demo_tick\<lparr>jobs := [] @ [], clk := 100000000\<rparr>)"

definition demo_ran :: "(nat, nat) timers" where
  "demo_ran = do_job 100000000 (Run demo_timer) (demo_split\<lparr>jobs := [] @ [], clk := 100000000\<rparr>)"

lemma demo_put_eq: "demo_put = \<lparr>firstCache = [demo_timer], secondCache = [], thirdCache = [], secondCount = 0, thirdCount = 0,
    level = 1, jobs = [], ran = [], clk = 0, lastTick = 0\<rparr>"
  by (simp add: demo_put_def NewRunDuration_def putInto_def InitTicker_def horizon_def first_cut_def demo_timer_def min_int64_def max_int64_def)

lemma demo_split_jobs: "jobs demo_tick = [TickSplit]" "jobs demo_split = [Run demo_timer]" "clk demo_split = 100000000" "ran demo_split = []"
  by (simp_all add: demo_split_def demo_tick_def demo_put_eq tick_count_def tick_split_def) (simp_all add: demo_timer_def)

lemma demo_put_step: "timer_step (EvDuration 0 100000000 2 (7, 8)) (InitTicker 1 0) demo_put"
  using timer_step.duration [of "InitTicker 1 0" 0 100000000 2 "(7, 8)"] by (simp add: InitTicker_def demo_put_def)

lemma demo_run: "run timer_step (InitTicker 1 0) demo_events demo_ran"
proof -
  have 2: "timer_step (EvTick 100000000) demo_put demo_tick"
    unfolding demo_tick_def by (rule timer_step.tick) (simp_all add: demo_put_eq)
  have 3: "timer_step (EvJob 100000000) demo_tick demo_split"
    unfolding demo_split_def by (rule timer_step.job) (simp_all add: demo_split_jobs, simp add: demo_tick_def demo_put_eq tick_count_def)
  have 4: "timer_step (EvJob 100000000) demo_split demo_ran"
    unfolding demo_ran_def by (rule timer_step.job) (simp_all add: demo_split_jobs)
  from demo_put_step 2 3 4 show ?thesis unfolding demo_events_def by (blast intro: run_cons run_nil)
qed

theorem timer_runs_exactly_witness: "calls_of (7, 8) demo_ran = 1 \<and> calls_of (7, 8) demo_ran + runs_left (7, 8) demo_ran = 2"
proof
  show "calls_of (7, 8) demo_ran = 1"
    using demo_split_jobs by (simp add: demo_ran_def run_timer_def call_function_def calls_of_def demo_timer_def Let_def)
  show "calls_of (7, 8) demo_ran + runs_left (7, 8) demo_ran = 2"
    using timer_runs_exactly [OF demo_run, of "(7, 8)"] by (simp add: demo_events_def)
qed


section \<open>No call is late\<close>

text \<open>
  The ticker as it is meant to run: the goroutines of a tick are done before the next tick,
  which comes no more than the interval later, and the clock is far from its end.
\<close>

definition period :: "('f, 'm) timers \<Rightarrow> int" where
  "period s = basicNumber * level s"

definition timely_step :: "('f, 'm) timer_event \<Rightarrow> ('f, 'm) timers \<Rightarrow> ('f, 'm) timers \<Rightarrow> bool" where
  "timely_step e s t \<longleftrightarrow> timer_step e s t \<and> clk t + 25 * period t \<le> max_int64 \<and>
     (\<forall>now. e = EvTick now \<longrightarrow> jobs s = [] \<and> now \<le> lastTick s + period s)"

text \<open>
  The checks that have been started and are not done, and how many intervals the timers of the second
  and the third list are at least ahead of the last tick.
\<close>

fun is_check :: "('f, 'm) job \<Rightarrow> bool" where
  "is_check CheckSecond = True"
| "is_check SplitSecond = True"
| "is_check CheckThird = True"
| "is_check _ = False"

definition checks :: "('f, 'm) timers \<Rightarrow> ('f, 'm) job list" where
  "checks s = filter is_check (jobs s)"

definition ahead2 :: "('f, 'm) timers \<Rightarrow> int" where
  "ahead2 s = (if CheckSecond \<in> set (checks s) \<or> SplitSecond \<in> set (checks s) then 0 else 4 - secondCount s)"

definition ahead3 :: "('f, 'm) timers \<Rightarrow> int" where
  "ahead3 s =
     (if CheckSecond \<in> set (checks s) then (5 - thirdCount s) * 4
      else if CheckThird \<in> set (checks s) then 4
      else (5 - thirdCount s) * 4 - secondCount s + 4)"

definition checks_ok :: "('f, 'm) timers \<Rightarrow> bool" where
  "checks_ok s \<longleftrightarrow>
     0 \<le> secondCount s \<and> secondCount s \<le> 3 \<and> 0 \<le> thirdCount s \<and> thirdCount s \<le> 4 \<and>
     checks s \<in> {[], [CheckSecond], [SplitSecond], [CheckThird], [CheckThird, SplitSecond]} \<and>
     (checks s = [] \<or> secondCount s = 0)"

definition on_time :: "('f, 'm) timers \<Rightarrow> bool" where
  "on_time s \<longleftrightarrow> 0 < level s \<and> 0 \<le> lastTick s \<and> lastTick s \<le> clk s \<and> checks_ok s \<and>
     (\<forall>data\<in>set (secondCache s). lastTick s + ahead2 s * period s < next_at data) \<and>
     (\<forall>data\<in>set (thirdCache s). lastTick s + ahead3 s * period s < next_at data)"

lemma horizon_eq:
  assumes "0 < level s" "0 \<le> now" "now + 25 * period s \<le> max_int64"
  shows "horizon first_cut now s = now + 5 * period s" "horizon second_cut now s = now + 25 * period s"
proof -
  have "0 < period s" "first_cut * level s = 5 * period s" "second_cut * level s = 25 * period s"
    using assms(1) by (simp_all add: period_def first_cut_def second_cut_def)
  with assms(2,3) show "horizon first_cut now s = now + 5 * period s" "horizon second_cut now s = now + 25 * period s"
    by (simp_all add: horizon_def min_int64_def)
qed

lemma ahead_le: "checks_ok s \<Longrightarrow> ahead2 s \<le> 4" "checks_ok s \<Longrightarrow> ahead3 s \<le> 24"
  by (auto simp: checks_ok_def ahead2_def ahead3_def)

text \<open>What is put into a list, or left in it by a check, is far enough ahead.\<close>

lemma far_ahead:
  assumes "0 < level s" "checks_ok s" "lastTick s \<le> now"
  shows "now + 5 * period s < n \<Longrightarrow> lastTick s + ahead2 s * period s < n"
    and "now + 25 * period s < n \<Longrightarrow> lastTick s + ahead3 s * period s < n"
proof -
  have p: "0 < period s" using assms(1) by (simp add: period_def)
  have "ahead2 s * period s \<le> 4 * period s" "ahead3 s * period s \<le> 24 * period s"
    using p ahead_le [OF assms(2)] by (simp_all only: mult_right_mono less_imp_le)
  with p assms(3) show "now + 5 * period s < n \<Longrightarrow> lastTick s + ahead2 s * period s < n"
    "now + 25 * period s < n \<Longrightarrow> lastTick s + ahead3 s * period s < n" by linarith+
qed

lemma on_time_put:
  assumes "on_time s" "clk s = now" "now + 25 * period s \<le> max_int64"
  shows "on_time (putInto now data s)"
proof -
  have l: "0 < level s" "checks_ok s" "lastTick s \<le> now" "0 \<le> now" using assms(1,2) by (simp_all add: on_time_def)
  note h = horizon_eq [OF l(1,4) assms(3)]
  have same: "checks (putInto now data s) = checks s" "period (putInto now data s) = period s" by (simp_all add: checks_def period_def)
  have a: "ahead2 (putInto now data s) = ahead2 s" "ahead3 (putInto now data s) = ahead3 s" "checks_ok (putInto now data s) = checks_ok s"
    by (simp_all add: ahead2_def ahead3_def checks_ok_def same)
  have "set (secondCache (putInto now data s)) \<subseteq> (if now + 5 * period s < next_at data then insert data (set (secondCache s)) else set (secondCache s))"
    "set (thirdCache (putInto now data s)) \<subseteq> (if now + 25 * period s < next_at data then insert data (set (thirdCache s)) else set (thirdCache s))"
    by (auto simp: putInto_def h)
  with assms(1) far_ahead [OF l(1-3), of "next_at data"] show ?thesis
    unfolding on_time_def a same by (auto split: if_splits)
qed

text \<open>Everything that \<^const>\<open>on_time\<close> reads but the two lists.\<close>

lemma on_time_same:
  assumes "on_time s" "level t = level s" "lastTick t = lastTick s" "lastTick s \<le> clk t" "checks t = checks s"
    "secondCount t = secondCount s" "thirdCount t = thirdCount s" "secondCache t = secondCache s" "thirdCache t = thirdCache s"
  shows "on_time t"
proof -
  have "ahead2 t = ahead2 s" "ahead3 t = ahead3 s" "checks_ok t = checks_ok s" "period t = period s"
    using assms by (simp_all only: ahead2_def ahead3_def checks_ok_def period_def)
  with assms show ?thesis by (simp add: on_time_def)
qed

lemma on_time_clk: "on_time s \<Longrightarrow> lastTick s \<le> clk s"
  by (simp add: on_time_def)

lemma on_time_run: "on_time s \<Longrightarrow> on_time (run_timer now data s)"
  by (rule on_time_same [of s]) (simp_all add: run_timer_def call_function_def checks_def Let_def on_time_clk)

lemma on_time_split: "on_time s \<Longrightarrow> on_time (tick_split now s)"
  by (rule on_time_same [of s]) (simp_all add: tick_split_def TimeSplit_filter checks_def filter_map comp_def on_time_clk)

lemma on_time_checkSecond:
  assumes "on_time s" "checks s = [CheckSecond]" "checks s0 = []" "s0 = s\<lparr>jobs := js, clk := now\<rparr>" "clk s \<le> now"
  shows "on_time (checkSecond_count s0)"
proof -
  have c: "secondCount s = 0" "0 \<le> thirdCount s" "thirdCount s \<le> 4" using assms(1,2) by (simp_all add: on_time_def checks_ok_def)
  let ?t = "checkSecond_count s0"
  have "ahead2 s = 0" "ahead3 s = (5 - thirdCount s) * 4" using assms(2) by (simp_all add: ahead2_def ahead3_def)
  moreover have "checks ?t = (if thirdCount s = 4 then [CheckThird, SplitSecond] else [SplitSecond])"
    using assms(3,4) c by (auto simp: checkSecond_count_def checks_def)
  moreover from this c assms(4) have "ahead2 ?t = 0" "ahead3 ?t = (5 - thirdCount s) * 4" "checks_ok ?t"
    by (auto simp: ahead2_def ahead3_def checks_ok_def checkSecond_count_def)
  moreover have "period ?t = period s" "lastTick ?t = lastTick s" "level ?t = level s" "clk ?t = now"
    "secondCache ?t = secondCache s" "thirdCache ?t = thirdCache s"
    using assms(4) by (simp_all add: checkSecond_count_def period_def)
  ultimately show ?thesis using assms(1,5) by (simp add: on_time_def)
qed

lemma on_time_splitSecond:
  assumes "on_time s" "SplitSecond \<in> set (checks s)" "checks s0 \<in> {[], [CheckThird]}" "s0 = s\<lparr>jobs := js, clk := now\<rparr>" "clk s \<le> now"
    "checks s = [SplitSecond] \<and> checks s0 = [] \<or> checks s = [CheckThird, SplitSecond] \<and> checks s0 = [CheckThird]"
    "now + 25 * period s \<le> max_int64"
  shows "on_time (checkSecond_split now s0)"
proof -
  have l: "0 < level s0" "0 \<le> now" "lastTick s0 \<le> now" "period s0 = period s" "lastTick s0 = lastTick s"
    using assms(1,4,5) by (simp_all add: on_time_def period_def)
  let ?t = "checkSecond_split now s0"
  have c: "secondCount s = 0" "checks_ok s0" using assms(1,2,3,4) by (auto simp: on_time_def checks_ok_def)
  have third: "ahead3 s0 = ahead3 s" using assms(4,6) by (auto simp: ahead3_def)
  have same: "checks ?t = checks s0" "period ?t = period s0" "lastTick ?t = lastTick s0" "secondCount ?t = secondCount s0"
    "thirdCount ?t = thirdCount s0" "level ?t = level s0" "clk ?t = clk s0" "thirdCache ?t = thirdCache s0"
    by (simp_all add: checkSecond_split_def TimeSplit_filter checks_def period_def)
  have a: "ahead2 ?t = ahead2 s0" "ahead3 ?t = ahead3 s0" "checks_ok ?t = checks_ok s0"
    by (simp_all add: ahead2_def ahead3_def checks_ok_def same)
  have h: "horizon first_cut now s0 = now + 5 * period s0" using horizon_eq(1) [OF l(1,2)] assms(7) l(4) by simp
  have "\<forall>data\<in>set (secondCache ?t). now + 5 * period s0 < next_at data"
    by (simp add: checkSecond_split_def TimeSplit_filter h)
  then have "\<forall>data\<in>set (secondCache ?t). lastTick s0 + ahead2 s0 * period s0 < next_at data"
    using far_ahead(1) [OF l(1) c(2) l(3)] by blast
  moreover have "\<forall>data\<in>set (thirdCache s0). lastTick s0 + ahead3 s0 * period s0 < next_at data"
    using assms(1,4) l(4,5) third by (simp add: on_time_def)
  ultimately show ?thesis using assms(1,4,5) c(2) l unfolding on_time_def a same by simp
qed

lemma on_time_checkThird:
  assumes "on_time s" "s0 = s\<lparr>jobs := js, clk := now\<rparr>" "clk s \<le> now"
    "checks s = [CheckThird] \<and> checks s0 = [] \<or> checks s = [CheckThird, SplitSecond] \<and> checks s0 = [SplitSecond]"
    "now + 25 * period s \<le> max_int64"
  shows "on_time (checkThirdCache now s0)"
proof -
  have l: "0 < level s0" "0 \<le> now" "lastTick s0 \<le> now" "period s0 = period s" "lastTick s0 = lastTick s"
    using assms(1,2,3) by (simp_all add: on_time_def period_def)
  let ?t = "checkThirdCache now s0"
  have c: "secondCount s = 0" "checks_ok s0" using assms(1,2,4) by (auto simp: on_time_def checks_ok_def)
  have same: "checks ?t = checks s0" "period ?t = period s0" "lastTick ?t = lastTick s0" "secondCount ?t = secondCount s0"
    "thirdCount ?t = thirdCount s0" "level ?t = level s0" "clk ?t = clk s0"
    by (simp_all add: checkThirdCache_def TimeSplit_filter checks_def period_def)
  have a: "ahead2 ?t = ahead2 s0" "ahead3 ?t = ahead3 s0" "checks_ok ?t = checks_ok s0"
    by (simp_all add: ahead2_def ahead3_def checks_ok_def same)
  have h: "horizon second_cut now s0 = now + 25 * period s0" using horizon_eq(2) [OF l(1,2)] assms(5) l(4) by simp
  have "ahead2 s0 \<le> ahead2 s" "ahead2 s0 \<le> ahead3 s" using assms(2,4) c(1) by (auto simp: ahead2_def ahead3_def)
  then have "ahead2 s0 * period s \<le> ahead2 s * period s" "ahead2 s0 * period s \<le> ahead3 s * period s"
    using l(1,4) by (simp_all add: mult_right_mono period_def)
  then have "\<forall>data\<in>set (secondCache ?t). lastTick s0 + ahead2 s0 * period s0 < next_at data"
    using assms(1,2) l(4,5) by (fastforce simp: on_time_def checkThirdCache_def TimeSplit_filter)
  moreover have "\<forall>data\<in>set (thirdCache ?t). now + 25 * period s0 < next_at data"
    by (simp add: checkThirdCache_def TimeSplit_filter h)
  then have "\<forall>data\<in>set (thirdCache ?t). lastTick s0 + ahead3 s0 * period s0 < next_at data"
    using far_ahead(2) [OF l(1) c(2) l(3)] by blast
  ultimately show ?thesis using assms(1,2,3) c(2) l unfolding on_time_def a same by simp
qed

lemma level_step: "level (do_job now j s) = level s" "clk (do_job now j s) = clk s"
  by (cases j; simp add: tick_split_def checkSecond_count_def checkSecond_split_def checkThirdCache_def run_timer_def
      call_function_def TimeSplit_filter Let_def)+

lemma on_time_job:
  assumes "on_time s" "clk s \<le> now" "jobs s = js @ j # js'" "now + 25 * period s \<le> max_int64"
  shows "on_time (do_job now j (s\<lparr>jobs := js @ js', clk := now\<rparr>))"
proof -
  let ?s = "s\<lparr>jobs := js @ js', clk := now\<rparr>"
  have c: "checks s = filter is_check js @ (if is_check j then [j] else []) @ filter is_check js'"
    "checks ?s = filter is_check js @ filter is_check js'" using assms(3) by (simp_all add: checks_def)
  have ok: "checks s \<in> {[], [CheckSecond], [SplitSecond], [CheckThird], [CheckThird, SplitSecond]}"
    using assms(1) by (simp add: on_time_def checks_ok_def)
  show ?thesis
  proof (cases "is_check j")
    case False
    have "on_time ?s" using assms(1,2) c False on_time_clk [OF assms(1)] by (intro on_time_same [OF assms(1)]) auto
    moreover have "now + 25 * period ?s \<le> max_int64" using assms(4) by (simp add: period_def)
    ultimately show ?thesis using False by (cases j) (simp_all add: on_time_run on_time_split on_time_put)
  next
    case True
    then have check: "j = CheckSecond \<and> checks s = [CheckSecond] \<and> checks ?s = [] \<or>
      j = SplitSecond \<and> (checks s = [SplitSecond] \<and> checks ?s = [] \<or> checks s = [CheckThird, SplitSecond] \<and> checks ?s = [CheckThird]) \<or>
      j = CheckThird \<and> (checks s = [CheckThird] \<and> checks ?s = [] \<or> checks s = [CheckThird, SplitSecond] \<and> checks ?s = [SplitSecond])"
      using ok c by (cases j) (auto simp: Cons_eq_append_conv append_eq_Cons_conv)
    then show ?thesis
      using on_time_checkSecond [OF assms(1) _ _ refl assms(2), of "js @ js'"]
        on_time_splitSecond [OF assms(1) _ _ refl assms(2) _ assms(4), of "js @ js'"]
        on_time_checkThird [OF assms(1) refl assms(2) _ assms(4), of "js @ js'"] by auto
  qed
qed

lemma on_time_tick:
  assumes "on_time s" "clk s \<le> now" "jobs s = []" "now \<le> lastTick s + period s"
  shows "on_time (tick_count now (s\<lparr>clk := now\<rparr>))"
proof -
  let ?t = "tick_count now (s\<lparr>clk := now\<rparr>)"
  have c: "checks s = []" "0 \<le> secondCount s" "secondCount s \<le> 3" "checks_ok s"
    using assms(1,3) by (simp_all add: checks_def on_time_def checks_ok_def)
  have same: "period ?t = period s" "lastTick ?t = now" "level ?t = level s" "clk ?t = now"
    "secondCache ?t = secondCache s" "thirdCache ?t = thirdCache s"
    by (simp_all add: tick_count_def period_def)
  have t: "checks ?t = (if secondCount s = 3 then [CheckSecond] else [])" "thirdCount ?t = thirdCount s"
    "secondCount ?t = (if secondCount s = 3 then 0 else secondCount s + 1)"
    using assms(3) c(3) by (auto simp: tick_count_def checks_def)
  have a: "ahead2 ?t = ahead2 s - 1" "ahead3 ?t = ahead3 s - 1" "checks_ok ?t"
    using c t by (auto simp: ahead2_def ahead3_def checks_ok_def)
  have "now + (x - 1) * period s \<le> lastTick s + x * period s" for x using assms(4) by (simp add: algebra_simps)
  then have "lastTick s + x * period s < n \<Longrightarrow> now + (x - 1) * period s < n" for x n by (rule le_less_trans)
  with assms(1,2) a show ?thesis unfolding on_time_def same by auto
qed

lemma on_time_step:
  assumes "timely_step e s t" "on_time s"
  shows "on_time t"
proof -
  from assms(1) have st: "timer_step e s t" and b: "clk t + 25 * period t \<le> max_int64"
    and tk: "\<And>now. e = EvTick now \<Longrightarrow> jobs s = [] \<and> now \<le> lastTick s + period s" by (simp_all add: timely_step_def)
  have clk: "on_time (s\<lparr>clk := now\<rparr>)" if "clk s \<le> now" for now
    by (rule on_time_same [OF assms(2)]) (use that on_time_clk [OF assms(2)] in \<open>simp_all add: checks_def\<close>)
  have called: "on_time (s\<lparr>clk := now, ran := x\<rparr>)" if "clk s \<le> now" for now x
    by (rule on_time_same [OF assms(2)]) (use that on_time_clk [OF assms(2)] in \<open>simp_all add: checks_def\<close>)
  from st show ?thesis
  proof cases
    case (tick now)
    with tk [of now] show ?thesis using on_time_tick [OF assms(2)] by simp
  next
    case (job now js j js')
    with b have "now + 25 * period s \<le> max_int64" by (simp add: level_step period_def)
    with job show ?thesis using on_time_job [OF assms(2)] by simp
  next
    case (duration now d tms fm)
    with b clk [of now] show ?thesis by (auto simp: NewRunDuration_def period_def intro!: on_time_put)
  next
    case (at_time now tm fm)
    with b clk [of now] show ?thesis by (auto simp: NewRunTime_def period_def intro!: on_time_put)
  next
    case (timer now z diff stamp tms r fm res)
    with b clk [of now] show ?thesis
      by (auto simp: NewTimer_def Let_def period_def call_function_def intro!: on_time_put called
          split: option.splits outcome.splits sum.splits if_splits)
  qed
qed

interpretation timely: step_system "\<lambda>s. \<exists>itv t0. s = InitTicker itv t0 \<and> 0 \<le> t0" timely_step on_time
proof
  show "on_time s" if "\<exists>itv t0. s = InitTicker itv t0 \<and> 0 \<le> t0" for s :: "('f, 'm) timers"
    using that by (auto simp: on_time_def InitTicker_def checks_ok_def checks_def)
qed (rule on_time_step)



end
