(* ===== verification/Util_Log.thy ===== *)
theory Util_Log
  imports Go_Strings
begin

text \<open>
  The logger of \<^verbatim>\<open>util/xlog.go\<close>. A log is a record with the goroutine that writes its file: the channel
  \<^verbatim>\<open>Logs\<close> has no buffer, so a caller hands its entry over when the goroutine is idle, and waits
  otherwise. The world has the settings of the package, the queue of the screen and, in order, what
  was written to the files. Parameters are the clock, \<^verbatim>\<open>runtime.Caller\<close>, which files can be
  opened, the encoding of an entry by \<^verbatim>\<open>encoding/json\<close> and the text that \<^verbatim>\<open>fmt\<close> gives for a value.
\<close>

section \<open>Entries and their formats\<close>

datatype 'v log_any = AStr string | AVal 'v

record log_time =
  ltYear :: nat
  ltMonth :: nat
  ltDay :: nat
  ltHour :: nat
  ltMin :: nat
  ltSec :: nat
  ltNano :: nat

record 'v log_content =
  lcText :: string
  lcNow :: log_time
  lcFile :: string
  lcLine :: nat
  lcLevel :: string
  lcParam :: "'v log_any list"

abbreviation TraceLevel :: int where "TraceLevel \<equiv> 0"
abbreviation DebugLevel :: int where "DebugLevel \<equiv> 1"
abbreviation WarnLevel :: int where "WarnLevel \<equiv> 2"
abbreviation ErrorLevel :: int where "ErrorLevel \<equiv> 3"
abbreviation InfoLevel :: int where "InfoLevel \<equiv> 4"
abbreviation FatalLevel :: int where "FatalLevel \<equiv> 5"

definition logText :: "string list" where
  "logText = [''TRAC'', ''DEBU'', ''WARN'', ''ERRO'', ''INFO'', ''FATA'']"

definition esc :: string where "esc = [CHR 0x1B]"

definition logColor :: "(string \<times> string \<times> string) list" where
  "logColor =
     [(''TRAC'', [], []), (''DEBU'', esc @ ''[35m'', esc @ ''[0m''), (''WARN'', esc @ ''[34m'', esc @ ''[0m''),
      (''ERRO'', esc @ ''[31m'', esc @ ''[0m''), (''INFO'', esc @ ''[37m'', esc @ ''[0m''), (''FATA'', esc @ ''[31m'', esc @ ''[0m'')]"

text \<open>\<^verbatim>\<open>getLogTime\<close> and the time of an entry.\<close>

definition getLogTime :: "log_time \<Rightarrow> string" where
  "getLogTime t = pad 4 (ltYear t) @ ''-'' @ pad 2 (ltMonth t) @ ''-'' @ pad 2 (ltDay t)"

definition time_text :: "log_time \<Rightarrow> string" where
  "time_text t = getLogTime t @ '' '' @ pad 2 (ltHour t) @ '':'' @ pad 2 (ltMin t) @ '':'' @ pad 2 (ltSec t) @ ''.'' @ pad 6 (ltNano t div 1000)"

text \<open>The name of the file without its directories; a slash at the very start is kept.\<close>

definition short_name :: "string \<Rightarrow> string" where
  "short_name f = (case LastIndex CHR ''/'' f of Some i \<Rightarrow> if i > 0 then drop (i + 1) f else f | None \<Rightarrow> f)"

definition color_left :: "string \<Rightarrow> string" where
  "color_left lv = (case map_of logColor lv of Some (l, r) \<Rightarrow> l | None \<Rightarrow> [])"

definition color_right :: "string \<Rightarrow> string" where
  "color_right lv = (case map_of logColor lv of Some (l, r) \<Rightarrow> r | None \<Rightarrow> [])"

fun param_pairs :: "'a list \<Rightarrow> ('a \<times> 'a) list" where
  "param_pairs (k # v # ps) = (k, v) # param_pairs ps"
| "param_pairs _ = []"

definition textFormat :: "('v log_any \<Rightarrow> string) \<Rightarrow> 'v log_content \<Rightarrow> string" where
  "textFormat sh info =
     (let l = color_left (lcLevel info); r = color_right (lcLevel info);
          param = Join '' '' (map (\<lambda>(k, v). l @ sh k @ r @ ''='' @ sh v) (param_pairs (lcParam info)))
      in time_text (lcNow info) @ '' '' @ l @ lcLevel info @ r @ '' '' @ short_name (lcFile info) @ '':'' @
         FormatUint (lcLine info) @ '' '' @ lcText info @ '' ['' @ param @ '']'' @ [newline])"

definition json_params :: "('v log_any \<times> 'v log_any) list \<Rightarrow> (string, 'v log_any) gmap \<Rightarrow> (string, 'v log_any) gmap" where
  "json_params ps m = fold (\<lambda>(k, v) m. case k of AStr s \<Rightarrow> gmap_set s v m | AVal _ \<Rightarrow> m) ps m"

definition jsonFormat :: "'v log_content \<Rightarrow> (string, 'v log_any) gmap" where
  "jsonFormat info =
     json_params (param_pairs (lcParam info))
       (gmap_set ''msg'' (AStr (lcText info))
       (gmap_set ''level'' (AStr (lcLevel info))
       (gmap_set ''line'' (AStr (short_name (lcFile info) @ '':'' @ FormatUint (lcLine info)))
       (gmap_set ''time'' (AStr (time_text (lcNow info))) []))))"


section \<open>Logs\<close>

record ('v, 'p) gos_log =
  logName :: string
  logLevel :: int
  logFile :: "string option"
  logTime :: string
  logs :: "'v log_content option"
  writing :: bool
  plugin :: "'p list"

record ('v, 'p) log_world =
  logPath :: string
  logOutputScreen :: bool
  logInit :: bool
  logScreenCache :: "'v log_content list"
  screen :: "string list"
  written :: "(string \<times> bytes) list"
  plugged :: "('p \<times> (string, 'v log_any) gmap) list"
  printed :: "(string \<times> 'v log_any list) list"

text \<open>What a call does: it returns, waits for a channel, or panics.\<close>

datatype 'a log_result = LogRet 'a | LogWaits | LogPanics

definition file_name :: "string \<Rightarrow> string \<Rightarrow> string \<Rightarrow> string" where
  "file_name path name t = path @ ''/'' @ name @ ''.log.'' @ t"

definition OpenFile :: "(string \<Rightarrow> bool) \<Rightarrow> string \<Rightarrow> string option" where
  "OpenFile opens f = (if opens f then Some f else None)"

definition GosLogNewRouter :: "(string \<Rightarrow> bool) \<Rightarrow> log_time \<Rightarrow> string \<Rightarrow> ('v, 'p) log_world \<Rightarrow> ('v, 'p) gos_log option" where
  "GosLogNewRouter opens now name w =
     (if \<not> logInit w then None
      else
        let timeStr = getLogTime now in
        case OpenFile opens (file_name (logPath w) name timeStr) of
          None \<Rightarrow> None
        | Some f \<Rightarrow> Some \<lparr>logName = name, logLevel = TraceLevel, logFile = Some f, logTime = timeStr, logs = None, writing = True, plugin = []\<rparr>)"

definition WithPlugin :: "'p \<Rightarrow> ('v, 'p) gos_log \<Rightarrow> ('v, 'p) gos_log" where
  "WithPlugin f l = l\<lparr>plugin := plugin l @ [f]\<rparr>"

text \<open>The first call sets up the package; a log that cannot be opened is dereferenced.\<close>

definition GosLogInit ::
  "(string \<Rightarrow> bool) \<Rightarrow> log_time \<Rightarrow> string \<Rightarrow> string \<Rightarrow> bool \<Rightarrow> int \<Rightarrow> (('v, 'p) gos_log \<Rightarrow> ('v, 'p) gos_log) list \<Rightarrow>
   ('v, 'p) gos_log option \<times> ('v, 'p) log_world \<Rightarrow> (('v, 'p) gos_log option \<times> ('v, 'p) log_world) log_result" where
  "GosLogInit opens now name path scr lv params st =
     (let (d, w) = st in
      if logInit w then LogRet (d, w)
      else
        let w1 = w\<lparr>logOutputScreen := scr, logPath := (if path = [] then ''./log/'' else path), logInit := True\<rparr> in
        case GosLogNewRouter opens now name w1 of
          None \<Rightarrow> LogPanics
        | Some l \<Rightarrow> LogRet (Some (fold (\<lambda>f l. f l) params (l\<lparr>logLevel := lv\<rparr>)), w1))"

definition SetLevel :: "int \<Rightarrow> ('v, 'p) gos_log \<Rightarrow> ('v, 'p) gos_log" where
  "SetLevel lv l = (if lv > FatalLevel \<or> lv < TraceLevel then l\<lparr>logLevel := TraceLevel\<rparr> else l\<lparr>logLevel := lv\<rparr>)"

definition SetLogLevel :: "int \<Rightarrow> ('v, 'p) gos_log option \<Rightarrow> ('v, 'p) gos_log option log_result" where
  "SetLogLevel lv d = (case d of None \<Rightarrow> LogPanics | Some l \<Rightarrow> LogRet (Some (l\<lparr>logLevel := lv\<rparr>)))"

definition log_Free :: "('v, 'p) gos_log \<Rightarrow> ('v, 'p) gos_log log_result" where
  "log_Free l = (if writing l \<and> logs l = None then LogRet (l\<lparr>writing := False\<rparr>) else LogWaits)"

definition log_checkTime :: "(string \<Rightarrow> bool) \<Rightarrow> log_time \<Rightarrow> ('v, 'p) log_world \<Rightarrow> ('v, 'p) gos_log \<Rightarrow> ('v, 'p) gos_log" where
  "log_checkTime opens now w l =
     (let temp = getLogTime now in
      if temp = logTime l then l
      else l\<lparr>logTime := temp, logFile := OpenFile opens (file_name (logPath w) (logName l) temp)\<rparr>)"

text \<open>An iteration of the goroutine after it has received an entry.\<close>

definition write_entry ::
  "((string, 'v log_any) gmap \<Rightarrow> bytes) \<Rightarrow> (string \<Rightarrow> bool) \<Rightarrow> log_time \<Rightarrow> ('v, 'p) gos_log \<times> ('v, 'p) log_world \<Rightarrow>
   ('v, 'p) gos_log \<times> ('v, 'p) log_world" where
  "write_entry J opens now lw =
     (let (l, w) = lw in
      case logs l of
        None \<Rightarrow> (l, w)
      | Some info \<Rightarrow>
          let l1 = log_checkTime opens now w l; m = jsonFormat info;
              w1 = (case logFile l1 of Some f \<Rightarrow> w\<lparr>written := written w @ [(f, J m @ string_bytes [newline])]\<rparr> | None \<Rightarrow> w)
          in (l1\<lparr>logs := None\<rparr>, w1\<lparr>plugged := plugged w1 @ map (\<lambda>v. (v, m)) (plugin l1)\<rparr>))"

definition new_content :: "(int \<Rightarrow> (string \<times> nat) option) \<Rightarrow> log_time \<Rightarrow> int \<Rightarrow> int \<Rightarrow> string \<Rightarrow> 'v log_any list \<Rightarrow> 'v log_content" where
  "new_content caller now lv skip text v =
     (let (file, line) = (case caller skip of Some fl \<Rightarrow> fl | None \<Rightarrow> (''???'', 0)) in
      \<lparr>lcText = text, lcNow = now, lcFile = file, lcLine = line, lcLevel = logText ! nat lv, lcParam = v\<rparr>)"

definition Log ::
  "(int \<Rightarrow> (string \<times> nat) option) \<Rightarrow> log_time \<Rightarrow> int \<Rightarrow> int \<Rightarrow> string \<Rightarrow> 'v log_any list \<Rightarrow>
   ('v, 'p) gos_log \<times> ('v, 'p) log_world \<Rightarrow> (('v, 'p) gos_log \<times> ('v, 'p) log_world) log_result" where
  "Log caller now lv skip text v lw =
     (let (l, w) = lw in
      if logLevel l > lv then LogRet (l, w)
      else if lv < 0 \<or> lv \<ge> int (length logText) then LogPanics
      else
        let info = new_content caller now lv skip text v in
        if \<not> writing l \<or> logs l \<noteq> None then LogWaits
        else if \<not> logOutputScreen w then LogRet (l\<lparr>logs := Some info\<rparr>, w)
        else LogRet (l\<lparr>logs := Some info\<rparr>, w\<lparr>logScreenCache := logScreenCache w @ [info]\<rparr>))"

text \<open>
  The queue of the screen holds 1024 entries; those behind are of callers that still wait to send.
  The goroutine of the screen: the text of the entry is the format that \<^verbatim>\<open>fmt.Printf\<close> gets.
\<close>

definition print_screen :: "('v log_any \<Rightarrow> string) \<Rightarrow> (string \<Rightarrow> string) \<Rightarrow> ('v, 'p) log_world \<Rightarrow> ('v, 'p) log_world" where
  "print_screen sh Printf w =
     (case logScreenCache w of
        [] \<Rightarrow> w
      | info # rest \<Rightarrow> w\<lparr>logScreenCache := rest, screen := screen w @ [Printf (textFormat sh info)]\<rparr>)"

text \<open>The methods of a log, one per level, with the depth of the caller given or not.\<close>

type_synonym ('v, 'p) log_call = "('v, 'p) gos_log \<times> ('v, 'p) log_world \<Rightarrow> (('v, 'p) gos_log \<times> ('v, 'p) log_world) log_result"

definition log_Trace :: "(int \<Rightarrow> (string \<times> nat) option) \<Rightarrow> log_time \<Rightarrow> string \<Rightarrow> 'v log_any list \<Rightarrow> ('v, 'p) log_call" where
  "log_Trace caller now text v = Log caller now TraceLevel 3 text v"

definition log_TraceSkip :: "(int \<Rightarrow> (string \<times> nat) option) \<Rightarrow> log_time \<Rightarrow> int \<Rightarrow> string \<Rightarrow> 'v log_any list \<Rightarrow> ('v, 'p) log_call" where
  "log_TraceSkip caller now skip text v = Log caller now TraceLevel skip text v"

definition log_Debug :: "(int \<Rightarrow> (string \<times> nat) option) \<Rightarrow> log_time \<Rightarrow> string \<Rightarrow> 'v log_any list \<Rightarrow> ('v, 'p) log_call" where
  "log_Debug caller now text v = Log caller now DebugLevel 3 text v"

definition log_DebugSkip :: "(int \<Rightarrow> (string \<times> nat) option) \<Rightarrow> log_time \<Rightarrow> int \<Rightarrow> string \<Rightarrow> 'v log_any list \<Rightarrow> ('v, 'p) log_call" where
  "log_DebugSkip caller now skip text v = Log caller now DebugLevel skip text v"

definition log_Warn :: "(int \<Rightarrow> (string \<times> nat) option) \<Rightarrow> log_time \<Rightarrow> string \<Rightarrow> 'v log_any list \<Rightarrow> ('v, 'p) log_call" where
  "log_Warn caller now text v = Log caller now WarnLevel 3 text v"

definition log_WarnSkip :: "(int \<Rightarrow> (string \<times> nat) option) \<Rightarrow> log_time \<Rightarrow> int \<Rightarrow> string \<Rightarrow> 'v log_any list \<Rightarrow> ('v, 'p) log_call" where
  "log_WarnSkip caller now skip text v = Log caller now WarnLevel skip text v"

definition log_Error :: "(int \<Rightarrow> (string \<times> nat) option) \<Rightarrow> log_time \<Rightarrow> string \<Rightarrow> 'v log_any list \<Rightarrow> ('v, 'p) log_call" where
  "log_Error caller now text v = Log caller now ErrorLevel 3 text v"

definition log_ErrorSkip :: "(int \<Rightarrow> (string \<times> nat) option) \<Rightarrow> log_time \<Rightarrow> int \<Rightarrow> string \<Rightarrow> 'v log_any list \<Rightarrow> ('v, 'p) log_call" where
  "log_ErrorSkip caller now skip text v = Log caller now ErrorLevel skip text v"

definition log_Info :: "(int \<Rightarrow> (string \<times> nat) option) \<Rightarrow> log_time \<Rightarrow> string \<Rightarrow> 'v log_any list \<Rightarrow> ('v, 'p) log_call" where
  "log_Info caller now text v = Log caller now InfoLevel 3 text v"

definition log_InfoSkip :: "(int \<Rightarrow> (string \<times> nat) option) \<Rightarrow> log_time \<Rightarrow> int \<Rightarrow> string \<Rightarrow> 'v log_any list \<Rightarrow> ('v, 'p) log_call" where
  "log_InfoSkip caller now skip text v = Log caller now InfoLevel skip text v"

definition log_Fatal :: "(int \<Rightarrow> (string \<times> nat) option) \<Rightarrow> log_time \<Rightarrow> string \<Rightarrow> 'v log_any list \<Rightarrow> ('v, 'p) log_call" where
  "log_Fatal caller now text v = Log caller now FatalLevel 3 text v"

definition log_FatalSkip :: "(int \<Rightarrow> (string \<times> nat) option) \<Rightarrow> log_time \<Rightarrow> int \<Rightarrow> string \<Rightarrow> 'v log_any list \<Rightarrow> ('v, 'p) log_call" where
  "log_FatalSkip caller now skip text v = Log caller now FatalLevel skip text v"

text \<open>The functions of the package use the default log, or print when there is none.\<close>

type_synonym ('v, 'p) default_call = "('v, 'p) gos_log option \<times> ('v, 'p) log_world \<Rightarrow> (('v, 'p) gos_log option \<times> ('v, 'p) log_world) log_result"

definition on_default :: "('v, 'p) log_call \<Rightarrow> string \<Rightarrow> 'v log_any list \<Rightarrow> ('v, 'p) default_call" where
  "on_default f text v st =
     (case st of
        (None, w) \<Rightarrow> LogRet (None, w\<lparr>printed := printed w @ [(text, v)]\<rparr>)
      | (Some l, w) \<Rightarrow>
          (case f (l, w) of
             LogRet (l1, w1) \<Rightarrow> LogRet (Some l1, w1)
           | LogWaits \<Rightarrow> LogWaits
           | LogPanics \<Rightarrow> LogPanics))"

definition util_Trace :: "(int \<Rightarrow> (string \<times> nat) option) \<Rightarrow> log_time \<Rightarrow> string \<Rightarrow> 'v log_any list \<Rightarrow> ('v, 'p) default_call" where
  "util_Trace caller now text v = on_default (log_Trace caller now text v) text v"

definition util_TraceSkip :: "(int \<Rightarrow> (string \<times> nat) option) \<Rightarrow> log_time \<Rightarrow> int \<Rightarrow> string \<Rightarrow> 'v log_any list \<Rightarrow> ('v, 'p) default_call" where
  "util_TraceSkip caller now skip text v = on_default (log_TraceSkip caller now skip text v) text v"

definition util_Debug :: "(int \<Rightarrow> (string \<times> nat) option) \<Rightarrow> log_time \<Rightarrow> string \<Rightarrow> 'v log_any list \<Rightarrow> ('v, 'p) default_call" where
  "util_Debug caller now text v = on_default (log_Debug caller now text v) text v"

definition util_DebugSkip :: "(int \<Rightarrow> (string \<times> nat) option) \<Rightarrow> log_time \<Rightarrow> int \<Rightarrow> string \<Rightarrow> 'v log_any list \<Rightarrow> ('v, 'p) default_call" where
  "util_DebugSkip caller now skip text v = on_default (log_DebugSkip caller now skip text v) text v"

definition util_Warn :: "(int \<Rightarrow> (string \<times> nat) option) \<Rightarrow> log_time \<Rightarrow> string \<Rightarrow> 'v log_any list \<Rightarrow> ('v, 'p) default_call" where
  "util_Warn caller now text v = on_default (log_Warn caller now text v) text v"

definition util_WarnSkip :: "(int \<Rightarrow> (string \<times> nat) option) \<Rightarrow> log_time \<Rightarrow> int \<Rightarrow> string \<Rightarrow> 'v log_any list \<Rightarrow> ('v, 'p) default_call" where
  "util_WarnSkip caller now skip text v = on_default (log_WarnSkip caller now skip text v) text v"

definition util_Error :: "(int \<Rightarrow> (string \<times> nat) option) \<Rightarrow> log_time \<Rightarrow> string \<Rightarrow> 'v log_any list \<Rightarrow> ('v, 'p) default_call" where
  "util_Error caller now text v = on_default (log_Error caller now text v) text v"

definition util_ErrorSkip :: "(int \<Rightarrow> (string \<times> nat) option) \<Rightarrow> log_time \<Rightarrow> int \<Rightarrow> string \<Rightarrow> 'v log_any list \<Rightarrow> ('v, 'p) default_call" where
  "util_ErrorSkip caller now skip text v = on_default (log_ErrorSkip caller now skip text v) text v"

definition util_Info :: "(int \<Rightarrow> (string \<times> nat) option) \<Rightarrow> log_time \<Rightarrow> string \<Rightarrow> 'v log_any list \<Rightarrow> ('v, 'p) default_call" where
  "util_Info caller now text v = on_default (log_Info caller now text v) text v"

definition util_InfoSkip :: "(int \<Rightarrow> (string \<times> nat) option) \<Rightarrow> log_time \<Rightarrow> int \<Rightarrow> string \<Rightarrow> 'v log_any list \<Rightarrow> ('v, 'p) default_call" where
  "util_InfoSkip caller now skip text v = on_default (log_InfoSkip caller now skip text v) text v"

definition util_Fatal :: "(int \<Rightarrow> (string \<times> nat) option) \<Rightarrow> log_time \<Rightarrow> string \<Rightarrow> 'v log_any list \<Rightarrow> ('v, 'p) default_call" where
  "util_Fatal caller now text v = on_default (log_Fatal caller now text v) text v"

definition util_FatalSkip :: "(int \<Rightarrow> (string \<times> nat) option) \<Rightarrow> log_time \<Rightarrow> int \<Rightarrow> string \<Rightarrow> 'v log_any list \<Rightarrow> ('v, 'p) default_call" where
  "util_FatalSkip caller now skip text v = on_default (log_FatalSkip caller now skip text v) text v"


section \<open>What is in the files\<close>

datatype 'v log_event =
  LvLog "int \<Rightarrow> (string \<times> nat) option" log_time int int string "'v log_any list"
| LvWrite log_time

inductive log_step ::
  "((string, 'v log_any) gmap \<Rightarrow> bytes) \<Rightarrow> (string \<Rightarrow> bool) \<Rightarrow> 'v log_event \<Rightarrow>
   ('v, 'p) gos_log \<times> ('v, 'p) log_world \<Rightarrow> ('v, 'p) gos_log \<times> ('v, 'p) log_world \<Rightarrow> bool" for J opens where
  call: "Log caller now lv skip text v s = LogRet t \<Longrightarrow> log_step J opens (LvLog caller now lv skip text v) s t"
| writes: "logs (fst s) \<noteq> None \<Longrightarrow> log_step J opens (LvWrite now) s (write_entry J opens now s)"

inductive_cases log_stepE: "log_step J opens e s t"

text \<open>The entries that callers hand in, the line of an entry and what is still to be written.\<close>

fun handed :: "int \<Rightarrow> 'v log_event list \<Rightarrow> 'v log_content list" where
  "handed l [] = []"
| "handed l (LvLog caller now lv skip text v # es) =
     (if l > lv then handed l es else new_content caller now lv skip text v # handed l es)"
| "handed l (LvWrite now # es) = handed l es"

definition entry_line :: "((string, 'v log_any) gmap \<Rightarrow> bytes) \<Rightarrow> 'v log_content \<Rightarrow> bytes" where
  "entry_line J info = J (jsonFormat info) @ string_bytes [newline]"

definition pending_lines :: "((string, 'v log_any) gmap \<Rightarrow> bytes) \<Rightarrow> ('v, 'p) gos_log \<Rightarrow> bytes list" where
  "pending_lines J l = (case logs l of None \<Rightarrow> [] | Some info \<Rightarrow> [entry_line J info])"

definition log_ok :: "('v, 'p) gos_log \<times> ('v, 'p) log_world \<Rightarrow> bool" where
  "log_ok s \<longleftrightarrow> logFile (fst s) = Some (file_name (logPath (snd s)) (logName (fst s)) (logTime (fst s)))"

definition dated :: "'v log_event list \<Rightarrow> ('v, 'p) gos_log \<times> ('v, 'p) log_world \<Rightarrow> string \<Rightarrow> bool" where
  "dated es s f \<longleftrightarrow> (\<exists>now. LvWrite now \<in> set es \<and> f = file_name (logPath (snd s)) (logName (fst s)) (getLogTime now))"

lemma log_call_effect:
  assumes "Log caller now lv skip text v s = LogRet t" "log_ok s"
  shows "written (snd t) = written (snd s) \<and> log_ok t \<and> logLevel (fst t) = logLevel (fst s) \<and> logPath (snd t) = logPath (snd s) \<and>
    logName (fst t) = logName (fst s) \<and>
    pending_lines J (fst t) = pending_lines J (fst s) @ (if logLevel (fst s) > lv then [] else [entry_line J (new_content caller now lv skip text v)])"
  using assms by (cases s) (auto simp: Log_def Let_def log_ok_def pending_lines_def split: if_splits)

lemma log_write_effect:
  assumes "logs (fst s) \<noteq> None" "log_ok s" "\<forall>f. opens f"
  shows "map snd (written (snd (write_entry J opens now s))) = map snd (written (snd s)) @ pending_lines J (fst s) \<and>
    pending_lines J (fst (write_entry J opens now s)) = [] \<and> log_ok (write_entry J opens now s) \<and>
    logLevel (fst (write_entry J opens now s)) = logLevel (fst s) \<and> logPath (snd (write_entry J opens now s)) = logPath (snd s) \<and>
    logName (fst (write_entry J opens now s)) = logName (fst s) \<and>
    map fst (written (snd (write_entry J opens now s))) = map fst (written (snd s)) @ [file_name (logPath (snd s)) (logName (fst s)) (getLogTime now)]"
  using assms
  by (cases s) (auto simp: write_entry_def Let_def log_ok_def pending_lines_def log_checkTime_def OpenFile_def entry_line_def split: option.splits)

lemma log_run:
  assumes "run (log_step J opens) s es t" "log_ok s" "\<forall>f. opens f"
  shows "map snd (written (snd t)) @ pending_lines J (fst t) =
      map snd (written (snd s)) @ pending_lines J (fst s) @ map (entry_line J) (handed (logLevel (fst s)) es) \<and>
    (\<exists>fs. map fst (written (snd t)) = map fst (written (snd s)) @ fs \<and> (\<forall>f\<in>set fs. dated es s f))"
  using assms
proof (induction rule: run.induct)
  case (run_cons e s t es u)
  from run_cons.hyps(1) show ?case
  proof (cases rule: log_step.cases)
    case (call caller now lv skip tx v)
    note E = log_call_effect [OF call(2) run_cons.prems(1), of J]
    have "(\<forall>f. dated es t f \<longrightarrow> dated (e # es) s f)" using E by (auto simp: dated_def)
    with E run_cons.IH run_cons.prems(2) call(1) show ?thesis by fastforce
  next
    case (writes now)
    note E = log_write_effect [OF writes(3) run_cons.prems, of J now]
    have d: "\<forall>f. dated es t f \<longrightarrow> dated (e # es) s f" "dated (e # es) s (file_name (logPath (snd s)) (logName (fst s)) (getLogTime now))"
      using E writes by (auto simp: dated_def)
    from run_cons.IH run_cons.prems(2) E writes(2) obtain fs where fs: "map fst (written (snd u)) = map fst (written (snd t)) @ fs"
      "\<forall>f\<in>set fs. dated es t f" by auto
    have "map fst (written (snd u)) = map fst (written (snd s)) @ (file_name (logPath (snd s)) (logName (fst s)) (getLogTime now) # fs)"
      using fs E writes(2) by simp
    moreover have "\<forall>f\<in>set (file_name (logPath (snd s)) (logName (fst s)) (getLogTime now) # fs). dated (e # es) s f"
      using fs d by auto
    ultimately show ?thesis using run_cons.IH run_cons.prems(2) E writes by fastforce
  qed
qed auto


definition demo_time :: log_time where
  "demo_time = \<lparr>ltYear = 2024, ltMonth = 1, ltDay = 2, ltHour = 3, ltMin = 4, ltSec = 5, ltNano = 6000\<rparr>"

definition demo_world :: "(nat, nat) log_world" where
  "demo_world = \<lparr>logPath = ''log'', logOutputScreen = False, logInit = True, logScreenCache = [], screen = [], written = [], plugged = [], printed = []\<rparr>"

definition demo_log :: "(nat, nat) gos_log" where
  "demo_log = \<lparr>logName = ''n'', logLevel = 0, logFile = Some (file_name ''log'' ''n'' (getLogTime demo_time)), logTime = getLogTime demo_time,
     logs = None, writing = True, plugin = []\<rparr>"

definition demo_log_events :: "nat log_event list" where
  "demo_log_events = [LvLog (\<lambda>_. None) demo_time 3 3 ''a'' [], LvWrite demo_time, LvLog (\<lambda>_. None) demo_time 1 3 ''b'' []]"

definition demo_entry :: "nat log_content" where
  "demo_entry = new_content (\<lambda>_. None) demo_time 3 3 ''a'' []"


text \<open>A parameter named like a field of the entry takes the place of the field.\<close>

lemma json_param_overrides:
  "map_of (jsonFormat (info\<lparr>lcParam := [AStr ''msg'', v]\<rparr>)) ''msg'' = Some v"
  by (simp add: jsonFormat_def json_params_def)

text \<open>Once the writer has been freed, a caller whose entry passes the level waits for ever.\<close>

lemma log_after_Free:
  "log_Free l = LogRet l1 \<Longrightarrow> logLevel l \<le> lv \<Longrightarrow> 0 \<le> lv \<Longrightarrow> lv \<le> FatalLevel \<Longrightarrow> Log caller now lv skip text v (l1, w) = LogWaits"
  by (auto simp: log_Free_def Log_def logText_def Let_def split: if_splits)

text \<open>A file that cannot be opened at midnight loses the entries of that day.\<close>

lemma rotation_failure_loses:
  "getLogTime now \<noteq> logTime l \<Longrightarrow> \<not> opens (file_name (logPath w) (logName l) (getLogTime now)) \<Longrightarrow>
   written (snd (write_entry J opens now (l, w))) = written w"
  by (auto simp: write_entry_def log_checkTime_def OpenFile_def Let_def split: option.splits)

text \<open>Without a directory to write to, the set-up of the log panics.\<close>

lemma GosLogInit_panics: "\<not> logInit w \<Longrightarrow> \<forall>f. \<not> opens f \<Longrightarrow> GosLogInit opens now name path scr lv params (d, w) = LogPanics"
  by (simp add: GosLogInit_def GosLogNewRouter_def OpenFile_def Let_def)

end
