(* ===== verification/Util_Date.thy ===== *)
theory Util_Date
  imports Go_Strings "HOL-Library.Monad_Syntax"
begin

text \<open>
  The dates of \<^verbatim>\<open>util/misc.go\<close>: printing and reading times, the week of a day, the time until the next
  given hour. Of the package \<^verbatim>\<open>time\<close> it has the calendar, a location as the list of the
  changes of its offset, and the layouts that the code uses. A time is the number of seconds
  since 1970, or of nanoseconds where the code keeps them.
\<close>

section \<open>The calendar\<close>

text \<open>Days are counted from the first of January of the year 1.\<close>

definition leap :: "int \<Rightarrow> bool" where
  "leap y \<longleftrightarrow> y mod 4 = 0 \<and> (y mod 100 \<noteq> 0 \<or> y mod 400 = 0)"

definition year_start :: "int \<Rightarrow> int" where
  "year_start y = 365 * (y - 1) + (y - 1) div 4 - (y - 1) div 100 + (y - 1) div 400"

definition month_lengths :: "int \<Rightarrow> int list" where
  "month_lengths y = [31, if leap y then 29 else 28, 31, 30, 31, 30, 31, 31, 30, 31, 30, 31]"

definition days_of :: "int \<Rightarrow> nat \<Rightarrow> int \<Rightarrow> int" where
  "days_of y m d = year_start y + sum_list (take (m - 1) (month_lengths y)) + (d - 1)"

definition year_of :: "int \<Rightarrow> int" where
  "year_of n = (let g = (400 * n) div 146097 + 1 in if year_start (g + 1) \<le> n then g + 1 else g)"

fun split_months :: "int list \<Rightarrow> int \<Rightarrow> nat \<Rightarrow> nat \<times> int" where
  "split_months [] n m = (m, n)"
| "split_months (l # ls) n m = (if n < l then (m, n) else split_months ls (n - l) (Suc m))"

definition civil_of :: "int \<Rightarrow> int \<times> nat \<times> int" where
  "civil_of n = (let y = year_of n; (m, r) = split_months (month_lengths y) (n - year_start y) 1 in (y, m, r + 1))"

lemma div_bounds: "0 < k \<Longrightarrow> x div k * k \<le> x \<and> x < x div k * k + (k :: int)"
  using pos_mod_bound [of k x] pos_mod_sign [of k x] div_mult_mod_eq [of x k] by linarith

lemma div_step:
  assumes "0 < k"
  shows "y div k = (y - 1) div k + (if y mod k = 0 then 1 else (0 :: int))"
proof (cases "y mod k = 0")
  case True
  then have "y = k * (y div k)" using mult_div_mod_eq [of k y] by simp
  then have "y - 1 = (k - 1) + k * (y div k - 1)" by (simp add: algebra_simps)
  then have "(y - 1) div k = ((k - 1) + k * (y div k - 1)) div k" by (rule arg_cong)
  also have "\<dots> = y div k - 1" using assms by (simp add: div_pos_pos_trivial)
  finally show ?thesis using True by simp
next
  case False
  have y: "0 \<le> y mod k" "y mod k < k" using assms by simp_all
  have "y - 1 = (y mod k - 1) + k * (y div k)" using mult_div_mod_eq [of k y] by linarith
  then have "(y - 1) div k = ((y mod k - 1) + k * (y div k)) div k" by (rule arg_cong)
  also have "\<dots> = y div k" using assms y False by (simp add: div_pos_pos_trivial)
  finally show ?thesis using False by simp
qed

lemma leap_count:
  fixes a b c y :: int
  assumes "r \<Longrightarrow> q" "q \<Longrightarrow> p"
  shows "365 * y + (a + (if p then 1 else 0)) - (b + (if q then 1 else 0)) + (c + (if r then 1 else 0)) =
    365 * (y - 1) + a - b + c + (if p \<and> (\<not> q \<or> r) then 366 else 365)"
  using assms by auto

lemma year_start_next: "year_start (y + 1) = year_start y + (if leap y then 366 else 365)"
proof -
  have "y mod 400 = 0 \<Longrightarrow> y mod 100 = 0" "y mod 100 = 0 \<Longrightarrow> y mod 4 = 0"
    using mod_mod_cancel [of 100 400 y] mod_mod_cancel [of 4 100 y] by auto
  from leap_count [OF this, where y = y] div_step [of 4 y] div_step [of 100 y] div_step [of 400 y]
  show ?thesis by (simp only: year_start_def leap_def add_diff_cancel_right' zero_less_numeral)
qed

lemma year_of_bounds: "year_start (year_of n) \<le> n" "n < year_start (year_of n + 1)"
proof -
  define x where "x = (400 * n) div 146097"
  note x = div_bounds [of 146097 "400 * n", folded x_def]
  note D = div_bounds [of 4] div_bounds [of 100] div_bounds [of 400]
  have "year_start (x + 1) = 365 * x + x div 4 - x div 100 + x div 400" by (simp add: year_start_def)
  with x D [of x] have lo: "year_start (x + 1) \<le> n" by simp
  have "year_start (x + 2) = 365 * (x + 1) + (x + 1) div 4 - (x + 1) div 100 + (x + 1) div 400" by (simp add: year_start_def add.commute)
  with x D [of "x + 1"] have "n < year_start (x + 2) + 2" by simp
  moreover have "year_start (x + 2) + 365 \<le> year_start (x + 3)" using year_start_next [of "x + 2"] by (simp add: add.commute)
  ultimately have hi: "n < year_start (x + 3)" by linarith
  show "year_start (year_of n) \<le> n" "n < year_start (year_of n + 1)"
    using lo hi by (auto simp: year_of_def Let_def x_def [symmetric] add.commute)
qed

lemma split_months_eq:
  assumes "\<forall>l\<in>set ls. 0 < l" "0 \<le> n" "n < sum_list ls"
  shows "\<exists>k r. split_months ls n m = (m + k, r) \<and> k < length ls \<and> 0 \<le> r \<and> r < ls ! k \<and> n = sum_list (take k ls) + r"
  using assms
proof (induction ls arbitrary: n m)
  case (Cons l ls)
  show ?case
  proof (cases "n < l")
    case True
    with Cons.prems show ?thesis by (intro exI [of _ 0] exI [of _ n]) simp
  next
    case False
    with Cons.prems have "0 \<le> n - l" "n - l < sum_list ls" "\<forall>l\<in>set ls. 0 < l" by simp_all
    from Cons.IH [OF this(3,1,2), of "Suc m"] obtain k r where
      "split_months ls (n - l) (Suc m) = (Suc m + k, r)" "k < length ls" "0 \<le> r" "r < ls ! k" "n - l = sum_list (take k ls) + r" by blast
    with False show ?thesis by (intro exI [of _ "Suc k"] exI [of _ r]) simp
  qed
qed simp

lemma sum_month_lengths: "year_start y + sum_list (month_lengths y) = year_start (y + 1)"
  by (simp add: year_start_next month_lengths_def)

text \<open>A day is a date that exists, and the date names the day.\<close>

lemma civil_of_days:
  assumes "civil_of n = (y, m, d)"
  shows "days_of y m d = n" "1 \<le> m" "m \<le> 12" "1 \<le> d" "d \<le> month_lengths y ! (m - 1)"
proof -
  have y: "y = year_of n" using assms by (simp add: civil_of_def Let_def split: prod.splits)
  have "0 \<le> n - year_start y" "n - year_start y < sum_list (month_lengths y)"
    using year_of_bounds [of n] sum_month_lengths [of y] by (simp_all add: y)
  moreover have "\<forall>l\<in>set (month_lengths y). 0 < l" by (simp add: month_lengths_def)
  ultimately obtain k r where k: "split_months (month_lengths y) (n - year_start y) 1 = (1 + k, r)" "k < length (month_lengths y)"
    "0 \<le> r" "r < month_lengths y ! k" "n - year_start y = sum_list (take k (month_lengths y)) + r"
    using split_months_eq [of "month_lengths y" "n - year_start y" 1] by blast
  have md: "m = Suc k" "d = r + 1" using assms k(1) y by (auto simp: civil_of_def Let_def)
  have "length (month_lengths y) = 12" by (simp add: month_lengths_def)
  with k md show "days_of y m d = n" "1 \<le> m" "m \<le> 12" "1 \<le> d" "d \<le> month_lengths y ! (m - 1)" by (auto simp: days_of_def)
qed


section \<open>Locations\<close>

text \<open>
  A location: the offset in seconds at first, and the changes with the time at which each begins. A
  lookup gives the offset in force and when it begins and ends.
\<close>

record location =
  zoneFirst :: int
  zoneTrans :: "(int \<times> int) list"

fun zone_loop :: "int \<Rightarrow> int \<Rightarrow> (int \<times> int) list \<Rightarrow> int \<Rightarrow> int \<times> int \<times> int" where
  "zone_loop off start [] t = (off, start, max_int64)"
| "zone_loop off start ((start', off') # zs) t =
     (if t < start' then (off, start, start') else zone_loop off' start' zs t)"

definition zone_lookup :: "location \<Rightarrow> int \<Rightarrow> int \<times> int \<times> int" where
  "zone_lookup loc t = zone_loop (zoneFirst loc) min_int64 (zoneTrans loc) t"

definition zone_offset :: "location \<Rightarrow> int \<Rightarrow> int" where
  "zone_offset loc t = fst (zone_lookup loc t)"

text \<open>\<^verbatim>\<open>time.Date\<close>: the time at which the clock of the location shows \<open>wall\<close>, given as seconds since 1970 on that clock.\<close>

definition time_Date :: "location \<Rightarrow> int \<Rightarrow> int" where
  "time_Date loc wall =
     (let (off, start, end') = zone_lookup loc wall in
      if off \<noteq> 0
      then let utc = wall - off in
           if utc < start \<or> utc \<ge> end' then wall - zone_offset loc utc else utc
      else wall)"

definition wall_of :: "int \<Rightarrow> nat \<Rightarrow> int \<Rightarrow> int \<Rightarrow> int \<Rightarrow> int \<Rightarrow> int" where
  "wall_of y m d h mi s = (days_of y m d - 719162) * 86400 + h * 3600 + mi * 60 + s"

definition wall_date :: "int \<Rightarrow> int \<times> nat \<times> int" where
  "wall_date w = civil_of (w div 86400 + 719162)"


section \<open>Layouts\<close>

definition year_text :: "int \<Rightarrow> string" where
  "year_text y = (if y < 0 then ''-'' @ pad 4 (nat (- y)) else pad 4 (nat y))"

definition date_text :: "int \<Rightarrow> string" where
  "date_text w = (let (y, m, d) = wall_date w in year_text y @ ''-'' @ pad 2 m @ ''-'' @ pad 2 (nat d))"

definition datetime_text :: "int \<Rightarrow> string" where
  "datetime_text w =
     (let s = nat (w mod 86400) in date_text w @ '' '' @ pad 2 (s div 3600) @ '':'' @ pad 2 (s div 60 mod 60) @ '':'' @ pad 2 (s mod 60))"

definition format_date :: "location \<Rightarrow> int \<Rightarrow> string" where
  "format_date loc t = date_text (t + zone_offset loc t)"

definition format_datetime :: "location \<Rightarrow> int \<Rightarrow> string" where
  "format_datetime loc t = datetime_text (t + zone_offset loc t)"

text \<open>Reading: numbers of two digits, of which an hour may have one; a character; spaces; a fraction of a second, which is dropped.\<close>

fun read_num :: "bool \<Rightarrow> string \<Rightarrow> (nat \<times> string) option" where
  "read_num fixed (a # b # r) =
     (case (char_digit a, char_digit b) of
        (Some x, Some y) \<Rightarrow> Some (10 * x + y, r)
      | (Some x, None) \<Rightarrow> if fixed then None else Some (x, b # r)
      | (None, _) \<Rightarrow> None)"
| "read_num fixed [a] = (case char_digit a of Some x \<Rightarrow> if fixed then None else Some (x, []) | None \<Rightarrow> None)"
| "read_num fixed [] = None"

definition read_below :: "bool \<Rightarrow> nat \<Rightarrow> string \<Rightarrow> (nat \<times> string) option" where
  "read_below fixed lim s = (case read_num fixed s of Some (n, r) \<Rightarrow> if n < lim then Some (n, r) else None | None \<Rightarrow> None)"

fun read_char :: "char \<Rightarrow> string \<Rightarrow> string option" where
  "read_char c (x # r) = (if x = c then Some r else None)"
| "read_char c [] = None"

definition skip_spaces :: "string \<Rightarrow> string option" where
  "skip_spaces s = (if s \<noteq> [] \<and> hd s \<noteq> CHR '' '' then None else Some (dropWhile (\<lambda>c. c = CHR '' '') s))"

definition read_year :: "string \<Rightarrow> (nat \<times> string) option" where
  "read_year s =
     (case read_num True s of
        Some (a, r) \<Rightarrow> (case read_num True r of Some (b, r') \<Rightarrow> Some (100 * a + b, r') | None \<Rightarrow> None)
      | None \<Rightarrow> None)"

definition skip_fraction :: "string \<Rightarrow> string" where
  "skip_fraction s =
     (case s of
        a # b # r \<Rightarrow>
          if (a = CHR ''.'' \<or> a = CHR '','') \<and> char_digit b \<noteq> None then dropWhile (\<lambda>c. char_digit c \<noteq> None) (b # r) else s
      | _ \<Rightarrow> s)"

definition read_date :: "string \<Rightarrow> ((int \<times> nat \<times> int) \<times> string) option" where
  "read_date s =
     do { (y, s1) \<leftarrow> read_year s; s2 \<leftarrow> read_char CHR ''-'' s1;
          (m, s3) \<leftarrow> read_below True 13 s2; s4 \<leftarrow> read_char CHR ''-'' s3;
          (d, s5) \<leftarrow> read_num True s4;
          if m = 0 \<or> d = 0 \<or> month_lengths (int y) ! (m - 1) < int d then None else Some ((int y, m, int d), s5) }"

definition read_clock :: "string \<Rightarrow> ((nat \<times> nat \<times> nat) \<times> string) option" where
  "read_clock s =
     do { (h, s1) \<leftarrow> read_below False 24 s; s2 \<leftarrow> read_char CHR '':'' s1;
          (mi, s3) \<leftarrow> read_below True 60 s2; s4 \<leftarrow> read_char CHR '':'' s3;
          (sec, s5) \<leftarrow> read_below True 60 s4;
          Some ((h, mi, sec), skip_fraction s5) }"

definition ParseInLocation :: "location \<Rightarrow> string \<Rightarrow> int option" where
  "ParseInLocation loc s =
     do { ((y, m, d), s1) \<leftarrow> read_date s; s2 \<leftarrow> skip_spaces s1; ((h, mi, sec), s3) \<leftarrow> read_clock s2;
          if s3 \<noteq> [] then None else Some (time_Date loc (wall_of y m d (int h) (int mi) (int sec))) }"


section \<open>The functions\<close>

text \<open>\<open>load\<close> is \<^verbatim>\<open>time.LoadLocation\<close>, with \<open>None\<close> for an error; \<open>here\<close> is the local zone.\<close>

definition LTTS :: "location \<Rightarrow> int \<Rightarrow> string" where
  "LTTS here t = format_datetime here t"

definition LSTT :: "location \<Rightarrow> string \<Rightarrow> int" where
  "LSTT here str = (case ParseInLocation here str of Some t \<Rightarrow> t | None \<Rightarrow> 0)"

definition TTS :: "(string \<Rightarrow> location option) \<Rightarrow> location \<Rightarrow> int \<Rightarrow> string" where
  "TTS load here t =
     (case load ''Asia/Chongqing'' of None \<Rightarrow> format_datetime here t | Some loc \<Rightarrow> format_datetime loc t)"

definition STT :: "(string \<Rightarrow> location option) \<Rightarrow> location \<Rightarrow> string \<Rightarrow> int" where
  "STT load here str =
     (let loc = (case load ''Asia/Chongqing'' of None \<Rightarrow> here | Some loc \<Rightarrow> loc) in
      case ParseInLocation loc str of Some t \<Rightarrow> t | None \<Rightarrow> 0)"

definition IsSameDay :: "location \<Rightarrow> u64 \<Rightarrow> u64 \<Rightarrow> bool" where
  "IsSameDay here t1 t2 = (format_date here (sint t1) = format_date here (sint t2))"

definition GetVietnamDate :: "(string \<Rightarrow> location option) \<Rightarrow> u64 \<Rightarrow> string outcome" where
  "GetVietnamDate load ts =
     (case load ''Asia/Ho_Chi_Minh'' of
        None \<Rightarrow> Panic ''time: missing Location in call to Time.In''
      | Some loc \<Rightarrow> Ret (format_date loc (sint ts)))"

definition GetVietnamDateTime :: "(string \<Rightarrow> location option) \<Rightarrow> u64 \<Rightarrow> string outcome" where
  "GetVietnamDateTime load ts =
     (case load ''Asia/Ho_Chi_Minh'' of
        None \<Rightarrow> Panic ''time: missing Location in call to Time.In''
      | Some loc \<Rightarrow> Ret (format_datetime loc (sint ts)))"

text \<open>The argument \<open>ts\<close> is not used: the day is that of the current local time.\<close>

definition GetVietnamBeginAndEndDateTime :: "(string \<Rightarrow> location option) \<Rightarrow> location \<Rightarrow> int \<Rightarrow> u64 \<Rightarrow> (string \<times> string) outcome" where
  "GetVietnamBeginAndEndDateTime load here now ts =
     (case load ''Asia/Ho_Chi_Minh'' of
        None \<Rightarrow> Panic ''time: missing Location in call to Date''
      | Some loc \<Rightarrow>
          let (y, m, d) = wall_date (now + zone_offset here now);
              beginDay = time_Date loc (wall_of y m d 0 0 0);
              endDate = time_Date loc (wall_of y m d 23 59 59)
          in Ret (format_datetime here beginDay, format_datetime here endDate))"

text \<open>The test of the error is inverted, so the named location is never used.\<close>

definition GetLocatione :: "(string \<Rightarrow> location option) \<Rightarrow> location \<Rightarrow> string \<Rightarrow> location option" where
  "GetLocatione load here timeZone = (case load timeZone of None \<Rightarrow> None | Some _ \<Rightarrow> Some here)"

text \<open>
  The current time in nanoseconds; the result is a duration in nanoseconds. \<^verbatim>\<open>time.Date\<close> counts seconds
  in 64 bits, whatever hour the text asks for, and \<^verbatim>\<open>Sub\<close> saturates.
\<close>

definition GetNextDuration :: "(string \<Rightarrow> location option) \<Rightarrow> location \<Rightarrow> int \<Rightarrow> string \<Rightarrow> string \<Rightarrow> int outcome" where
  "GetNextDuration load here now timeZone date =
     (let arr = Split CHR '':'' date; unix = now div 1000000000 in
      if length arr < 2 then Panic ''index out of range''
      else case GetLocatione load here timeZone of
        None \<Rightarrow> Panic ''time: missing Location in call to Date''
      | Some loc \<Rightarrow>
          let (y, m, d) = wall_date (unix + zone_offset here unix);
              next0 = time_Date loc (wrap_int64 (wall_of y m d (fst (Atoi (arr ! 0))) (fst (Atoi (arr ! 1))) 0)) * 1000000000;
              next1 = (if \<not> now < next0 then next0 + 24 * 3600000000000 else next0)
          in Ret (max min_int64 (min max_int64 (next1 - now))))"

text \<open>The first day of the calendar was a Monday. The duration of \<open>i\<close> weeks is counted in nanoseconds, in 64 bits.\<close>

definition Weekday :: "int \<Rightarrow> int" where
  "Weekday w = (w div 86400 + 719163) mod 7"

definition GetWeekRange :: "location \<Rightarrow> int \<Rightarrow> int \<Rightarrow> string \<times> string" where
  "GetWeekRange here now i =
     (let unix = now div 1000000000;
          week0 = Weekday (unix + zone_offset here unix);
          week = (if week0 = 0 then 7 else week0);
          weeks = wrap_int64 (604800000000000 * i);
          begin1 = now - 86400000000000 * (week - 1) + weeks;
          end1 = now + 86400000000000 * (7 - week) + weeks
      in (format_date here (begin1 div 1000000000), format_date here (end1 div 1000000000)))"


section \<open>Reading back\<close>

lemma digit_char_0: "digit_char 0 = CHR ''0''"
  by code_simp

lemma FormatUint_digit: "n < 10 \<Longrightarrow> FormatUint n = [digit_char n]"
  by (subst FormatUint.simps) simp

lemma FormatUint_snoc: "10 \<le> n \<Longrightarrow> FormatUint n = FormatUint (n div 10) @ [digit_char (n mod 10)]"
  by (subst FormatUint.simps) simp

lemma pad2:
  assumes "n < 100"
  shows "pad 2 n = [digit_char (n div 10), digit_char (n mod 10)]"
proof (cases "n < 10")
  case True
  then show ?thesis by (simp add: pad_def FormatUint_digit digit_char_0)
next
  case False
  with assms show ?thesis by (simp add: pad_def FormatUint_snoc FormatUint_digit)
qed

lemma length_pad2: "n < 100 \<Longrightarrow> pad 2 n \<noteq> [] \<and> char_digit (hd (pad 2 n)) \<noteq> None"
  by (simp add: pad2)

lemma read_num_pad [simp]: "n < 100 \<Longrightarrow> read_num fixed (pad 2 n @ r) = Some (n, r)"
  by (simp add: pad2)

lemma pad_snoc: "10 \<le> n \<Longrightarrow> pad (Suc w) n = pad w (n div 10) @ [digit_char (n mod 10)]"
  by (simp add: pad_def FormatUint_snoc)

lemma pad4:
  assumes "n < 10000"
  shows "pad 4 n = pad 2 (n div 100) @ pad 2 (n mod 100)"
proof (cases "n < 100")
  case True
  then have "length (FormatUint n) \<le> 2" using length_FormatUint [of n 2] by simp
  then have "pad 4 n = ''00'' @ pad 2 n" by (simp add: pad_def eval_nat_numeral replicate_append_same [symmetric] Suc_diff_le)
  moreover have "pad 2 0 = ''00''" by (simp add: pad2 digit_char_0)
  ultimately show ?thesis using True by simp
next
  case False
  then have "pad 4 n = pad 2 (n div 10 div 10) @ [digit_char (n div 10 mod 10), digit_char (n mod 10)]"
    using pad_snoc [of n 3] pad_snoc [of "n div 10" 2] by simp
  moreover have "n div 10 div 10 = n div 100" by (simp flip: div_mult2_eq)
  moreover have "n mod 100 = 10 * (n div 10 mod 10) + n mod 10" using mod_mult2_eq [of n 10 10] by simp
  then have "n div 10 mod 10 = n mod 100 div 10" "n mod 10 = n mod 100 mod 10" by simp_all
  ultimately show ?thesis by (simp add: pad2)
qed

lemma read_year_pad: "n < 10000 \<Longrightarrow> read_year (pad 4 n @ r) = Some (n, r)"
  by (simp add: pad4 read_year_def)

text \<open>A time whose year has four digits.\<close>

definition printable :: "int \<Rightarrow> bool" where
  "printable w \<longleftrightarrow> 0 \<le> fst (wall_date w) \<and> fst (wall_date w) < 10000"

lemma read_date_text:
  assumes "printable w"
  shows "read_date (date_text w @ r) = Some (wall_date w, r)"
proof -
  obtain y m d where c: "wall_date w = (y, m, d)" by (metis prod.exhaust)
  note v = civil_of_days(2-5) [OF c [unfolded wall_date_def]]
  have "month_lengths y ! (m - 1) \<le> 31" using v(1,2) by (auto simp: month_lengths_def nth_Cons split: nat.splits)
  with v have "nat d < 100" "0 < nat d" by linarith+
  moreover have "nat y < 10000" "0 \<le> y" using assms c by (auto simp: printable_def)
  ultimately show ?thesis using v c
    by (simp add: date_text_def year_text_def read_date_def read_year_pad read_below_def)
qed

lemma ParseInLocation_text:
  assumes "printable w"
  shows "ParseInLocation loc (datetime_text w) = Some (time_Date loc w)"
proof -
  define s where "s = nat (w mod 86400)"
  let ?h = "s div 3600" and ?mi = "s div 60 mod 60" and ?sec = "s mod 60"
  let ?clock = "pad 2 ?h @ '':'' @ pad 2 ?mi @ '':'' @ pad 2 ?sec"
  have "s < 86400" by (simp add: s_def nat_less_iff)
  then have h: "?h < 24" by (simp add: less_mult_imp_div_less)
  have clock: "read_clock ?clock = Some ((?h, ?mi, ?sec), [])"
    using h read_num_pad [of ?sec True "[]"] by (simp add: read_clock_def read_below_def skip_fraction_def)
  have "?clock \<noteq> [] \<and> hd ?clock \<noteq> CHR '' ''"
    using length_pad2 [of ?h] h by (auto simp: hd_append) (auto simp: char_digit_def)
  then have sp: "skip_spaces ('' '' @ ?clock) = Some ?clock" by (cases ?clock) (auto simp: skip_spaces_def)
  obtain y m d where c: "wall_date w = (y, m, d)" by (metis prod.exhaust)
  have days: "days_of y m d - 719162 = w div 86400" using civil_of_days(1) [OF c [unfolded wall_date_def]] by simp
  have "s = ?h * 3600 + ?mi * 60 + ?sec"
  proof -
    have split: "s' = (s' div 60 div 60 * 60 + s' div 60 mod 60) * 60 + s' mod 60" for s' :: nat by simp
    have "s div 60 div 60 = ?h" by (simp flip: div_mult2_eq)
    with split [of s] show ?thesis by simp
  qed
  then have "int s = int (?h * 3600 + ?mi * 60 + ?sec)" by (rule arg_cong)
  then have "int ?h * 3600 + int ?mi * 60 + int ?sec = int s" by (simp only: of_nat_add of_nat_mult of_nat_numeral)
  moreover have "int s = w mod 86400" by (simp add: s_def)
  ultimately have "wall_of y m d (int ?h) (int ?mi) (int ?sec) = w div 86400 * 86400 + w mod 86400"
    unfolding wall_of_def days by (simp only: add.assoc)
  then have "wall_of y m d (int ?h) (int ?mi) (int ?sec) = w" by simp
  then show ?thesis
    using read_date_text [OF assms, of "'' '' @ ?clock"] sp clock c
    by (simp add: ParseInLocation_def datetime_text_def s_def [symmetric] Let_def)
qed

text \<open>The clock of a location is unambiguous at a time when its offset does not change around then.\<close>

definition settled :: "location \<Rightarrow> int \<Rightarrow> bool" where
  "settled loc t = (zone_lookup loc (t + zone_offset loc t) = zone_lookup loc t)"

lemma zone_loop_bounds:
  "start \<le> t \<Longrightarrow> t < max_int64 \<Longrightarrow> zone_loop off start zs t = (o', s', e') \<Longrightarrow> s' \<le> t \<and> t < e'"
  by (induction off start zs t rule: zone_loop.induct) (auto split: if_splits)

lemma time_Date_settled:
  assumes "settled loc t" "min_int64 \<le> t" "t < max_int64"
  shows "time_Date loc (t + zone_offset loc t) = t"
proof -
  obtain off st en where z: "zone_lookup loc t = (off, st, en)" by (metis prod.exhaust)
  then have o: "zone_offset loc t = off" by (simp add: zone_offset_def)
  have "st \<le> t" "t < en" using zone_loop_bounds [OF assms(2,3) z [unfolded zone_lookup_def]] by simp_all
  with assms(1) z o show ?thesis by (simp add: time_Date_def settled_def)
qed

lemma format_parse:
  assumes "settled loc t" "printable (t + zone_offset loc t)" "min_int64 \<le> t" "t < max_int64"
  shows "ParseInLocation loc (format_datetime loc t) = Some t"
  using ParseInLocation_text [OF assms(2)] time_Date_settled [OF assms(1,3,4)] by (simp add: format_datetime_def)

text \<open>
  C38. Printed times read back. What \<^verbatim>\<open>TTS\<close> and \<^verbatim>\<open>LTTS\<close> print, \<^verbatim>\<open>STT\<close> and \<^verbatim>\<open>LSTT\<close> read as the same time, with
  the named location or, when it cannot be loaded, with the local one: for every time whose year has
  four digits, through leap years and all, at which the offset of the location is not about to
  change.
\<close>

theorem datetime_roundtrip:
  assumes "settled here t" and "printable (t + zone_offset here t)" and "min_int64 \<le> t" and "t < max_int64"
    and "load ''Asia/Chongqing'' = Some loc" and "settled loc t" and "printable (t + zone_offset loc t)"
  shows "LSTT here (LTTS here t) = t \<and> STT load here (TTS load here t) = t \<and> STT (\<lambda>_. None) here (TTS (\<lambda>_. None) here t) = t"
  using format_parse [OF assms(1-4)] format_parse [OF assms(6,7,3,4)] assms(5)
  by (simp add: LSTT_def LTTS_def STT_def TTS_def)

definition china :: location where
  "china = \<lparr>zoneFirst = 28800, zoneTrans = [(515520000, 32400), (527007600, 28800)]\<rparr>"

text \<open>The 29th of February 2024, noon in China.\<close>

theorem datetime_roundtrip_witness:
  "STT (\<lambda>_. Some china) china (TTS (\<lambda>_. Some china) china 1709179200) = 1709179200 \<and>
   TTS (\<lambda>_. Some china) china 1709179200 = ''2024-02-29 12:00:00''"
proof -
  have "settled china 1709179200" "printable (1709179200 + zone_offset china 1709179200)" by code_simp+
  moreover have "zone_offset china 1709179200 = 28800" "wall_date 1709208000 = (2024, 2, 29)" by code_simp+
  then have "TTS (\<lambda>_. Some china) china 1709179200 = ''2024-02-29 12:00:00''"
    by (simp add: TTS_def format_datetime_def datetime_text_def date_text_def year_text_def pad_def FormatUint.simps digit_char_def) code_simp
  moreover have "min_int64 \<le> 1709179200" "1709179200 < max_int64" by (simp_all add: min_int64_def max_int64_def)
  ultimately show ?thesis using datetime_roundtrip [of china 1709179200 "\<lambda>_. Some china" china] by simp
qed

text \<open>Two times are on the same day when the local clock counts the same days.\<close>

lemma date_text_inj:
  assumes "printable v" "printable w" "date_text v = date_text w"
  shows "v div 86400 = w div 86400"
proof -
  have same: "wall_date v = wall_date w" using read_date_text [OF assms(1), of "[]"] read_date_text [OF assms(2), of "[]"] assms(3) by simp
  obtain y m d where w: "wall_date w = (y, m, d)" by (metis prod.exhaust)
  with same have v: "wall_date v = (y, m, d)" by simp
  have "v div 86400 + 719162 = w div 86400 + 719162"
    using civil_of_days(1) [OF v [unfolded wall_date_def]] civil_of_days(1) [OF w [unfolded wall_date_def]] by (rule trans [OF sym])
  then show ?thesis by (rule add_right_imp_eq)
qed

lemma IsSameDay_iff:
  assumes "printable (sint t1 + zone_offset here (sint t1))" "printable (sint t2 + zone_offset here (sint t2))"
  shows "IsSameDay here t1 t2 \<longleftrightarrow>
    (sint t1 + zone_offset here (sint t1)) div 86400 = (sint t2 + zone_offset here (sint t2)) div 86400"
  using date_text_inj [OF assms] by (auto simp: IsSameDay_def format_date_def date_text_def wall_date_def)

text \<open>In a location whose offset never changes, the week begins on a Monday, ends on the Sunday after, and holds the current day for week 0.\<close>

lemma Weekday_shift: "Weekday (w + 86400 * k) = (Weekday w + k) mod 7"
  by (simp add: Weekday_def mod_simps algebra_simps)

lemma shift_seconds: "(now + 1000000000 * x) div 1000000000 = now div 1000000000 + (x :: int)"
  by simp

lemma GetWeekRange_week:
  assumes "zoneTrans here = []" "\<bar>i\<bar> \<le> 15000"
  shows "\<exists>b e. GetWeekRange here now i = (date_text b, date_text e) \<and> Weekday b = 1 \<and> Weekday e = 0 \<and> e = b + 6 * 86400 \<and>
    b \<le> now div 1000000000 + zoneFirst here + 7 * 86400 * i \<and> now div 1000000000 + zoneFirst here + 7 * 86400 * i \<le> e"
proof -
  let ?u = "now div 1000000000" and ?o = "zoneFirst here"
  define k where "k = Weekday (?u + ?o)"
  have o: "zone_offset here t = ?o" for t using assms by (simp add: zone_offset_def zone_lookup_def)
  have k: "0 \<le> k" "k < 7" by (simp_all add: k_def Weekday_def)
  define w where "w = (if k = 0 then 7 else k)"
  let ?b = "?u + ?o + 86400 * (1 - w + 7 * i)"
  have w: "1 \<le> w" "w \<le> 7" "w mod 7 = k" using k by (auto simp: w_def)
  have wd: "Weekday (?u + ?o + 86400 * x) = (w + x) mod 7" for x using w(3) by (simp add: Weekday_shift k_def [symmetric] mod_add_left_eq [of w 7 x, symmetric])
  have "Weekday ?b = 1" "Weekday (?b + 6 * 86400) = 0"
    using wd [of "1 - w + 7 * i"] wd [of "7 - w + 7 * i"] by (simp_all add: algebra_simps)
  moreover have "GetWeekRange here now i = (date_text ?b, date_text (?b + 6 * 86400))"
  proof -
    have i: "wrap_int64 (604800000000000 * i) = 604800000000000 * i" using assms(2) by (intro wrap_int64_id) (auto simp: min_int64_def max_int64_def)
    have b: "now - 86400000000000 * (w - 1) + 604800000000000 * i = now + 1000000000 * (86400 * (1 - w + 7 * i))"
      and e: "now + 86400000000000 * (7 - w) + 604800000000000 * i = now + 1000000000 * (86400 * (1 - w + 7 * i) + 6 * 86400)"
      by simp_all
    show ?thesis
      unfolding GetWeekRange_def format_date_def o Let_def k_def [symmetric] w_def [symmetric] i b e shift_seconds
      by (simp add: algebra_simps)
  qed
  moreover have "?b \<le> ?u + ?o + 7 * 86400 * i" "?u + ?o + 7 * 86400 * i \<le> ?b + 6 * 86400" using w by simp_all
  ultimately show ?thesis by blast
qed

text \<open>The time until the next given hour is counted in the local zone, whatever zone is asked for.\<close>

lemma GetNextDuration_ignores_zone:
  "load z = Some l \<Longrightarrow> load z' = Some l' \<Longrightarrow> GetNextDuration load here now z date = GetNextDuration load here now z' date"
  by (simp add: GetNextDuration_def GetLocatione_def Let_def)

lemma GetNextDuration_bad_zone: "load z = None \<Longrightarrow> \<exists>e. GetNextDuration load here now z date = Panic e"
  by (simp add: GetNextDuration_def GetLocatione_def Let_def)

end
