(* ===== verification/Sql_Text.thy ===== *)
theory Sql_Text
  imports Go_Strings
begin

text \<open>
  The SQL Server statements of \<^verbatim>\<open>util/sqlserver.go\<close>, built as text from a struct. What the code learns by
  reflection is the list of the fields with their tags, and the text that \<^verbatim>\<open>fmt.Sprint\<close> gives for
  the value of each field. The result keeps the placeholders of the database and the
  table, which the callers fill in. Reading the statements back as SQL shows that a quoted value
  cannot leave its quotes.
\<close>

section \<open>Strings\<close>

text \<open>\<^verbatim>\<open>strings.Contains\<close>, \<^verbatim>\<open>strings.ReplaceAll\<close> for a pattern that is not empty, and \<^verbatim>\<open>strings.ToLower\<close> of a string of one byte.\<close>

fun Contains :: "string \<Rightarrow> string \<Rightarrow> bool" where
  "Contains [] sub \<longleftrightarrow> sub = []"
| "Contains (c # cs) sub \<longleftrightarrow> prefix sub (c # cs) \<or> Contains cs sub"

function ReplaceAll :: "string \<Rightarrow> string \<Rightarrow> string \<Rightarrow> string" where
  "ReplaceAll s old new =
     (if old = [] \<or> s = [] then s
      else if prefix old s then new @ ReplaceAll (drop (length old) s) old new
      else hd s # ReplaceAll (tl s) old new)"
  by pat_completeness auto
termination by (relation "measure (\<lambda>(s, _, _). length s)") auto

declare ReplaceAll.simps [simp del]

definition lower_byte :: "char \<Rightarrow> string" where
  "lower_byte c =
     (if 65 \<le> (of_char c :: nat) \<and> of_char c \<le> (90 :: nat) then [char_of ((of_char c :: nat) + 32)]
      else if (of_char c :: nat) < 128 then [c]
      else [CHR 0xEF, CHR 0xBF, CHR 0xBD])"

text \<open>\<^verbatim>\<open>template.HTMLEscapeString\<close>.\<close>

definition escape_char :: "char \<Rightarrow> string" where
  "escape_char c =
     (if c = CHR 0x00 then [CHR 0xEF, CHR 0xBF, CHR 0xBD]
      else if c = CHR 0x22 then ''&#34;''
      else if c = CHR 0x27 then ''&#39;''
      else if c = CHR ''&'' then ''&amp;''
      else if c = CHR ''<'' then ''&lt;''
      else if c = CHR ''>'' then ''&gt;''
      else [c])"

definition HTMLEscapeString :: "string \<Rightarrow> string" where
  "HTMLEscapeString s = concat (map escape_char s)"


section \<open>Tables\<close>

text \<open>A field of a struct: its name and the tags \<^verbatim>\<open>orm\<close> and \<^verbatim>\<open>index\<close>.\<close>

record sql_field =
  fieldName :: string
  ormTag :: string
  indexTag :: string

text \<open>A value that is handed in: a struct, a pointer to one, or a slice; \<open>None\<close> is a nil pointer.\<close>

datatype sql_value = StructVal "string list" | PtrVal "string list option" | SliceVal "string list option list"

definition dbSql :: string where
  "dbSql = ''CREATE DATABASE [{db}] ON  PRIMARY'' @ [CHR 0x0A, CHR 0x09] @
     ''( NAME = N'{db}', FILENAME = N'{disk}'' @ [CHR 0x5C, CHR 0x5C] @ ''database'' @ [CHR 0x5C, CHR 0x5C] @
     ''{db}.mdf' , SIZE = 4096KB , FILEGROWTH = 1024KB )'' @ [CHR 0x0A, CHR 0x09] @ '' LOG ON'' @ [CHR 0x0A, CHR 0x09] @
     ''( NAME = N'{db}_log', FILENAME = N'{disk}'' @ [CHR 0x5C, CHR 0x5C] @ ''database'' @ [CHR 0x5C, CHR 0x5C] @
     ''{db}_log.ldf' , SIZE = 1024KB , FILEGROWTH = 10%);''"

definition CreateDBSQL :: "string \<Rightarrow> string \<Rightarrow> string" where
  "CreateDBSQL dbName disk = ReplaceAll (ReplaceAll dbSql ''{db}'' dbName) ''{disk}'' disk"

fun create_loop :: "string list \<Rightarrow> string outcome" where
  "create_loop [] = Ret []"
| "create_loop (v # vs) =
     (let arr2 = Split CHR '':'' v in if arr2 ! 0 = ''create'' then index_at arr2 1 else create_loop vs)"

definition getCreateDesc :: "string \<Rightarrow> string outcome" where
  "getCreateDesc key = create_loop (Split CHR '';'' key)"

definition skipped :: "sql_field \<Rightarrow> bool" where
  "skipped f \<longleftrightarrow> ormTag f = [] \<or> ormTag f = ''-''"

definition column :: "sql_field \<Rightarrow> string" where
  "column f = lower_byte (hd (fieldName f)) @ tl (fieldName f)"

definition quoted_type :: "string \<Rightarrow> bool" where
  "quoted_type desc \<longleftrightarrow> Contains desc ''datetime'' \<or> Contains desc ''varchar''"

definition quote :: "string \<Rightarrow> string" where
  "quote v = [CHR 0x27] @ HTMLEscapeString v @ [CHR 0x27]"


section \<open>Statements\<close>

definition insert_item :: "sql_field \<Rightarrow> string \<Rightarrow> string outcome" where
  "insert_item f v =
     out_bind (getCreateDesc (ormTag f)) (\<lambda>desc.
       Ret (if \<not> Contains desc ''varchar'' \<and> v = [] then ''NULL''
            else if quoted_type desc then quote v else v))"

fun insert_fields :: "sql_field list \<Rightarrow> string list \<Rightarrow> string list outcome" where
  "insert_fields (f # fs) (v # vs) =
     (if skipped f then insert_fields fs vs
      else out_bind (insert_item f v) (\<lambda>x. out_bind (insert_fields fs vs) (\<lambda>xs. Ret (x # xs))))"
| "insert_fields _ _ = Ret []"

definition row_text :: "string list \<Rightarrow> string" where
  "row_text items = ''('' @ Join '','' items @ '')''"

definition getInsertValue :: "sql_field list \<Rightarrow> string list \<Rightarrow> string outcome" where
  "getInsertValue rt rv = out_bind (insert_fields rt rv) (\<lambda>fields. Ret (row_text fields))"

definition column_names :: "sql_field list \<Rightarrow> string list" where
  "column_names e = map (\<lambda>f. ''['' @ column f @ '']'') (filter (\<lambda>f. \<not> skipped f) e)"

definition insert_text :: "sql_field list \<Rightarrow> string list \<Rightarrow> string" where
  "insert_text e arr =
     ''INSERT INTO [%v].[dbo].[%v] '' @ ''('' @ Join '','' (column_names e) @ '') VALUES'' @ Join '','' arr @ '';''"

fun create_columns :: "sql_field list \<Rightarrow> (string list \<times> string list) outcome" where
  "create_columns [] = Ret ([], [])"
| "create_columns (f # fs) =
     (if skipped f then create_columns fs
      else
        let name = column f in
        out_bind (getCreateDesc (ormTag f)) (\<lambda>desc.
        out_bind (create_columns fs) (\<lambda>(arr, indexes).
          Ret ((''['' @ name @ ''] '' @ desc) # arr,
               (if indexTag f \<noteq> []
                then [''CREATE CLUSTERED INDEX [idx_%v_'' @ name @ ''] ON [%v].[dbo].[%v]([''@ name @ ''] '' @ indexTag f @ '')'']
                else []) @ indexes))))"

fun CreateSQL :: "sql_field list \<Rightarrow> sql_value \<Rightarrow> (string \<times> string list) outcome" where
  "CreateSQL rt (StructVal _) = Panic ''reflect: Elem of invalid type''"
| "CreateSQL rt _ =
     out_bind (create_columns rt) (\<lambda>(arr, indexes).
       Ret (''CREATE TABLE [%v].[dbo].[%v]('' @ Join '','' arr @ '') ON [PRIMARY]'', indexes))"

fun insert_row :: "sql_field list \<Rightarrow> string list option \<Rightarrow> string outcome" where
  "insert_row e (Some ev) = getInsertValue e ev"
| "insert_row e None =
     (if \<exists>f\<in>set e. \<not> skipped f then Panic ''reflect: call of reflect.Value.Field on zero Value'' else Ret (row_text []))"

fun insert_rows :: "sql_field list \<Rightarrow> string list option list \<Rightarrow> string list outcome" where
  "insert_rows e [] = Ret []"
| "insert_rows e (ev # evs) =
     out_bind (insert_row e ev) (\<lambda>x. out_bind (insert_rows e evs) (\<lambda>xs. Ret (x # xs)))"

fun InsertSQL :: "sql_field list \<Rightarrow> sql_value \<Rightarrow> string outcome" where
  "InsertSQL e (SliceVal rv) =
     (if rv = [] then Panic ''reflect: slice index out of range''
      else out_bind (insert_rows e rv) (\<lambda>arr. Ret (insert_text e arr)))"
| "InsertSQL e (PtrVal v) = out_bind (insert_rows e [v]) (\<lambda>arr. Ret (insert_text e arr))"
| "InsertSQL e (StructVal v) = out_bind (insert_rows e [Some v]) (\<lambda>arr. Ret (insert_text e arr))"

text \<open>Lines of a log: the values are separated by semicolons; what is missing is empty.\<close>

definition bad_log_field :: "string \<Rightarrow> string \<Rightarrow> go_error" where
  "bad_log_field name v =
     GoErr (bytes_string [0xE6, 0x97, 0xA5, 0xE5, 0xBF, 0x97, 0xE5, 0xAD, 0x97, 0xE6, 0xAE, 0xB5, 0x5B] @ name @
            bytes_string [0x5D, 0xE6, 0xA0, 0xBC, 0xE5, 0xBC, 0x8F, 0xE9, 0x94, 0x99, 0xE8, 0xAF, 0xAF] @ '', value: '' @ v)"

fun log_values :: "sql_field list \<Rightarrow> string list \<Rightarrow> (go_error + string list) outcome" where
  "log_values [] varr = Ret (Inr [])"
| "log_values (f # fs) varr =
     (if skipped f then log_values fs varr
      else
        out_bind (getCreateDesc (ormTag f)) (\<lambda>desc.
          let v = (case varr of [] \<Rightarrow> [] | x # _ \<Rightarrow> x);
              item = (if quoted_type desc then Inr (quote v)
                      else case Atoi v of
                        (n, err) \<Rightarrow> if v \<noteq> [] \<and> err \<noteq> None then Inl (bad_log_field (fieldName f) v) else Inr (Itoa n))
          in case item of
               Inl e \<Rightarrow> Ret (Inl e)
             | Inr x \<Rightarrow>
                 out_bind (log_values fs (tl varr)) (\<lambda>r.
                   Ret (case r of Inl e \<Rightarrow> Inl e | Inr xs \<Rightarrow> Inr (x # xs)))))"

fun log_rows :: "sql_field list \<Rightarrow> string list \<Rightarrow> (go_error + string list) outcome" where
  "log_rows e [] = Ret (Inr [])"
| "log_rows e (v # ls) =
     out_bind (log_values e (Split CHR '';'' v)) (\<lambda>r.
       case r of
         Inl err \<Rightarrow> Ret (Inl err)
       | Inr values \<Rightarrow>
           out_bind (log_rows e ls) (\<lambda>rs.
             Ret (case rs of Inl err \<Rightarrow> Inl err | Inr arr \<Rightarrow> Inr (row_text values # arr))))"

definition InsertSQLByLog :: "sql_field list \<Rightarrow> string list \<Rightarrow> (go_error + string) outcome" where
  "InsertSQLByLog e ls =
     out_bind (log_rows e ls) (\<lambda>r. Ret (case r of Inl err \<Rightarrow> Inl err | Inr arr \<Rightarrow> Inr (insert_text e arr)))"

fun update_sets :: "sql_field list \<Rightarrow> string list \<Rightarrow> string list \<Rightarrow> string list outcome" where
  "update_sets (f # fs) (v # vs) names =
     (if skipped f \<or> (names \<noteq> [] \<and> column f \<notin> set names) then update_sets fs vs names
      else
        out_bind (getCreateDesc (ormTag f)) (\<lambda>desc.
        out_bind (update_sets fs vs names) (\<lambda>sets.
          Ret ((''['' @ column f @ '']='' @ (if quoted_type desc then quote v else v)) # sets))))"
| "update_sets _ _ names = Ret []"

definition update_text :: "string list \<Rightarrow> string \<Rightarrow> string" where
  "update_text sets cond =
     ''UPDATE [%v].[dbo].[%v%v] SET '' @ Join '','' sets @ (if cond \<noteq> [] then '' WHERE '' @ cond else [])"

fun UpdateSQL :: "sql_field list \<Rightarrow> sql_value \<Rightarrow> string \<Rightarrow> string list \<Rightarrow> string outcome" where
  "UpdateSQL e (StructVal rv) cond names = out_bind (update_sets e rv names) (\<lambda>sets. Ret (update_text sets cond))"
| "UpdateSQL e (PtrVal (Some rv)) cond names = out_bind (update_sets e rv names) (\<lambda>sets. Ret (update_text sets cond))"
| "UpdateSQL e (PtrVal None) cond names =
     (if \<exists>f\<in>set e. \<not> skipped f \<and> (names = [] \<or> column f \<in> set names)
      then Panic ''reflect: call of reflect.Value.Field on zero Value'' else Ret (update_text [] cond))"
| "UpdateSQL e (SliceVal _) cond names = Panic ''reflect: NumField of non-struct type''"


section \<open>Reading the values back\<close>

text \<open>
  The values of a statement as a server reads them: a quoted text in which a doubled quote stands
  for a quote, or anything else up to the next comma or parenthesis.
\<close>

datatype sql_lit = Text string | Bare string

fun read_text :: "string \<Rightarrow> (string \<times> string) option" where
  "read_text [] = None"
| "read_text (c # cs) =
     (if c \<noteq> CHR 0x27 then map_option (\<lambda>(t, r). (c # t, r)) (read_text cs)
      else case cs of
        c' # cs' \<Rightarrow> if c' = CHR 0x27 then map_option (\<lambda>(t, r). (c # t, r)) (read_text cs') else Some ([], cs)
      | [] \<Rightarrow> Some ([], []))"

definition stops :: "char \<Rightarrow> bool" where
  "stops c \<longleftrightarrow> c = CHR '','' \<or> c = CHR '')''"

definition read_lit :: "string \<Rightarrow> (sql_lit \<times> string) option" where
  "read_lit s =
     (if s \<noteq> [] \<and> hd s = CHR 0x27 then map_option (\<lambda>(t, r). (Text t, r)) (read_text (tl s))
      else Some (Bare (takeWhile (\<lambda>c. \<not> stops c) s), dropWhile (\<lambda>c. \<not> stops c) s))"

text \<open>The values up to the closing parenthesis; the first argument bounds their number.\<close>

fun read_lits :: "nat \<Rightarrow> string \<Rightarrow> (sql_lit list \<times> string) option" where
  "read_lits 0 s = None"
| "read_lits (Suc k) s =
     (case read_lit s of
        Some (l, c # r) \<Rightarrow>
          if c = CHR '')'' then Some ([l], r)
          else if c = CHR '','' then map_option (\<lambda>(ls, r'). (l # ls, r')) (read_lits k r)
          else None
      | _ \<Rightarrow> None)"

definition read_row :: "string \<Rightarrow> (sql_lit list \<times> string) option" where
  "read_row s = (if s \<noteq> [] \<and> hd s = CHR ''('' then read_lits (length s) (tl s) else None)"

text \<open>What is to be read back from an item.\<close>

definition plain :: "string \<Rightarrow> bool" where
  "plain v \<longleftrightarrow> (\<forall>c\<in>set v. \<not> stops c \<and> c \<noteq> CHR 0x27)"

lemma quote_free: "CHR 0x27 \<notin> set (HTMLEscapeString v)"
  by (auto simp: HTMLEscapeString_def escape_char_def)

lemma read_text_append: "CHR 0x27 \<notin> set t \<Longrightarrow> r = [] \<or> hd r \<noteq> CHR 0x27 \<Longrightarrow> read_text (t @ CHR 0x27 # r) = Some (t, r)"
  by (induction t) (auto split: list.splits)

lemma read_lit_quote: "c \<noteq> CHR 0x27 \<Longrightarrow> read_lit (quote v @ c # r) = Some (Text (HTMLEscapeString v), c # r)"
  by (simp add: read_lit_def quote_def read_text_append quote_free)

lemma read_lit_plain:
  assumes "plain v" "stops c"
  shows "read_lit (v @ c # r) = Some (Bare v, c # r)"
proof -
  have "hd (v @ c # r) \<noteq> CHR 0x27" using assms by (cases v) (auto simp: plain_def stops_def)
  moreover have "takeWhile (\<lambda>c. \<not> stops c) (v @ c # r) = v" "dropWhile (\<lambda>c. \<not> stops c) (v @ c # r) = c # r"
    using assms by (auto simp: plain_def takeWhile_append2 dropWhile_append2)
  ultimately show ?thesis by (simp add: read_lit_def)
qed

text \<open>An item that reads back as a literal, whatever follows it in the list.\<close>

definition reads_as :: "string \<Rightarrow> sql_lit \<Rightarrow> bool" where
  "reads_as x l \<longleftrightarrow> (\<forall>c r. stops c \<longrightarrow> read_lit (x @ c # r) = Some (l, c # r))"

lemma reads_as_quote [simp]: "reads_as (quote v) (Text (HTMLEscapeString v))"
  by (auto simp: reads_as_def stops_def intro: read_lit_quote)

lemma reads_as_plain: "plain v \<Longrightarrow> reads_as v (Bare v)"
  by (auto simp: reads_as_def intro: read_lit_plain)

lemma read_lits_Join:
  assumes "list_all2 reads_as xs ls" "xs \<noteq> []" "length xs \<le> k"
  shows "read_lits k (Join '','' xs @ '')'' @ r) = Some (ls, r)"
  using assms
proof (induction xs ls arbitrary: k rule: list_all2_induct)
  case (Cons x xs l ls)
  then obtain k' where k: "k = Suc k'" "length xs \<le> k'" by (cases k) auto
  show ?case
  proof (cases xs)
    case Nil
    then have "ls = []" using Cons.hyps by simp
    with Nil Cons.hyps k show ?thesis by (simp add: reads_as_def stops_def)
  next
    case (Cons y ys)
    then have "read_lits k' (Join '','' xs @ '')'' @ r) = Some (ls, r)" using Cons.IH k by simp
    with Cons Cons.hyps k show ?thesis by (simp add: reads_as_def stops_def)
  qed
qed simp

lemma read_row_text:
  assumes "list_all2 reads_as xs ls" "xs \<noteq> []"
  shows "read_row (row_text xs @ r) = Some (ls, r)"
proof -
  have "length xs \<le> length (Join '','' xs) + 1" for xs
    by (induction "'',''" xs rule: Join.induct) auto
  from this [of xs] have "length xs \<le> length (row_text xs @ r)" by (simp add: row_text_def)
  then have "read_lits (length (row_text xs @ r)) (Join '','' xs @ '')'' @ r) = Some (ls, r)"
    by (rule read_lits_Join [OF assms])
  then show ?thesis by (simp add: read_row_def row_text_def)
qed

text \<open>All rows of a statement, up to the semicolon that ends it.\<close>

fun read_rows :: "nat \<Rightarrow> string \<Rightarrow> sql_lit list list option" where
  "read_rows 0 s = None"
| "read_rows (Suc k) s =
     (case read_row s of
        Some (ls, c # r) \<Rightarrow>
          if c = CHR '';'' \<and> r = [] then Some [ls]
          else if c = CHR '','' then map_option (\<lambda>rs. ls # rs) (read_rows k r)
          else None
      | _ \<Rightarrow> None)"

text \<open>The columns and rows of an INSERT statement.\<close>

definition reads_rows :: "sql_field list \<Rightarrow> string \<Rightarrow> sql_lit list list \<Rightarrow> bool" where
  "reads_rows e stmt rows \<longleftrightarrow>
     (\<exists>vals. stmt = ''INSERT INTO [%v].[dbo].[%v] ('' @ Join '','' (column_names e) @ '') VALUES'' @ vals \<and>
             read_rows (length vals) vals = Some rows)"

lemma read_rows_Join:
  assumes "list_all2 (list_all2 reads_as) xss rows" "xss \<noteq> []" "[] \<notin> set xss" "length xss \<le> k"
  shows "read_rows k (Join '','' (map row_text xss) @ '';'') = Some rows"
  using assms
proof (induction xss rows arbitrary: k rule: list_all2_induct)
  case (Cons x xs l ls)
  then obtain k' where k: "k = Suc k'" "length xs \<le> k'" by (cases k) auto
  have x: "read_row (row_text x @ r) = Some (l, r)" for r using Cons.hyps Cons.prems by (intro read_row_text) auto
  show ?case
  proof (cases xs)
    case Nil
    then have "ls = []" using Cons.hyps by simp
    with Nil x k show ?thesis by simp
  next
    case (Cons y ys)
    then have "read_rows k' (Join '','' (map row_text xs) @ '';'') = Some ls" using Cons.IH Cons.prems k by simp
    with Cons x k show ?thesis by simp
  qed
qed simp

lemma insert_text_reads:
  assumes "list_all2 (list_all2 reads_as) xss rows" "xss \<noteq> []" "[] \<notin> set xss"
  shows "reads_rows e (insert_text e (map row_text xss)) rows"
proof -
  have "length ys \<le> length (Join '','' (map row_text ys))" for ys
    by (induction ys rule: induct_list012) (auto simp: row_text_def)
  from this [of xss] have "length xss \<le> length (Join '','' (map row_text xss) @ '';'')" by simp
  from read_rows_Join [OF assms this] show ?thesis by (auto simp: reads_rows_def insert_text_def)
qed

text \<open>What is stored for a value of a column.\<close>

definition desc_of :: "sql_field \<Rightarrow> string" where
  "desc_of f = (case getCreateDesc (ormTag f) of Ret d \<Rightarrow> d | Panic _ \<Rightarrow> [])"

definition item_lit :: "string \<Rightarrow> string \<Rightarrow> sql_lit" where
  "item_lit desc v =
     (if \<not> Contains desc ''varchar'' \<and> v = [] then Bare ''NULL''
      else if quoted_type desc then Text (HTMLEscapeString v) else Bare v)"

definition row_lits :: "sql_field list \<Rightarrow> string list \<Rightarrow> sql_lit list" where
  "row_lits e row = map (\<lambda>(f, v). item_lit (desc_of f) v) (filter (\<lambda>(f, v). \<not> skipped f) (zip e row))"

text \<open>The tags have descriptions, and a value that is not quoted has no character of SQL's list syntax.\<close>

definition tags_ok :: "sql_field list \<Rightarrow> bool" where
  "tags_ok e \<longleftrightarrow> (\<forall>f\<in>set e. \<not> skipped f \<longrightarrow> (\<exists>d. getCreateDesc (ormTag f) = Ret d)) \<and> (\<exists>f\<in>set e. \<not> skipped f)"

definition row_ok :: "sql_field list \<Rightarrow> string list \<Rightarrow> bool" where
  "row_ok e row \<longleftrightarrow> length row = length e \<and> (\<forall>(f, v)\<in>set (zip e row). \<not> skipped f \<longrightarrow> quoted_type (desc_of f) \<or> plain v)"

lemma insert_item_reads:
  assumes "getCreateDesc (ormTag f) = Ret d" "quoted_type (desc_of f) \<or> plain v"
  shows "\<exists>x. insert_item f v = Ret x \<and> reads_as x (item_lit (desc_of f) v)"
proof -
  have "reads_as ''NULL'' (Bare ''NULL'')" by (rule reads_as_plain) (simp add: plain_def stops_def)
  with assms show ?thesis by (auto simp: insert_item_def item_lit_def desc_of_def intro: reads_as_plain)
qed

lemma insert_fields_reads:
  assumes "\<forall>f\<in>set e. \<not> skipped f \<longrightarrow> (\<exists>d. getCreateDesc (ormTag f) = Ret d)" "row_ok e row"
  shows "\<exists>xs. insert_fields e row = Ret xs \<and> list_all2 reads_as xs (row_lits e row)"
  using assms
proof (induction e row rule: insert_fields.induct)
  case (1 f fs v vs)
  have IH: "\<exists>xs. insert_fields fs vs = Ret xs \<and> list_all2 reads_as xs (row_lits fs vs)"
    using 1 by (cases "skipped f"; cases "insert_item f v") (auto simp: row_ok_def)
  show ?case
  proof (cases "skipped f")
    case True
    with IH show ?thesis by (simp add: row_lits_def)
  next
    case False
    with 1 obtain x where "insert_item f v = Ret x" "reads_as x (item_lit (desc_of f) v)"
      using insert_item_reads [of f _ v] by (auto simp: row_ok_def)
    with IH False show ?thesis by (auto simp: row_lits_def)
  qed
qed (simp_all add: row_lits_def row_ok_def)

lemma insert_rows_reads:
  assumes "\<forall>f\<in>set e. \<not> skipped f \<longrightarrow> (\<exists>d. getCreateDesc (ormTag f) = Ret d)" "\<forall>row\<in>set rows. row_ok e row"
  shows "\<exists>xss. insert_rows e (map Some rows) = Ret (map row_text xss) \<and> list_all2 (list_all2 reads_as) xss (map (row_lits e) rows)"
  using assms(2)
proof (induction rows)
  case (Cons row rows)
  then obtain xss where xss: "insert_rows e (map Some rows) = Ret (map row_text xss)" "list_all2 (list_all2 reads_as) xss (map (row_lits e) rows)"
    by auto
  from Cons.prems obtain xs where "insert_fields e row = Ret xs" "list_all2 reads_as xs (row_lits e row)"
    using insert_fields_reads [OF assms(1), of row] by auto
  with xss have "insert_rows e (map Some (row # rows)) = Ret (map row_text (xs # xss)) \<and>
      list_all2 (list_all2 reads_as) (xs # xss) (map (row_lits e) (row # rows))" by (simp add: getInsertValue_def)
  then show ?case by blast
qed simp

lemma row_lits_nonempty: "length row = length e \<Longrightarrow> \<exists>f\<in>set e. \<not> skipped f \<Longrightarrow> row_lits e row \<noteq> []"
  by (induction row e rule: list_induct2) (auto simp: row_lits_def)

text \<open>The values of a line of a log are quoted or are numbers, whatever the line holds.\<close>

lemma plain_Itoa: "plain (Itoa n)"
proof -
  have "list_all (\<lambda>c. char_digit c = None) ('','' @ '')'' @ [CHR 0x27])" by code_simp
  then have "c \<noteq> CHR '','' \<and> c \<noteq> CHR '')'' \<and> c \<noteq> CHR 0x27" if "c \<in> set (FormatUint m)" for c m
    using FormatUint_digits [OF that] char_digit_digit_char by fastforce
  then show ?thesis by (auto simp: plain_def stops_def Itoa_def)
qed

lemma out_bind_sum:
  "out_bind x (\<lambda>r. Ret (case r of Inl e \<Rightarrow> Inl e | Inr a \<Rightarrow> Inr (g a))) = Ret (Inr y) \<longleftrightarrow> (\<exists>a. x = Ret (Inr a) \<and> y = g a)"
  "out_bind x (\<lambda>r. case r of Inl e \<Rightarrow> Ret (Inl e) | Inr a \<Rightarrow> h a) = Ret (Inr y) \<longleftrightarrow> (\<exists>a. x = Ret (Inr a) \<and> h a = Ret (Inr y))"
  by (cases x; auto split: sum.splits)+

lemma log_values_reads:
  "log_values e varr = Ret (Inr xs) \<Longrightarrow> \<exists>ls. list_all2 reads_as xs ls \<and> length ls = length (column_names e)"
proof (induction e arbitrary: varr xs)
  case (Cons f e)
  show ?case
  proof (cases "skipped f")
    case True
    with Cons show ?thesis by (simp add: column_names_def)
  next
    case False
    let ?v = "case varr of [] \<Rightarrow> [] | x # _ \<Rightarrow> x"
    obtain d where d: "getCreateDesc (ormTag f) = Ret d" using Cons.prems False by (cases "getCreateDesc (ormTag f)") auto
    have lit: "\<exists>l. reads_as (quote v) l" "\<exists>l. reads_as (Itoa n) l" for v n using reads_as_quote reads_as_plain [OF plain_Itoa] by blast+
    from Cons.prems False d have "\<exists>x xs'. xs = x # xs' \<and> log_values e (tl varr) = Ret (Inr xs') \<and> (\<exists>l. reads_as x l)"
      using lit by (auto simp: Let_def out_bind_sum split: if_splits prod.splits)
    then obtain x xs' where x: "xs = x # xs'" "log_values e (tl varr) = Ret (Inr xs')" "\<exists>l. reads_as x l" by blast
    with Cons.IH [OF x(2)] x(1,3) False show ?thesis by (auto simp: column_names_def list_all2_Cons1 intro: exI [of _ "_ # _"])
  qed
qed (simp add: column_names_def)

lemma log_rows_reads:
  "log_rows e ls = Ret (Inr arr) \<Longrightarrow>
   \<exists>xss rows. arr = map row_text xss \<and> list_all2 (list_all2 reads_as) xss rows \<and> length rows = length ls \<and>
     (\<forall>row\<in>set rows. length row = length (column_names e))"
proof (induction ls arbitrary: arr)
  case (Cons v ls)
  then obtain vs arr' where a: "log_values e (Split CHR '';'' v) = Ret (Inr vs)" "log_rows e ls = Ret (Inr arr')" "arr = row_text vs # arr'"
    by (auto simp: out_bind_sum)
  from log_values_reads [OF a(1)] obtain l where l: "list_all2 reads_as vs l" "length l = length (column_names e)" by blast
  from Cons.IH [OF a(2)] obtain xss rows where r: "arr' = map row_text xss" "list_all2 (list_all2 reads_as) xss rows"
    "length rows = length ls" "\<forall>row\<in>set rows. length row = length (column_names e)" by blast
  from l r a(3) have "arr = map row_text (vs # xss) \<and> list_all2 (list_all2 reads_as) (vs # xss) (l # rows) \<and>
      length (l # rows) = length (v # ls) \<and> (\<forall>row\<in>set (l # rows). length row = length (column_names e))" by simp
  then show ?case by blast
qed simp

lemma log_no_panic: "tags_ok e \<Longrightarrow> \<exists>r. InsertSQLByLog e ls = Ret r"
proof -
  assume ok: "tags_ok e"
  have "\<exists>r. log_values fs varr = Ret r" if "\<forall>f\<in>set fs. \<not> skipped f \<longrightarrow> (\<exists>d. getCreateDesc (ormTag f) = Ret d)" for fs varr
    using that
  proof (induction fs arbitrary: varr)
    case (Cons f fs)
    then obtain r where "log_values fs (tl varr) = Ret r" by fastforce
    with Cons show ?case by (auto simp: Let_def split: sum.splits prod.splits)
  qed simp
  with ok have v: "\<exists>r. log_values e varr = Ret r" for varr by (simp add: tags_ok_def)
  have "\<exists>r. log_rows e ls = Ret r"
  proof (induction ls)
    case (Cons l ls)
    with v [of "Split CHR '';'' l"] show ?case by (auto split: sum.splits)
  qed simp
  then show ?thesis by (auto simp: InsertSQLByLog_def)
qed

lemma list_all2_nonempty: "list_all2 (list_all2 P) xss yss \<Longrightarrow> [] \<notin> set yss \<Longrightarrow> [] \<notin> set xss"
  by (induction xss yss rule: list_all2_induct) auto


definition user_table :: "sql_field list" where
  "user_table = [\<lparr>fieldName = ''Id'', ormTag = ''create:int'', indexTag = ''ASC''\<rparr>,
     \<lparr>fieldName = ''Cache'', ormTag = ''-'', indexTag = []\<rparr>,
     \<lparr>fieldName = ''Name'', ormTag = ''create:varchar(20)'', indexTag = []\<rparr>]"

definition quote_attack :: string where
  "quote_attack = [CHR 0x27] @ '');DROP TABLE t--''"

lemma user_table_ok: "tags_ok user_table" "row_ok user_table [''7'', ''x'', quote_attack]"
  by (simp_all add: tags_ok_def row_ok_def user_table_def skipped_def getCreateDesc_def index_at_def desc_of_def quoted_type_def plain_def stops_def)


text \<open>A text column of another type is neither quoted nor escaped, so its value can close the row.\<close>

lemma raw_column_injects:
  "getInsertValue [\<lparr>fieldName = ''Note'', ormTag = ''create:text'', indexTag = []\<rparr>] [''1);DROP TABLE t--''] = Ret ''(1);DROP TABLE t--)'' \<and>
   read_row ''(1);DROP TABLE t--)'' = Some ([Bare ''1''], '';DROP TABLE t--)'')"
  by code_simp

end
