(* ===== verification/Ext_Services.thy ===== *)
theory Ext_Services
  imports Sql_Text Util_Misc
begin

text \<open>
  What the wrappers of other services do of their own: the connection strings and statements of
  \<^verbatim>\<open>util/redis.go\<close>, \<^verbatim>\<open>util/mysql.go\<close> and \<^verbatim>\<open>util/mongo.go\<close>, the messages of \<^verbatim>\<open>util/dingding.go\<close> and
  \<^verbatim>\<open>util/zinc.go\<close>, and the calls that are filed by thread in \<^verbatim>\<open>util/unix.go\<close>. The libraries and the services
  are parameters.
\<close>

section \<open>Redis and MySQL\<close>

record redis_options =
  redisAddr :: string
  redisPassword :: string
  redisDB :: int

text \<open>The result and the global \<^verbatim>\<open>redisConn\<close>; \<open>newClient\<close> is \<^verbatim>\<open>redis.NewClient\<close>.\<close>

definition ConnectRedis :: "(redis_options \<Rightarrow> 'c option) \<Rightarrow> string \<Rightarrow> (go_error option \<times> 'c option) outcome" where
  "ConnectRedis newClient connStr =
     (let arr = Split CHR '':'' connStr in
      out_bind (index_at arr 0) (\<lambda>redisHost.
      out_bind (index_at arr 1) (\<lambda>p. let redisPort = fst (Atoi p) in
      out_bind (index_at arr 2) (\<lambda>redisPwd.
      out_bind (index_at arr 3) (\<lambda>d.
        let redisConn = newClient \<lparr>redisAddr = redisHost @ '':'' @ Itoa redisPort, redisPassword = redisPwd, redisDB = fst (Atoi d)\<rparr>
        in Ret (if redisConn = None then (Some (GoErr (''connect redis['' @ connStr @ ''] error'')), redisConn) else (None, redisConn)))))))"

definition GetRedis :: "'c option \<Rightarrow> 'c option" where
  "GetRedis redisConn = redisConn"

text \<open>A well-formed string connects with just its parts; a password with a colon is cut and the rest of it is taken for the database.\<close>

lemma ConnectRedis_parts:
  assumes "CHR '':'' \<notin> set host" "CHR '':'' \<notin> set pwd" "int64_range port" "int64_range db"
    "newClient \<lparr>redisAddr = host @ '':'' @ Itoa port, redisPassword = pwd, redisDB = db\<rparr> = Some c"
  shows "ConnectRedis newClient (host @ '':'' @ Itoa port @ '':'' @ pwd @ '':'' @ Itoa db) = Ret (None, Some c)"
proof -
  have "char_digit CHR '':'' = None" by code_simp
  then have "CHR '':'' \<notin> set (FormatUint n)" for n using FormatUint_digits [of "CHR '':''" n] by fastforce
  then have "CHR '':'' \<notin> set (Itoa i)" for i by (simp add: Itoa_def)
  with assms have "Split CHR '':'' (host @ '':'' @ Itoa port @ '':'' @ pwd @ '':'' @ Itoa db) = [host, Itoa port, pwd, Itoa db]"
    by (simp add: Split_append)
  with assms(3-5) show ?thesis by (simp add: ConnectRedis_def index_at_def Let_def)
qed

lemma ConnectRedis_password_cut: "ConnectRedis Some ''h:1:a:b:2'' = Ret (None, Some \<lparr>redisAddr = ''h:1'', redisPassword = ''a'', redisDB = 0\<rparr>)"
  by (simp add: ConnectRedis_def index_at_def Let_def Atoi_def ParseUint_def char_digit_def max_uint64_def max_int64_def min_int64_def
      Itoa_def FormatUint.simps [of "Suc 0"])

lemma ConnectRedis_short: "length (Split CHR '':'' s) < 4 \<Longrightarrow> \<exists>e. ConnectRedis newClient s = Panic e"
  by (auto simp: ConnectRedis_def index_at_def Let_def)

text \<open>\<^verbatim>\<open>sql.Open\<close> and \<^verbatim>\<open>Ping\<close>; the global keeps the database also when it does not answer.\<close>

definition util_InitMysql :: "(string \<Rightarrow> go_error + 'c) \<Rightarrow> ('c \<Rightarrow> go_error option) \<Rightarrow> string \<Rightarrow> go_error option \<times> 'c option" where
  "util_InitMysql open' ping db =
     (case open' db of
        Inl err \<Rightarrow> (Some err, None)
      | Inr c \<Rightarrow> (case ping c of Some err \<Rightarrow> (Some err, Some c) | None \<Rightarrow> (None, Some c)))"

definition GetMysqlDB :: "'c option \<Rightarrow> 'c option" where
  "GetMysqlDB mysqlDB = mysqlDB"


section \<open>Mongo indexes\<close>

text \<open>An index is the list of its keys with the printed values.\<close>

type_synonym mongo_index = "(string \<times> string) list"

record ('c) mongo =
  mConnStr :: string
  mClient :: "'c option"
  mDbName :: string
  mIndexes :: "(string, mongo_index list) gmap"

text \<open>
  The driver: connecting, \<^verbatim>\<open>Ping\<close>, the database named in the connection string, listing the names of the indexes
  of a collection, and creating one, whose result is dropped.
\<close>

record ('c, 'w) mongo_driver =
  mgConnect :: "string \<Rightarrow> go_error + 'c"
  mgPing :: "'c \<Rightarrow> go_error option"
  mgParse :: "string \<Rightarrow> string option"
  mgList :: "string \<Rightarrow> string \<Rightarrow> 'w \<Rightarrow> go_error + string list"
  mgCreate :: "string \<Rightarrow> string \<Rightarrow> mongo_index \<Rightarrow> 'w \<Rightarrow> 'w"

definition getIndexes :: "('c, 'w) mongo_driver \<Rightarrow> string \<Rightarrow> string \<Rightarrow> 'w \<Rightarrow> string list" where
  "getIndexes D db collection w = (case mgList D db collection w of Inl _ \<Rightarrow> [] | Inr names \<Rightarrow> names)"

definition getIndexName :: "mongo_index \<Rightarrow> string" where
  "getIndexName index = Join ''_'' (concat (map (\<lambda>(k, v). [k, v]) index))"

fun create_indexes :: "('c, 'w) mongo_driver \<Rightarrow> string \<Rightarrow> string \<Rightarrow> string list \<Rightarrow> mongo_index list \<Rightarrow> 'w \<Rightarrow> 'w" where
  "create_indexes D db name indexNames [] w = w"
| "create_indexes D db name indexNames (index # ixs) w =
     (if InArray indexNames (getIndexName index) then create_indexes D db name indexNames ixs w
      else create_indexes D db name indexNames ixs (mgCreate D db name index w))"

definition initIndex :: "('c, 'w) mongo_driver \<Rightarrow> (string, mongo_index list) gorder \<Rightarrow> 'c mongo \<Rightarrow> 'w \<Rightarrow> 'w" where
  "initIndex D ord m w =
     fold (\<lambda>(name, indexes) w. create_indexes D (mDbName m) name (getIndexes D (mDbName m) name w) indexes w) (ord (mIndexes m)) w"

definition ConnectMongo ::
  "('c, 'w) mongo_driver \<Rightarrow> (string, mongo_index list) gorder \<Rightarrow> 'c mongo \<Rightarrow> 'w \<Rightarrow> go_error option outcome \<times> 'c mongo \<times> 'w" where
  "ConnectMongo D ord m w =
     (case mgConnect D (mConnStr m) of
        Inl err \<Rightarrow> (Ret (Some err), m\<lparr>mClient := None\<rparr>, w)
      | Inr c \<Rightarrow>
          let m1 = m\<lparr>mClient := Some c\<rparr> in
          (case mgPing D c of
             Some err \<Rightarrow> (Ret (Some err), m1, w)
           | None \<Rightarrow>
               (case mgParse D (mConnStr m) of
                  None \<Rightarrow> (Panic ''nil pointer dereference'', m1, w)
                | Some database \<Rightarrow>
                    let m2 = (if database \<noteq> [] then m1\<lparr>mDbName := database\<rparr> else m1) in
                    (Ret None, m2, initIndex D ord m2 w))))"

text \<open>
  A store of indexes by database and collection, in which creating an index files its name. Connecting creates the
  missing indexes, and connecting again creates none.
\<close>

type_synonym index_store = "(string \<times> string) \<Rightarrow> string list"

definition store_driver :: "(string \<Rightarrow> go_error + 'c) \<Rightarrow> (string \<Rightarrow> string option) \<Rightarrow> ('c, index_store) mongo_driver" where
  "store_driver connect parse =
     \<lparr>mgConnect = connect, mgPing = (\<lambda>_. None), mgParse = parse, mgList = (\<lambda>db n w. Inr (w (db, n))),
      mgCreate = (\<lambda>db n i w. w((db, n) := w (db, n) @ [getIndexName i]))\<rparr>"

lemma InArray_set: "InArray xs x = (x \<in> set xs)"
  by (induction xs) (auto simp: InArray_def)

definition add_missing :: "string \<Rightarrow> string \<times> mongo_index list \<Rightarrow> index_store \<Rightarrow> index_store" where
  "add_missing db ni w = w((db, fst ni) := w (db, fst ni) @ map getIndexName (filter (\<lambda>i. getIndexName i \<notin> set (w (db, fst ni))) (snd ni)))"

lemma create_indexes_store:
  "create_indexes (store_driver c p) db n names ixs w =
     w((db, n) := w (db, n) @ map getIndexName (filter (\<lambda>i. getIndexName i \<notin> set names) ixs))"
  by (induction ixs arbitrary: w) (auto simp: InArray_set store_driver_def)

lemma initIndex_fold: "initIndex (store_driver c p) ord m w = fold (add_missing (mDbName m)) (ord (mIndexes m)) w"
proof -
  have g: "getIndexes (store_driver c p) db n w = w (db, n)" for db n w by (simp add: getIndexes_def store_driver_def)
  have "(\<lambda>(name, indexes) w. create_indexes (store_driver c p) (mDbName m) name (getIndexes (store_driver c p) (mDbName m) name w) indexes w) =
      add_missing (mDbName m)"
    by (auto simp: fun_eq_iff create_indexes_store add_missing_def g)
  then show ?thesis by (simp add: initIndex_def)
qed

lemma add_missing_other: "n \<notin> fst ` set ms \<Longrightarrow> fold (add_missing db) ms w (db, n) = w (db, n)"
  by (induction ms arbitrary: w) (auto simp: add_missing_def)

lemma add_missing_fold:
  assumes "gmap_ok ms" "(n, ixs) \<in> set ms"
  shows "fold (add_missing db) ms w (db, n) = w (db, n) @ map getIndexName (filter (\<lambda>i. getIndexName i \<notin> set (w (db, n))) ixs)"
  using assms
proof (induction ms arbitrary: w)
  case (Cons m ms)
  show ?case
  proof (cases "fst m = n")
    case True
    with Cons.prems have "n \<notin> fst ` set ms" "m = (n, ixs)" by (auto simp: rev_image_eqI)
    with add_missing_other [of n ms db "add_missing db m w"] show ?thesis by (simp add: add_missing_def [of db "(n, ixs)" w])
  next
    case False
    with Cons.prems have "(n, ixs) \<in> set ms" "gmap_ok ms" by auto
    from Cons.IH [OF this(2,1), of "add_missing db m w"] False show ?thesis by (simp add: add_missing_def)
  qed
qed simp

lemma initIndex_store:
  assumes "range_order ord" "gmap_ok (mIndexes m)" "(n, ixs) \<in> set (mIndexes m)"
  shows "initIndex (store_driver c p) ord m w (mDbName m, n) =
    w (mDbName m, n) @ map getIndexName (filter (\<lambda>i. getIndexName i \<notin> set (w (mDbName m, n))) ixs)"
  using assms add_missing_fold [of "ord (mIndexes m)" n ixs "mDbName m" w] by (simp add: initIndex_fold range_order_distinct range_order_set)

lemma initIndex_twice:
  assumes "range_order ord" "gmap_ok (mIndexes m)" "(n, ixs) \<in> set (mIndexes m)"
  shows "initIndex (store_driver c p) ord m (initIndex (store_driver c p) ord m w) (mDbName m, n) = initIndex (store_driver c p) ord m w (mDbName m, n)"
proof -
  note I = initIndex_store [OF assms, where c = c and p = p]
  have "filter (\<lambda>i. getIndexName i \<notin> set (initIndex (store_driver c p) ord m w (mDbName m, n))) ixs = []"
    unfolding I by (auto simp: filter_empty_conv)
  then show ?thesis using I [of "initIndex (store_driver c p) ord m w"] by simp
qed


section \<open>Messages over HTTP\<close>

record ding_log =
  ddTitle :: string
  ddKvs :: "(string, string) gmap"

text \<open>What is sent, as JSON; the values of the items are already printed.\<close>

record ding_data =
  dMsgType :: string
  dTitle :: string
  dText :: string

record http_post =
  pUrl :: string
  pContentType :: string
  pBody :: string

text \<open>\<open>hmac\<close> is the signature of a text under a key, in base64; \<open>post\<close> sends a request.\<close>

definition SignSHA256 :: "(string \<Rightarrow> string \<Rightarrow> string) \<Rightarrow> string \<Rightarrow> string \<Rightarrow> string" where
  "SignSHA256 hmac DingSercet str = hmac DingSercet (str @ [CHR 0x0A] @ DingSercet)"

definition sendDingTalk ::
  "(string \<Rightarrow> string \<Rightarrow> string) \<Rightarrow> (ding_data \<Rightarrow> go_error + string) \<Rightarrow> (http_post \<Rightarrow> 'w \<Rightarrow> go_error option \<times> 'w) \<Rightarrow> string \<Rightarrow> u64 \<Rightarrow>
   string \<Rightarrow> ding_data \<Rightarrow> 'w \<Rightarrow> go_error option \<times> 'w" where
  "sendDingTalk hmac json post secret nowNano url data w =
     (if url = [] then (None, w)
      else
        let t = FormatUint (unat (nowNano div 1000000));
            url' = url @ ''&timestamp='' @ t @ ''&sign='' @ SignSHA256 hmac secret t
        in case json data of
             Inl err \<Rightarrow> (Some err, w)
           | Inr bts \<Rightarrow> post \<lparr>pUrl = url', pContentType = ''application/json; charset=utf-8'', pBody = bts\<rparr> w)"

definition SendDingTalk ::
  "(string \<Rightarrow> string \<Rightarrow> string) \<Rightarrow> (ding_data \<Rightarrow> go_error + string) \<Rightarrow> (http_post \<Rightarrow> 'w \<Rightarrow> go_error option \<times> 'w) \<Rightarrow> string \<Rightarrow> string \<Rightarrow> u64 \<Rightarrow>
   (string, string) gorder \<Rightarrow> ding_log \<Rightarrow> 'w \<Rightarrow> go_error option \<times> 'w" where
  "SendDingTalk hmac json post secret url nowNano ord msg w =
     (let lines = fold (\<lambda>(k, v) txt. txt @ ''>- **'' @ k @ '':** '' @ v @ '' '' @ [CHR 0x0A]) (ord (ddKvs msg))
            (''#### '' @ ddTitle msg @ [CHR 0x0A])
      in sendDingTalk hmac json post secret nowNano url \<lparr>dMsgType = ''markdown'', dTitle = ddTitle msg, dText = lines\<rparr> w)"

text \<open>Every item of the message is a line of the text, whatever the order of the map.\<close>

lemma ding_lines:
  "fold (\<lambda>(k, v) txt. txt @ ''>- **'' @ k @ '':** '' @ v @ '' '' @ [CHR 0x0A]) kvs txt0 =
     txt0 @ concat (map (\<lambda>(k, v). ''>- **'' @ k @ '':** '' @ v @ '' '' @ [CHR 0x0A]) kvs)"
  by (induction kvs arbitrary: txt0) (auto split: prod.splits)

lemma ding_unconfigured: "SendDingTalk hmac json post secret [] nowNano ord msg w = (None, w)"
  by (simp add: SendDingTalk_def sendDingTalk_def)

text \<open>
  \<^verbatim>\<open>WriteZinc\<close>: a request that cannot be built ends the process; an answer that does not say that the document
  was taken is only printed, so the caller is told that all is well.
\<close>

datatype zinc_result = ZExit go_error | ZReturn "go_error option"

definition zinc_url :: "string \<Rightarrow> string \<Rightarrow> string" where
  "zinc_url domain index = domain @ ''/api/default/'' @ index @ ''/_json''"

definition WriteZinc ::
  "(string \<Rightarrow> string \<Rightarrow> go_error + 'r) \<Rightarrow> ('r \<Rightarrow> string \<Rightarrow> string \<Rightarrow> go_error + (go_error + string)) \<Rightarrow>
   string \<Rightarrow> string \<Rightarrow> string \<Rightarrow> string \<Rightarrow> string \<Rightarrow> string list \<Rightarrow> zinc_result \<times> string list" where
  "WriteZinc newRequest do' domain username password index data out =
     (case newRequest (zinc_url domain index) data of
        Inl err \<Rightarrow> (ZExit err, out)
      | Inr req \<Rightarrow>
          (case do' req username password of
             Inl err \<Rightarrow> (ZReturn (Some err), out)
           | Inr (Inl err) \<Rightarrow> (ZReturn (Some err), out)
           | Inr (Inr body) \<Rightarrow>
               (ZReturn None, if \<not> Contains body ([CHR 0x22] @ ''successful'' @ [CHR 0x22] @ '':1'') then out @ [''WriteZinc error '' @ body] else out)))"

lemma WriteZinc_hides_failure:
  assumes "newRequest (zinc_url domain index) data = Inr req" "do' req u p = Inr (Inr body)"
    "\<not> Contains body ([CHR 0x22] @ ''successful'' @ [CHR 0x22] @ '':1'')"
  shows "WriteZinc newRequest do' domain u p index data out = (ZReturn None, out @ [''WriteZinc error '' @ body])"
  using assms by (simp add: WriteZinc_def)


section \<open>Calls filed by thread\<close>

record req_event_call =
  evUid :: u64
  evCallId :: u64

text \<open>The map, and how often each thread is locked to its goroutine.\<close>

record thread_state =
  threadMap :: "(u32, req_event_call) gmap"
  lockCount :: "u32 \<Rightarrow> nat"

definition SetCallId :: "u32 \<Rightarrow> u64 \<Rightarrow> u64 \<Rightarrow> thread_state \<Rightarrow> thread_state" where
  "SetCallId tid uid callId s =
     s\<lparr>lockCount := (lockCount s)(tid := Suc (lockCount s tid)),
       threadMap := gmap_set tid \<lparr>evUid = uid, evCallId = callId\<rparr> (threadMap s)\<rparr>"

definition UnLockCallId :: "u32 \<Rightarrow> thread_state \<Rightarrow> thread_state" where
  "UnLockCallId tid s = s\<lparr>lockCount := (lockCount s)(tid := lockCount s tid - 1)\<rparr>"

definition GetCallId :: "u32 \<Rightarrow> thread_state \<Rightarrow> u64" where
  "GetCallId tid s = (case map_of (threadMap s) tid of Some e \<Rightarrow> evCallId e | None \<Rightarrow> 0)"

definition GetReqEventCall :: "u32 \<Rightarrow> thread_state \<Rightarrow> u64 \<times> u64" where
  "GetReqEventCall tid s = (case map_of (threadMap s) tid of Some e \<Rightarrow> (evUid e, evCallId e) | None \<Rightarrow> (0, 0))"

lemma SetCallId_get:
  "GetCallId tid' (SetCallId tid uid callId s) = (if tid' = tid then callId else GetCallId tid' s)"
  "GetReqEventCall tid' (SetCallId tid uid callId s) = (if tid' = tid then (uid, callId) else GetReqEventCall tid' s)"
  by (simp_all add: GetCallId_def GetReqEventCall_def SetCallId_def)

text \<open>Unlocking keeps the entry, so the next goroutine on the thread sees the call of the one before.\<close>

lemma UnLockCallId_stale: "GetCallId tid (UnLockCallId tid (SetCallId tid uid callId s)) = callId"
  by (simp add: GetCallId_def SetCallId_def UnLockCallId_def)

text \<open>\<^verbatim>\<open>strings.Split\<close> for a separator that is not empty.\<close>

function split_str :: "string \<Rightarrow> string \<Rightarrow> string \<Rightarrow> string list" where
  "split_str acc s sep =
     (if s = [] then [acc]
      else if sep \<noteq> [] \<and> prefix sep s then acc # split_str [] (drop (length sep) s) sep
      else split_str (acc @ [hd s]) (tl s) sep)"
  by pat_completeness auto
termination by (relation "measure (\<lambda>(_, s, _). length s)") auto

declare split_str.simps [simp del]

definition GetRunPath :: "(string \<times> int) option \<Rightarrow> string" where
  "GetRunPath caller =
     (case caller of
        None \<Rightarrow> ''???''
      | Some (file, line) \<Rightarrow>
          let path = split_str [] file ''go/src'' in
          if length path = 2 then path ! 1 @ '':'' @ Itoa line else file @ '':'' @ Itoa line)"

lemma split_str_absent: "sep \<noteq> [] \<Longrightarrow> \<not> Contains s sep \<Longrightarrow> split_str acc s sep = [acc @ s]"
proof (induction s arbitrary: acc)
  case (Cons c s)
  then show ?case by (subst split_str.simps) simp
qed (simp add: split_str.simps)

lemma GetRunPath_elsewhere: "\<not> Contains file ''go/src'' \<Longrightarrow> GetRunPath (Some (file, line)) = file @ '':'' @ Itoa line"
  by (simp add: GetRunPath_def split_str_absent)

end
