(* ===== verification/Sql_Clickhouse.thy ===== *)
theory Sql_Clickhouse
  imports Sql_Text
begin

text \<open>
  The ClickHouse statements of \<^verbatim>\<open>util/clickhouse.go\<close>: the text that creates a database and a table, and
  the typed values that a line of a log has for the columns of a table. As for SQL Server, a struct is the
  list of its fields with their tags.
\<close>

section \<open>Numbers of 32 and 64 bits\<close>

text \<open>\<^verbatim>\<open>strconv.ParseUint(s, 10, n)\<close> and \<^verbatim>\<open>strconv.ParseInt(s, 10, n)\<close>.\<close>

definition ParseUint_bits :: "nat \<Rightarrow> string \<Rightarrow> nat \<times> num_err option" where
  "ParseUint_bits n s =
     (if s = [] then (0, Some ErrSyntax)
      else case parse_digits (2 ^ n - 1) 0 s of
             Inl ErrSyntax \<Rightarrow> (0, Some ErrSyntax)
           | Inl ErrRange \<Rightarrow> (2 ^ n - 1, Some ErrRange)
           | Inr k \<Rightarrow> (k, None))"

definition ParseInt_bits :: "nat \<Rightarrow> string \<Rightarrow> int \<times> num_err option" where
  "ParseInt_bits n s =
     (let (neg, ds) = strip_sign s; (un, err) = ParseUint_bits n ds; cutoff = 2 ^ (n - 1)
      in if err = Some ErrSyntax then (0, Some ErrSyntax)
         else if \<not> neg \<and> un \<ge> cutoff then (int cutoff - 1, Some ErrRange)
         else if neg \<and> un > cutoff then (- int cutoff, Some ErrRange)
         else (if neg then - int un else int un, None))"

lemma ParseUint_bits_FormatUint: "k < 2 ^ n \<Longrightarrow> ParseUint_bits n (FormatUint k) = (k, None)"
  by (simp add: ParseUint_bits_def parse_digits_FormatUint)

lemma ParseInt_bits_Itoa:
  assumes "0 < n" "- (2 ^ (n - 1)) \<le> i" "i < 2 ^ (n - 1)"
  shows "ParseInt_bits n (Itoa i) = (i, None)"
proof -
  obtain m where n: "n = Suc m" using assms(1) by (cases n) auto
  have "nat i < 2 ^ m" "nat (- i) \<le> 2 ^ m" using assms n by (auto simp: nat_less_iff nat_le_iff)
  moreover have "(2 :: nat) ^ m < 2 ^ n" using n by simp
  ultimately have "nat i < 2 ^ m" "nat (- i) \<le> 2 ^ m" "nat i < 2 ^ n" "nat (- i) < 2 ^ n" by linarith+
  then show ?thesis
    using n by (auto simp: ParseInt_bits_def Itoa_def ParseUint_bits_FormatUint)
qed


section \<open>Statements\<close>

text \<open>A field: its name and the tags \<^verbatim>\<open>ck\<close>, \<^verbatim>\<open>ck_part\<close> and \<^verbatim>\<open>ck_sort\<close>.\<close>

record ck_field =
  ckName :: string
  ckTag :: string
  ckPart :: string
  ckSort :: string

definition ckDbSql :: string where
  "ckDbSql = ''CREATE DATABASE IF NOT EXISTS {db}''"

definition CreateClickhouseDBSQL :: "string \<Rightarrow> string" where
  "CreateClickhouseDBSQL dbName = ReplaceAll ckDbSql ''{db}'' dbName"

definition ck_skipped :: "ck_field \<Rightarrow> bool" where
  "ck_skipped f \<longleftrightarrow> ckTag f = [] \<or> ckTag f = ''-''"

definition ck_column :: "ck_field \<Rightarrow> string" where
  "ck_column f = lower_byte (hd (ckName f)) @ tl (ckName f)"

text \<open>The loop over the fields, with the columns, the partition and the order so far.\<close>

fun ck_columns :: "ck_field list \<Rightarrow> string list \<times> string \<times> string \<Rightarrow> (string list \<times> string \<times> string) outcome" where
  "ck_columns [] acc = Ret acc"
| "ck_columns (f # fs) (arr, partStr, sortStr) =
     (if ck_skipped f then ck_columns fs (arr, partStr, sortStr)
      else
        out_bind (getCreateDesc (ckTag f)) (\<lambda>desc.
          let arr' = arr @ [ck_column f @ '' '' @ desc];
              partKey = ckPart f;
              partStr' = (if partKey \<noteq> [] then '' PARTITION BY '' @ partKey else partStr);
              sortKey = ckSort f;
              sortStr' = (if partKey \<noteq> [] then '' ORDER BY ('' @ sortKey @ '')'' else sortStr)
          in ck_columns fs (arr', partStr', sortStr')))"

fun CreateClickhouseSQL :: "ck_field list \<Rightarrow> sql_value \<Rightarrow> string outcome" where
  "CreateClickhouseSQL rt (StructVal _) = Panic ''reflect: Elem of invalid type''"
| "CreateClickhouseSQL rt _ =
     out_bind (ck_columns rt ([], [], [])) (\<lambda>(arr, partStr, sortStr).
       Ret (''CREATE TABLE IF NOT EXISTS %v.%v ('' @ Join '','' arr @ '') ENGINE=MergeTree'' @ partStr @ sortStr))"

text \<open>The values of a row, with the Go type of each.\<close>

datatype ck_value = CkString string | CkUInt64 u64 | CkInt64 u64 | CkUInt32 u32 | CkInt32 u32

definition ck_value_of :: "string \<Rightarrow> string \<Rightarrow> string \<Rightarrow> go_error + ck_value" where
  "ck_value_of name desc v =
     (if Contains desc ''String'' then Inr (CkString (HTMLEscapeString v))
      else if Contains desc ''UInt64'' then
        (case ParseUint_bits 64 v of (n, err) \<Rightarrow>
           if v \<noteq> [] \<and> err \<noteq> None then Inl (bad_log_field name v) else Inr (CkUInt64 (word_of_nat n)))
      else if Contains desc ''Int64'' then
        (case ParseInt_bits 64 v of (n, err) \<Rightarrow>
           if v \<noteq> [] \<and> err \<noteq> None then Inl (bad_log_field name v) else Inr (CkInt64 (word_of_int n)))
      else if Contains desc ''UInt32'' then
        (case ParseUint_bits 32 v of (n, err) \<Rightarrow>
           if v \<noteq> [] \<and> err \<noteq> None then Inl (bad_log_field name v) else Inr (CkUInt32 (word_of_nat n)))
      else
        (case ParseInt_bits 32 v of (n, err) \<Rightarrow>
           if v \<noteq> [] \<and> err \<noteq> None then Inl (bad_log_field name v) else Inr (CkInt32 (word_of_int n))))"

text \<open>The loop over the fields: the values so far, and the parts of the line that are left.\<close>

fun ck_fields :: "ck_field list \<Rightarrow> string list \<Rightarrow> ck_value list \<Rightarrow> (go_error + ck_value list) outcome" where
  "ck_fields [] varr acc = Ret (Inr acc)"
| "ck_fields (f # fs) varr acc =
     (if ck_skipped f then ck_fields fs varr acc
      else
        out_bind (getCreateDesc (ckTag f)) (\<lambda>desc.
          case ck_value_of (ckName f) desc (case varr of [] \<Rightarrow> [] | x # _ \<Rightarrow> x) of
            Inl e \<Rightarrow> Ret (Inl e)
          | Inr x \<Rightarrow> ck_fields fs (tl varr) (acc @ [x])))"

fun InsertClickhouseSQLByLog :: "ck_field list \<Rightarrow> sql_value \<Rightarrow> string \<Rightarrow> (go_error + ck_value list) outcome" where
  "InsertClickhouseSQLByLog e (SliceVal _) l = Panic ''reflect: NumField of non-struct type''"
| "InsertClickhouseSQLByLog e _ l = ck_fields e (Split CHR '';'' l) []"


section \<open>The values of a line\<close>

text \<open>The type of a column, the text of a value in a log, and what is stored for it.\<close>

fun ck_fits :: "string \<Rightarrow> ck_value \<Rightarrow> bool" where
  "ck_fits d (CkString _) = Contains d ''String''"
| "ck_fits d (CkUInt64 _) = (\<not> Contains d ''String'' \<and> Contains d ''UInt64'')"
| "ck_fits d (CkInt64 _) = (\<not> Contains d ''String'' \<and> \<not> Contains d ''UInt64'' \<and> Contains d ''Int64'')"
| "ck_fits d (CkUInt32 _) = (\<not> Contains d ''String'' \<and> \<not> Contains d ''Int64'' \<and> Contains d ''UInt32'')"
| "ck_fits d (CkInt32 _) = (\<not> Contains d ''String'' \<and> \<not> Contains d ''Int64'' \<and> \<not> Contains d ''UInt32'')"

fun ck_text :: "ck_value \<Rightarrow> string" where
  "ck_text (CkString s) = s"
| "ck_text (CkUInt64 w) = FormatUint (unat w)"
| "ck_text (CkInt64 w) = Itoa (sint w)"
| "ck_text (CkUInt32 w) = FormatUint (unat w)"
| "ck_text (CkInt32 w) = Itoa (sint w)"

fun ck_stored :: "ck_value \<Rightarrow> ck_value" where
  "ck_stored (CkString s) = CkString (HTMLEscapeString s)"
| "ck_stored v = v"

definition ck_descs :: "ck_field list \<Rightarrow> string outcome list" where
  "ck_descs e = map (\<lambda>f. getCreateDesc (ckTag f)) (filter (\<lambda>f. \<not> ck_skipped f) e)"


lemma Contains_sublist: "Contains s sub \<longleftrightarrow> sublist sub s"
  by (induction s) (auto simp: sublist_Cons_right)

lemma Contains_Int64: "Contains d ''UInt64'' \<Longrightarrow> Contains d ''Int64''"
proof -
  have "sublist ''Int64'' ''UInt64''" by code_simp
  then show "Contains d ''UInt64'' \<Longrightarrow> Contains d ''Int64''" by (auto simp: Contains_sublist intro: sublist_order.order_trans)
qed

lemma ck_value_of_fits: "ck_value_of name d v = Inr x \<Longrightarrow> ck_fits d x"
  using Contains_Int64 [of d] by (auto simp: ck_value_of_def split: if_splits prod.splits)

lemma ck_value_of_text:
  assumes "ck_fits d v"
  shows "ck_value_of name d (ck_text v) = Inr (ck_stored v)"
proof (cases v)
  case (CkUInt64 w)
  with assms show ?thesis using unsigned_less [of w, where ?'a = nat] by (simp add: ck_value_of_def ParseUint_bits_FormatUint)
next
  case (CkInt64 w)
  with assms show ?thesis using sint_range_size [of w] by (simp add: ck_value_of_def ParseInt_bits_Itoa word_size)
next
  case (CkUInt32 w)
  with assms show ?thesis using unsigned_less [of w, where ?'a = nat] Contains_Int64 [of d] by (auto simp: ck_value_of_def ParseUint_bits_FormatUint)
next
  case (CkInt32 w)
  with assms show ?thesis using sint_range_size [of w] Contains_Int64 [of d] by (auto simp: ck_value_of_def ParseInt_bits_Itoa word_size)
qed (use assms in \<open>simp add: ck_value_of_def\<close>)

lemma ck_fields_text:
  assumes "list_all2 (\<lambda>d v. \<exists>t. d = Ret t \<and> ck_fits t v) (ck_descs e) vs"
  shows "ck_fields e (map ck_text vs @ rest) acc = Ret (Inr (acc @ map ck_stored vs))"
  using assms
proof (induction e arbitrary: vs acc)
  case (Cons f e)
  show ?case
  proof (cases "ck_skipped f")
    case True
    with Cons show ?thesis by (simp add: ck_descs_def)
  next
    case False
    with Cons.prems obtain v vs' t where "vs = v # vs'" "getCreateDesc (ckTag f) = Ret t" "ck_fits t v"
      "list_all2 (\<lambda>d v. \<exists>t. d = Ret t \<and> ck_fits t v) (ck_descs e) vs'"
      by (auto simp: ck_descs_def list_all2_Cons1)
    with False Cons.IH [of vs' "acc @ [ck_stored v]"] show ?thesis by (simp add: ck_value_of_text)
  qed
qed (simp add: ck_descs_def)

lemma ck_fields_fit:
  "ck_fields e varr acc = Ret (Inr xs) \<Longrightarrow>
   \<exists>ys. xs = acc @ ys \<and> list_all2 (\<lambda>d x. \<exists>t. d = Ret t \<and> ck_fits t x) (ck_descs e) ys"
proof (induction e varr acc arbitrary: xs rule: ck_fields.induct)
  case (2 f fs varr acc)
  show ?case
  proof (cases "ck_skipped f")
    case True
    with 2 show ?thesis by (simp add: ck_descs_def)
  next
    case False
    let ?v = "case varr of [] \<Rightarrow> [] | x # _ \<Rightarrow> x"
    from False "2.prems" obtain t x where t: "getCreateDesc (ckTag f) = Ret t" "ck_value_of (ckName f) t ?v = Inr x"
      "ck_fields fs (tl varr) (acc @ [x]) = Ret (Inr xs)"
      by (cases "getCreateDesc (ckTag f)") (auto split: sum.splits)
    from "2.IH"(2) [OF False t(2) t(3)] obtain ys where
      "xs = (acc @ [x]) @ ys" "list_all2 (\<lambda>d x. \<exists>t. d = Ret t \<and> ck_fits t x) (ck_descs fs) ys" by blast
    with False t(1) ck_value_of_fits [OF t(2)] show ?thesis by (intro exI [of _ "x # ys"]) (simp add: ck_descs_def)
  qed
qed (simp add: ck_descs_def)

lemma digit_not_semicolon: "CHR '';'' \<notin> set (FormatUint n)" "CHR '';'' \<notin> set (Itoa i)"
proof -
  have "char_digit CHR '';'' = None" by code_simp
  then show "CHR '';'' \<notin> set (FormatUint n)" for n using FormatUint_digits [of "CHR '';''" n] by fastforce
  then show "CHR '';'' \<notin> set (Itoa i)" by (simp add: Itoa_def)
qed

lemma Split_Join: "xs \<noteq> [] \<Longrightarrow> \<forall>x\<in>set xs. c \<notin> set x \<Longrightarrow> Split c (Join [c] xs) = xs"
  by (induction xs rule: induct_list012) (simp_all add: Split_append)

text \<open>
  C39. The rows for ClickHouse have the types of their columns. A line of a log that has the texts of
  values of the columns' types, separated by semicolons, gives just those values (the texts
  escaped), with all 64 bits of the numbers; and whatever the line holds, the values that are returned
  are one for each column, of the Go type that its description asks for.
\<close>

theorem ck_log_reads_back:
  assumes "list_all2 (\<lambda>d v. \<exists>t. d = Ret t \<and> ck_fits t v) (ck_descs e) vs" and "\<forall>s. CkString s \<in> set vs \<longrightarrow> CHR '';'' \<notin> set s"
  shows "InsertClickhouseSQLByLog e (StructVal sv) (Join '';'' (map ck_text vs)) = Ret (Inr (map ck_stored vs)) \<and>
    (InsertClickhouseSQLByLog e (PtrVal pv) line = Ret (Inr xs) \<longrightarrow>
      list_all2 (\<lambda>d x. \<exists>t. d = Ret t \<and> ck_fits t x) (ck_descs e) xs)"
proof (intro conjI impI)
  have "CHR '';'' \<notin> set (ck_text v)" if "v \<in> set vs" for v
    by (cases v) (use that assms(2) in \<open>auto simp: digit_not_semicolon\<close>)
  then have "Split CHR '';'' (Join '';'' (map ck_text vs)) = map ck_text vs @ (if vs = [] then [[]] else [])"
    using Split_Join [of "map ck_text vs" "CHR '';''"] by simp
  with ck_fields_text [OF assms(1), of _ "[]"]
  show "InsertClickhouseSQLByLog e (StructVal sv) (Join '';'' (map ck_text vs)) = Ret (Inr (map ck_stored vs))" by simp
  show "list_all2 (\<lambda>d x. \<exists>t. d = Ret t \<and> ck_fits t x) (ck_descs e) xs"
    if "InsertClickhouseSQLByLog e (PtrVal pv) line = Ret (Inr xs)"
    using ck_fields_fit [of e _ "[]" xs] that by simp
qed

definition login_table :: "ck_field list" where
  "login_table = [\<lparr>ckName = ''Uid'', ckTag = ''create:UInt64'', ckPart = [], ckSort = ''uid''\<rparr>,
     \<lparr>ckName = ''Conn'', ckTag = ''-'', ckPart = [], ckSort = []\<rparr>,
     \<lparr>ckName = ''Name'', ckTag = ''create:String'', ckPart = [], ckSort = []\<rparr>,
     \<lparr>ckName = ''Score'', ckTag = ''create:Int32'', ckPart = [], ckSort = []\<rparr>]"

theorem ck_log_reads_back_witness:
  "InsertClickhouseSQLByLog login_table (StructVal []) (Join '';'' [''18446744073709551615'', ''<a>'', ''-1'']) =
     Ret (Inr [CkUInt64 (- 1), CkString ''&lt;a&gt;'', CkInt32 (- 1)])"
proof -
  let ?vs = "[CkUInt64 (- 1), CkString ''<a>'', CkInt32 (- 1)]"
  have "ck_descs login_table = [Ret ''UInt64'', Ret ''String'', Ret ''Int32'']" by code_simp
  moreover have "ck_fits ''UInt64'' (CkUInt64 (- 1))" "ck_fits ''String'' (CkString ''<a>'')" "ck_fits ''Int32'' (CkInt32 (- 1))"
    by code_simp+
  moreover have "map ck_stored ?vs = [CkUInt64 (- 1), CkString ''&lt;a&gt;'', CkInt32 (- 1)]" by code_simp
  moreover have "map ck_text ?vs = [''18446744073709551615'', ''<a>'', ''-1'']"
  proof -
    have "unat (- 1 :: u64) = 18446744073709551615" "sint (- 1 :: u32) = - 1"
      by (simp_all add: unsigned_minus_1_eq_mask mask_eq_exp_minus_1)
    then show ?thesis by (simp add: FormatUint.simps [of "numeral _"] FormatUint.simps [of "Suc 0"] Itoa_def)
  qed
  ultimately show ?thesis using ck_log_reads_back [of login_table ?vs "[]"] by simp
qed

text \<open>The order of a table is only set by a field that has a partition key too.\<close>

lemma sort_key_dropped:
  "\<forall>f\<in>set e. ckPart f = [] \<Longrightarrow> ck_columns e (arr, p, s) = Ret (arr', p', s') \<Longrightarrow> p' = p \<and> s' = s"
proof (induction e arbitrary: arr)
  case (Cons f e)
  then show ?case by (cases "getCreateDesc (ckTag f)") (auto simp: Let_def split: if_splits)
qed simp

lemma sort_key_dropped_example:
  "CreateClickhouseSQL login_table (PtrVal None) =
     Ret ''CREATE TABLE IF NOT EXISTS %v.%v (uid UInt64,name String,score Int32) ENGINE=MergeTree''"
  by code_simp

end
