(* ===== verification/Db_Access.thy ===== *)
theory Db_Access
  imports Sql_Text
begin

text \<open>
  Database access, \<^verbatim>\<open>db/mysql.go\<close>, \<^verbatim>\<open>db/postgres.go\<close> and \<^verbatim>\<open>db/json.go\<close>. The library gorm is a parameter: what it
  does with a chain of calls that builds a statement and a last call that runs it, and what
  opening a connection gives. Values that the callers pass are of a type \<open>'d\<close>; copying one into
  another by \<^verbatim>\<open>encoding/gob\<close> and JSON are parameters too. A handle has test results instead of a
  database when it was opened with some.
\<close>

section \<open>Handles\<close>

record 'd mock_result =
  mrData :: 'd
  mrErr :: "go_error option"
  mrCount :: int

record ('d, 'db) mysql_db =
  dbConn :: "'db option"
  dbMock :: "'d mock_result list option"

text \<open>The calls of gorm that build a statement, and those that run it.\<close>

datatype ('q, 'd) gorm_clause =
  GSelect "string list" | GWhereMap string 'd | GWhere 'q "'d list" | GWhereKey string 'd | GOrder string | GLimit int | GOffset int |
  GModel | GUnscoped | GUpdateAll | GCounted

datatype ('q, 'd) gorm_run = First | Find | Create | Updates | DeleteRows | CountRows | Raw string "'d list"

type_synonym ('q, 'd, 'db) gorm_lib =
  "('q, 'd) gorm_clause list \<Rightarrow> ('q, 'd) gorm_run \<Rightarrow> 'd \<Rightarrow> 'db \<Rightarrow> ('d \<times> int \<times> go_error option) \<times> 'db"

text \<open>What an operation gives: the value the caller passed, a number, and an error.\<close>

type_synonym ('d, 'db) db_result = "('d \<times> int \<times> go_error option) outcome \<times> ('d, 'db) mysql_db"

definition on_db :: "('q, 'd, 'db) gorm_lib \<Rightarrow> ('q, 'd) gorm_clause list \<Rightarrow> ('q, 'd) gorm_run \<Rightarrow> 'd \<Rightarrow> ('d, 'db) mysql_db \<Rightarrow> ('d, 'db) db_result" where
  "on_db G cs fin data md =
     (case dbConn md of
        None \<Rightarrow> (Panic ''invalid memory address or nil pointer dereference'', md)
      | Some db \<Rightarrow> (let (r, db') = G cs fin data db in (Ret r, md\<lparr>dbConn := Some db'\<rparr>)))"

text \<open>The next test result, if there is one left.\<close>

definition next_mock :: "('d, 'db) mysql_db \<Rightarrow> ('d mock_result \<times> ('d, 'db) mysql_db) option" where
  "next_mock md = (case dbMock md of Some (m # ms) \<Rightarrow> Some (m, md\<lparr>dbMock := Some ms\<rparr>) | _ \<Rightarrow> None)"

definition deepCopy :: "('d \<Rightarrow> 'd \<Rightarrow> go_error option \<times> 'd) \<Rightarrow> 'd \<Rightarrow> 'd \<Rightarrow> go_error option \<times> 'd" where
  "deepCopy gob dst src = gob dst src"


section \<open>Operations\<close>

definition Exec :: "('q, 'd, 'db) gorm_lib \<Rightarrow> string \<Rightarrow> 'd list \<Rightarrow> 'd \<Rightarrow> ('d, 'db) mysql_db \<Rightarrow> ('d, 'db) db_result" where
  "Exec G sql args d0 md = (if dbMock md \<noteq> None then (Ret (d0, 0, None), md) else on_db G [] (Raw sql args) d0 md)"

definition QueryOne ::
  "('q, 'd, 'db) gorm_lib \<Rightarrow> ('d \<Rightarrow> 'd \<Rightarrow> go_error option \<times> 'd) \<Rightarrow> string \<Rightarrow> 'd \<Rightarrow> 'd \<Rightarrow> string list \<Rightarrow> ('d, 'db) mysql_db \<Rightarrow> ('d, 'db) db_result" where
  "QueryOne G gob k v data names md =
     (case next_mock md of
        Some (m, md1) \<Rightarrow> (Ret (snd (deepCopy gob data (mrData m)), 0, mrErr m), md1)
      | None \<Rightarrow> on_db G ((if names \<noteq> [] then [GSelect names] else []) @ [GWhereMap k v]) First data md)"

definition Query ::
  "('q, 'd, 'db) gorm_lib \<Rightarrow> ('d \<Rightarrow> 'd \<Rightarrow> go_error option \<times> 'd) \<Rightarrow> 'd \<Rightarrow> 'q \<Rightarrow> 'd list \<Rightarrow> ('d, 'db) mysql_db \<Rightarrow> ('d, 'db) db_result" where
  "Query G gob data query args md =
     (case next_mock md of
        Some (m, md1) \<Rightarrow> (Ret (snd (deepCopy gob data (mrData m)), 0, mrErr m), md1)
      | None \<Rightarrow> on_db G [GWhere query args] First data md)"

definition where_clause :: "'q option \<Rightarrow> 'd list \<Rightarrow> ('q, 'd) gorm_clause list" where
  "where_clause query args = (case query of Some q \<Rightarrow> [GWhere q args] | None \<Rightarrow> [])"

definition order_clause :: "string \<Rightarrow> ('q, 'd) gorm_clause list" where
  "order_clause ord = (if ord \<noteq> [] then [GOrder ord] else [])"

definition QueryAll ::
  "('q, 'd, 'db) gorm_lib \<Rightarrow> ('d \<Rightarrow> 'd \<Rightarrow> go_error option \<times> 'd) \<Rightarrow> 'd \<Rightarrow> string \<Rightarrow> int \<Rightarrow> 'q option \<Rightarrow> 'd list \<Rightarrow> ('d, 'db) mysql_db \<Rightarrow> ('d, 'db) db_result" where
  "QueryAll G gob data ord limit query args md =
     (case next_mock md of
        Some (m, md1) \<Rightarrow> (Ret (snd (deepCopy gob data (mrData m)), 0, mrErr m), md1)
      | None \<Rightarrow> on_db G (where_clause query args @ order_clause ord @ (if limit > 0 then [GLimit limit] else [])) Find data md)"

definition Save :: "('q, 'd, 'db) gorm_lib \<Rightarrow> 'd \<Rightarrow> string list \<Rightarrow> ('d, 'db) mysql_db \<Rightarrow> ('d, 'db) db_result" where
  "Save G data names md =
     (case next_mock md of
        Some (m, md1) \<Rightarrow> (Ret (data, 0, mrErr m), md1)
      | None \<Rightarrow>
          if names = [] then on_db G [GUpdateAll] Create data md
          else on_db G [GModel, GSelect names] Updates data md)"

definition SaveByWhere :: "('q, 'd, 'db) gorm_lib \<Rightarrow> 'd \<Rightarrow> string \<Rightarrow> 'd \<Rightarrow> string list \<Rightarrow> ('d, 'db) mysql_db \<Rightarrow> ('d, 'db) db_result" where
  "SaveByWhere G data k v names md =
     (case next_mock md of
        Some (m, md1) \<Rightarrow> (Ret (data, 0, mrErr m), md1)
      | None \<Rightarrow> on_db G [GModel, GWhereKey k v] Updates data md)"

definition db_Delete :: "('q, 'd, 'db) gorm_lib \<Rightarrow> 'd \<Rightarrow> 'q option \<Rightarrow> 'd list \<Rightarrow> ('d, 'db) mysql_db \<Rightarrow> ('d, 'db) db_result" where
  "db_Delete G data query args md =
     (case next_mock md of
        Some (m, md1) \<Rightarrow> (Ret (data, 0, mrErr m), md1)
      | None \<Rightarrow> on_db G (GUnscoped # where_clause query args) DeleteRows data md)"

text \<open>A page of the rows, numbered from one; an error hides the number of rows.\<close>

definition page_offset :: "int \<Rightarrow> int \<Rightarrow> int" where
  "page_offset limit index = wrap_int64 (wrap_int64 (index - 1) * limit)"

definition QueryList ::
  "('q, 'd, 'db) gorm_lib \<Rightarrow> ('d \<Rightarrow> 'd \<Rightarrow> go_error option \<times> 'd) \<Rightarrow> 'd \<Rightarrow> string \<Rightarrow> int \<Rightarrow> int \<Rightarrow> 'q option \<Rightarrow> 'd list \<Rightarrow> ('d, 'db) mysql_db \<Rightarrow> ('d, 'db) db_result" where
  "QueryList G gob data ord limit index query args md =
     (case next_mock md of
        Some (m, md1) \<Rightarrow> (Ret (snd (deepCopy gob data (mrData m)), mrCount m, mrErr m), md1)
      | None \<Rightarrow>
          (case on_db G (GModel # where_clause query args @ [GCounted] @ order_clause ord @ [GLimit limit, GOffset (page_offset limit index)]) Find data md of
             (Ret (d, r, Some err), md1) \<Rightarrow> (Ret (d, 0, Some err), md1)
           | x \<Rightarrow> x))"

definition db_Count :: "('q, 'd, 'db) gorm_lib \<Rightarrow> 'd \<Rightarrow> 'q option \<Rightarrow> 'd list \<Rightarrow> ('d, 'db) mysql_db \<Rightarrow> ('d, 'db) db_result" where
  "db_Count G data query args md =
     (case next_mock md of
        Some (m, md1) \<Rightarrow> (Ret (data, mrCount m, mrErr m), md1)
      | None \<Rightarrow> on_db G (GModel # where_clause query args) CountRows data md)"


section \<open>Opening a database\<close>

text \<open>
  The server: opening with a data source name, with the naming of the tables or not; creating a database; and
  the migration of the tables.
\<close>

record ('db, 'srv) sql_server =
  gormOpen :: "string \<Rightarrow> bool \<Rightarrow> 'srv \<Rightarrow> (go_error + 'db) \<times> 'srv"
  gormExec :: "'db \<Rightarrow> string \<Rightarrow> 'srv \<Rightarrow> go_error option \<times> 'srv"
  autoMigrate :: "'db \<Rightarrow> 'srv \<Rightarrow> go_error option \<times> 'srv"

definition wrap_err :: "string \<Rightarrow> go_error \<Rightarrow> go_error" where
  "wrap_err msg e = GoErr (msg @ '': '' @ err_msg e)"

text \<open>Both drivers: a name with the database in it, the text that says that it is missing, and the plain name.\<close>

definition open_or_create :: "('db, 'srv) sql_server \<Rightarrow> string \<Rightarrow> string \<Rightarrow> string \<Rightarrow> string \<Rightarrow> 'srv \<Rightarrow> (go_error + 'db) \<times> 'srv" where
  "open_or_create S newDsn missing dsn dbName s =
     (case gormOpen S newDsn True s of
        (Inr db, s1) \<Rightarrow> (Inr db, s1)
      | (Inl err, s1) \<Rightarrow>
          if \<not> Contains (err_msg err) missing then (Inl err, s1)
          else case gormOpen S dsn False s1 of
            (Inl err, s2) \<Rightarrow> (Inl (wrap_err (''gorm.Open: '' @ dsn) err), s2)
          | (Inr temp, s2) \<Rightarrow>
              (case gormExec S temp (''create database '' @ dbName) s2 of
                 (Some err, s3) \<Rightarrow> (Inl err, s3)
               | (None, s3) \<Rightarrow> gormOpen S newDsn True s3))"

definition openDB :: "('db, 'srv) sql_server \<Rightarrow> string \<Rightarrow> string \<Rightarrow> 'srv \<Rightarrow> (go_error + 'db) \<times> 'srv" where
  "openDB S dsn dbName s =
     (if \<not> Contains dsn ''/?'' then gormOpen S dsn True s
      else open_or_create S (ReplaceAll dsn ''/?'' (''/'' @ dbName @ ''?'')) ''Unknown database'' dsn dbName s)"

definition openPgDB :: "('db, 'srv) sql_server \<Rightarrow> string \<Rightarrow> string \<Rightarrow> 'srv \<Rightarrow> (go_error + 'db) \<times> 'srv" where
  "openPgDB S dsn dbName s =
     (if Contains dsn ''dbname='' then gormOpen S dsn True s
      else open_or_create S (dsn @ '' dbname='' @ dbName) ''SQLSTATE 3D000'' dsn dbName s)"

definition init_with ::
  "('srv \<Rightarrow> (go_error + 'db) \<times> 'srv) \<Rightarrow> ('db, 'srv) sql_server \<Rightarrow> 'd mock_result list \<Rightarrow> 'srv \<Rightarrow> (go_error + ('d, 'db) mysql_db) \<times> 'srv" where
  "init_with opn S results s =
     (if results \<noteq> [] then (Inr \<lparr>dbConn = None, dbMock = Some results\<rparr>, s)
      else case opn s of
        (Inl err, s1) \<Rightarrow> (Inl (wrap_err ''gorm.Open'' err), s1)
      | (Inr db, s1) \<Rightarrow>
          (case autoMigrate S db s1 of
             (Some err, s2) \<Rightarrow> (Inl err, s2)
           | (None, s2) \<Rightarrow> (Inr \<lparr>dbConn = Some db, dbMock = None\<rparr>, s2)))"

definition InitMysql :: "('db, 'srv) sql_server \<Rightarrow> string \<Rightarrow> string \<Rightarrow> 'd mock_result list \<Rightarrow> 'srv \<Rightarrow> (go_error + ('d, 'db) mysql_db) \<times> 'srv" where
  "InitMysql S dsn dbName results s = init_with (openDB S dsn dbName) S results s"

definition InitPg :: "('db, 'srv) sql_server \<Rightarrow> string \<Rightarrow> string \<Rightarrow> 'd mock_result list \<Rightarrow> 'srv \<Rightarrow> (go_error + ('d, 'db) mysql_db) \<times> 'srv" where
  "InitPg S dsn dbName results s = init_with (openPgDB S dsn dbName) S results s"


section \<open>JSON columns\<close>

definition Unmarshal :: "(string \<Rightarrow> 'd \<Rightarrow> go_error option \<times> 'd) \<Rightarrow> string \<Rightarrow> 'd \<Rightarrow> go_error option \<times> string \<times> 'd" where
  "Unmarshal unj p data =
     (if p = [] then (None, p, data)
      else case unj p data of
        (Some err, d) \<Rightarrow> (Some err, p, d)
      | (None, d) \<Rightarrow> (None, [], d))"

fun name_loop :: "string \<Rightarrow> string list \<Rightarrow> bool" where
  "name_loop field [] = False"
| "name_loop field (f # fs) = (if field = f then True else name_loop field fs)"

definition Marshal :: "('d \<Rightarrow> go_error + string) \<Rightarrow> 'd \<Rightarrow> string \<Rightarrow> string list \<Rightarrow> string" where
  "Marshal j data field names =
     (if names \<noteq> [] \<and> \<not> name_loop field names then []
      else case j data of Inl err \<Rightarrow> [] | Inr buff \<Rightarrow> buff)"

text \<open>A value from the driver: absent, bytes, a string, or something else with the text that \<^verbatim>\<open>%#v\<close> gives for it.\<close>

datatype db_value = DbNil | DbBytes bytes | DbString string | DbOther string

definition Scan :: "(string \<Rightarrow> 'd \<Rightarrow> go_error option \<times> 'd) \<Rightarrow> 'd \<Rightarrow> db_value \<Rightarrow> 'd \<Rightarrow> go_error option \<times> 'd" where
  "Scan unj zero dbValue dst =
     (case dbValue of
        DbNil \<Rightarrow> (None, zero)
      | DbBytes b \<Rightarrow> unj (bytes_string b) zero
      | DbString v \<Rightarrow> unj v zero
      | DbOther v \<Rightarrow> (Some (GoErr (''failed to unmarshal JSONB value: '' @ v)), dst))"

definition Value :: "('d \<Rightarrow> go_error + string) \<Rightarrow> 'd \<Rightarrow> go_error + string" where
  "Value j fieldValue = j fieldValue"


section \<open>Test results\<close>

text \<open>The operations as data.\<close>

datatype ('q, 'd) db_call =
  DoExec string "'d list" 'd
| DoQueryOne string 'd 'd "string list"
| DoQuery 'd 'q "'d list"
| DoQueryAll 'd string int "'q option" "'d list"
| DoSave 'd "string list"
| DoSaveByWhere 'd string 'd "string list"
| DoDelete 'd "'q option" "'d list"
| DoQueryList 'd string int int "'q option" "'d list"
| DoCount 'd "'q option" "'d list"

fun do_call ::
  "('q, 'd, 'db) gorm_lib \<Rightarrow> ('d \<Rightarrow> 'd \<Rightarrow> go_error option \<times> 'd) \<Rightarrow> ('q, 'd) db_call \<Rightarrow> ('d, 'db) mysql_db \<Rightarrow> ('d, 'db) db_result" where
  "do_call G gob (DoExec sql args d) md = Exec G sql args d md"
| "do_call G gob (DoQueryOne k v data names) md = QueryOne G gob k v data names md"
| "do_call G gob (DoQuery data query args) md = Query G gob data query args md"
| "do_call G gob (DoQueryAll data ord limit query args) md = QueryAll G gob data ord limit query args md"
| "do_call G gob (DoSave data names) md = Save G data names md"
| "do_call G gob (DoSaveByWhere data k v names) md = SaveByWhere G data k v names md"
| "do_call G gob (DoDelete data query args) md = db_Delete G data query args md"
| "do_call G gob (DoQueryList data ord limit index query args) md = QueryList G gob data ord limit index query args md"
| "do_call G gob (DoCount data query args) md = db_Count G data query args md"

fun do_calls ::
  "('q, 'd, 'db) gorm_lib \<Rightarrow> ('d \<Rightarrow> 'd \<Rightarrow> go_error option \<times> 'd) \<Rightarrow> ('q, 'd) db_call list \<Rightarrow> ('d, 'db) mysql_db \<Rightarrow>
   ('d \<times> int \<times> go_error option) outcome list \<times> ('d, 'db) mysql_db" where
  "do_calls G gob [] md = ([], md)"
| "do_calls G gob (c # cs) md =
     (let (r, md1) = do_call G gob c md; (rs, md2) = do_calls G gob cs md1 in (r # rs, md2))"

fun is_exec :: "('q, 'd) db_call \<Rightarrow> bool" where
  "is_exec (DoExec _ _ _) = True"
| "is_exec _ = False"

text \<open>What a call gives from a test result: a query copies the data, a number comes from those that count.\<close>

fun mock_reply :: "('d \<Rightarrow> 'd \<Rightarrow> go_error option \<times> 'd) \<Rightarrow> ('q, 'd) db_call \<Rightarrow> 'd mock_result \<Rightarrow> 'd \<times> int \<times> go_error option" where
  "mock_reply gob (DoExec sql args d) m = (d, 0, None)"
| "mock_reply gob (DoQueryOne k v data names) m = (snd (gob data (mrData m)), 0, mrErr m)"
| "mock_reply gob (DoQuery data query args) m = (snd (gob data (mrData m)), 0, mrErr m)"
| "mock_reply gob (DoQueryAll data ord limit query args) m = (snd (gob data (mrData m)), 0, mrErr m)"
| "mock_reply gob (DoSave data names) m = (data, 0, mrErr m)"
| "mock_reply gob (DoSaveByWhere data k v names) m = (data, 0, mrErr m)"
| "mock_reply gob (DoDelete data query args) m = (data, 0, mrErr m)"
| "mock_reply gob (DoQueryList data ord limit index query args) m = (snd (gob data (mrData m)), mrCount m, mrErr m)"
| "mock_reply gob (DoCount data query args) m = (data, mrCount m, mrErr m)"

lemma mock_call:
  "\<not> is_exec c \<Longrightarrow> do_call G gob c \<lparr>dbConn = None, dbMock = Some (m # ms)\<rparr> = (Ret (mock_reply gob c m), \<lparr>dbConn = None, dbMock = Some ms\<rparr>)"
  by (cases c) (simp_all add: next_mock_def QueryOne_def Query_def QueryAll_def Save_def SaveByWhere_def db_Delete_def QueryList_def db_Count_def deepCopy_def)

lemma mock_exhausted:
  "\<not> is_exec c \<Longrightarrow> \<exists>e. do_call G gob c \<lparr>dbConn = None, dbMock = Some []\<rparr> = (Panic e, \<lparr>dbConn = None, dbMock = Some []\<rparr>)"
  by (cases c) (simp_all add: next_mock_def on_db_def QueryOne_def Query_def QueryAll_def Save_def SaveByWhere_def db_Delete_def QueryList_def db_Count_def)

lemma mock_calls:
  "list_all (\<lambda>c. \<not> is_exec c) cs \<Longrightarrow> length cs \<le> length ms \<Longrightarrow>
   do_calls G gob cs \<lparr>dbConn = None, dbMock = Some ms\<rparr> =
     (map (\<lambda>(c, m). Ret (mock_reply gob c m)) (zip cs ms), \<lparr>dbConn = None, dbMock = Some (drop (length cs) ms)\<rparr>)"
proof (induction cs arbitrary: ms)
  case (Cons c cs)
  then obtain m ms' where "ms = m # ms'" by (cases ms) auto
  with Cons show ?case by (simp add: mock_call)
qed simp

text \<open>
  A handle that was opened with test results answers from them: without touching a server,
  the n-th operation gives the n-th result, a query with its data, a counting one with its
  number. There is one result for each operation but \<^verbatim>\<open>Exec\<close>; the operation after the last result
  dereferences the database that was never opened.
\<close>

theorem test_results_in_order:
  assumes "results \<noteq> []" and "list_all (\<lambda>c. \<not> is_exec c) cs" and "length cs \<le> length results" and "\<not> is_exec c"
  shows "\<exists>md. InitMysql S dsn dbName results s = (Inr md, s) \<and> InitPg S dsn dbName results s = (Inr md, s) \<and>
    fst (do_calls G gob cs md) = map (\<lambda>(c, m). Ret (mock_reply gob c m)) (zip cs results) \<and>
    (length cs = length results \<longrightarrow> (\<exists>e. fst (do_call G gob c (snd (do_calls G gob cs md))) = Panic e))"
proof -
  let ?md = "\<lparr>dbConn = None, dbMock = Some results\<rparr>"
  have "InitMysql S dsn dbName results s = (Inr ?md, s)" "InitPg S dsn dbName results s = (Inr ?md, s)"
    using assms(1) by (simp_all add: InitMysql_def InitPg_def init_with_def)
  moreover have "\<exists>e. fst (do_call G gob c \<lparr>dbConn = None, dbMock = Some []\<rparr>) = Panic e"
    using mock_exhausted [OF assms(4), of G gob] by (metis fst_conv)
  ultimately show ?thesis
    using mock_calls [OF assms(2,3), of G gob] by (intro exI [of _ ?md]) simp
qed

definition demo_gorm_server :: "(unit, unit) sql_server" where
  "demo_gorm_server = \<lparr>gormOpen = \<lambda>_ _ s. (Inr (), s), gormExec = \<lambda>_ _ s. (None, s), autoMigrate = \<lambda>_ s. (None, s)\<rparr>"

definition demo_gorm :: "(unit, nat, unit) gorm_lib" where
  "demo_gorm cs fin d db = ((d, 0, None), db)"

definition demo_gob :: "nat \<Rightarrow> nat \<Rightarrow> go_error option \<times> nat" where
  "demo_gob dst src = (None, src)"

theorem test_results_in_order_witness:
  "\<exists>md. InitMysql demo_gorm_server ''d'' ''n'' [\<lparr>mrData = 7, mrErr = None, mrCount = 1\<rparr>] () = (Inr md, ()) \<and>
     fst (do_calls demo_gorm demo_gob [DoQuery 0 () []] md) = [Ret (7, 0, None)] \<and>
     (\<exists>e. fst (do_call demo_gorm demo_gob (DoCount 0 None []) (snd (do_calls demo_gorm demo_gob [DoQuery 0 () []] md))) = Panic e)"
  using test_results_in_order [of "[\<lparr>mrData = 7, mrErr = None, mrCount = 1\<rparr>]" "[DoQuery 0 () []]" "DoCount 0 None []"
      demo_gorm_server "''d''" "''n''" "()" demo_gorm demo_gob]
  by (auto simp: demo_gob_def)

text \<open>A database that the server does not have is created on the way.\<close>

lemma open_creates:
  assumes "gormOpen S newDsn True s = (Inl err, s1)" "Contains (err_msg err) missing" "gormOpen S dsn False s1 = (Inr temp, s2)"
    "gormExec S temp (''create database '' @ dbName) s2 = (None, s3)"
  shows "open_or_create S newDsn missing dsn dbName s = gormOpen S newDsn True s3"
  using assms by (simp add: open_or_create_def)

text \<open>The name of the database goes between the slash and the parameters.\<close>

lemma ReplaceAll_once:
  assumes "\<not> Contains (a @ [CHR ''/'']) ''/?''" "\<not> Contains b ''/?''"
  shows "ReplaceAll (a @ ''/?'' @ b) ''/?'' new = a @ new @ b"
proof -
  have none: "ReplaceAll t ''/?'' new = t" if "\<not> Contains t ''/?''" for t
    using that
  proof (induction t)
    case (Cons x t)
    then show ?case by (subst ReplaceAll.simps) auto
  qed (subst ReplaceAll.simps, simp)
  show ?thesis using assms(1)
  proof (induction a)
    case Nil
    show ?case using none [OF assms(2)] by (subst ReplaceAll.simps) simp
  next
    case (Cons x a)
    then have "\<not> prefix ''/?'' (x # a @ [CHR ''/''])" "\<not> Contains (a @ [CHR ''/'']) ''/?''" by simp_all
    moreover from this have "\<not> prefix ''/?'' (x # a @ ''/?'' @ b)" by (cases a) auto
    ultimately show ?case using Cons.IH by (subst ReplaceAll.simps) auto
  qed
qed

lemma Unmarshal_Marshal:
  assumes "\<And>d b d0. j d = Inr b \<Longrightarrow> b \<noteq> [] \<and> unj b d0 = (None, d)" "j d = Inr b" "names = [] \<or> field \<in> set names"
  shows "Unmarshal unj (Marshal j d field names) d0 = (None, [], d)"
proof -
  have "name_loop field ns \<longleftrightarrow> field \<in> set ns" for ns by (induction ns) auto
  with assms show ?thesis by (auto simp: Marshal_def Unmarshal_def)
qed

end
