(* ===== verification/Rpc_Pool.thy ===== *)
theory Rpc_Pool
  imports Goms_Prelude
begin

text \<open>
  The free lists of \<^verbatim>\<open>rpc/go_server.go\<close>: requests and responses are objects that the server hands out, takes
  back and hands out again. The list is threaded through the objects themselves, so it is modelled
  on an explicit store: an address gives the contents of an object and the address of the next
  one. The lists for requests and for responses are the same code on different types.
\<close>

section \<open>The lists\<close>

record 'r pool_obj =
  objBody :: 'r
  objNext :: "nat option"

record 'r obj_pool =
  objStore :: "nat \<rightharpoonup> 'r pool_obj"
  freeHead :: "nat option"
  freshAddr :: nat

definition new_pool :: "'r obj_pool" where
  "new_pool = \<lparr>objStore = Map.empty, freeHead = None, freshAddr = 0\<rparr>"

text \<open>Allocation gives an address that is not in use; the zero value is \<open>z\<close>.\<close>

definition alloc :: "'r \<Rightarrow> 'r obj_pool \<Rightarrow> nat \<times> 'r obj_pool" where
  "alloc z p = (freshAddr p, p\<lparr>objStore := (objStore p)(freshAddr p \<mapsto> \<lparr>objBody = z, objNext = None\<rparr>), freshAddr := freshAddr p + 1\<rparr>)"

definition get_obj :: "'r \<Rightarrow> 'r obj_pool \<Rightarrow> nat \<times> 'r obj_pool" where
  "get_obj z p =
     (case freeHead p of
        None \<Rightarrow> alloc z p
      | Some a \<Rightarrow>
          (case objStore p a of
             None \<Rightarrow> alloc z p
           | Some o1 \<Rightarrow> (a, p\<lparr>freeHead := objNext o1, objStore := (objStore p)(a \<mapsto> \<lparr>objBody = z, objNext = None\<rparr>)\<rparr>)))"

definition free_obj :: "nat \<Rightarrow> 'r obj_pool \<Rightarrow> 'r obj_pool" where
  "free_obj a p =
     p\<lparr>objStore := (objStore p)(a := map_option (\<lambda>x. x\<lparr>objNext := freeHead p\<rparr>) (objStore p a)), freeHead := Some a\<rparr>"

definition getRequest :: "'r \<Rightarrow> 'r obj_pool \<Rightarrow> nat \<times> 'r obj_pool" where "getRequest z p = get_obj z p"
definition freeRequest :: "nat \<Rightarrow> 'r obj_pool \<Rightarrow> 'r obj_pool" where "freeRequest a p = free_obj a p"
definition getResponse :: "'r \<Rightarrow> 'r obj_pool \<Rightarrow> nat \<times> 'r obj_pool" where "getResponse z p = get_obj z p"
definition freeResponse :: "nat \<Rightarrow> 'r obj_pool \<Rightarrow> 'r obj_pool" where "freeResponse a p = free_obj a p"

text \<open>A goroutine that holds an object writes to it.\<close>

definition write_obj :: "nat \<Rightarrow> 'r \<Rightarrow> 'r obj_pool \<Rightarrow> 'r obj_pool" where
  "write_obj a r p = p\<lparr>objStore := (objStore p)(a := map_option (\<lambda>x. x\<lparr>objBody := r\<rparr>) (objStore p a))\<rparr>"


section \<open>The list in the store\<close>

text \<open>The addresses that the list has, from its head.\<close>

fun chain :: "(nat \<rightharpoonup> 'r pool_obj) \<Rightarrow> nat option \<Rightarrow> nat list \<Rightarrow> bool" where
  "chain st h [] \<longleftrightarrow> h = None"
| "chain st h (a # as) \<longleftrightarrow> h = Some a \<and> (\<exists>x. st a = Some x \<and> chain st (objNext x) as)"

lemma chain_cong: "(\<And>a. a \<in> set as \<Longrightarrow> map_option objNext (st a) = map_option objNext (st' a)) \<Longrightarrow> chain st h as \<Longrightarrow> chain st' h as"
proof (induction as arbitrary: h)
  case (Cons a as)
  from Cons.prems(2) obtain x where x: "h = Some a" "st a = Some x" "chain st (objNext x) as" by auto
  with Cons.prems(1) [of a] obtain y where "st' a = Some y" "objNext y = objNext x" by (cases "st' a") auto
  with x Cons.IH Cons.prems(1) show ?case by simp
qed simp

text \<open>Who holds what: the objects held by goroutines, with their contents, and the free ones in order.\<close>

record 'r ownership =
  held :: "nat \<rightharpoonup> 'r"
  free :: "nat list"

definition owns :: "'r obj_pool \<Rightarrow> 'r ownership \<Rightarrow> bool" where
  "owns p w \<longleftrightarrow>
     chain (objStore p) (freeHead p) (free w) \<and> distinct (free w) \<and> set (free w) \<inter> dom (held w) = {} \<and>
     (\<forall>a r. held w a = Some r \<longrightarrow> (\<exists>x. objStore p a = Some x \<and> objBody x = r)) \<and>
     (\<forall>a. objStore p a \<noteq> None \<longrightarrow> a < freshAddr p)"

definition own_get :: "'r \<Rightarrow> nat \<Rightarrow> 'r ownership \<Rightarrow> 'r ownership" where
  "own_get z a w = \<lparr>held = (held w)(a \<mapsto> z), free = tl (free w)\<rparr>"

definition own_free :: "nat \<Rightarrow> 'r ownership \<Rightarrow> 'r ownership" where
  "own_free a w = \<lparr>held = (held w)(a := None), free = a # free w\<rparr>"

lemma own_get_obj:
  assumes "owns p w" "get_obj z p = (a, p')"
  shows "a \<notin> dom (held w)" "owns p' (own_get z a w)" "free w \<noteq> [] \<Longrightarrow> a = hd (free w)"
proof -
  have held: "b < freshAddr p" if "b \<in> dom (held w)" for b using assms(1) that by (fastforce simp: owns_def)
  have "a \<notin> dom (held w) \<and> owns p' (own_get z a w) \<and> (free w \<noteq> [] \<longrightarrow> a = hd (free w))"
  proof (cases "free w")
    case Nil
    then have "freeHead p = None" using assms(1) by (simp add: owns_def)
    then have p': "a = freshAddr p" "p' = p\<lparr>objStore := (objStore p)(a \<mapsto> \<lparr>objBody = z, objNext = None\<rparr>), freshAddr := a + 1\<rparr>"
      using assms(2) by (auto simp: get_obj_def alloc_def)
    then have "a \<notin> dom (held w)" using held by blast
    with assms(1) Nil p' show ?thesis by (auto simp: owns_def own_get_def less_Suc_eq)
  next
    case (Cons b bs)
    then obtain x where x: "freeHead p = Some b" "objStore p b = Some x" "chain (objStore p) (objNext x) bs"
      using assms(1) by (auto simp: owns_def)
    with assms(2) have p': "a = b" "p' = p\<lparr>freeHead := objNext x, objStore := (objStore p)(b \<mapsto> \<lparr>objBody = z, objNext = None\<rparr>)\<rparr>"
      by (auto simp: get_obj_def)
    have "chain ((objStore p)(b \<mapsto> \<lparr>objBody = z, objNext = None\<rparr>)) (objNext x) bs"
      using assms(1) Cons by (rule_tac chain_cong [OF _ x(3)]) (auto simp: owns_def)
    with assms(1) Cons p' x show ?thesis by (auto simp: owns_def own_get_def)
  qed
  then show "a \<notin> dom (held w)" "owns p' (own_get z a w)" "free w \<noteq> [] \<Longrightarrow> a = hd (free w)" by auto
qed

lemma own_free_obj:
  assumes "owns p w" "a \<in> dom (held w)"
  shows "owns (free_obj a p) (own_free a w)"
proof -
  obtain r x where r: "held w a = Some r" "objStore p a = Some x" using assms by (fastforce simp: owns_def)
  have "a \<notin> set (free w)" using assms by (auto simp: owns_def)
  moreover from this have "chain ((objStore p)(a \<mapsto> x\<lparr>objNext := freeHead p\<rparr>)) (freeHead p) (free w)"
    using assms(1) by (rule_tac chain_cong [of _ "objStore p"]) (auto simp: owns_def)
  ultimately show ?thesis using assms(1) r by (auto simp: owns_def free_obj_def own_free_def)
qed

lemma own_write_obj:
  assumes "owns p w" "a \<in> dom (held w)"
  shows "owns (write_obj a r p) (w\<lparr>held := (held w)(a \<mapsto> r)\<rparr>)"
proof -
  obtain x where x: "objStore p a = Some x" using assms by (fastforce simp: owns_def)
  have "chain (objStore (write_obj a r p)) (freeHead p) (free w)"
    using assms(1) x by (rule_tac chain_cong [of _ "objStore p"]) (auto simp: owns_def write_obj_def)
  with assms x show ?thesis by (auto simp: owns_def write_obj_def)
qed


section \<open>Executions\<close>

datatype 'r pool_event = EvGet nat | EvFree nat | EvUse nat 'r

text \<open>Goroutines take objects, write to those they hold, and give them back once.\<close>

inductive pool_step :: "'r \<Rightarrow> 'r pool_event \<Rightarrow> 'r obj_pool \<times> 'r ownership \<Rightarrow> 'r obj_pool \<times> 'r ownership \<Rightarrow> bool" for z where
  get: "getRequest z p = (a, p') \<Longrightarrow> pool_step z (EvGet a) (p, w) (p', own_get z a w)"
| give: "a \<in> dom (held w) \<Longrightarrow> pool_step z (EvFree a) (p, w) (freeRequest a p, own_free a w)"
| work: "a \<in> dom (held w) \<Longrightarrow> pool_step z (EvUse a r) (p, w) (write_obj a r p, w\<lparr>held := (held w)(a \<mapsto> r)\<rparr>)"

definition no_owner :: "'r ownership" where
  "no_owner = \<lparr>held = Map.empty, free = []\<rparr>"

lemma owns_step: "pool_step z e s t \<Longrightarrow> owns (fst s) (snd s) \<Longrightarrow> owns (fst t) (snd t)"
  by (induction rule: pool_step.induct)
     (auto simp: getRequest_def freeRequest_def dest: own_get_obj(2) intro: own_free_obj own_write_obj)

lemma owns_new: "owns new_pool no_owner"
  by (simp add: owns_def new_pool_def no_owner_def)

interpretation requests: step_system "\<lambda>s. s = (new_pool, no_owner)" "pool_step z" "\<lambda>s. owns (fst s) (snd s)"
  by unfold_locales (simp_all add: owns_new owns_step)

text \<open>
  C37. A request object is never shared: in every sequence in which goroutines take request objects,
  write to those they hold and give each back once, the object that the server hands out is
  held by nobody, is empty, and is the one given back last if there is one; what
  the other goroutines hold is as they left it. The same holds of responses.
\<close>

theorem request_not_shared:
  assumes "run (pool_step z) (new_pool, no_owner) es (p, w)" and "getRequest z p = (a, p')"
  shows "a \<notin> dom (held w) \<and> map_option objBody (objStore p' a) = Some z \<and> (free w \<noteq> [] \<longrightarrow> a = hd (free w)) \<and>
    (\<forall>b r. held w b = Some r \<longrightarrow> map_option objBody (objStore p' b) = Some r) \<and> getResponse z p = (a, p')"
proof -
  have ok: "owns p w" using requests.reachable_inv [OF refl assms(1)] by simp
  have g: "get_obj z p = (a, p')" using assms(2) by (simp add: getRequest_def)
  note a = own_get_obj [OF ok g]
  from a(2) have h: "map_option objBody (objStore p' b) = Some r" if "((held w)(a \<mapsto> z)) b = Some r" for b r
    using that by (fastforce simp: owns_def own_get_def)
  have "held w b = Some r \<Longrightarrow> ((held w)(a \<mapsto> z)) b = Some r" for b r using a(1) by auto
  with h a g show ?thesis by (auto simp: getResponse_def)
qed

lemma pool_demo: "run (pool_step ''z'') (new_pool, no_owner) [EvGet 0, EvUse 0 ''r''] (write_obj 0 ''r'' (snd (getRequest ''z'' new_pool)), \<lparr>held = [0 \<mapsto> ''r''], free = []\<rparr>)"
proof -
  let ?p = "snd (getRequest ''z'' new_pool)"
  have "getRequest ''z'' (new_pool :: string obj_pool) = (0, ?p)" by (simp add: getRequest_def get_obj_def alloc_def new_pool_def)
  from pool_step.get [OF this, of no_owner] have 1: "pool_step ''z'' (EvGet 0) (new_pool, no_owner) (?p, \<lparr>held = [0 \<mapsto> ''z''], free = []\<rparr>)"
    by (simp add: own_get_def no_owner_def)
  have 2: "pool_step ''z'' (EvUse 0 ''r'') (?p, \<lparr>held = [0 \<mapsto> ''z''], free = []\<rparr>) (write_obj 0 ''r'' ?p, \<lparr>held = [0 \<mapsto> ''r''], free = []\<rparr>)"
    using pool_step.work [of 0 "\<lparr>held = [0 \<mapsto> ''z''], free = []\<rparr>" "''z''" "''r''" ?p] by simp
  from 1 2 show ?thesis by (auto intro: run_cons run_nil)
qed

theorem request_not_shared_witness:
  "\<exists>a p'. getRequest ''z'' (write_obj 0 ''r'' (snd (getRequest ''z'' new_pool))) = (a, p') \<and> a \<noteq> 0 \<and> map_option objBody (objStore p' 0) = Some ''r''"
proof -
  obtain a p' where g: "getRequest ''z'' (write_obj 0 ''r'' (snd (getRequest ''z'' new_pool))) = (a, p')" by (metis prod.exhaust)
  from request_not_shared [OF pool_demo g] g show ?thesis by auto
qed

text \<open>
  A goroutine that keeps using a request after it has given it back uses the object of the next one:
  the next request is the same object, and empty.
\<close>

lemma freed_request_reused:
  assumes "objStore p a \<noteq> None"
  shows "fst (getRequest z (freeRequest a p)) = a \<and> map_option objBody (objStore (snd (getRequest z (freeRequest a p))) a) = Some z"
  using assms by (auto simp: getRequest_def freeRequest_def get_obj_def free_obj_def)

end
