(* ===== verification/Bytes_Cache.thy ===== *)
theory Bytes_Cache
  imports Goms_Prelude
begin

text \<open>
  The buffer cache, \<^verbatim>\<open>util/bytes_cache/cache.go\<close>: 64 pools, pool \<open>i\<close> for slices of
  capacity \<open>2 ^ i\<close>. A \<^verbatim>\<open>sync.Pool\<close> is a list of buffers from which
  \<^verbatim>\<open>Get\<close> takes any one it likes or none, in which case \<^verbatim>\<open>New\<close> is called: the
  choice is the argument \<open>choice\<close>. The largest slice the runtime can allocate is the parameter
  \<open>max_alloc\<close>. An \<^verbatim>\<open>int\<close> has 64 bits, and a loop that does not end is the
  value \<open>None\<close>.
\<close>

record buf =
  ident :: nat
  capa :: int

record bytes_cache =
  pools :: "buf list list"
  fresh :: nat

definition empty_cache :: bytes_cache where
  "empty_cache = \<lparr> pools = replicate 64 [], fresh = 0 \<rparr>"

text \<open>The shift loop: \<^verbatim>\<open>sz >>= 1\<close> is arithmetic, so a negative size never reaches 0.\<close>

partial_function (option) shift_loop :: "int \<Rightarrow> int \<Rightarrow> int option" where
  "shift_loop sz index = (if sz = 0 then Some index else shift_loop (sz div 2) (index + 1))"

declare shift_loop.simps [code]

definition getIndex :: "int \<Rightarrow> int option" where
  "getIndex sz =
     (if sz = 0 then Some 0
      else map_option (\<lambda>index. if sz AND - sz = sz then index - 1 else index) (shift_loop sz 0))"

definition new_buf :: "int \<Rightarrow> nat \<Rightarrow> bytes_cache \<Rightarrow> (buf \<times> bytes_cache) outcome" where
  "new_buf max_alloc i c =
     (let sz = signed_take_bit 63 (push_bit i 1) in
      if sz < 0 \<or> max_alloc < sz then Panic ''runtime error: makeslice: cap out of range''
      else Ret (\<lparr> ident = fresh c, capa = sz \<rparr>, c \<lparr> fresh := Suc (fresh c) \<rparr>))"

definition pool_get :: "int \<Rightarrow> nat option \<Rightarrow> nat \<Rightarrow> bytes_cache \<Rightarrow> (buf \<times> bytes_cache) outcome" where
  "pool_get max_alloc choice i c =
     (case choice of
        Some j \<Rightarrow>
          if j < length (pools c ! i)
          then Ret (pools c ! i ! j,
                    c \<lparr> pools := (pools c)[i := take j (pools c ! i) @ drop (Suc j) (pools c ! i)] \<rparr>)
          else new_buf max_alloc i c
      | None \<Rightarrow> new_buf max_alloc i c)"

text \<open>A slice of length \<open>l\<close> over a buffer: \<^verbatim>\<open>b[:l]\<close>.\<close>

definition reslice :: "int \<Rightarrow> buf \<times> bytes_cache \<Rightarrow> ((buf \<times> int) \<times> bytes_cache) outcome" where
  "reslice l bc =
     (if 0 \<le> l \<and> l \<le> capa (fst bc) then Ret ((fst bc, l), snd bc)
      else Panic ''runtime error: slice bounds out of range'')"

definition Get :: "int \<Rightarrow> nat option \<Rightarrow> int \<Rightarrow> int option \<Rightarrow> bytes_cache \<Rightarrow> ((buf \<times> int) \<times> bytes_cache) outcome option" where
  "Get max_alloc choice l cap c =
     (if (case cap of Some k \<Rightarrow> k < l | None \<Rightarrow> False) then Some (Panic ''capacity less to length '')
      else
        (case getIndex (case cap of Some k \<Rightarrow> k | None \<Rightarrow> l) of
           None \<Rightarrow> None
         | Some i \<Rightarrow>
             Some (if 0 \<le> i \<and> i < 64 then out_bind (pool_get max_alloc choice (nat i) c) (reslice l)
                   else Panic ''runtime error: index out of range'')))"

definition Put :: "buf \<Rightarrow> bytes_cache \<Rightarrow> bytes_cache outcome option" where
  "Put b c =
     (if capa b AND - capa b \<noteq> capa b then Some (Ret c)
      else
        (case getIndex (capa b) of
           None \<Rightarrow> None
         | Some i \<Rightarrow>
             Some (if 0 \<le> i \<and> i < 64 then Ret (c \<lparr> pools := (pools c)[nat i := b # pools c ! nat i] \<rparr>)
                   else Panic ''runtime error: index out of range'')))"


section \<open>The index of a size\<close>

lemma shift_loop_bits:
  "0 \<le> sz \<Longrightarrow> sz < 2 ^ n \<Longrightarrow> (n = 0 \<or> 2 ^ (n - 1) \<le> sz) \<Longrightarrow> shift_loop sz index = Some (index + int n)"
proof (induction n arbitrary: sz index)
  case 0
  then show ?case by (subst shift_loop.simps) simp
next
  case (Suc n)
  then have "sz \<noteq> 0" by auto
  have "n = 0 \<or> 2 ^ (n - 1) \<le> sz div 2"
    using Suc.prems(3) by (cases n) auto
  moreover have "sz div 2 < 2 ^ n" using Suc.prems by simp
  ultimately have "shift_loop (sz div 2) (index + 1) = Some (index + 1 + int n)"
    using Suc.IH [of "sz div 2" "index + 1"] Suc.prems(1) by simp
  with \<open>sz \<noteq> 0\<close> show ?case by (subst shift_loop.simps) simp
qed

lemma bit_length:
  assumes "0 < (sz :: int)"
  shows "\<exists>n. sz < 2 ^ Suc n \<and> 2 ^ n \<le> sz"
proof -
  define P where "P n \<longleftrightarrow> sz < 2 ^ n" for n :: nat
  have "int (nat sz) < int (2 ^ nat sz)" by (simp only: of_nat_less_iff less_exp)
  with assms have "P (nat sz)" by (simp add: P_def)
  then have "P (LEAST n. P n)" by (rule LeastI)
  moreover have "\<not> P 0" using assms by (simp add: P_def)
  ultimately obtain n where n: "(LEAST n. P n) = Suc n" "P (Suc n)"
    by (metis not0_implies_Suc)
  then have "\<not> P n" using not_less_Least [of n P] by simp
  with n show ?thesis by (auto simp: P_def)
qed

text \<open>The index is the exponent of the least power of two that is not below the size.\<close>

lemma getIndex_least:
  assumes "0 < sz"
  shows "\<exists>k. getIndex sz = Some (int k) \<and> sz \<le> 2 ^ k \<and> (\<forall>j<k. 2 ^ j < sz)"
proof -
  obtain n where n: "sz < 2 ^ Suc n" "2 ^ n \<le> sz" using bit_length [OF assms] by blast
  have loop: "shift_loop sz 0 = Some (1 + int n)"
    using shift_loop_bits [of sz "Suc n" 0] n assms by simp
  have below: "2 ^ j < sz" if "j < n" for j
    using less_le_trans [OF power_strict_increasing [OF that, of "2 :: int"] n(2)] by simp
  show ?thesis
  proof (cases "sz AND - sz = sz")
    case True
    then obtain k where k: "sz = 2 ^ k" using and_neg_pow2 assms by blast
    with n power_less_imp_less_exp [of "2 :: int" k "Suc n"] have "k = n" by simp
    with True k loop assms below show ?thesis by (intro exI [of _ n]) (auto simp: getIndex_def)
  next
    case False
    then have "sz \<noteq> 2 ^ n" using and_neg_pow2 assms by blast
    with n below have "\<forall>j<Suc n. 2 ^ j < sz" by (auto simp: less_Suc_eq)
    with False loop n(1) assms show ?thesis
      by (intro exI [of _ "Suc n"]) (auto simp: getIndex_def)
  qed
qed

lemma getIndex_pow2: "getIndex (2 ^ k) = Some (int k)"
proof -
  obtain j where j: "getIndex (2 ^ k) = Some (int j)" "(2 :: int) ^ k \<le> 2 ^ j" "\<forall>i<j. (2 :: int) ^ i < 2 ^ k"
    using getIndex_least [of "2 ^ k"] by auto
  then have "k \<le> j" by simp
  moreover have "\<not> k < j" using j(3) by blast
  ultimately have "k = j" by simp
  with j(1) show ?thesis by simp
qed


text \<open>Shifting a negative number right stops at \<open>-1\<close>: the loop has no end.\<close>

lemma shift_loop_negative: "shift_loop sz index = Some r \<Longrightarrow> 0 \<le> sz"
proof (induction rule: shift_loop.raw_induct [rotated 1, consumes 1])
  case (1 loop sz index r)
  from 1(1) [of "sz div 2" "index + 1" r] 1(2) show ?case by (auto split: if_splits)
qed


section \<open>The pools\<close>

text \<open>
  The invariant: pool \<open>i\<close> holds buffers of capacity \<open>2 ^ i\<close> only, and no buffer is
  in the pools twice.
\<close>

abbreviation pooled :: "bytes_cache \<Rightarrow> nat list" where
  "pooled c \<equiv> map ident (concat (pools c))"

definition cache_ok :: "bytes_cache \<Rightarrow> bool" where
  "cache_ok c \<longleftrightarrow>
     length (pools c) = 64 \<and>
     (\<forall>i<64. \<forall>b\<in>set (pools c ! i). capa b = 2 ^ i) \<and>
     distinct (pooled c) \<and> (\<forall>x\<in>set (pooled c). x < fresh c)"

lemma cache_ok_empty: "cache_ok empty_cache"
  by (simp add: cache_ok_def empty_cache_def)

lemma mset_concat_update:
  "i < length xss \<Longrightarrow> mset (concat (xss[i := ys])) + mset (xss ! i) = mset (concat xss) + mset ys"
proof (induction xss arbitrary: i)
  case (Cons xs xss)
  show ?case
  proof (cases i)
    case (Suc j)
    with Cons have "mset (concat (xss[j := ys])) + mset (xss ! j) = mset (concat xss) + mset ys" by simp
    with Suc show ?thesis by (simp add: union_assoc)
  qed simp
qed simp

lemma pool_member:
  "i < length xss \<Longrightarrow> x \<in> set (xss ! i) \<Longrightarrow> x \<in> set (concat xss)"
  by (auto simp: in_set_conv_nth) (metis nth_mem in_set_conv_nth)

lemma pool_size:
  assumes "i < 63"
  shows "signed_take_bit 63 (push_bit i 1) = (2 :: int) ^ i"
proof -
  have "(2 :: int) ^ i < 2 ^ 63" using assms by (intro power_strict_increasing) auto
  moreover have "- (2 ^ 63) \<le> (2 :: int) ^ i" by (rule order_trans [of _ 0]) simp_all
  ultimately show ?thesis by (simp only: push_bit_eq_mult mult_1 signed_take_bit_int_eq_self)
qed

lemma pool_get_ok:
  assumes ok: "cache_ok c" and i: "i < 63" and alloc: "2 ^ i \<le> max_alloc"
  obtains b c' where "pool_get max_alloc choice i c = Ret (b, c')" and "capa b = 2 ^ i"
    and "cache_ok c'" and "ident b \<notin> set (pooled c')" and "ident b < fresh c'"
proof -
  have new: "new_buf max_alloc i c = Ret (\<lparr> ident = fresh c, capa = 2 ^ i \<rparr>, c \<lparr> fresh := Suc (fresh c) \<rparr>)"
    using alloc unfolding new_buf_def Let_def pool_size [OF i] by simp
  have ok_new: "cache_ok (c \<lparr> fresh := Suc (fresh c) \<rparr>)" "fresh c \<notin> set (pooled c)"
    using ok unfolding cache_ok_def by (fastforce intro: less_SucI)+
  show thesis
  proof (cases "\<exists>j. choice = Some j \<and> j < length (pools c ! i)")
    case False
    then have "pool_get max_alloc choice i c = new_buf max_alloc i c"
      by (auto simp: pool_get_def split: option.splits)
    with that new ok_new show thesis by auto
  next
    case True
    then obtain j where j: "choice = Some j" "j < length (pools c ! i)" by blast
    let ?p = "pools c ! i"
    let ?b = "?p ! j"
    let ?c = "c \<lparr> pools := (pools c)[i := take j ?p @ drop (Suc j) ?p] \<rparr>"
    have len: "length (pools c) = 64" "i < length (pools c)" using ok i by (auto simp: cache_ok_def)
    have "mset ?p = add_mset ?b (mset (take j ?p @ drop (Suc j) ?p))"
      using j(2) by (metis id_take_nth_drop mset.simps(2) mset_append union_mset_add_mset_right)
    with mset_concat_update [OF len(2), of "take j ?p @ drop (Suc j) ?p"]
    have ms: "mset (concat (pools c)) = add_mset ?b (mset (concat (pools ?c)))" by simp
    then have "mset (pooled c) = add_mset (ident ?b) (mset (pooled ?c))" by (simp add: mset_map)
    then have "mset (pooled c) = mset (ident ?b # pooled ?c)" by simp
    with ok have d: "distinct (ident ?b # pooled ?c)" "\<forall>x\<in>set (ident ?b # pooled ?c). x < fresh c"
      using mset_eq_imp_distinct_iff mset_eq_setD unfolding cache_ok_def by metis+
    have "\<forall>k<64. \<forall>b\<in>set (pools ?c ! k). capa b = 2 ^ k"
      using ok len by (auto simp: cache_ok_def nth_list_update dest: in_set_takeD in_set_dropD)
    with d len have "cache_ok ?c" by (simp add: cache_ok_def)
    moreover have "capa ?b = 2 ^ i" using ok i j(2) by (simp add: cache_ok_def)
    ultimately show thesis using that [of ?b ?c] j d by (simp add: pool_get_def)
  qed
qed

lemma Put_ok:
  assumes "cache_ok c" and "capa b = 2 ^ i" and "i < 64" and "ident b \<notin> set (pooled c)" and "ident b < fresh c"
  obtains c' where "Put b c = Some (Ret c')" and "cache_ok c'" and "b \<in> set (pools c' ! i)"
proof -
  let ?c = "c \<lparr> pools := (pools c)[i := b # pools c ! i] \<rparr>"
  have len: "length (pools c) = 64" "i < length (pools c)" using assms by (auto simp: cache_ok_def)
  have "mset (pooled ?c) = mset (ident b # pooled c)"
    using mset_concat_update [OF len(2), of "b # pools c ! i"] by (simp add: mset_map)
  then have "distinct (pooled ?c)" "\<forall>x\<in>set (pooled ?c). x < fresh c"
    using assms mset_eq_imp_distinct_iff [of "pooled ?c" "ident b # pooled c"] mset_eq_setD [of "pooled ?c" "ident b # pooled c"]
    by (auto simp: cache_ok_def)
  moreover have "\<forall>k<64. \<forall>b\<in>set (pools ?c ! k). capa b = 2 ^ k"
    using assms len by (auto simp: cache_ok_def nth_list_update)
  ultimately have "cache_ok ?c" using len by (simp add: cache_ok_def)
  moreover have "Put b c = Some (Ret ?c)"
    using assms(2,3) and_neg_pow2 [of "2 ^ i"] by (auto simp: Put_def getIndex_pow2)
  ultimately show thesis using that [of ?c] len by simp
qed

text \<open>
  \<^verbatim>\<open>Get\<close> returns a slice of the requested length whenever the capacity asked for is
  not below the length and the next power of two can be allocated: whichever buffer the pool hands
  out, its capacity is the least power of two that holds the request (less than twice the
  request), the buffer is no longer in any pool, so that no second \<^verbatim>\<open>Get\<close> can
  return it, and giving it back with \<^verbatim>\<open>Put\<close> succeeds and keeps the invariant.
\<close>

theorem Get_fits:
  assumes "cache_ok c" and "max_alloc < 2 ^ 63" and "0 \<le> l" and "l \<le> want"
    and "cap = Some want \<or> cap = None \<and> want = l"
    and "want \<le> 2 ^ n" and "2 ^ n \<le> max_alloc"
  shows "\<exists>b c'. Get max_alloc choice l cap c = Some (Ret ((b, l), c')) \<and> want \<le> capa b \<and>
                capa b < 2 * max want 1 \<and> cache_ok c' \<and> ident b \<notin> set (pooled c') \<and>
                (\<exists>c''. Put b c' = Some (Ret c'') \<and> cache_ok c'')"
proof -
  have "\<exists>k. getIndex want = Some (int k) \<and> want \<le> 2 ^ k \<and> (\<forall>j<k. 2 ^ j < want)"
    using getIndex_least [of want] assms(3,4) by (cases "want = 0") (auto simp: getIndex_def)
  then obtain k where k: "getIndex want = Some (int k)" "want \<le> 2 ^ k" "\<forall>j<k. 2 ^ j < want" by blast
  have "k \<le> n" using k(3) assms(6) by (meson not_le_imp_less leD)
  then have le: "(2 :: int) ^ k \<le> max_alloc" using assms(7) by (meson order_trans one_le_numeral power_increasing)
  with assms(2) have "(2 :: int) ^ k < 2 ^ 63" by simp
  then have k63: "k < 63" by (rule power_less_imp_less_exp [rotated]) simp
  obtain b c' where b: "pool_get max_alloc choice k c = Ret (b, c')" "capa b = 2 ^ k" "cache_ok c'"
      "ident b \<notin> set (pooled c')" "ident b < fresh c'"
    using pool_get_ok [OF assms(1) k63 le] by blast
  have small: "(2 :: int) ^ k < 2 * max want 1"
  proof (cases k)
    case (Suc j)
    then have "2 ^ j < want" using k(3) by simp
    with Suc show ?thesis by simp
  qed simp
  have "Get max_alloc choice l cap c = Some (Ret ((b, l), c'))"
    using assms(3-5) k k63 b by (auto simp: Get_def reslice_def)
  moreover obtain c'' where "Put b c' = Some (Ret c'')" "cache_ok c''"
    using Put_ok [OF b(3) b(2) _ b(4,5)] k63 by auto
  ultimately show ?thesis using b k(2) small by auto
qed

theorem Get_fits_witness:
  "\<exists>b c'. Get (2 ^ 48) (Some 0) 5 (Some 6) empty_cache = Some (Ret ((b, 5), c')) \<and> 6 \<le> capa b \<and> capa b < 12"
  using Get_fits [OF cache_ok_empty, of "2 ^ 48" 5 6 "Some 6" 3 "Some 0"] by auto

text \<open>
  A slice without capacity poisons the cache: \<^verbatim>\<open>Put\<close> takes it, because
  \<^verbatim>\<open>0 & -0\<close> is \<open>0\<close>, and files it under the buffers of capacity one; the next
  \<^verbatim>\<open>Get(1)\<close> that is handed this buffer panics.
\<close>

theorem Put_zero_poisons:
  "\<exists>c. Put \<lparr> ident = 0, capa = 0 \<rparr> empty_cache = Some (Ret c) \<and>
       Get (2 ^ 48) (Some 0) 1 None c = Some (Panic ''runtime error: slice bounds out of range'')"
proof -
  have "getIndex 1 = Some 0" using getIndex_pow2 [of 0] by simp
  then show ?thesis
    by (simp add: Put_def Get_def getIndex_def empty_cache_def pool_get_def reslice_def)
qed

end
