(* ===== verification/Sync_Map.thy ===== *)
theory Sync_Map
  imports Goms_Prelude
begin

text \<open>
  The concurrent map, \<^verbatim>\<open>util/sync_map.go\<close>: a read-only map that is used without the
  mutex, a dirty map that needs it, and entries shared by both through pointers. The heap of
  entries is explicit: an entry is an address, its content a slot that holds a value, is deleted
  (\<^verbatim>\<open>nil\<close>), or is expunged. Every operation has the two phases of the code: an attempt on
  the read-only map, and the section under the mutex, which looks everything up again. Each phase
  is one step, so that other goroutines may act between them; the compare-and-swap
  loops on an entry then succeed at once.
\<close>

datatype 'v slot = Val 'v | Nil | Expunged

record ('k, 'v) sync_map =
  heap :: "nat \<Rightarrow> 'v slot"
  brk :: nat
  read_m :: "('k, nat) gmap"
  amended :: bool
  dirty :: "('k, nat) gmap option"
  misses :: nat

definition new_map :: "('k, 'v) sync_map" where
  "new_map = \<lparr> heap = (\<lambda>_. Nil), brk = 0, read_m = [], amended = False, dirty = None, misses = 0 \<rparr>"

definition set_slot :: "nat \<Rightarrow> 'v slot \<Rightarrow> ('k, 'v) sync_map \<Rightarrow> ('k, 'v) sync_map" where
  "set_slot a s m = m \<lparr> heap := (heap m)(a := s) \<rparr>"

definition dirty_map :: "('k, 'v) sync_map \<Rightarrow> ('k, nat) gmap" where
  "dirty_map m = (case dirty m of None \<Rightarrow> [] | Some d \<Rightarrow> d)"


section \<open>Entries\<close>

fun load_slot :: "'v slot \<Rightarrow> 'v option" where
  "load_slot (Val v) = Some v"
| "load_slot Nil = None"
| "load_slot Expunged = None"

definition newEntry :: "'v \<Rightarrow> ('k, 'v) sync_map \<Rightarrow> nat \<times> ('k, 'v) sync_map" where
  "newEntry v m = (brk m, set_slot (brk m) (Val v) (m \<lparr> brk := Suc (brk m) \<rparr>))"

definition entry_load :: "nat \<Rightarrow> ('k, 'v) sync_map \<Rightarrow> 'v option" where
  "entry_load a m = load_slot (heap m a)"

text \<open>The value to compare with is an argument of the code too, and is not used there either.\<close>

definition tryCompareAndSwap :: "'v \<Rightarrow> 'v \<Rightarrow> nat \<Rightarrow> ('k, 'v) sync_map \<Rightarrow> bool \<times> ('k, 'v) sync_map" where
  "tryCompareAndSwap old new a m =
     (case heap m a of Val _ \<Rightarrow> (True, set_slot a (Val new) m) | _ \<Rightarrow> (False, m))"

definition unexpungeLocked :: "nat \<Rightarrow> ('k, 'v) sync_map \<Rightarrow> bool \<times> ('k, 'v) sync_map" where
  "unexpungeLocked a m =
     (case heap m a of Expunged \<Rightarrow> (True, set_slot a Nil m) | _ \<Rightarrow> (False, m))"

definition swapLocked :: "'v \<Rightarrow> nat \<Rightarrow> ('k, 'v) sync_map \<Rightarrow> 'v option \<times> ('k, 'v) sync_map" where
  "swapLocked v a m = (load_slot (heap m a), set_slot a (Val v) m)"

definition tryLoadOrStore :: "'v \<Rightarrow> nat \<Rightarrow> ('k, 'v) sync_map \<Rightarrow> (('v \<times> bool) \<times> ('k, 'v) sync_map) option" where
  "tryLoadOrStore v a m =
     (case heap m a of
        Expunged \<Rightarrow> None
      | Val w \<Rightarrow> Some ((w, True), m)
      | Nil \<Rightarrow> Some ((v, False), set_slot a (Val v) m))"

definition entry_delete :: "nat \<Rightarrow> ('k, 'v) sync_map \<Rightarrow> 'v option \<times> ('k, 'v) sync_map" where
  "entry_delete a m =
     (case heap m a of Val v \<Rightarrow> (Some v, set_slot a Nil m) | _ \<Rightarrow> (None, m))"

definition trySwap :: "'v \<Rightarrow> nat \<Rightarrow> ('k, 'v) sync_map \<Rightarrow> ('v option \<times> ('k, 'v) sync_map) option" where
  "trySwap v a m =
     (case heap m a of Expunged \<Rightarrow> None | s \<Rightarrow> Some (load_slot s, set_slot a (Val v) m))"

definition tryExpungeLocked :: "nat \<Rightarrow> ('k, 'v) sync_map \<Rightarrow> bool \<times> ('k, 'v) sync_map" where
  "tryExpungeLocked a m =
     (case heap m a of Nil \<Rightarrow> (True, set_slot a Expunged m) | Expunged \<Rightarrow> (True, m) | Val _ \<Rightarrow> (False, m))"


section \<open>The two maps\<close>

definition promote :: "('k, 'v) sync_map \<Rightarrow> ('k, 'v) sync_map" where
  "promote m = m \<lparr> read_m := dirty_map m, amended := False, dirty := None, misses := 0 \<rparr>"

definition missLocked :: "('k, 'v) sync_map \<Rightarrow> ('k, 'v) sync_map" where
  "missLocked m =
     (if Suc (misses m) < length (dirty_map m) then m \<lparr> misses := Suc (misses m) \<rparr> else promote m)"

fun copy_live :: "('k, nat) gmap \<Rightarrow> ('k, 'v) sync_map \<Rightarrow> ('k, nat) gmap \<times> ('k, 'v) sync_map" where
  "copy_live [] m = ([], m)"
| "copy_live ((k, a) # es) m =
     (let (gone, m1) = tryExpungeLocked a m; (d, m2) = copy_live es m1
      in (if gone then d else (k, a) # d, m2))"

definition dirtyLocked :: "('k, 'v) sync_map \<Rightarrow> ('k, 'v) sync_map" where
  "dirtyLocked m =
     (if dirty m \<noteq> None then m
      else let (d, m1) = copy_live (read_m m) m in m1 \<lparr> dirty := Some d \<rparr>)"

definition put_dirty :: "'k \<Rightarrow> nat \<Rightarrow> ('k, 'v) sync_map \<Rightarrow> ('k, 'v) sync_map" where
  "put_dirty k a m = m \<lparr> dirty := Some (gmap_set k a (dirty_map m)) \<rparr>"

text \<open>The branch that adds a new key.\<close>

definition add_new :: "'k \<Rightarrow> 'v \<Rightarrow> ('k, 'v) sync_map \<Rightarrow> ('k, 'v) sync_map" where
  "add_new k v m =
     (let m1 = (if amended m then m else (dirtyLocked m) \<lparr> amended := True \<rparr>);
          (a, m2) = newEntry v m1
      in put_dirty k a m2)"

text \<open>An entry of the read-only map is made usable again before it is written under the mutex.\<close>

definition revive :: "'k \<Rightarrow> nat \<Rightarrow> ('k, 'v) sync_map \<Rightarrow> ('k, 'v) sync_map" where
  "revive k a m = (let (was, m1) = unexpungeLocked a m in if was then put_dirty k a m1 else m1)"

definition load_fast :: "'k \<Rightarrow> ('k, 'v) sync_map \<Rightarrow> 'v option option" where
  "load_fast k m =
     (case map_of (read_m m) k of
        Some a \<Rightarrow> Some (entry_load a m)
      | None \<Rightarrow> if amended m then None else Some None)"

definition load_slow :: "'k \<Rightarrow> ('k, 'v) sync_map \<Rightarrow> 'v option \<times> ('k, 'v) sync_map" where
  "load_slow k m =
     (case map_of (read_m m) k of
        Some a \<Rightarrow> (entry_load a m, m)
      | None \<Rightarrow>
          if amended m then
            (let e = map_of (dirty_map m) k; m1 = missLocked m
             in (case e of Some a \<Rightarrow> entry_load a m1 | None \<Rightarrow> None, m1))
          else (None, m))"

definition Load_map :: "'k \<Rightarrow> ('k, 'v) sync_map \<Rightarrow> 'v option \<times> ('k, 'v) sync_map" where
  "Load_map k m = (case load_fast k m of Some r \<Rightarrow> (r, m) | None \<Rightarrow> load_slow k m)"

definition load_or_store_fast :: "'k \<Rightarrow> 'v \<Rightarrow> ('k, 'v) sync_map \<Rightarrow> (('v \<times> bool) \<times> ('k, 'v) sync_map) option" where
  "load_or_store_fast k v m =
     (case map_of (read_m m) k of Some a \<Rightarrow> tryLoadOrStore v a m | None \<Rightarrow> None)"

text \<open>The third result is dropped under the mutex: a refusal would give the zero value, \<open>None\<close>.\<close>

definition load_or_store_slow :: "'k \<Rightarrow> 'v \<Rightarrow> ('k, 'v) sync_map \<Rightarrow> ('v option \<times> bool) \<times> ('k, 'v) sync_map" where
  "load_or_store_slow k v m =
     (case map_of (read_m m) k of
        Some a \<Rightarrow>
          let m1 = revive k a m
          in (case tryLoadOrStore v a m1 of
                Some ((w, l), m2) \<Rightarrow> ((Some w, l), m2)
              | None \<Rightarrow> ((None, False), m1))
      | None \<Rightarrow>
          (case map_of (dirty_map m) k of
             Some a \<Rightarrow>
               (case tryLoadOrStore v a m of
                  Some ((w, l), m1) \<Rightarrow> ((Some w, l), missLocked m1)
                | None \<Rightarrow> ((None, False), missLocked m))
           | None \<Rightarrow> ((Some v, False), add_new k v m)))"

definition LoadOrStore :: "'k \<Rightarrow> 'v \<Rightarrow> ('k, 'v) sync_map \<Rightarrow> ('v option \<times> bool) \<times> ('k, 'v) sync_map" where
  "LoadOrStore k v m =
     (case load_or_store_fast k v m of
        Some ((w, l), m1) \<Rightarrow> ((Some w, l), m1)
      | None \<Rightarrow> load_or_store_slow k v m)"

definition delete_fast :: "'k \<Rightarrow> ('k, 'v) sync_map \<Rightarrow> ('v option \<times> ('k, 'v) sync_map) option" where
  "delete_fast k m =
     (case map_of (read_m m) k of
        Some a \<Rightarrow> Some (entry_delete a m)
      | None \<Rightarrow> if amended m then None else Some (None, m))"

definition delete_slow :: "'k \<Rightarrow> ('k, 'v) sync_map \<Rightarrow> 'v option \<times> ('k, 'v) sync_map" where
  "delete_slow k m =
     (case map_of (read_m m) k of
        Some a \<Rightarrow> entry_delete a m
      | None \<Rightarrow>
          if amended m then
            (let e = map_of (dirty_map m) k;
                 m1 = missLocked (m \<lparr> dirty := map_option (gmap_del k) (dirty m) \<rparr>)
             in (case e of Some a \<Rightarrow> entry_delete a m1 | None \<Rightarrow> (None, m1)))
          else (None, m))"

definition LoadAndDelete :: "'k \<Rightarrow> ('k, 'v) sync_map \<Rightarrow> 'v option \<times> ('k, 'v) sync_map" where
  "LoadAndDelete k m = (case delete_fast k m of Some r \<Rightarrow> r | None \<Rightarrow> delete_slow k m)"

definition Delete_map :: "'k \<Rightarrow> ('k, 'v) sync_map \<Rightarrow> ('k, 'v) sync_map" where
  "Delete_map k m = snd (LoadAndDelete k m)"

definition swap_fast :: "'k \<Rightarrow> 'v \<Rightarrow> ('k, 'v) sync_map \<Rightarrow> ('v option \<times> ('k, 'v) sync_map) option" where
  "swap_fast k v m = (case map_of (read_m m) k of Some a \<Rightarrow> trySwap v a m | None \<Rightarrow> None)"

definition swap_slow :: "'k \<Rightarrow> 'v \<Rightarrow> ('k, 'v) sync_map \<Rightarrow> 'v option \<times> ('k, 'v) sync_map" where
  "swap_slow k v m =
     (case map_of (read_m m) k of
        Some a \<Rightarrow> swapLocked v a (revive k a m)
      | None \<Rightarrow>
          (case map_of (dirty_map m) k of
             Some a \<Rightarrow> swapLocked v a m
           | None \<Rightarrow> (None, add_new k v m)))"

definition Swap :: "'k \<Rightarrow> 'v \<Rightarrow> ('k, 'v) sync_map \<Rightarrow> 'v option \<times> ('k, 'v) sync_map" where
  "Swap k v m = (case swap_fast k v m of Some r \<Rightarrow> r | None \<Rightarrow> swap_slow k v m)"

definition Store :: "'k \<Rightarrow> 'v \<Rightarrow> ('k, 'v) sync_map \<Rightarrow> ('k, 'v) sync_map" where
  "Store k v m = snd (Swap k v m)"

definition cas_fast :: "'k \<Rightarrow> 'v \<Rightarrow> 'v \<Rightarrow> ('k, 'v) sync_map \<Rightarrow> (bool \<times> ('k, 'v) sync_map) option" where
  "cas_fast k old new m =
     (case map_of (read_m m) k of
        Some a \<Rightarrow> Some (tryCompareAndSwap old new a m)
      | None \<Rightarrow> if amended m then None else Some (False, m))"

definition cas_slow :: "'k \<Rightarrow> 'v \<Rightarrow> 'v \<Rightarrow> ('k, 'v) sync_map \<Rightarrow> bool \<times> ('k, 'v) sync_map" where
  "cas_slow k old new m =
     (case map_of (read_m m) k of
        Some a \<Rightarrow> tryCompareAndSwap old new a m
      | None \<Rightarrow>
          (case map_of (dirty_map m) k of
             Some a \<Rightarrow> (let (ok, m1) = tryCompareAndSwap old new a m in (ok, missLocked m1))
           | None \<Rightarrow> (False, m)))"

definition CompareAndSwap :: "'k \<Rightarrow> 'v \<Rightarrow> 'v \<Rightarrow> ('k, 'v) sync_map \<Rightarrow> bool \<times> ('k, 'v) sync_map" where
  "CompareAndSwap k old new m =
     (case cas_fast k old new m of Some r \<Rightarrow> r | None \<Rightarrow> cas_slow k old new m)"

definition drop_entry :: "nat \<Rightarrow> ('k, 'v) sync_map \<Rightarrow> bool \<times> ('k, 'v) sync_map" where
  "drop_entry a m = (case heap m a of Val _ \<Rightarrow> (True, set_slot a Nil m) | _ \<Rightarrow> (False, m))"

definition cad_fast :: "'k \<Rightarrow> 'v \<Rightarrow> ('k, 'v) sync_map \<Rightarrow> (bool \<times> ('k, 'v) sync_map) option" where
  "cad_fast k old m =
     (case map_of (read_m m) k of
        Some a \<Rightarrow> Some (drop_entry a m)
      | None \<Rightarrow> if amended m then None else Some (False, m))"

definition cad_slow :: "'k \<Rightarrow> 'v \<Rightarrow> ('k, 'v) sync_map \<Rightarrow> bool \<times> ('k, 'v) sync_map" where
  "cad_slow k old m =
     (case map_of (read_m m) k of
        Some a \<Rightarrow> drop_entry a m
      | None \<Rightarrow>
          if amended m then
            (let e = map_of (dirty_map m) k; m1 = missLocked m
             in (case e of Some a \<Rightarrow> drop_entry a m1 | None \<Rightarrow> (False, m1)))
          else (False, m))"

definition CompareAndDelete :: "'k \<Rightarrow> 'v \<Rightarrow> ('k, 'v) sync_map \<Rightarrow> bool \<times> ('k, 'v) sync_map" where
  "CompareAndDelete k old m = (case cad_fast k old m of Some r \<Rightarrow> r | None \<Rightarrow> cad_slow k old m)"

text \<open>
  \<^verbatim>\<open>Range\<close> promotes the dirty map and walks the read-only one; the function it calls
  has a state of its own and says whether to go on.
\<close>

fun walk :: "('k \<Rightarrow> 'v \<Rightarrow> 's \<Rightarrow> bool \<times> 's) \<Rightarrow> ('k, 'v) sync_map \<Rightarrow> ('k \<times> nat) list \<Rightarrow> 's \<Rightarrow> 's" where
  "walk f m [] s = s"
| "walk f m ((k, a) # es) s =
     (case entry_load a m of
        None \<Rightarrow> walk f m es s
      | Some v \<Rightarrow> (let (go, s') = f k v s in if go then walk f m es s' else s'))"

definition Range :: "('k, nat) gorder \<Rightarrow> ('k \<Rightarrow> 'v \<Rightarrow> 's \<Rightarrow> bool \<times> 's) \<Rightarrow> 's \<Rightarrow> ('k, 'v) sync_map \<Rightarrow> 's \<times> ('k, 'v) sync_map" where
  "Range ord f s m =
     (let m1 = (if amended m then promote m else m) in (walk f m1 (ord (read_m m1)) s, m1))"

definition KeysFunc :: "('k, nat) gorder \<Rightarrow> ('k \<Rightarrow> 'v \<Rightarrow> bool) \<Rightarrow> ('k, 'v) sync_map \<Rightarrow> 'k list \<times> ('k, 'v) sync_map" where
  "KeysFunc ord f = Range ord (\<lambda>k v ks. (True, if f k v then ks @ [k] else ks)) []"

definition Keys :: "('k, nat) gorder \<Rightarrow> ('k, 'v) sync_map \<Rightarrow> 'k list \<times> ('k, 'v) sync_map" where
  "Keys ord = Range ord (\<lambda>k v ks. (True, ks @ [k])) []"

definition Values :: "('k, nat) gorder \<Rightarrow> ('k, 'v) sync_map \<Rightarrow> 'v list \<times> ('k, 'v) sync_map" where
  "Values ord = Range ord (\<lambda>k v vs. (True, vs @ [v])) []"

definition Count :: "('k, nat) gorder \<Rightarrow> ('k, 'v) sync_map \<Rightarrow> int \<times> ('k, 'v) sync_map" where
  "Count ord = Range ord (\<lambda>k v n. (True, n + 1)) 0"


section \<open>Interleavings\<close>

text \<open>
  An object whose operations first try without the mutex and then, if that gave no answer, go
  through a locked section: a run is any sequence of attempts and locked sections of any
  goroutines. The history records the operations in the order of the phase that answered them.
\<close>

datatype 'o phase = Try 'o | Locked 'o

fun exec :: "('o \<Rightarrow> 's \<Rightarrow> ('r \<times> 's) option) \<Rightarrow> ('o \<Rightarrow> 's \<Rightarrow> 'r \<times> 's) \<Rightarrow> 'o phase list \<Rightarrow> 's \<Rightarrow> ('o \<times> 'r) list \<times> 's" where
  "exec fst_try locked [] s = ([], s)"
| "exec fst_try locked (Try op # ps) s =
     (case fst_try op s of
        None \<Rightarrow> exec fst_try locked ps s
      | Some (r, s') \<Rightarrow> (let (h, t) = exec fst_try locked ps s' in ((op, r) # h, t)))"
| "exec fst_try locked (Locked op # ps) s =
     (let (r, s') = locked op s; (h, t) = exec fst_try locked ps s' in ((op, r) # h, t))"

text \<open>Replaying a history on the specification, checking every result.\<close>

fun replay :: "('o \<Rightarrow> 'a \<Rightarrow> 'r \<times> 'a) \<Rightarrow> ('o \<times> 'r) list \<Rightarrow> 'a \<Rightarrow> 'a option" where
  "replay sp [] c = Some c"
| "replay sp ((op, r) # h) c = (if fst (sp op c) = r then replay sp h (snd (sp op c)) else None)"

locale two_phase =
  fixes sp :: "'o \<Rightarrow> 'a \<Rightarrow> 'r \<times> 'a"
    and attempt :: "'o \<Rightarrow> 's \<Rightarrow> ('r \<times> 's) option"
    and locked :: "'o \<Rightarrow> 's \<Rightarrow> 'r \<times> 's"
    and abs :: "'s \<Rightarrow> 'a"
    and ok :: "'s \<Rightarrow> bool"
  assumes attempt_spec: "ok s \<Longrightarrow> attempt op s = Some (r, s') \<Longrightarrow> ok s' \<and> sp op (abs s) = (r, abs s')"
    and locked_spec: "ok s \<Longrightarrow> locked op s = (r, s') \<Longrightarrow> ok s' \<and> sp op (abs s) = (r, abs s')"
begin

lemma linearizable:
  "ok s \<Longrightarrow> exec attempt locked ps s = (h, t) \<Longrightarrow> ok t \<and> replay sp h (abs s) = Some (abs t)"
proof (induction ps arbitrary: s h)
  case (Cons p ps)
  have step: "ok t \<and> replay sp h (abs s) = Some (abs t)"
    if "ok s' \<and> sp op (abs s) = (r, abs s')" and "exec attempt locked ps s' = (h', t)" and "h = (op, r) # h'"
    for op r s' h'
    using Cons.IH [of s' h'] that by simp
  show ?case
  proof (cases p)
    case (Try op)
    show ?thesis
    proof (cases "attempt op s")
      case None
      with Try Cons show ?thesis by simp
    next
      case (Some q)
      obtain r s' where q: "q = (r, s')" by (cases q)
      obtain h' t' where e: "exec attempt locked ps s' = (h', t')" by fastforce
      with Try Some q Cons.prems(2) have "h = (op, r) # h'" "t' = t" by simp_all
      with step [OF attempt_spec [OF Cons.prems(1)]] Some q e show ?thesis by simp
    qed
  next
    case (Locked op)
    obtain r s' where q: "locked op s = (r, s')" by fastforce
    obtain h' t' where e: "exec attempt locked ps s' = (h', t')" by fastforce
    with Locked q Cons.prems(2) have "h = (op, r) # h'" "t' = t" by simp_all
    with step [OF locked_spec [OF Cons.prems(1)]] q e show ?thesis by simp
  qed
qed simp

end


section \<open>The invariant\<close>

declare map_of_eq_Some_iff [simp del] Some_eq_map_of_iff [simp del]

text \<open>
  The entry of a key is the one of the read-only map, or else the one of the dirty map; the
  contents of the map are the live slots of the entries.
\<close>

definition entry_at :: "('k, 'v) sync_map \<Rightarrow> 'k \<Rightarrow> nat option" where
  "entry_at m = map_of (dirty_map m) ++ map_of (read_m m)"

definition contents :: "('k, 'v) sync_map \<Rightarrow> 'k \<Rightarrow> 'v option" where
  "contents m k = Option.bind (entry_at m k) (\<lambda>a. load_slot (heap m a))"

definition maps_ok :: "('k, 'v) sync_map \<Rightarrow> bool" where
  "maps_ok m \<longleftrightarrow>
     gmap_ok (read_m m) \<and> gmap_ok (dirty_map m) \<and> (amended m \<longleftrightarrow> dirty m \<noteq> None) \<and>
     (\<forall>k a. entry_at m k = Some a \<longrightarrow> a < brk m) \<and>
     (\<forall>k k' a. entry_at m k = Some a \<longrightarrow> entry_at m k' = Some a \<longrightarrow> k = k')"

text \<open>
  The comments of the code on \<^verbatim>\<open>expunged\<close>: an entry of the read-only map is expunged
  exactly when there is a dirty map without it; the dirty map shares the other entries and holds no
  expunged one.
\<close>

definition slots_ok :: "('k, 'v) sync_map \<Rightarrow> bool" where
  "slots_ok m \<longleftrightarrow>
     (\<forall>k a. map_of (read_m m) k = Some a \<longrightarrow>
        (if dirty m = None then heap m a \<noteq> Expunged
         else map_of (dirty_map m) k = (if heap m a = Expunged then None else Some a))) \<and>
     (\<forall>k a. map_of (dirty_map m) k = Some a \<longrightarrow> heap m a \<noteq> Expunged)"

definition smap_ok :: "('k, 'v) sync_map \<Rightarrow> bool" where
  "smap_ok m \<longleftrightarrow> maps_ok m \<and> slots_ok m"

lemma set_slot_simps [simp]:
  "heap (set_slot a s m) = (heap m)(a := s)" "read_m (set_slot a s m) = read_m m"
  "dirty (set_slot a s m) = dirty m" "amended (set_slot a s m) = amended m" "brk (set_slot a s m) = brk m"
  "dirty_map (set_slot a s m) = dirty_map m" "entry_at (set_slot a s m) = entry_at m"
  by (simp_all add: set_slot_def dirty_map_def entry_at_def)

lemma entry_at_read: "map_of (read_m m) k = Some a \<Longrightarrow> entry_at m k = Some a"
  by (simp add: entry_at_def)

lemma entry_at_dirty: "map_of (read_m m) k = None \<Longrightarrow> entry_at m k = map_of (dirty_map m) k"
  by (simp add: entry_at_def map_add_def)

lemma entry_at_in_dirty:
  assumes "smap_ok m" and "map_of (dirty_map m) k = Some a"
  shows "entry_at m k = Some a"
proof (cases "map_of (read_m m) k")
  case (Some b)
  then have "dirty m \<noteq> None" using assms(2) by (auto simp: dirty_map_def split: option.splits)
  with Some assms have "a = b" by (auto simp: smap_ok_def slots_ok_def split: if_splits)
  with Some show ?thesis by (simp add: entry_at_read)
qed (simp add: entry_at_dirty assms)

lemma smap_ok_new: "smap_ok new_map"
  by (simp add: smap_ok_def maps_ok_def slots_ok_def new_map_def dirty_map_def entry_at_def)

lemma contents_new: "contents new_map = Map.empty"
  by (simp add: fun_eq_iff contents_def new_map_def dirty_map_def entry_at_def)

lemma set_slot_live:
  assumes ok: "smap_ok m" and a: "entry_at m k = Some a" and "heap m a \<noteq> Expunged" and "s \<noteq> Expunged"
  shows "smap_ok (set_slot a s m)" and "contents (set_slot a s m) = (contents m)(k := load_slot s)"
proof -
  show "smap_ok (set_slot a s m)"
    using assms by (auto simp: smap_ok_def maps_ok_def slots_ok_def)
  show "contents (set_slot a s m) = (contents m)(k := load_slot s)"
  proof (rule ext)
    fix x
    show "contents (set_slot a s m) x = ((contents m)(k := load_slot s)) x"
    proof (cases "x = k")
      case False
      have "entry_at m x \<noteq> Some a" using ok a False unfolding smap_ok_def maps_ok_def by blast
      with False show ?thesis by (cases "entry_at m x") (simp_all add: contents_def)
    qed (simp add: contents_def a)
  qed
qed

lemma set_slot_free:
  assumes ok: "smap_ok m" and "\<forall>k. entry_at m k \<noteq> Some a"
  shows "smap_ok (set_slot a s m)" and "contents (set_slot a s m) = contents m"
proof -
  have "map_of (read_m m) k \<noteq> Some a" "map_of (dirty_map m) k \<noteq> Some a" for k
    using assms entry_at_read entry_at_in_dirty by metis+
  then show "smap_ok (set_slot a s m)"
    using ok by (auto simp: smap_ok_def maps_ok_def slots_ok_def)
  show "contents (set_slot a s m) = contents m"
    using assms(2) by (auto simp: contents_def fun_eq_iff intro!: Option.bind_cong)
qed

lemma promote_ok:
  assumes ok: "smap_ok m" and am: "amended m"
  shows "smap_ok (promote m)" and "contents (promote m) = contents m"
    and "entry_at (promote m) = map_of (dirty_map m)" and "heap (promote m) = heap m"
proof -
  have d: "dirty_map (promote m) = []" "read_m (promote m) = dirty_map m" "heap (promote m) = heap m"
    by (simp_all add: promote_def dirty_map_def)
  then show e: "entry_at (promote m) = map_of (dirty_map m)" and "heap (promote m) = heap m"
    by (simp_all add: entry_at_def)
  have sub: "entry_at m k = Some a" if "map_of (dirty_map m) k = Some a" for k a
    using entry_at_in_dirty [OF ok that] .
  have f: "dirty (promote m) = None" "\<not> amended (promote m)" "brk (promote m) = brk m"
    by (simp_all add: promote_def)
  have bounds: "a < brk m" "map_of (dirty_map m) k' = Some a \<Longrightarrow> k = k'"
    if "map_of (dirty_map m) k = Some a" for k k' a
    using ok sub [OF that] sub [of k' a] unfolding smap_ok_def maps_ok_def by blast+
  have "maps_ok (promote m)"
    using ok f(2) unfolding smap_ok_def maps_ok_def e d f by (auto dest: bounds)
  moreover have "slots_ok (promote m)" using ok unfolding smap_ok_def slots_ok_def d f by auto
  ultimately show "smap_ok (promote m)" by (simp add: smap_ok_def)
  have "Option.bind (map_of (dirty_map m) k) (\<lambda>a. load_slot (heap m a)) = contents m k" for k
  proof (cases "map_of (dirty_map m) k")
    case (Some a)
    with sub show ?thesis by (simp add: contents_def)
  next
    case None
    have "heap m a = Expunged" if "map_of (read_m m) k = Some a" for a
      using ok am None that by (auto simp: smap_ok_def maps_ok_def slots_ok_def split: if_splits)
    with None show ?thesis by (cases "map_of (read_m m) k") (auto simp: contents_def entry_at_def map_add_def)
  qed
  then show "contents (promote m) = contents m" by (simp add: fun_eq_iff contents_def [of "promote m"] e d)
qed

lemma missLocked_ok:
  assumes ok: "smap_ok m" and am: "amended m"
  shows "smap_ok (missLocked m)" and "contents (missLocked m) = contents m" and "heap (missLocked m) = heap m"
    and "map_of (dirty_map m) k = Some a \<Longrightarrow> entry_at (missLocked m) k = Some a"
    and "entry_at (missLocked m) k = Some a \<Longrightarrow> entry_at m k = Some a"
proof -
  let ?m = "m \<lparr> misses := Suc (misses m) \<rparr>"
  have same: "dirty_map ?m = dirty_map m" "entry_at ?m = entry_at m" by (simp_all add: dirty_map_def entry_at_def)
  have bump: "smap_ok ?m" "contents ?m = contents m"
    using ok by (simp_all add: smap_ok_def maps_ok_def slots_ok_def contents_def fun_eq_iff same)
  show "smap_ok (missLocked m)" "contents (missLocked m) = contents m" "heap (missLocked m) = heap m"
    using promote_ok [OF ok am] bump by (simp_all add: missLocked_def)
  show "map_of (dirty_map m) k = Some a \<Longrightarrow> entry_at (missLocked m) k = Some a"
    using promote_ok(3) [OF ok am] entry_at_in_dirty [OF ok] by (simp add: missLocked_def same)
  show "entry_at (missLocked m) k = Some a \<Longrightarrow> entry_at m k = Some a"
    using promote_ok(3) [OF ok am] entry_at_in_dirty [OF ok] by (simp add: missLocked_def same split: if_splits)
qed


section \<open>The steps under the mutex\<close>

lemma copy_live_eq:
  "copy_live es m =
     (filter (\<lambda>(k, a). load_slot (heap m a) \<noteq> None) es,
      m \<lparr> heap := \<lambda>a. if a \<in> snd ` set es \<and> heap m a = Nil then Expunged else heap m a \<rparr>)"
proof (induction es arbitrary: m)
  case (Cons e es)
  obtain k a where e: "e = (k, a)" by (cases e)
  have upd: "load_slot (if b = a then Expunged else heap m b) \<noteq> None \<longleftrightarrow> load_slot (heap m b) \<noteq> None"
    if "heap m a = Nil" for b using that by auto
  show ?case
    by (cases "heap m a")
       (auto simp: e Cons tryExpungeLocked_def set_slot_def fun_eq_iff upd intro!: filter_cong)
qed simp

lemma map_le_absorb: "f \<subseteq>\<^sub>m g \<Longrightarrow> f ++ g = g"
  by (metis map_add_le_mapI map_le_antisym map_le_map_add map_le_refl)

lemma dirtyLocked_ok:
  fixes m :: "('k, 'v) sync_map"
  defines "m' \<equiv> (dirtyLocked m) \<lparr> amended := True \<rparr>"
  assumes ok: "smap_ok m" and am: "\<not> amended m"
  shows "smap_ok m'" and "contents m' = contents m" and "entry_at m' = entry_at m"
proof -
  let ?d = "filter (\<lambda>(k, a). load_slot (heap m a) \<noteq> None) (read_m m)"
  let ?h = "\<lambda>a. if a \<in> snd ` set (read_m m) \<and> heap m a = Nil then Expunged else heap m a"
  have none: "dirty m = None" using ok am by (auto simp: smap_ok_def maps_ok_def)
  have m': "m' = m \<lparr> heap := ?h, dirty := Some ?d, amended := True \<rparr>"
    using none by (simp add: m'_def dirtyLocked_def copy_live_eq)
  have keys: "gmap_ok (read_m m)" "gmap_ok ?d"
    using ok by (auto simp: smap_ok_def maps_ok_def intro: distinct_map_filter)
  have d: "map_of ?d k = Some a \<longleftrightarrow> map_of (read_m m) k = Some a \<and> load_slot (heap m a) \<noteq> None" for k a
    using keys by (auto simp: map_of_eq_Some_iff)
  have rd: "map_of (read_m m) k = Some a \<Longrightarrow> a \<in> snd ` set (read_m m)" for k a
    by (force dest: map_of_SomeD)
  have "map_of ?d k = Some a \<Longrightarrow> map_of (read_m m) k = Some a" for k a using d [of k a] by blast
  then have "map_of ?d \<subseteq>\<^sub>m map_of (read_m m)" unfolding map_le_def dom_def by fastforce
  then have e: "entry_at m' = map_of (read_m m)" "entry_at m = map_of (read_m m)"
    using none by (simp_all add: m' entry_at_def dirty_map_def map_le_absorb)
  then show "entry_at m' = entry_at m" by simp
  show "contents m' = contents m"
    unfolding contents_def e fun_eq_iff using rd by (auto simp: m' intro!: Option.bind_cong)
  have "maps_ok m'" using ok keys unfolding smap_ok_def maps_ok_def e
    by (simp add: m' dirty_map_def)
  moreover have "slots_ok m'"
  proof -
    have live: "heap m a \<noteq> Expunged" if "map_of (read_m m) k = Some a" for k a
      using ok none that by (auto simp: smap_ok_def slots_ok_def)
    have "map_of ?d k = (if ?h a = Expunged then None else Some a)" if "map_of (read_m m) k = Some a" for k a
      using d [of k a] d [of k] that rd [OF that] live [OF that] by (cases "heap m a"; cases "map_of ?d k") auto
    moreover have "?h a \<noteq> Expunged" if "map_of ?d k = Some a" for k a
      using that d [of k a] by auto
    ultimately show ?thesis by (simp add: slots_ok_def m' dirty_map_def)
  qed
  ultimately show "smap_ok m'" by (simp add: smap_ok_def)
qed


lemma put_dirty_simps [simp]:
  "heap (put_dirty k a m) = heap m" "read_m (put_dirty k a m) = read_m m" "amended (put_dirty k a m) = amended m"
  "brk (put_dirty k a m) = brk m" "dirty_map (put_dirty k a m) = gmap_set k a (dirty_map m)"
  "dirty (put_dirty k a m) \<noteq> None"
  by (simp_all add: put_dirty_def dirty_map_def)

lemma slots_ok_read:
  assumes "smap_ok m" and "map_of (read_m m) k = Some a"
  shows "if dirty m = None then heap m a \<noteq> Expunged
         else map_of (dirty_map m) k = (if heap m a = Expunged then None else Some a)"
  using assms unfolding smap_ok_def slots_ok_def by blast

lemma dirty_map_brk [simp]: "dirty_map (m \<lparr> brk := b \<rparr>) = dirty_map m"
  by (simp add: dirty_map_def)

lemma revive_ok:
  assumes ok: "smap_ok m" and k: "map_of (read_m m) k = Some a"
  shows "smap_ok (revive k a m)" and "contents (revive k a m) = contents m"
    and "entry_at (revive k a m) = entry_at m" and "heap (revive k a m) a \<noteq> Expunged"
proof -
  let ?m = "put_dirty k a (set_slot a Nil m)"
  have "smap_ok (revive k a m) \<and> contents (revive k a m) = contents m \<and>
        entry_at (revive k a m) = entry_at m \<and> heap (revive k a m) a \<noteq> Expunged"
  proof (cases "heap m a = Expunged")
    case False
    then have "revive k a m = m" by (auto simp: revive_def unexpungeLocked_def split: slot.splits)
    with False ok show ?thesis by simp
  next
    case True
    then have r: "revive k a m = ?m" by (simp add: revive_def unexpungeLocked_def)
    have dn: "dirty m \<noteq> None" "map_of (dirty_map m) k = None"
      using slots_ok_read [OF ok k] True by (auto split: if_splits)
    have e: "entry_at ?m = entry_at m"
      using k by (auto simp: entry_at_def map_add_def fun_eq_iff split: option.splits)
    have uniq: "x = k" if "map_of (read_m m) x = Some a \<or> map_of (dirty_map m) x = Some a" for x
      using ok that entry_at_read [OF k] entry_at_read [of m x a] entry_at_in_dirty [OF ok, of x a]
      unfolding smap_ok_def maps_ok_def by blast
    have "contents ?m = contents m"
      unfolding contents_def e fun_eq_iff using True by (auto intro!: Option.bind_cong)
    moreover have "maps_ok ?m"
      using ok dn(1) unfolding smap_ok_def maps_ok_def e by simp
    moreover have "slots_ok ?m"
      using ok k dn uniq unfolding smap_ok_def slots_ok_def by (auto split: if_splits)
    ultimately show ?thesis using e by (simp add: r smap_ok_def)
  qed
  then show "smap_ok (revive k a m)" "contents (revive k a m) = contents m"
    "entry_at (revive k a m) = entry_at m" "heap (revive k a m) a \<noteq> Expunged" by blast+
qed

lemma add_entry_ok:
  fixes m :: "('k, 'v) sync_map" and k :: 'k and v :: 'v
  defines "m' \<equiv> put_dirty k (brk m) (set_slot (brk m) (Val v) (m \<lparr> brk := Suc (brk m) \<rparr>))"
  assumes ok: "smap_ok m" and am: "amended m" and k: "entry_at m k = None"
  shows "smap_ok m'" and "contents m' = (contents m)(k \<mapsto> v)"
proof -
  let ?b = "brk m"
  have nk: "map_of (read_m m) k = None" "map_of (dirty_map m) k = None"
    using k by (simp_all add: entry_at_def map_add_None)
  have f: "read_m m' = read_m m" "map_of (dirty_map m') = (map_of (dirty_map m))(k \<mapsto> ?b)"
    "heap m' = (heap m)(?b := Val v)" "brk m' = Suc ?b" "amended m'" "dirty m' \<noteq> None"
    "gmap_ok (dirty_map m')"
    using ok am by (simp_all add: m'_def smap_ok_def maps_ok_def)
  have e: "entry_at m' = (entry_at m)(k \<mapsto> ?b)"
    using nk by (auto simp: entry_at_def f map_add_def fun_eq_iff split: option.splits)
  have lt: "a < ?b" if "entry_at m x = Some a" for x a
    using ok that by (auto simp: smap_ok_def maps_ok_def)
  have fresh: "map_of (read_m m) x \<noteq> Some ?b" "map_of (dirty_map m) x \<noteq> Some ?b" for x
    using lt [of x ?b] entry_at_read [of m x ?b] entry_at_in_dirty [OF ok, of x ?b] by auto
  show "contents m' = (contents m)(k \<mapsto> v)"
    using lt by (fastforce simp: contents_def fun_eq_iff e f intro!: Option.bind_cong)
  have "a < Suc ?b" if "entry_at m' x = Some a" for x a
    using that lt [of x a] by (auto simp: e split: if_splits)
  moreover have "x = y" if "entry_at m' x = Some a" "entry_at m' y = Some a" for x y a
    using that lt [of x a] lt [of y a] ok
    by (auto simp: e smap_ok_def maps_ok_def split: if_splits)
  ultimately have "maps_ok m'" using ok f by (simp add: smap_ok_def maps_ok_def)
  moreover have "slots_ok m'"
    using ok am nk fresh unfolding smap_ok_def slots_ok_def maps_ok_def f by (auto simp: f split: if_splits)
  ultimately show "smap_ok m'" by (simp add: smap_ok_def)
qed

lemma add_new_ok:
  assumes ok: "smap_ok m" and k: "entry_at m k = None"
  shows "smap_ok (add_new k v m)" and "contents (add_new k v m) = (contents m)(k \<mapsto> v)"
proof -
  define m1 where "m1 = (if amended m then m else (dirtyLocked m) \<lparr> amended := True \<rparr>)"
  have m1: "smap_ok m1" "contents m1 = contents m" "entry_at m1 k = None" "amended m1"
    using ok k dirtyLocked_ok [OF ok] by (auto simp: m1_def)
  have "add_new k v m = put_dirty k (brk m1) (set_slot (brk m1) (Val v) (m1 \<lparr> brk := Suc (brk m1) \<rparr>))"
    by (simp add: add_new_def m1_def [symmetric] newEntry_def)
  with add_entry_ok [OF m1(1,4,3), of v] m1(2)
  show "smap_ok (add_new k v m)" "contents (add_new k v m) = (contents m)(k \<mapsto> v)" by simp_all
qed



section \<open>The phases against the map they stand for\<close>

text \<open>
  The operations of a map, and what each does to the map it stands for; \<open>Some\<close> and
  \<open>None\<close> of a value are the pair of a value and the \<^verbatim>\<open>ok\<close> flag in the code.
  \<^verbatim>\<open>CompareAndSwap\<close> and \<^verbatim>\<open>CompareAndDelete\<close> do not look at the old value.
\<close>

datatype ('k, 'v) op = OpLoad 'k | OpSwap 'k 'v | OpLoadOrStore 'k 'v | OpLoadAndDelete 'k
  | OpCompareAndSwap 'k 'v 'v | OpCompareAndDelete 'k 'v

type_synonym 'v result = "'v option \<times> bool"

fun spec :: "('k, 'v) op \<Rightarrow> ('k \<Rightarrow> 'v option) \<Rightarrow> 'v result \<times> ('k \<Rightarrow> 'v option)" where
  "spec (OpLoad k) c = ((c k, c k \<noteq> None), c)"
| "spec (OpSwap k v) c = ((c k, c k \<noteq> None), c(k \<mapsto> v))"
| "spec (OpLoadOrStore k v) c =
     (case c k of Some w \<Rightarrow> ((Some w, True), c) | None \<Rightarrow> ((Some v, False), c(k \<mapsto> v)))"
| "spec (OpLoadAndDelete k) c = ((c k, c k \<noteq> None), c(k := None))"
| "spec (OpCompareAndSwap k old new) c =
     (if c k \<noteq> None then ((None, True), c(k \<mapsto> new)) else ((None, False), c))"
| "spec (OpCompareAndDelete k old) c = ((None, c k \<noteq> None), c(k := None))"

abbreviation found :: "'v option \<times> 'm \<Rightarrow> 'v result \<times> 'm" where
  "found r \<equiv> ((fst r, fst r \<noteq> None), snd r)"

abbreviation flag :: "bool \<times> 'm \<Rightarrow> 'v result \<times> 'm" where
  "flag r \<equiv> ((None, fst r), snd r)"

fun fast :: "('k, 'v) op \<Rightarrow> ('k, 'v) sync_map \<Rightarrow> ('v result \<times> ('k, 'v) sync_map) option" where
  "fast (OpLoad k) m = map_option (\<lambda>r. found (r, m)) (load_fast k m)"
| "fast (OpSwap k v) m = map_option found (swap_fast k v m)"
| "fast (OpLoadOrStore k v) m = map_option (\<lambda>((w, l), m1). ((Some w, l), m1)) (load_or_store_fast k v m)"
| "fast (OpLoadAndDelete k) m = map_option found (delete_fast k m)"
| "fast (OpCompareAndSwap k old new) m = map_option flag (cas_fast k old new m)"
| "fast (OpCompareAndDelete k old) m = map_option flag (cad_fast k old m)"

fun slow :: "('k, 'v) op \<Rightarrow> ('k, 'v) sync_map \<Rightarrow> 'v result \<times> ('k, 'v) sync_map" where
  "slow (OpLoad k) m = found (load_slow k m)"
| "slow (OpSwap k v) m = found (swap_slow k v m)"
| "slow (OpLoadOrStore k v) m = load_or_store_slow k v m"
| "slow (OpLoadAndDelete k) m = found (delete_slow k m)"
| "slow (OpCompareAndSwap k old new) m = flag (cas_slow k old new m)"
| "slow (OpCompareAndDelete k old) m = flag (cad_slow k old m)"

definition refines :: "('k, 'v) op \<Rightarrow> ('k, 'v) sync_map \<Rightarrow> 'v result \<times> ('k, 'v) sync_map \<Rightarrow> bool" where
  "refines op m r \<longleftrightarrow> smap_ok (snd r) \<and> spec op (contents m) = (fst r, contents (snd r))"

lemma entry_contents: "entry_at m k = Some a \<Longrightarrow> contents m k = load_slot (heap m a)"
  by (simp add: contents_def)

lemma no_entry_contents: "entry_at m k = None \<Longrightarrow> contents m k = None"
  by (simp add: contents_def)

lemma load_slot_simps:
  "load_slot s = Some v \<longleftrightarrow> s = Val v" "load_slot s = None \<longleftrightarrow> s = Nil \<or> s = Expunged"
  by (cases s; simp)+

lemmas entry_ops = entry_load_def tryCompareAndSwap_def swapLocked_def tryLoadOrStore_def
  entry_delete_def trySwap_def drop_entry_def

text \<open>What the entry operations do to the entry of a key.\<close>

lemma write_entry:
  assumes "smap_ok m" and "entry_at m k = Some a" and "heap m a \<noteq> Expunged"
  shows "smap_ok (set_slot a (Val v) m)" "contents (set_slot a (Val v) m) = (contents m)(k \<mapsto> v)"
    "smap_ok (set_slot a Nil m)" "contents (set_slot a Nil m) = (contents m)(k := None)"
  using set_slot_live [OF assms] by auto

lemma unchanged_none: "contents m k = None \<Longrightarrow> (contents m)(k := None) = contents m"
  by auto

lemma entry_delete_ok:
  assumes ok: "smap_ok m" and k: "entry_at m k = Some a"
  shows "entry_delete a m = (x, m1) \<Longrightarrow> refines (OpLoadAndDelete k) m ((x, \<exists>y. x = Some y), m1)"
    and "drop_entry a m = (b, m1) \<Longrightarrow> refines (OpCompareAndDelete k old) m ((None, b), m1)"
    and "tryCompareAndSwap old new a m = (b, m1) \<Longrightarrow> refines (OpCompareAndSwap k old new) m ((None, b), m1)"
    and "refines (OpLoad k) m ((entry_load a m, \<exists>y. entry_load a m = Some y), m)"
  using ok k write_entry [OF ok k] entry_contents [OF k] unchanged_none [of m k]
  by (cases "heap m a"; auto simp: refines_def entry_ops)+

lemma store_entry_ok:
  assumes ok: "smap_ok m" and k: "entry_at m k = Some a" and live: "heap m a \<noteq> Expunged"
  shows "refines (OpSwap k v) m (found (swapLocked v a m))"
    and "\<exists>w l m1. tryLoadOrStore v a m = Some ((w, l), m1) \<and> refines (OpLoadOrStore k v) m ((Some w, l), m1)"
  using ok live write_entry [OF ok k live] entry_contents [OF k]
  by (cases "heap m a"; auto simp: refines_def entry_ops)+


text \<open>A key that is in neither map.\<close>

lemma absent_refines:
  assumes "smap_ok m" and "entry_at m k = None"
  shows "refines (OpLoad k) m ((None, False), m)" "refines (OpLoadAndDelete k) m ((None, False), m)"
    "refines (OpCompareAndSwap k old new) m ((None, False), m)" "refines (OpCompareAndDelete k old) m ((None, False), m)"
  using assms no_entry_contents [OF assms(2)] unchanged_none [of m k] by (simp_all add: refines_def)

lemma clean_absent: "smap_ok m \<Longrightarrow> \<not> amended m \<Longrightarrow> map_of (read_m m) k = None \<Longrightarrow> entry_at m k = None"
  by (simp add: smap_ok_def maps_ok_def entry_at_dirty) (simp add: dirty_map_def)

lemma fast_refines:
  assumes ok: "smap_ok m" and r: "fast op m = Some r"
  shows "refines op m r"
proof (cases op)
  case (OpSwap k v)
  with r obtain a where a: "map_of (read_m m) k = Some a" "heap m a \<noteq> Expunged" "r = found (swapLocked v a m)"
    by (auto simp: swap_fast_def trySwap_def swapLocked_def split: option.splits slot.splits)
  with OpSwap store_entry_ok(1) [OF ok entry_at_read [OF a(1)] a(2), of v] show ?thesis by simp
next
  case (OpLoadOrStore k v)
  with r obtain a where a: "map_of (read_m m) k = Some a" "heap m a \<noteq> Expunged"
    by (auto simp: load_or_store_fast_def tryLoadOrStore_def split: option.splits slot.splits)
  with OpLoadOrStore r store_entry_ok(2) [OF ok entry_at_read [OF a(1)] a(2), of v] show ?thesis
    by (auto simp: load_or_store_fast_def)
qed (insert r, auto simp: load_fast_def delete_fast_def cas_fast_def cad_fast_def
       intro: entry_delete_ok [OF ok entry_at_read] absent_refines [OF ok clean_absent [OF ok]]
       split: option.splits if_splits)


lemma refines_before:
  "refines op m' r \<Longrightarrow> contents m' = contents m \<Longrightarrow> refines op m r"
  by (simp add: refines_def)

lemma refines_after:
  "refines op m (r, m1) \<Longrightarrow> smap_ok m2 \<Longrightarrow> contents m2 = contents m1 \<Longrightarrow> refines op m (r, m2)"
  by (simp add: refines_def)

lemma dirty_amended: "smap_ok m \<Longrightarrow> map_of (dirty_map m) k = Some a \<Longrightarrow> amended m"
  by (auto simp: smap_ok_def maps_ok_def dirty_map_def split: option.splits)

lemma dirty_delete_ok:
  assumes ok: "smap_ok m" and am: "amended m" and k: "map_of (read_m m) k = None"
  defines "m' \<equiv> m \<lparr> dirty := map_option (gmap_del k) (dirty m) \<rparr>"
  shows "smap_ok m'" and "contents m' = (contents m)(k := None)" and "amended m'"
    and "entry_at m' = (entry_at m)(k := None)"
proof -
  have f: "read_m m' = read_m m" "map_of (dirty_map m') = (map_of (dirty_map m))(k := None)"
    "heap m' = heap m" "brk m' = brk m" "dirty m' = None \<longleftrightarrow> dirty m = None" "gmap_ok (dirty_map m')"
    using ok by (auto simp: m'_def dirty_map_def smap_ok_def maps_ok_def split: option.splits)
  show "amended m'" using am by (simp add: m'_def)
  show e: "entry_at m' = (entry_at m)(k := None)"
    using k by (auto simp: entry_at_def f map_add_def fun_eq_iff split: option.splits)
  show "contents m' = (contents m)(k := None)"
    by (auto simp: contents_def fun_eq_iff e f)
  have "maps_ok m'" using ok am \<open>amended m'\<close> f unfolding smap_ok_def maps_ok_def e by auto
  moreover have "slots_ok m'" using ok k unfolding smap_ok_def slots_ok_def f by auto
  ultimately show "smap_ok m'" by (simp add: smap_ok_def)
qed

lemma delete_slow_refines:
  assumes ok: "smap_ok m" and r: "delete_slow k m = (x, m1)"
  shows "refines (OpLoadAndDelete k) m ((x, \<exists>y. x = Some y), m1)"
proof (cases "map_of (read_m m) k")
  case (Some a)
  with r entry_delete_ok(1) [OF ok entry_at_read] show ?thesis by (simp add: delete_slow_def)
next
  case None
  show ?thesis
  proof (cases "amended m")
    case False
    with None r absent_refines(2) [OF ok clean_absent [OF ok False None]] show ?thesis
      by (auto simp: delete_slow_def)
  next
    case True
    define md where "md = m \<lparr> dirty := map_option (gmap_del k) (dirty m) \<rparr>"
    note d = dirty_delete_ok [OF ok True None, folded md_def]
    note miss = missLocked_ok [OF d(1,3)]
    have e: "entry_at m k = map_of (dirty_map m) k" using None by (rule entry_at_dirty)
    show ?thesis
    proof (cases "map_of (dirty_map m) k")
      case None
      with r True \<open>map_of (read_m m) k = None\<close> have "x = None" "m1 = missLocked md"
        by (auto simp: delete_slow_def md_def Let_def)
      with e None miss d(2) no_entry_contents [of m k] show ?thesis by (simp add: refines_def)
    next
      case (Some a)
      have free: "\<forall>y. entry_at (missLocked md) y \<noteq> Some a"
      proof (intro allI notI)
        fix y assume "entry_at (missLocked md) y = Some a"
        then have "entry_at m y = Some a" "y \<noteq> k" using miss(5) [of y a] d(4) by (auto split: if_splits)
        with Some e ok show False unfolding smap_ok_def maps_ok_def by metis
      qed
      have "entry_delete a (missLocked md) = (x, m1)"
        using r True Some \<open>map_of (read_m m) k = None\<close> by (simp add: delete_slow_def md_def Let_def)
      moreover have "heap (missLocked md) = heap m" using miss(3) by (simp add: md_def)
      ultimately have "x = contents m k" "m1 = missLocked md \<or> m1 = set_slot a Nil (missLocked md)"
        using Some e entry_contents [of m k a]
        by (auto simp: entry_delete_def split: slot.splits)
      with set_slot_free [OF miss(1) free, of Nil] miss d(2) show ?thesis
        by (auto simp: refines_def)
    qed
  qed
qed

lemma load_slow_refines:
  assumes ok: "smap_ok m" and r: "load_slow k m = (x, m1)"
  shows "refines (OpLoad k) m ((x, \<exists>y. x = Some y), m1)"
proof (cases "map_of (read_m m) k")
  case (Some a)
  with r entry_delete_ok(4) [OF ok entry_at_read] show ?thesis by (auto simp: load_slow_def)
next
  case None
  show ?thesis
  proof (cases "amended m")
    case False
    with None r absent_refines(1) [OF ok clean_absent [OF ok False None]] show ?thesis
      by (auto simp: load_slow_def)
  next
    case True
    note miss = missLocked_ok [OF ok True]
    have "x = contents m k" "m1 = missLocked m"
      using r None True miss(3) entry_at_dirty [OF None]
      by (auto simp: load_slow_def Let_def entry_load_def contents_def split: option.splits)
    with miss show ?thesis by (simp add: refines_def)
  qed
qed

lemma cad_slow_refines:
  assumes ok: "smap_ok m" and r: "cad_slow k old m = (b, m1)"
  shows "refines (OpCompareAndDelete k old) m ((None, b), m1)"
proof (cases "map_of (read_m m) k")
  case (Some a)
  with r entry_delete_ok(2) [OF ok entry_at_read] show ?thesis by (simp add: cad_slow_def)
next
  case None
  show ?thesis
  proof (cases "amended m")
    case False
    with None r absent_refines(4) [OF ok clean_absent [OF ok False None]] show ?thesis
      by (auto simp: cad_slow_def)
  next
    case True
    note miss = missLocked_ok [OF ok True]
    show ?thesis
    proof (cases "map_of (dirty_map m) k")
      case (Some a)
      with r None True have "drop_entry a (missLocked m) = (b, m1)" by (simp add: cad_slow_def Let_def)
      from entry_delete_ok(2) [OF miss(1) miss(4) [OF Some] this] show ?thesis
        by (rule refines_before) (rule miss(2))
    next
      case dn: None
      with r None True have "b = False" "m1 = missLocked m" by (simp_all add: cad_slow_def Let_def)
      with absent_refines(4) [OF ok, of k old] entry_at_dirty [OF None] dn miss show ?thesis
        by (auto intro: refines_after)
    qed
  qed
qed

lemma miss_after:
  assumes "refines op m (r, m1)" and "amended m1"
  shows "refines op m (r, missLocked m1)"
proof -
  have "smap_ok m1" using assms(1) by (simp add: refines_def)
  from missLocked_ok(1,2) [OF this assms(2)] show ?thesis by (rule refines_after [OF assms(1)])
qed

lemma cas_slow_refines:
  assumes ok: "smap_ok m" and r: "cas_slow k old new m = (b, m1)"
  shows "refines (OpCompareAndSwap k old new) m ((None, b), m1)"
proof (cases "map_of (read_m m) k")
  case (Some a)
  with r entry_delete_ok(3) [OF ok entry_at_read] show ?thesis by (simp add: cas_slow_def)
next
  case None
  note e = entry_at_dirty [OF None]
  show ?thesis
  proof (cases "map_of (dirty_map m) k")
    case (Some a)
    obtain m2 where m2: "tryCompareAndSwap old new a m = (b, m2)" "m1 = missLocked m2"
      using r None Some by (auto simp: cas_slow_def split: prod.splits)
    have "amended m2"
      using m2(1) dirty_amended [OF ok Some] by (auto simp: tryCompareAndSwap_def split: slot.splits)
    with m2 entry_delete_ok(3) [OF ok e [unfolded Some] m2(1)] show ?thesis by (simp add: miss_after)
  next
    case dn: None
    with r None absent_refines(3) [OF ok, of k old new] e show ?thesis by (auto simp: cas_slow_def)
  qed
qed

lemma swap_slow_refines:
  assumes ok: "smap_ok m" and r: "swap_slow k v m = (x, m1)"
  shows "refines (OpSwap k v) m ((x, \<exists>y. x = Some y), m1)"
proof (cases "map_of (read_m m) k")
  case (Some a)
  note v = revive_ok [OF ok Some]
  have "refines (OpSwap k v) (revive k a m) (found (swapLocked v a (revive k a m)))"
    using store_entry_ok(1) [OF v(1) _ v(4)] entry_at_read [OF Some] v(3) by simp
  with r Some v(2) show ?thesis by (auto simp: swap_slow_def intro: refines_before)
next
  case None
  note e = entry_at_dirty [OF None]
  show ?thesis
  proof (cases "map_of (dirty_map m) k")
    case (Some a)
    then have "heap m a \<noteq> Expunged" using ok by (auto simp: smap_ok_def slots_ok_def)
    with r None Some store_entry_ok(1) [OF ok, of k a v] e show ?thesis by (simp add: swap_slow_def)
  next
    case dn: None
    with r None add_new_ok [OF ok, of k v] no_entry_contents [of m k] e show ?thesis
      by (auto simp: swap_slow_def refines_def)
  qed
qed

lemma load_or_store_slow_refines:
  assumes ok: "smap_ok m"
  shows "refines (OpLoadOrStore k v) m (load_or_store_slow k v m)"
proof (cases "map_of (read_m m) k")
  case (Some a)
  note w = revive_ok [OF ok Some]
  from store_entry_ok(2) [OF w(1) _ w(4), of k v] entry_at_read [OF Some] w(3)
  show ?thesis using Some w(2) by (auto simp: load_or_store_slow_def intro: refines_before)
next
  case None
  note e = entry_at_dirty [OF None]
  show ?thesis
  proof (cases "map_of (dirty_map m) k")
    case (Some a)
    then have live: "heap m a \<noteq> Expunged" using ok by (auto simp: smap_ok_def slots_ok_def)
    from store_entry_ok(2) [OF ok _ live, of k v] e Some obtain w l m1 where
      m1: "tryLoadOrStore v a m = Some ((w, l), m1)" "refines (OpLoadOrStore k v) m ((Some w, l), m1)" by auto
    have "amended m1"
      using m1(1) dirty_amended [OF ok Some] by (auto simp: tryLoadOrStore_def split: slot.splits)
    from miss_after [OF m1(2) this] m1(1) None Some show ?thesis by (simp add: load_or_store_slow_def)
  next
    case dn: None
    with None add_new_ok [OF ok, of k v] no_entry_contents [of m k] e show ?thesis
      by (simp add: load_or_store_slow_def refines_def)
  qed
qed

lemma slow_refines: "smap_ok m \<Longrightarrow> refines op m (slow op m)"
  by (cases op)
     (auto simp: load_or_store_slow_refines split: prod.splits
       intro: load_slow_refines swap_slow_refines delete_slow_refines cas_slow_refines cad_slow_refines
       simp: prod_eq_iff)


interpretation sync: two_phase spec fast slow contents smap_ok
proof unfold_locales
  fix m m' :: "('k, 'v) sync_map" and op r
  show "smap_ok m \<Longrightarrow> fast op m = Some (r, m') \<Longrightarrow> smap_ok m' \<and> spec op (contents m) = (r, contents m')"
    using fast_refines [of m op "(r, m')"] by (simp add: refines_def)
  show "smap_ok m \<Longrightarrow> slow op m = (r, m') \<Longrightarrow> smap_ok m' \<and> spec op (contents m) = (r, contents m')"
    using slow_refines [of m op] by (simp add: refines_def)
qed



text \<open>The operations as the callers see them, both phases at once.\<close>

lemma Swap_refines: "smap_ok m \<Longrightarrow> refines (OpSwap k v) m (found (Swap k v m))"
  using fast_refines [of m "OpSwap k v"] slow_refines [of m "OpSwap k v"]
  by (auto simp: Swap_def split: option.splits)

lemma LoadAndDelete_refines: "smap_ok m \<Longrightarrow> refines (OpLoadAndDelete k) m (found (LoadAndDelete k m))"
  using fast_refines [of m "OpLoadAndDelete k"] slow_refines [of m "OpLoadAndDelete k"]
  by (auto simp: LoadAndDelete_def split: option.splits)

interpretation sync_kv: kv_map new_map contents Store Delete_map smap_ok
proof unfold_locales
  fix m :: "('k, 'v) sync_map" and k v
  assume ok: "smap_ok m"
  show "smap_ok (Store k v m)" "contents (Store k v m) = (contents m)(k \<mapsto> v)"
    using Swap_refines [OF ok, of k v] by (simp_all add: refines_def Store_def)
  show "smap_ok (Delete_map k m)" "contents (Delete_map k m) = (contents m)(k := None)"
    using LoadAndDelete_refines [OF ok, of k] by (simp_all add: refines_def Delete_map_def)
qed (simp_all add: smap_ok_new contents_new)


section \<open>Iteration\<close>

lemma walk_collect:
  "walk (\<lambda>k v s. (True, g k v s)) m es s =
     fold (\<lambda>(k, a) s. case entry_load a m of None \<Rightarrow> s | Some v \<Rightarrow> g k v s) es s"
  by (induction es arbitrary: s) (auto split: option.splits)

text \<open>The entries \<^verbatim>\<open>Range\<close> visits: the live ones, in the order of the walk.\<close>

definition visited :: "('k, nat) gorder \<Rightarrow> ('k, 'v) sync_map \<Rightarrow> ('k \<times> 'v) list" where
  "visited ord m =
     (let m1 = (if amended m then promote m else m)
      in concat (map (\<lambda>(k, a). case entry_load a m1 of None \<Rightarrow> [] | Some v \<Rightarrow> [(k, v)]) (ord (read_m m1))))"

lemma fold_visited:
  "fold (\<lambda>(k, a) s. case entry_load a m of None \<Rightarrow> s | Some v \<Rightarrow> g k v s) es s =
   fold (\<lambda>(k, v). g k v) (concat (map (\<lambda>(k, a). case entry_load a m of None \<Rightarrow> [] | Some v \<Rightarrow> [(k, v)]) es)) s"
  by (induction es arbitrary: s) (auto split: option.splits)

lemma Range_visited:
  "fst (Range ord (\<lambda>k v s. (True, g k v s)) s m) = fold (\<lambda>(k, v). g k v) (visited ord m) s"
  by (simp add: Range_def Let_def walk_collect fold_visited visited_def)

lemma visited_ok:
  assumes ok: "smap_ok m" and ord: "range_order ord"
  shows "map_of (visited ord m) = contents m" and "gmap_ok (visited ord m)"
proof -
  let ?m = "if amended m then promote m else m"
  have m: "smap_ok ?m" "contents ?m = contents m" "\<not> amended ?m"
    using promote_ok [OF ok] ok by (auto simp: promote_def)
  then have e: "entry_at ?m = map_of (read_m ?m)" "gmap_ok (read_m ?m)"
    using clean_absent [OF m(1,3)] entry_at_read [of ?m] by (auto simp: fun_eq_iff smap_ok_def maps_ok_def) (metis not_None_eq)+
  have o: "map_of (ord (read_m ?m)) = map_of (read_m ?m)" "gmap_ok (ord (read_m ?m))"
    using ord e(2) by (simp_all add: map_of_range range_order_distinct)
  let ?f = "\<lambda>(k, a). case entry_load a ?m of None \<Rightarrow> [] | Some v \<Rightarrow> [(k, v)]"
  have keys: "fst ` set (concat (map ?f es)) \<subseteq> fst ` set es" for es
    by (force split: option.splits)
  have "map_of (concat (map ?f es)) k = Option.bind (map_of es k) (\<lambda>a. entry_load a ?m)" if "gmap_ok es" for es k
    using that
  proof (induction es)
    case (Cons x es)
    obtain k' a where x: "x = (k', a)" by (cases x)
    have "map_of (concat (map ?f es)) k' = None"
      using Cons.prems keys [of es] by (force simp: x map_of_eq_None_iff)
    with Cons show ?case by (auto simp: x split: option.splits)
  qed simp
  from this [OF o(2)] show "map_of (visited ord m) = contents m"
    by (simp add: fun_eq_iff visited_def Let_def m(2) [symmetric] contents_def e o entry_load_def)
  have "gmap_ok (concat (map ?f es))" if "gmap_ok es" for es
    using that
  proof (induction es)
    case (Cons x es)
    obtain k a where x: "x = (k, a)" by (cases x)
    with Cons.prems have "k \<notin> fst ` set es" by simp
    then have "k \<notin> fst ` set (concat (map ?f es))" using keys [of es] by blast
    with Cons show ?case by (cases "entry_load a ?m") (simp_all add: x)
  qed simp
  from this [OF o(2)] show "gmap_ok (visited ord m)" by (simp add: visited_def Let_def)
qed

text \<open>
  Iteration is exact: whatever order the runtime picks, \<^verbatim>\<open>Keys\<close> lists every key
  of the map once and nothing else, \<^verbatim>\<open>KeysFunc\<close> those that satisfy the predicate,
  \<^verbatim>\<open>Values\<close> the values in the order of the keys, and \<^verbatim>\<open>Count\<close> their number;
  the contents do not change.
\<close>

theorem sync_map_iteration:
  assumes "smap_ok m" and "range_order ord"
  shows "distinct (fst (Keys ord m)) \<and> set (fst (Keys ord m)) = dom (contents m) \<and>
    map (contents m) (fst (Keys ord m)) = map Some (fst (Values ord m)) \<and>
    fst (Count ord m) = int (card (dom (contents m))) \<and>
    set (fst (KeysFunc ord f m)) = {k. \<exists>v. contents m k = Some v \<and> f k v} \<and>
    contents (snd (Keys ord m)) = contents m \<and> smap_ok (snd (Keys ord m))"
proof -
  note v = visited_ok [OF assms]
  have keys: "fst (Keys ord m) = map fst (visited ord m)"
  proof -
    have "fold (\<lambda>(k, v) ks. ks @ [k]) xs s = s @ map fst xs" for xs :: "('a \<times> 'b) list" and s
      by (induction xs arbitrary: s) auto
    then show ?thesis by (simp add: Keys_def Range_visited)
  qed
  have vals: "fst (Values ord m) = map snd (visited ord m)"
  proof -
    have "fold (\<lambda>(k, v) vs. vs @ [v]) xs s = s @ map snd xs" for xs :: "('a \<times> 'b) list" and s
      by (induction xs arbitrary: s) auto
    then show ?thesis by (simp add: Values_def Range_visited)
  qed
  have count: "fst (Count ord m) = int (length (visited ord m))"
  proof -
    have "fold (\<lambda>(k, v) n. n + 1) xs s = s + int (length xs)" for xs :: "('a \<times> 'b) list" and s :: int
      by (induction xs arbitrary: s) auto
    then show ?thesis by (simp add: Count_def Range_visited)
  qed
  have kf: "fst (KeysFunc ord f m) = map fst (filter (\<lambda>(k, v). f k v) (visited ord m))"
  proof -
    have "fold (\<lambda>(k, v) ks. if f k v then ks @ [k] else ks) xs s = s @ map fst (filter (\<lambda>(k, v). f k v) xs)"
      for xs :: "('a \<times> 'b) list" and s
      by (induction xs arbitrary: s) auto
    then show ?thesis by (simp add: KeysFunc_def Range_visited)
  qed
  have dom: "set (map fst (visited ord m)) = dom (contents m)" using v(1) by (metis dom_map_of_conv_image_fst list.set_map)
  have "distinct (fst (Keys ord m)) \<and> set (fst (Keys ord m)) = dom (contents m)"
    using v(2) dom by (simp add: keys)
  moreover have "map (contents m) (fst (Keys ord m)) = map Some (fst (Values ord m))"
    using v by (auto simp: keys vals v(1) [symmetric] map_of_eq_Some_iff)
  moreover have "fst (Count ord m) = int (card (dom (contents m)))"
    using v(2) dom distinct_card [OF v(2)] by (simp add: count)
  moreover have "set (fst (KeysFunc ord f m)) = {k. \<exists>v. contents m k = Some v \<and> f k v}"
    using v(2) by (force simp: kf v(1) [symmetric] map_of_eq_Some_iff)
  moreover have "contents (snd (Keys ord m)) = contents m \<and> smap_ok (snd (Keys ord m))"
    using promote_ok [OF assms(1)] assms(1) by (simp add: Keys_def Range_def Let_def)
  ultimately show ?thesis by blast
qed

theorem sync_map_iteration_witness:
  "set (fst (Keys rev (Store ''b'' 2 (Store ''a'' (1 :: nat) new_map)))) = {''a'', ''b''}"
  using sync_map_iteration [OF sync_kv.invar_store [OF sync_kv.invar_store [OF smap_ok_new]] range_order_rev,
      of "''b''" "2 :: nat" "''a''" 1]
  by (simp add: sync_kv.lookup_store sync_kv.invar_store smap_ok_new contents_new insert_commute)

text \<open>The comparison of \<^verbatim>\<open>CompareAndSwap\<close> is missing: it swaps whatever the old value is.\<close>

lemma CompareAndSwap_ignores_old:
  "fst (CompareAndSwap ''a'' 7 (2 :: nat) (Store ''a'' 1 new_map))"
  by code_simp

end
