(* ===== verification/Spec2Isabelle.thy ===== *)
theory Spec2Isabelle
  imports Gate_Cluster Ws_Stream Http_Gateway Gate_Listeners Gnet_Handshake Util_Timer Util_Log Util_Date Ext_Services Sql_Clickhouse Db_Access Rpc_Pool Bytes_Cache Sync_Map
begin

text \<open>
  \<^bold>\<open>goms, a microservice framework in Go\<close>

  \<^bold>\<open>The program.\<close> A system built with goms is a set of nodes that offer services to each other.
  A \<^emph>\<open>watch server\<close> keeps a table of configuration (\<^verbatim>\<open>util/hash_set.go\<close>, written through to a bolt database by
  \<^verbatim>\<open>util/hash_set_db.go\<close>) and tells its clients of changes (\<^verbatim>\<open>watch/\<close>). On top of the table,
  \<^verbatim>\<open>watch_config/\<close> registers nodes and their services. A \<^emph>\<open>service node\<close> (\<^verbatim>\<open>rpc/rpc_node.go\<close>) watches these
  entries, dials the other nodes and routes calls to them; a call itself is the work of the rpc client, the
  rpc server and their codec (\<^verbatim>\<open>rpc/go_client.go\<close>, \<^verbatim>\<open>rpc/go_server.go\<close>, \<^verbatim>\<open>rpc/coder.go\<close>). The \<^emph>\<open>gate\<close> (\<^verbatim>\<open>gnet/\<close>)
  takes the connections of game clients, over TCP or websockets, and turns their messages into
  calls of the node; HTTP gateways do the same for requests. Everything uses the helpers of \<^verbatim>\<open>util/\<close>.

  \<^bold>\<open>How the code is modelled.\<close> An operation is a function from its arguments and the state before to its
  result and the state after. Errors are values of \<open>go_error\<close>, panics the constructor \<open>Panic\<close> of
  \<open>outcome\<close>; a call that does not return is \<open>None\<close>. Goroutines are events of an inductive step relation, and the
  relation \<open>run\<close> of the prelude gives all their interleavings; what a mutex protects is one step.
  Machine integers are words, or integers with \<open>wrap_int64\<close> written out. A Go map is an association list with
  distinct keys (\<open>gmap\<close>), and an operation that ranges over a map takes the order of iteration as an
  argument of which only \<open>range_order\<close> is known. Strings are byte strings.
  Code outside the repository is an argument: the protobuf library (\<open>pb_lib\<close> with \<open>pb_laws\<close>), reflection
  (\<open>reflect_lib\<close>), the bolt database (\<open>bolt\<close>), block ciphers (\<open>block_lib\<close> with \<open>block_laws\<close>), the peers of a node,
  gorm, JSON, SHA-256, clocks and random draws. Where a theorem assumes a law of such code, its witness has a
  concrete instance.

  \<^bold>\<open>Theories.\<close>

  \<^item> \<^verbatim>\<open>Goms_Prelude\<close>: errors, outcomes, readers, maps, runs; the interfaces \<open>wire_codec\<close> (what was written is read back,
    and a stream of messages has one reading), \<open>kv_map\<close> (lookups after updates) and \<open>step_system\<close> (invariants of
    reachable states), which the components interpret.
  \<^item> \<^verbatim>\<open>Go_Strings\<close>: the parts of \<^verbatim>\<open>strconv\<close>, \<^verbatim>\<open>strings\<close> and \<^verbatim>\<open>bufio\<close> that the sources call.
  \<^item> \<^verbatim>\<open>Hash_Set\<close>: the table and its database. The interface \<open>hash_store\<close> says what a table promises; the
    table implements it, and its database restores it after a restart.
  \<^item> \<^verbatim>\<open>Watch_Message\<close>, \<^verbatim>\<open>Watch_Server\<close>, \<^verbatim>\<open>Watch_Client\<close>: the protocol round trip; the invariant of the server under all
    interleavings of its handlers, which all end; a client over a connection is again a \<open>hash_store\<close>, and
    the callback of a watcher runs.
  \<^item> \<^verbatim>\<open>Watch_Config\<close>: registration and lookup of nodes, services and gates over the table.
  \<^item> \<^verbatim>\<open>Rpc_Codec\<close>, \<^verbatim>\<open>Rpc_Server\<close>, \<^verbatim>\<open>Rpc_Client\<close>, \<^verbatim>\<open>Rpc_Pool\<close>: the frames and headers; registration by
    signature, dispatch and exactly one answer per request; no pending call is lost and every response reaches its
    call; the free lists of the server hand out no object twice.
  \<^item> \<^verbatim>\<open>Rpc_Node\<close>, \<^verbatim>\<open>Rpc_Routing\<close>, \<^verbatim>\<open>Rpc_Discovery\<close>: the operations of a node; the invariant of its tables; who
    receives a call, a message and a broadcast. \<^verbatim>\<open>Rpc_Cluster\<close>: the node, the client and the server together; the
    handler of the chosen node runs once and its result is the result of the call.
  \<^item> \<^verbatim>\<open>Crypto\<close>, \<^verbatim>\<open>Gnet_Message\<close>, \<^verbatim>\<open>Ws_Stream\<close>, \<^verbatim>\<open>Gnet_Handshake\<close>: padding and CBC mode; the messages of the gate,
    plain and encrypted; a websocket as a byte stream; the key exchange.
  \<^item> \<^verbatim>\<open>Gnet_Gate\<close>, \<^verbatim>\<open>Gate_Sessions\<close>: the life of client connections; a message is answered once, with what the service
    returned, and the table of connections is exact. \<^verbatim>\<open>Gate_Cluster\<close>: the whole way from a client's bytes to the handler
    of a service on another node and back.
  \<^item> \<^verbatim>\<open>Gate_Listeners\<close>: the accept loops and websocket servers; every accepted client becomes an open connection.
  \<^item> \<^verbatim>\<open>Ext_Services\<close>: what the wrappers of redis, mysql, mongo, dingding and zinc build themselves, and the calls filed by
    thread.
  \<^item> \<^verbatim>\<open>Http_Gateway\<close>: the three HTTP servers, which give the same answers.
  \<^item> \<^verbatim>\<open>Timer_Stamp\<close>, \<^verbatim>\<open>Util_Timer\<close>: when a timer is due, that it runs as often as asked, never early and, while the
    goroutines keep up with the ticker, never late.
  \<^item> \<^verbatim>\<open>Util_Log\<close>, \<^verbatim>\<open>Sql_Text\<close>, \<^verbatim>\<open>Sql_Clickhouse\<close>, \<^verbatim>\<open>Db_Access\<close>: the log files hold the entries in order; SQL
    statements read back as the values they were made from; rows have the types of their columns; test results stand in for
    a database. \<^verbatim>\<open>Util_Date\<close>: printed times read back, through the calendar and the changes of time zones.
  \<^item> \<^verbatim>\<open>Sync_Map\<close>, \<^verbatim>\<open>Bytes_Cache\<close>, \<^verbatim>\<open>Id_Gen\<close>, \<^verbatim>\<open>Util_Rand\<close>, \<^verbatim>\<open>Util_Misc\<close>: the concurrent map is linearizable (interface
    \<open>two_phase\<close>), buffers fit, ids are distinct, draws are uniform, and the small helpers of \<^verbatim>\<open>util/misc.go\<close>.
  \<^item> This theory composes the client and the server of a call.

  \<^bold>\<open>Bounds.\<close> Loops that need not end are partial functions into \<open>option\<close>: \<open>advance\<close> of the timers, \<open>shift_loop\<close> of the buffer
  sizes and \<open>newID_loop\<close> of the gate, which is proved to return while fewer than 2^32 connections are open. Rejection
  sampling has the number of draws it may use as fuel.
  \<open>read_lits\<close> and \<open>read_rows\<close>, which read SQL back, get the length of the text.
  Clocks are assumed to be before the year 2255, where nanoseconds leave 64 bits, for the timers.

  \<^bold>\<open>Not modelled.\<close> The sockets themselves, signals and \<^verbatim>\<open>os.Exit\<close>; the generated \<^verbatim>\<open>rpc/header.pb.go\<close>, whose messages are
  records here; the libraries behind redis, mongo, clickhouse, gorm, kcp, the websockets and net/http, which are parameters
  where the code uses a result of theirs; the ants pool, whose tasks are kept in lists; one-line calls of the
  operating system; the examples, benchmarks and tests, which only use what is modelled.
\<close>

section \<open>A remote call, client and server together\<close>

text \<open>
  C3. \<^verbatim>\<open>Client.Call\<close> is a remote procedure call. A client's call of a registered
  method, written to the connection, decoded, dispatched, executed and answered by the server,
  and received by the client's reader, returns exactly what the handler returned: its return
  code and no error, with the reply stored in the caller's message; or, when the handler failed
  or panicked, return code 0 and the text of the error. The handler ran once, on the argument
  and the context the caller passed.
\<close>

theorem rpc_call_returns:
  assumes "pb_laws P typ_of" and "addressed P typ_of L server (call_request conn sm) m mt inp"
    and "ReplyType mt = PtrTo tr"
    and "mFunc mt (map_option copy_context conn) m (zero_of L tr) (appState server) = (res, st)"
    and "WriteResponse P (response_to (call_request conn sm) res)
      (Pb (if snd (reported res) \<noteq> [] then NullMessage P else reply_of (zero_of L tr) res)) \<lparr>flushed = [], bwerr = None\<rparr> = (w', None)"
    and "snd (reported res) = [] \<longrightarrow> typ_of (reply_of (zero_of L tr) res) tr"
  shows "\<exists>cs ci. run (serve_step P L) (ServeConn server (flushed (cliOut (first_call P c conn sm m tr (flushed w'))))) [EvRead, EvRun 0] cs \<and>
    appState (cServer cs) = st \<and> flushed (cOut cs) = flushed w' \<and>
    map_of (calls (input_iter P ord (first_call P c conn sm m tr (flushed w')))) c = Some ci \<and> cDone ci = 1 \<and>
    (if snd (reported res) = [] then Call_result ci = (fst (reported res), None) \<and> cReply ci = MsgReply (reply_of (zero_of L tr) res)
     else Call_result ci = (0, Some (GoErr (snd (reported res)))))"
  using call_round [OF assms, of c "flushed w'" ord] by blast

lemma db_call_addressed:
  "\<exists>inp. addressed db_lib (\<lambda>_ _. True) db_reflect db_server (call_request None ''Db.Get'') ''y'' (entry_of get_sig) inp"
proof -
  let ?r = "call_request None ''Db.Get''"
  have w: "snd (WriteRequest db_lib ?r (Pb ''y'') \<lparr>flushed = [], bwerr = None\<rparr>) = None"
    by (simp add: WriteRequest_def call_request_def db_lib_def pos_lib_def pos_enc_def encode_req_def encode_def
        writeFrame_bytes bufio_Write_def tooBig_def)
  have "ServiceMethod ?r = ''Db'' @ dot # ''Get''" "dot \<notin> set ''Get''" by (simp_all add: call_request_def dot_def)
  with db_method have "\<exists>svc meth. ServiceMethod ?r = svc @ dot # meth \<and> dot \<notin> set meth \<and>
      find_method svc meth db_server = Some (entry_of get_sig)" by blast
  with w show ?thesis
    unfolding addressed_def
    by (intro exI [of _ "flushed (fst (WriteRequest db_lib ?r (Pb ''y'') \<lparr>flushed = [], bwerr = None\<rparr>))"] conjI)
       (auto simp: call_request_def db_reflect_def entry_of_def get_sig_def prod_eq_iff)
qed

theorem rpc_call_returns_witness:
  "\<exists>out ci. map_of (calls (input_iter db_lib (\<lambda>m. m) (first_call db_lib 3 None ''Db.Get'' ''y'' rsp_t out))) 3 = Some ci \<and>
     Call_result ci = (7, None) \<and> cReply ci = MsgReply ''x''"
proof -
  obtain inp where a: "addressed db_lib (\<lambda>_ _. True) db_reflect db_server (call_request None ''Db.Get'') ''y'' (entry_of get_sig) inp"
    using db_call_addressed by blast
  have call: "mFunc (entry_of get_sig) (map_option copy_context None) ''y'' (zero_of db_reflect rsp_t) (appState db_server) =
    (Ret (7, None, ''x''), ''y'')" by (simp add: entry_of_def get_sig_def db_appState)
  obtain w' where w: "WriteResponse db_lib (response_to (call_request None ''Db.Get'') (Ret (7, None, ''x'')))
     (Pb (if snd (reported (Ret (7, None, ''x''))) \<noteq> [] then NullMessage db_lib else reply_of (zero_of db_reflect rsp_t) (Ret (7, None, ''x''))))
     \<lparr>flushed = [], bwerr = None\<rparr> = (w', None)"
    by (simp add: WriteResponse_def response_to_def call_request_def db_lib_def pos_lib_def pos_enc_def encode_rsp_def encode_def
        writeFrame_bytes bufio_Write_def tooBig_def)
  from rpc_call_returns [OF db_lib_laws a db_ReplyType call w, of 3 "\<lambda>m. m"] show ?thesis by auto
qed

end
